(* ===== verification/SB_Prelude.thy ===== *)
theory SB_Prelude
  imports Complex_Main "HOL-Library.Word"
begin

text \<open>
  Shared ground of the development: the names of the machine types, the two theorem
  collections the component theories fill, and the facts on words, word lists, big-endian
  numbers and residues that more than one component needs.

  The word types are those of a 64-bit build (\<open>SB_WORD_SIZE == 8\<close> in
  \<open>include/sb_types.h\<close>, the arm64-v8a ABI of \<open>app/build.gradle\<close>): \<open>sb_word_t\<close> is
  64 bits wide, \<open>sb_dword_t\<close> 128 bits, \<open>sb_size_t\<close> and \<open>sb_error_t\<close> 32 bits.
\<close>

unbundle bit_operations_syntax

named_theorems fe_simps "values of the field element operations"
named_theorems len_simps "lengths of the byte and word lists the operations return"

type_synonym sb_byte = "8 word"
type_synonym sb_word = "64 word"
type_synonym sb_dword = "128 word"
type_synonym sb_size = "32 word"

subsection \<open>Double words\<close>

abbreviation dw_low :: "sb_dword \<Rightarrow> sb_word" where
  "dw_low d \<equiv> ucast d"

abbreviation dw_high :: "sb_dword \<Rightarrow> sb_word" where
  "dw_high d \<equiv> ucast (drop_bit 64 d)"

lemma uint_word_bound: "uint (w :: sb_word) < 18446744073709551616"
  using uint_bounded [of w] by simp

lemma uint_dw_low: "uint (dw_low d) = uint d mod 2 ^ 64"
  by (simp add: unsigned_ucast_eq take_bit_eq_mod)

lemma uint_dw_high: "uint (dw_high d) = uint d div 2 ^ 64"
proof -
  have "uint d < 2 ^ 128"
    using uint_bounded [of d] by simp
  then have "uint d div 2 ^ 64 < 2 ^ 64"
    by auto
  moreover have "uint (drop_bit 64 d) = uint d div 2 ^ 64"
    by (simp only: drop_bit_eq_div uint_div_distrib) simp
  moreover have "0 \<le> uint d div 2 ^ 64"
    by (simp add: pos_imp_zdiv_nonneg_iff)
  ultimately show ?thesis
    by (simp add: unsigned_ucast_eq take_bit_eq_mod mod_pos_pos_trivial)
qed

lemma uint_ucast_dword [simp]: "uint (ucast (w :: sb_word) :: sb_dword) = uint w"
  by (rule uint_up_ucast) (simp add: is_up)

lemma dw_split: "uint (dw_low d) + 2 ^ 64 * uint (dw_high d) = uint d"
  unfolding uint_dw_high unfolding uint_dw_low by (rule mod_mult_div_eq)

lemma uint_dword_add:
  "uint (a :: sb_dword) + uint b < 2 ^ 128 \<Longrightarrow> uint (a + b) = uint a + uint b"
  by (simp add: uint_word_ariths)

lemma uint_dword_mult_add_add:
  fixes a b c d :: sb_word
  shows "uint ((ucast a :: sb_dword) * ucast b + ucast c + ucast d)
    = uint a * uint b + uint c + uint d"
proof -
  have "uint a * uint b \<le> 18446744073709551615 * 18446744073709551615"
    using uint_word_bound [of a] uint_word_bound [of b] by (intro mult_mono) auto
  then have "uint a * uint b + uint c + uint d < 2 ^ 128"
    using uint_word_bound [of c] uint_word_bound [of d] by simp
  moreover have "0 \<le> uint a * uint b + uint c + uint d" by simp
  ultimately show ?thesis
    by (simp add: uint_word_ariths mod_simps)
qed

lemma uint_dword_add3:
  fixes a b c :: sb_word
  shows "uint ((ucast a :: sb_dword) + ucast b + ucast c) = uint a + uint b + uint c"
proof -
  have "uint a + uint b + uint c < 2 ^ 128"
    using uint_word_bound [of a] uint_word_bound [of b] uint_word_bound [of c] by simp
  then show ?thesis
    by (simp add: uint_word_ariths mod_simps)
qed

lemma uint_dword_sub:
  fixes l r b :: sb_word
  assumes "uint b \<le> 1"
  shows "uint ((ucast l :: sb_dword) - (ucast r + ucast b))
    = (if uint l < uint r + uint b then 2 ^ 128 else 0) + uint l - uint r - uint b"
proof -
  have s: "uint ((ucast r :: sb_dword) + ucast b) = uint r + uint b"
    using uint_word_bound [of r] uint_word_bound [of b] by (subst uint_dword_add) auto
  show ?thesis
    using uint_word_bound [of l] uint_word_bound [of r] assms
    by (auto simp: uint_sub_if' s)
qed

lemma unat_ucast_size: "unat (ucast (w :: sb_size) :: sb_word) = unat w"
proof -
  have "uint (ucast w :: sb_word) = uint w"
    by (rule uint_up_ucast) (simp add: is_up)
  then show ?thesis by (simp only: unat_eq_nat_uint)
qed

lemma mod_uniqueI:
  fixes x y k m :: int
  shows "0 \<le> x \<Longrightarrow> x < m \<Longrightarrow> y = x + m * k \<Longrightarrow> x = y mod m"
  by simp

subsection \<open>Lists of words as numbers, least significant word first\<close>

primrec lval :: "sb_word list \<Rightarrow> int" where
  "lval [] = 0"
| "lval (w # ws) = uint w + 2 ^ 64 * lval ws"

lemma lval_nonneg [simp]: "0 \<le> lval ws"
  by (induction ws) auto

lemma lval_bound: "lval ws < 2 ^ (64 * length ws)"
proof (induction ws)
  case Nil
  show ?case by simp
next
  case (Cons w ws)
  have "uint w + 2 ^ 64 * lval ws \<le> (2 ^ 64 - 1) + 2 ^ 64 * (2 ^ (64 * length ws) - 1)"
    using Cons.IH uint_word_bound [of w] by (intro add_mono mult_left_mono) simp_all
  also have "\<dots> < 2 ^ (64 * length (w # ws))"
    by (simp add: power_add algebra_simps)
  finally show ?case by simp
qed

lemma lval_append: "lval (xs @ ys) = lval xs + 2 ^ (64 * length xs) * lval ys"
  by (induction xs) (simp_all add: power_add algebra_simps)

lemma positional_inject:
  fixes a b x y B :: int
  assumes "0 \<le> a" "a < B" "0 \<le> b" "b < B"
  shows "a + B * x = b + B * y \<longleftrightarrow> a = b \<and> x = y"
proof
  assume e: "a + B * x = b + B * y"
  then have "(a + B * x) mod B = (b + B * y) mod B" by simp
  with assms have "a = b" by simp
  with e assms show "a = b \<and> x = y" by auto
qed auto

lemma lval_inject:
  "length xs = length ys \<Longrightarrow> lval xs = lval ys \<longleftrightarrow> xs = ys"
proof (induction xs ys rule: list_induct2)
  case Nil
  show ?case by simp
next
  case (Cons x xs y ys)
  have "uint x + 2 ^ 64 * lval xs = uint y + 2 ^ 64 * lval ys
    \<longleftrightarrow> uint x = uint y \<and> lval xs = lval ys"
    by (rule positional_inject) (use uint_word_bound in simp_all)
  with Cons show ?case by (simp add: word_uint_eq_iff)
qed

subsection \<open>Byte strings as big-endian numbers\<close>

primrec be_acc :: "int \<Rightarrow> sb_byte list \<Rightarrow> int" where
  "be_acc a [] = a"
| "be_acc a (b # bs) = be_acc (256 * a + uint b) bs"

definition be_val :: "sb_byte list \<Rightarrow> int" where
  "be_val bs = be_acc 0 bs"

lemma be_acc_eq: "be_acc a bs = a * 256 ^ length bs + be_val bs"
proof (induction bs arbitrary: a)
  case Nil
  show ?case by (simp add: be_val_def)
next
  case (Cons b bs)
  have "be_val (b # bs) = uint b * 256 ^ length bs + be_val bs"
    by (simp add: be_val_def [of "b # bs"] Cons.IH)
  moreover have "be_acc a (b # bs) = (256 * a + uint b) * 256 ^ length bs + be_val bs"
    by (simp add: Cons.IH)
  ultimately show ?case by (simp add: ring_distribs)
qed

lemma be_val_Nil [simp]: "be_val [] = 0"
  by (simp add: be_val_def)

lemma be_val_Cons: "be_val (b # bs) = uint b * 256 ^ length bs + be_val bs"
  using be_acc_eq [of "uint b" bs] by (simp add: be_val_def)

lemma be_val_append: "be_val (xs @ ys) = be_val xs * 256 ^ length ys + be_val ys"
  by (induction xs) (simp_all add: be_val_Cons power_add algebra_simps)

lemma be_val_nonneg [simp]: "0 \<le> be_val bs"
  by (induction bs) (auto simp: be_val_Cons)

lemma uint_byte_bound: "uint (b :: sb_byte) < 256"
  using uint_bounded [of b] by simp

lemma be_val_bound: "be_val bs < 256 ^ length bs"
proof (induction bs)
  case Nil
  show ?case by simp
next
  case (Cons b bs)
  have "uint b * 256 ^ length bs \<le> 255 * 256 ^ length bs"
    using uint_byte_bound [of b] by (intro mult_right_mono) auto
  with Cons.IH show ?case unfolding be_val_Cons length_Cons power_Suc by linarith
qed

lemma be_val_inject:
  "length xs = length ys \<Longrightarrow> be_val xs = be_val ys \<longleftrightarrow> xs = ys"
proof (induction xs ys rule: list_induct2)
  case Nil
  show ?case by simp
next
  case (Cons x xs y ys)
  have "be_val xs + 256 ^ length xs * uint x = be_val ys + 256 ^ length xs * uint y
    \<longleftrightarrow> be_val xs = be_val ys \<and> uint x = uint y"
    using be_val_bound [of xs] be_val_bound [of ys] Cons.hyps
    by (intro positional_inject) simp_all
  with Cons show ?case by (auto simp: be_val_Cons word_uint_eq_iff algebra_simps)
qed

end
