(* ===== verification/SB_Types.thy ===== *)
theory SB_Types
  imports SB_Prelude
begin

text \<open>
  The types and error codes of \<open>include/sb_types.h\<close> and the error macros of
  \<open>sb_error.h\<close>: endianness flags, the error bits and their combination, 32-byte and
  64-byte values, and field elements as four 64-bit words.
\<close>

subsection \<open>Endianness\<close>

text \<open>\<open>sb_data_endian_t\<close> is a \<open>uint32_t\<close>; the code only ever tests for little endian.\<close>

type_synonym sb_data_endian = "32 word"

definition SB_DATA_ENDIAN_LITTLE :: sb_data_endian where
  "SB_DATA_ENDIAN_LITTLE = 0"

definition SB_DATA_ENDIAN_BIG :: sb_data_endian where
  "SB_DATA_ENDIAN_BIG = 1"

definition SB_ELEM_BYTES :: nat where
  "SB_ELEM_BYTES = 32"

text \<open>The order in which the bytes of a value are significant, most significant first.\<close>

definition in_order :: "sb_data_endian \<Rightarrow> sb_byte list \<Rightarrow> sb_byte list" where
  "in_order e bs = (if e = SB_DATA_ENDIAN_LITTLE then rev bs else bs)"

lemma length_in_order [simp]: "length (in_order e bs) = length bs"
  by (simp add: in_order_def)

lemma in_order_in_order [simp]: "in_order e (in_order e bs) = bs"
  by (simp add: in_order_def)

subsection \<open>Error values\<close>

text \<open>\<open>sb_error_t\<close> is a \<open>uint32_t\<close> holding the bitwise or of error bits.\<close>

type_synonym sb_error = "32 word"

definition SB_SUCCESS :: sb_error where "SB_SUCCESS = 0"
definition SB_ERROR_INSUFFICIENT_ENTROPY :: sb_error where
  "SB_ERROR_INSUFFICIENT_ENTROPY = push_bit 0 1"
definition SB_ERROR_INPUT_TOO_LARGE :: sb_error where
  "SB_ERROR_INPUT_TOO_LARGE = push_bit 1 1"
definition SB_ERROR_REQUEST_TOO_LARGE :: sb_error where
  "SB_ERROR_REQUEST_TOO_LARGE = push_bit 2 1"
definition SB_ERROR_RESEED_REQUIRED :: sb_error where
  "SB_ERROR_RESEED_REQUIRED = push_bit 3 1"
definition SB_ERROR_DRBG_FAILURE :: sb_error where
  "SB_ERROR_DRBG_FAILURE = push_bit 4 1"
definition SB_ERROR_CURVE_INVALID :: sb_error where
  "SB_ERROR_CURVE_INVALID = push_bit 5 1"
definition SB_ERROR_PRIVATE_KEY_INVALID :: sb_error where
  "SB_ERROR_PRIVATE_KEY_INVALID = push_bit 6 1"
definition SB_ERROR_PUBLIC_KEY_INVALID :: sb_error where
  "SB_ERROR_PUBLIC_KEY_INVALID = push_bit 7 1"
definition SB_ERROR_SIGNATURE_INVALID :: sb_error where
  "SB_ERROR_SIGNATURE_INVALID = push_bit 8 1"
definition SB_ERROR_DRBG_UNINITIALIZED :: sb_error where
  "SB_ERROR_DRBG_UNINITIALIZED = push_bit 9 1"
definition SB_ERROR_INCORRECT_OPERATION :: sb_error where
  "SB_ERROR_INCORRECT_OPERATION = push_bit 10 1"
definition SB_ERROR_NOT_FINISHED :: sb_error where
  "SB_ERROR_NOT_FINISHED = push_bit 11 1"
definition SB_ERROR_ADDITIONAL_INPUT_REQUIRED :: sb_error where
  "SB_ERROR_ADDITIONAL_INPUT_REQUIRED = push_bit 12 1"

lemmas error_codes =
  SB_SUCCESS_def SB_ERROR_INSUFFICIENT_ENTROPY_def SB_ERROR_INPUT_TOO_LARGE_def
  SB_ERROR_REQUEST_TOO_LARGE_def SB_ERROR_RESEED_REQUIRED_def SB_ERROR_DRBG_FAILURE_def
  SB_ERROR_CURVE_INVALID_def SB_ERROR_PRIVATE_KEY_INVALID_def SB_ERROR_PUBLIC_KEY_INVALID_def
  SB_ERROR_SIGNATURE_INVALID_def SB_ERROR_DRBG_UNINITIALIZED_def
  SB_ERROR_INCORRECT_OPERATION_def SB_ERROR_NOT_FINISHED_def
  SB_ERROR_ADDITIONAL_INPUT_REQUIRED_def

text \<open>\<open>SB_ERROR_IF(err, cond)\<close>: the mask \<open>-(sb_error_t) cond\<close> selects the error bit.\<close>

definition sb_error_if :: "sb_error \<Rightarrow> bool \<Rightarrow> sb_error" where
  "sb_error_if err cond = (- (if cond then 1 else 0)) AND err"

lemma sb_error_if_eq: "sb_error_if err cond = (if cond then err else SB_SUCCESS)"
  by (simp add: sb_error_if_def SB_SUCCESS_def)

lemma sb_error_or_success:
  "a OR b = SB_SUCCESS \<longleftrightarrow> a = SB_SUCCESS \<and> b = SB_SUCCESS"
  by (auto simp: SB_SUCCESS_def bit_eq_iff bit_or_iff)

lemma sb_error_if_success [simp]:
  "err \<noteq> SB_SUCCESS \<Longrightarrow> sb_error_if err cond = SB_SUCCESS \<longleftrightarrow> \<not> cond"
  by (simp add: sb_error_if_eq)

lemma error_codes_nonzero [simp]:
  "SB_ERROR_INSUFFICIENT_ENTROPY \<noteq> SB_SUCCESS" "SB_ERROR_INPUT_TOO_LARGE \<noteq> SB_SUCCESS"
  "SB_ERROR_REQUEST_TOO_LARGE \<noteq> SB_SUCCESS" "SB_ERROR_RESEED_REQUIRED \<noteq> SB_SUCCESS"
  "SB_ERROR_DRBG_FAILURE \<noteq> SB_SUCCESS" "SB_ERROR_CURVE_INVALID \<noteq> SB_SUCCESS"
  "SB_ERROR_PRIVATE_KEY_INVALID \<noteq> SB_SUCCESS" "SB_ERROR_PUBLIC_KEY_INVALID \<noteq> SB_SUCCESS"
  "SB_ERROR_SIGNATURE_INVALID \<noteq> SB_SUCCESS" "SB_ERROR_DRBG_UNINITIALIZED \<noteq> SB_SUCCESS"
  "SB_ERROR_INCORRECT_OPERATION \<noteq> SB_SUCCESS" "SB_ERROR_NOT_FINISHED \<noteq> SB_SUCCESS"
  "SB_ERROR_ADDITIONAL_INPUT_REQUIRED \<noteq> SB_SUCCESS"
  by (simp_all add: error_codes)

subsection \<open>Field elements\<close>

text \<open>
  \<open>sb_fe_t\<close> holds \<open>SB_FE_WORDS == 4\<close> words, least significant first; the four-field
  constructor keeps the word count in the type.
\<close>

datatype sb_fe = FE (fe0: sb_word) (fe1: sb_word) (fe2: sb_word) (fe3: sb_word)

definition fe_words :: "sb_fe \<Rightarrow> sb_word list" where
  "fe_words a = [fe0 a, fe1 a, fe2 a, fe3 a]"

definition fe_of :: "sb_word list \<Rightarrow> sb_fe" where
  "fe_of ws = FE (ws ! 0) (ws ! 1) (ws ! 2) (ws ! 3)"

definition SB_FE_ONE :: sb_fe where "SB_FE_ONE = FE 1 0 0 0"

definition SB_FE_ZERO :: sb_fe where "SB_FE_ZERO = FE 0 0 0 0"

text \<open>\<open>SB_FE_CONST(w3, w2, w1, w0)\<close> lists the words most significant first.\<close>

definition sb_fe_const :: "sb_word \<Rightarrow> sb_word \<Rightarrow> sb_word \<Rightarrow> sb_word \<Rightarrow> sb_fe" where
  "sb_fe_const w3 w2 w1 w0 = FE w0 w1 w2 w3"

definition fe_val :: "sb_fe \<Rightarrow> int" where
  "fe_val a = lval (fe_words a)"

lemma length_fe_words [simp]: "length (fe_words a) = 4"
  by (simp add: fe_words_def)

lemma fe_of_fe_words [simp]: "fe_of (fe_words a) = a"
  by (simp add: fe_of_def fe_words_def)

lemma fe_words_fe_of [simp]: "length ws = 4 \<Longrightarrow> fe_words (fe_of ws) = ws"
  by (auto simp: fe_of_def fe_words_def numeral_eq_Suc length_Suc_conv)

lemma fe_val_fe_of: "length ws = 4 \<Longrightarrow> fe_val (fe_of ws) = lval ws"
  by (simp add: fe_val_def)

lemma fe_val_FE:
  "fe_val (FE a b c d) = uint a + 2 ^ 64 * (uint b + 2 ^ 64 * (uint c + 2 ^ 64 * uint d))"
  by (simp add: fe_val_def fe_words_def)

lemma fe_val_nonneg: "0 \<le> fe_val a"
  by (simp add: fe_val_def)

lemma fe_val_bound: "fe_val a < 2 ^ 256"
  using lval_bound [of "fe_words a"] by (simp add: fe_val_def)

lemma fe_val_inject: "fe_val a = fe_val b \<longleftrightarrow> a = b"
  by (metis fe_of_fe_words fe_val_def length_fe_words lval_inject)

lemma fe_val_consts [simp]: "fe_val SB_FE_ONE = 1" "fe_val SB_FE_ZERO = 0"
  by (simp_all add: SB_FE_ONE_def SB_FE_ZERO_def fe_val_FE)

text \<open>
  Field elements are ordered by value, the order in which \<open>sb_fe_lt\<close> compares them and in
  which reduced and quasi-reduced elements are told apart.
\<close>

instantiation sb_fe :: linorder
begin

definition less_eq_sb_fe :: "sb_fe \<Rightarrow> sb_fe \<Rightarrow> bool" where
  "less_eq_sb_fe a b \<longleftrightarrow> fe_val a \<le> fe_val b"

definition less_sb_fe :: "sb_fe \<Rightarrow> sb_fe \<Rightarrow> bool" where
  "less_sb_fe a b \<longleftrightarrow> fe_val a < fe_val b"

instance
  by standard (auto simp: less_eq_sb_fe_def less_sb_fe_def fe_val_inject)

end

lemmas fe_order = less_eq_sb_fe_def less_sb_fe_def

end
