(* ===== verification/FE_Words.thy ===== *)
theory FE_Words
  imports SB_Types
begin

text \<open>
  The word-level field element operations of \<open>sb_fe.c\<close>: conversion from and to bytes,
  comparison, bit tests, addition and subtraction with carry, the conditional
  subtraction and addition of the prime, the constant-time swap and the right shift.
  The \<open>SB_UNROLL\<close> loops over the four words are recursions over the word lists; every
  operation is characterised by the integer value \<open>fe_val\<close> of its operands.
\<close>

subsection \<open>Conversion from and to bytes\<close>

text \<open>
  The loops visit the source (or destination) at index \<open>0, 1, \<dots>\<close> for big endian and
  \<open>31, 30, \<dots>\<close> for little endian, and fill the words from the most significant one down.
\<close>

definition byte_index :: "sb_data_endian \<Rightarrow> nat \<Rightarrow> nat" where
  "byte_index e n = (if e = SB_DATA_ENDIAN_LITTLE then SB_ELEM_BYTES - 1 - n else n)"

fun word_from_bytes :: "sb_byte list \<Rightarrow> sb_word \<Rightarrow> sb_word" where
  "word_from_bytes [] t = t"
| "word_from_bytes (b # bs) t = word_from_bytes bs (push_bit 8 t OR ucast b)"

definition sb_fe_from_bytes :: "sb_byte list \<Rightarrow> sb_data_endian \<Rightarrow> sb_fe" where
  "sb_fe_from_bytes src e =
     (let word = (\<lambda>i. word_from_bytes (map (\<lambda>j. src ! byte_index e (8 * i + j)) [0..<8]) 0)
      in fe_of (map (\<lambda>k. word (3 - k)) [0..<4]))"

fun word_to_bytes :: "nat \<Rightarrow> sb_word \<Rightarrow> sb_byte list" where
  "word_to_bytes 0 t = []"
| "word_to_bytes (Suc n) t = ucast (drop_bit 56 t) # word_to_bytes n (push_bit 8 t)"

definition sb_fe_to_bytes :: "sb_fe \<Rightarrow> sb_data_endian \<Rightarrow> sb_byte list" where
  "sb_fe_to_bytes src e =
     (let out = concat (map (word_to_bytes 8) (rev (fe_words src)))
      in map (\<lambda>k. out ! byte_index e k) [0..<SB_ELEM_BYTES])"

subsection \<open>Constant-time helpers\<close>

definition sb_word_mask :: "sb_word \<Rightarrow> sb_word" where
  "sb_word_mask a = - a"

definition sb_ctc_word :: "sb_word \<Rightarrow> sb_word \<Rightarrow> sb_word \<Rightarrow> sb_word" where
  "sb_ctc_word a b c = (sb_word_mask a AND (b XOR c)) XOR b"

definition sb_fe_nonneg_word_mask :: "sb_size \<Rightarrow> sb_size \<Rightarrow> sb_word" where
  "sb_fe_nonneg_word_mask a b =
     (let d = a - b; d_neg = drop_bit 8 d; d_nonneg = d_neg XOR 1 in ucast d_nonneg)"

subsection \<open>Comparison and bit test\<close>

fun equal_words :: "sb_word list \<Rightarrow> sb_word list \<Rightarrow> sb_word \<Rightarrow> sb_word" where
  "equal_words (l # ls) (r # rs) acc = equal_words ls rs (acc OR (l XOR r))"
| "equal_words _ _ acc = acc"

definition sb_fe_equal :: "sb_fe \<Rightarrow> sb_fe \<Rightarrow> sb_word" where
  "sb_fe_equal left right =
     (let r = equal_words (fe_words left) (fe_words right) 0
      in drop_bit 63 (r OR - r) XOR 1)"

fun test_bit_words :: "sb_word list \<Rightarrow> sb_size \<Rightarrow> sb_size \<Rightarrow> sb_word \<Rightarrow> sb_word" where
  "test_bit_words [] b i r = r"
| "test_bit_words (w # ws) b i r =
     (let word_bit = b AND 0x3F;
          l = push_bit 6 i;
          h = l + 64 - 1;
          we = drop_bit (unat word_bit) w;
          l_mask = sb_fe_nonneg_word_mask b l;
          h_mask = sb_fe_nonneg_word_mask h b
      in test_bit_words ws b (i + 1) (r OR ((we AND l_mask) AND h_mask)))"

definition sb_fe_test_bit :: "sb_fe \<Rightarrow> sb_size \<Rightarrow> sb_word" where
  "sb_fe_test_bit a b = test_bit_words (fe_words a) b 0 0 AND 1"

subsection \<open>Addition, subtraction, comparison by borrow\<close>

fun add_words :: "sb_word list \<Rightarrow> sb_word list \<Rightarrow> sb_word \<Rightarrow> sb_word list \<times> sb_word" where
  "add_words (l # ls) (r # rs) carry =
     (let d = (ucast l :: sb_dword) + ucast r + ucast carry;
          (ds, carry') = add_words ls rs (dw_high d)
      in (dw_low d # ds, carry'))"
| "add_words _ _ carry = ([], carry)"

definition sb_fe_add :: "sb_fe \<Rightarrow> sb_fe \<Rightarrow> sb_fe \<times> sb_word" where
  "sb_fe_add left right =
     (let (ds, carry) = add_words (fe_words left) (fe_words right) 0 in (fe_of ds, carry))"

fun sub_words :: "sb_word list \<Rightarrow> sb_word list \<Rightarrow> sb_word \<Rightarrow> sb_word list \<times> sb_word" where
  "sub_words (l # ls) (r # rs) borrow =
     (let d = (ucast l :: sb_dword) - (ucast r + ucast borrow);
          (ds, borrow') = sub_words ls rs (- dw_high d)
      in (dw_low d # ds, borrow'))"
| "sub_words _ _ borrow = ([], borrow)"

definition sb_fe_sub_borrow :: "sb_fe \<Rightarrow> sb_fe \<Rightarrow> sb_word \<Rightarrow> sb_fe \<times> sb_word" where
  "sb_fe_sub_borrow left right borrow =
     (let (ds, borrow') = sub_words (fe_words left) (fe_words right) borrow
      in (fe_of ds, borrow'))"

fun lt_words :: "sb_word list \<Rightarrow> sb_word list \<Rightarrow> sb_word \<Rightarrow> sb_word" where
  "lt_words (l # ls) (r # rs) borrow =
     (let d = (ucast l :: sb_dword) - (ucast r + ucast borrow)
      in lt_words ls rs (- dw_high d))"
| "lt_words _ _ borrow = borrow"

definition sb_fe_lt :: "sb_fe \<Rightarrow> sb_fe \<Rightarrow> sb_word" where
  "sb_fe_lt left right = lt_words (fe_words left) (fe_words right) 0"

fun cond_sub_words :: "sb_word \<Rightarrow> sb_word list \<Rightarrow> sb_word list \<Rightarrow> sb_word \<Rightarrow> sb_word list" where
  "cond_sub_words c (x # xs) (p # ps) borrow =
     (let d = (ucast x :: sb_dword) - (ucast p + ucast borrow)
      in sb_ctc_word c x (dw_low d) # cond_sub_words c xs ps (- dw_high d))"
| "cond_sub_words c _ _ borrow = []"

definition sb_fe_cond_sub_p :: "sb_fe \<Rightarrow> sb_word \<Rightarrow> sb_fe \<Rightarrow> sb_fe" where
  "sb_fe_cond_sub_p dest c p = fe_of (cond_sub_words c (fe_words dest) (fe_words p) 0)"

fun cond_add_words :: "sb_word \<Rightarrow> sb_word list \<Rightarrow> sb_word list \<Rightarrow> sb_word \<Rightarrow> sb_word list" where
  "cond_add_words c (x # xs) (p # ps) carry =
     (let d = (ucast x :: sb_dword) + ucast (sb_ctc_word c 0 p) + ucast carry
      in dw_low d # cond_add_words c xs ps (dw_high d))"
| "cond_add_words c _ _ carry = []"

definition sb_fe_cond_add_p_1 :: "sb_fe \<Rightarrow> sb_word \<Rightarrow> sb_fe \<Rightarrow> sb_fe" where
  "sb_fe_cond_add_p_1 dest c p = fe_of (cond_add_words c (fe_words dest) (fe_words p) 1)"

fun ctswap_words :: "sb_word \<Rightarrow> sb_word list \<Rightarrow> sb_word list \<Rightarrow> sb_word list \<times> sb_word list" where
  "ctswap_words c (a # as) (b # bs) =
     (let t = sb_ctc_word c a b;
          b' = sb_ctc_word c b a;
          (as', bs') = ctswap_words c as bs
      in (t # as', b' # bs'))"
| "ctswap_words c _ _ = ([], [])"

definition sb_fe_ctswap :: "sb_word \<Rightarrow> sb_fe \<Rightarrow> sb_fe \<Rightarrow> sb_fe \<times> sb_fe" where
  "sb_fe_ctswap c a b =
     (let (as, bs) = ctswap_words c (fe_words a) (fe_words b) in (fe_of as, fe_of bs))"

definition sb_fe_sub :: "sb_fe \<Rightarrow> sb_fe \<Rightarrow> sb_fe \<times> sb_word" where
  "sb_fe_sub left right = sb_fe_sub_borrow left right 0"

text \<open>The shift loop runs from the most significant word down.\<close>

fun rshift_words :: "nat \<Rightarrow> sb_word \<Rightarrow> sb_word list \<Rightarrow> sb_word list" where
  "rshift_words bits carry [] = []"
| "rshift_words bits carry (w # ws) =
     (drop_bit bits w OR carry) # rshift_words bits (push_bit (64 - bits) w) ws"

definition sb_fe_rshift_w :: "sb_fe \<Rightarrow> nat \<Rightarrow> sb_fe" where
  "sb_fe_rshift_w a bits = fe_of (rev (rshift_words bits 0 (rev (fe_words a))))"

subsection \<open>Lengths\<close>

lemma length_add_words [len_simps]:
  "length xs = length ys \<Longrightarrow> length (fst (add_words xs ys c)) = length xs"
  by (induction xs ys c rule: add_words.induct) (auto simp: Let_def split: prod.splits)

lemma length_sub_words [len_simps]:
  "length xs = length ys \<Longrightarrow> length (fst (sub_words xs ys b)) = length xs"
  by (induction xs ys b rule: sub_words.induct) (auto simp: Let_def split: prod.splits)

lemma length_cond_sub_words [len_simps]:
  "length xs = length ps \<Longrightarrow> length (cond_sub_words c xs ps b) = length xs"
  by (induction c xs ps b rule: cond_sub_words.induct) (auto simp: Let_def)

lemma length_cond_add_words [len_simps]:
  "length xs = length ps \<Longrightarrow> length (cond_add_words c xs ps b) = length xs"
  by (induction c xs ps b rule: cond_add_words.induct) (auto simp: Let_def)

lemma length_rshift_words [len_simps]: "length (rshift_words bits c ws) = length ws"
  by (induction bits c ws rule: rshift_words.induct) auto

lemma length_word_to_bytes [len_simps]: "length (word_to_bytes n t) = n"
  by (induction n arbitrary: t) auto

subsection \<open>Constant-time choice\<close>

lemma sb_ctc_word_simps [simp]: "sb_ctc_word 0 b c = b" "sb_ctc_word 1 b c = c"
  by (simp_all add: sb_ctc_word_def sb_word_mask_def xor.assoc xor.commute [of c])

lemma ctc_of_bool [simp]: "sb_ctc_word (of_bool c) x y = (if c then y else x)"
  by simp

lemma ctswap_words_if:
  "length xs = length ys \<Longrightarrow>
    ctswap_words (of_bool c) xs ys = (if c then (ys, xs) else (xs, ys))"
  by (induction xs ys rule: list_induct2) auto

lemma sb_fe_ctswap_if [fe_simps]:
  "sb_fe_ctswap (of_bool c) a b = (if c then (b, a) else (a, b))"
  by (simp add: sb_fe_ctswap_def ctswap_words_if)

subsection \<open>Addition and subtraction\<close>

lemma add_words_val:
  "length xs = length ys \<Longrightarrow> add_words xs ys c = (ds, c') \<Longrightarrow>
    lval ds + 2 ^ (64 * length xs) * uint c' = lval xs + lval ys + uint c"
proof (induction xs ys arbitrary: c ds c' rule: list_induct2)
  case Nil
  then show ?case by simp
next
  case (Cons x xs y ys)
  define d where "d = (ucast x :: sb_dword) + ucast y + ucast c"
  obtain es where es: "add_words xs ys (dw_high d) = (es, c')" and ds: "ds = dw_low d # es"
    using Cons.prems by (auto simp: Let_def d_def split: prod.splits)
  have "uint d = uint x + uint y + uint c"
    unfolding d_def by (rule uint_dword_add3)
  with Cons.IH [OF es] ds dw_split [of d] show ?case by (simp add: power_add algebra_simps)
qed

lemma sub_step:
  fixes l r b :: sb_word
  assumes "uint b \<le> 1"
  defines "d \<equiv> (ucast l :: sb_dword) - (ucast r + ucast b)"
  shows "uint (dw_low d) - 2 ^ 64 * uint (- dw_high d) = uint l - uint r - uint b"
    and "uint (- dw_high d) \<le> 1"
proof -
  have v: "uint d = (if uint l < uint r + uint b then 2 ^ 128 else 0) + uint l - uint r - uint b"
    unfolding d_def by (rule uint_dword_sub [OF assms(1)])
  note b = uint_word_bound [of l] uint_word_bound [of r] uint_ge_0 [of l] uint_ge_0 [of r]
    uint_ge_0 [of b] assms(1)
  have hi: "uint (dw_high d) = (if uint l < uint r + uint b then 2 ^ 64 - 1 else 0)"
  proof (cases "uint l < uint r + uint b")
    case True
    have "uint d div 2 ^ 64 = 2 ^ 64 - 1"
      by (rule int_div_pos_eq [where r = "2 ^ 64 + uint l - uint r - uint b"])
        (use True v b in \<open>simp_all del: unsigned_greater_eq uint_ge_0\<close>)
    with True show ?thesis by (simp add: uint_dw_high)
  next
    case False
    have "uint d div 2 ^ 64 = 0"
      using False v b by (intro div_pos_pos_trivial) (simp_all del: unsigned_greater_eq uint_ge_0)
    with False show ?thesis by (simp add: uint_dw_high)
  qed
  then have neg: "uint (- dw_high d) = (if uint l < uint r + uint b then 1 else 0)"
    by (simp add: uint_word_ariths)
  have "uint (dw_low d) = uint d - 2 ^ 64 * uint (dw_high d)"
    using dw_split [of d] by simp
  with v hi neg show "uint (dw_low d) - 2 ^ 64 * uint (- dw_high d) = uint l - uint r - uint b"
    by simp
  show "uint (- dw_high d) \<le> 1"
    using neg by simp
qed


lemma sub_words_val:
  "length xs = length ys \<Longrightarrow> sub_words xs ys b = (ds, b') \<Longrightarrow> uint b \<le> 1 \<Longrightarrow>
    lval ds - 2 ^ (64 * length xs) * uint b' = lval xs - lval ys - uint b \<and> uint b' \<le> 1"
proof (induction xs ys arbitrary: b ds b' rule: list_induct2)
  case Nil
  then show ?case by simp
next
  case (Cons x xs y ys)
  define d where "d = (ucast x :: sb_dword) - (ucast y + ucast b)"
  obtain es where es: "sub_words xs ys (- dw_high d) = (es, b')" and ds: "ds = dw_low d # es"
    using Cons.prems by (auto simp: Let_def d_def split: prod.splits)
  note st = sub_step [OF \<open>uint b \<le> 1\<close>, where l = x and r = y, folded d_def]
  from Cons.IH [OF es st(2)] ds st(1) show ?case
    by (simp add: power_add algebra_simps)
qed

lemma bit_word_cases:
  fixes c :: sb_word
  assumes "uint c \<le> 1"
  obtains "c = 0" | "c = 1"
proof -
  have "uint c = 0 \<or> uint c = 1"
    using assms uint_ge_0 [of c] by linarith
  with that show thesis by (auto simp: word_uint_eq_iff)
qed

lemma borrow_iff:
  assumes "v - 2 ^ n * uint b' = x - y" "uint (b' :: sb_word) \<le> 1" "0 \<le> v" "v < 2 ^ n"
    "0 \<le> y" "y \<le> 2 ^ n" "0 \<le> x" "x < 2 ^ n"
  shows "b' = of_bool (x < y) \<and> v = (if x < y then 2 ^ n else 0) + x - y"
proof -
  from assms(2) show ?thesis
    by (cases rule: bit_word_cases) (use assms in auto)
qed

lemma sb_fe_add_val [fe_simps]:
  "fe_val (fst (sb_fe_add l r)) = (fe_val l + fe_val r) mod 2 ^ 256"
  "snd (sb_fe_add l r) = of_bool (2 ^ 256 \<le> fe_val l + fe_val r)"
proof -
  obtain ds c where a: "add_words (fe_words l) (fe_words r) 0 = (ds, c)"
    by fastforce
  have len: "length ds = 4"
    using length_add_words [of "fe_words l" "fe_words r" 0] a by simp
  have v: "lval ds + 2 ^ 256 * uint c = fe_val l + fe_val r"
    using add_words_val [OF _ a] by (simp add: fe_val_def)
  have b: "lval ds < 2 ^ 256" "fe_val l < 2 ^ 256" "fe_val r < 2 ^ 256"
    using lval_bound [of ds] len fe_val_bound by simp_all
  have "2 ^ 256 * uint c < 2 ^ 256 * 2"
    using v b lval_nonneg [of ds] by linarith
  then have "uint c \<le> 1" by simp
  then have "lval ds = (fe_val l + fe_val r) mod 2 ^ 256 \<and>
      c = of_bool (2 ^ 256 \<le> fe_val l + fe_val r)"
  proof (cases rule: bit_word_cases)
    case 1
    with v b show ?thesis by (simp add: mod_pos_pos_trivial flip: v)
  next
    case 2
    with v have "fe_val l + fe_val r = lval ds + 2 ^ 256" by simp
    with 2 b show ?thesis by (simp add: mod_pos_pos_trivial)
  qed
  with a len show "fe_val (fst (sb_fe_add l r)) = (fe_val l + fe_val r) mod 2 ^ 256"
    and "snd (sb_fe_add l r) = of_bool (2 ^ 256 \<le> fe_val l + fe_val r)"
    by (simp_all add: sb_fe_add_def fe_val_fe_of)
qed

lemma sub_words_fe:
  assumes "sub_words (fe_words l) (fe_words r) (of_bool b) = (ds, b')"
  shows "length ds = 4"
    and "lval ds = (fe_val l - fe_val r - of_bool b) mod 2 ^ 256"
    and "b' = of_bool (fe_val l < fe_val r + of_bool b)"
proof -
  show len: "length ds = 4"
    using length_sub_words [of "fe_words l" "fe_words r" "of_bool b"] assms by simp
  have v: "lval ds - 2 ^ 256 * uint b' = fe_val l - (fe_val r + of_bool b) \<and> uint b' \<le> 1"
    using sub_words_val [OF _ assms] by (simp add: fe_val_def)
  have bd: "lval ds < 2 ^ 256" "fe_val l < 2 ^ 256" "fe_val r < 2 ^ 256"
    using lval_bound [of ds] len fe_val_bound by simp_all
  have "b' = of_bool (fe_val l < fe_val r + of_bool b) \<and>
      lval ds = (if fe_val l < fe_val r + of_bool b then 2 ^ 256 else 0)
        + fe_val l - (fe_val r + of_bool b)"
    using v bd fe_val_nonneg [of l] fe_val_nonneg [of r] by (intro borrow_iff) auto
  then show "b' = of_bool (fe_val l < fe_val r + of_bool b)" ..
  show "lval ds = (fe_val l - fe_val r - of_bool b) mod 2 ^ 256"
    by (rule mod_uniqueI [where k = "- uint b'"]) (use v bd in simp_all)
qed

lemma sb_fe_sub_borrow_val [fe_simps]:
  "fe_val (fst (sb_fe_sub_borrow l r (of_bool b))) = (fe_val l - fe_val r - of_bool b) mod 2 ^ 256"
  "snd (sb_fe_sub_borrow l r (of_bool b)) = of_bool (fe_val l < fe_val r + of_bool b)"
proof -
  obtain ds b' where a: "sub_words (fe_words l) (fe_words r) (of_bool b) = (ds, b')"
    by fastforce
  from sub_words_fe [OF a] a
  show "fe_val (fst (sb_fe_sub_borrow l r (of_bool b))) = (fe_val l - fe_val r - of_bool b) mod 2 ^ 256"
    and "snd (sb_fe_sub_borrow l r (of_bool b)) = of_bool (fe_val l < fe_val r + of_bool b)"
    by (simp_all add: sb_fe_sub_borrow_def fe_val_fe_of)
qed

lemma sb_fe_sub_val [fe_simps]:
  "fe_val (fst (sb_fe_sub l r)) = (fe_val l - fe_val r) mod 2 ^ 256"
  "snd (sb_fe_sub l r) = of_bool (fe_val l < fe_val r)"
  using sb_fe_sub_borrow_val [of l r False] by (simp_all add: sb_fe_sub_def)

lemma lt_words_eq: "lt_words xs ys b = snd (sub_words xs ys b)"
  by (induction xs ys b rule: lt_words.induct) (auto simp: Let_def split: prod.splits)

lemma sb_fe_lt_val [fe_simps]: "sb_fe_lt l r = of_bool (fe_val l < fe_val r)"
  using sb_fe_sub_val(2) [of l r]
  by (simp add: sb_fe_lt_def lt_words_eq sb_fe_sub_def sb_fe_sub_borrow_def split: prod.splits)

lemma sb_fe_lt_less: "sb_fe_lt l r = of_bool (l < r)"
  by (simp add: sb_fe_lt_val less_sb_fe_def)

lemma cond_sub_words_if:
  "length xs = length ps \<Longrightarrow>
    cond_sub_words (of_bool c) xs ps b = (if c then fst (sub_words xs ps b) else xs)"
  by (induction xs ps arbitrary: b rule: list_induct2)
    (auto simp: Let_def split: prod.splits if_splits)

lemma sb_fe_cond_sub_p_if:
  "sb_fe_cond_sub_p x (of_bool c) p = (if c then fst (sb_fe_sub x p) else x)"
  by (simp add: sb_fe_cond_sub_p_def cond_sub_words_if sb_fe_sub_def sb_fe_sub_borrow_def
      split: prod.splits)

lemma sb_fe_cond_sub_p_val [fe_simps]:
  "fe_val (sb_fe_cond_sub_p x (of_bool c) p) =
    (if c then (fe_val x - fe_val p) mod 2 ^ 256 else fe_val x)"
  by (simp add: sb_fe_cond_sub_p_if sb_fe_sub_val)

lemma cond_add_words_eq:
  "length xs = length ps \<Longrightarrow>
    cond_add_words (of_bool c) xs ps k
      = fst (add_words xs (if c then ps else replicate (length ps) 0) k)"
  by (induction xs ps arbitrary: k rule: list_induct2)
    (auto simp: Let_def split: prod.splits if_splits)

lemma lval_replicate_zero [simp]: "lval (replicate n 0) = 0"
  by (induction n) auto

lemma sb_fe_cond_add_p_1_val [fe_simps]:
  "fe_val (sb_fe_cond_add_p_1 x (of_bool c) p) =
    (fe_val x + (if c then fe_val p else 0) + 1) mod 2 ^ 256"
proof -
  let ?q = "if c then fe_words p else replicate 4 0"
  obtain ds k where a: "add_words (fe_words x) ?q 1 = (ds, k)"
    by fastforce
  have lq: "length ?q = 4" by simp
  have len: "length ds = 4"
    using length_add_words [of "fe_words x" ?q 1] a lq by simp
  have "lval ds + 2 ^ 256 * uint k = fe_val x + (if c then fe_val p else 0) + 1"
    using add_words_val [OF _ a] lq by (auto simp: fe_val_def)
  then have "lval ds = (fe_val x + (if c then fe_val p else 0) + 1) mod 2 ^ 256"
    using lval_bound [of ds] len by (intro mod_uniqueI [where k = "uint k"]) simp_all
  moreover have "cond_add_words (of_bool c) (fe_words x) (fe_words p) 1 = ds"
    using a by (subst cond_add_words_eq) (cases c; simp)+
  ultimately show ?thesis
    using len by (simp only: sb_fe_cond_add_p_1_def fe_val_fe_of)
qed

subsection \<open>Equality\<close>

lemma drop_bit_top: "drop_bit 63 (w :: sb_word) = of_bool (2 ^ 63 \<le> uint w)"
proof -
  have "uint w div 2 ^ 63 = of_bool (2 ^ 63 \<le> uint w)"
  proof (cases "2 ^ 63 \<le> uint w")
    case True
    then have "uint w div 2 ^ 63 = 1"
      using uint_word_bound [of w] by (intro int_div_pos_eq [where r = "uint w - 2 ^ 63"]) simp_all
    with True show ?thesis by simp
  next
    case False
    then show ?thesis by (simp add: div_pos_pos_trivial)
  qed
  then have "uint (drop_bit 63 w) = of_bool (2 ^ 63 \<le> uint w)"
    by (simp only: drop_bit_eq_div uint_div_distrib) simp
  then show ?thesis by (simp add: word_uint_eq_iff split: split_of_bool_asm)
qed

lemma nonzero_flag: "drop_bit 63 (r OR - r) = of_bool (r \<noteq> (0 :: sb_word))"
proof (cases "r = 0")
  case True
  then show ?thesis by simp
next
  case False
  have "uint (- r) = 2 ^ 64 - uint r"
    using False uint_word_bound [of r]
    by (simp add: uint_word_ariths zmod_zminus1_eq_if word_uint_eq_iff)
  then have "2 ^ 63 \<le> uint r \<or> 2 ^ 63 \<le> uint (- r)"
    by simp linarith
  moreover have "uint r \<le> uint (r OR - r)" "uint (- r) \<le> uint (r OR - r)"
    using le_word_or1 le_word_or2 by (simp_all flip: word_le_def)
  ultimately have "2 ^ 63 \<le> uint (r OR - r)"
    by linarith
  with False show ?thesis
    by (simp only: drop_bit_top) simp
qed

lemma equal_words_zero:
  "length xs = length ys \<Longrightarrow> equal_words xs ys acc = 0 \<longleftrightarrow> acc = 0 \<and> xs = ys"
proof (induction xs ys arbitrary: acc rule: list_induct2)
  case Nil
  then show ?case by simp
next
  case (Cons x xs y ys)
  have "acc OR (x XOR y) = 0 \<longleftrightarrow> acc = 0 \<and> x = y"
    by (auto simp: bit_eq_iff bit_simps)
  with Cons.IH show ?case by simp
qed

lemma fe_words_inject: "fe_words a = fe_words b \<longleftrightarrow> a = b"
  by (metis fe_of_fe_words)

lemma sb_fe_equal_iff [fe_simps]: "sb_fe_equal a b = of_bool (a = b)"
  using equal_words_zero [of "fe_words a" "fe_words b" 0]
  by (simp add: sb_fe_equal_def Let_def nonzero_flag fe_words_inject del: drop_bit_or)

lemma sb_fe_equal_val: "sb_fe_equal a b = of_bool (fe_val a = fe_val b)"
  by (simp add: sb_fe_equal_iff fe_val_inject)

subsection \<open>Right shift\<close>

lemma uint_drop_bit: "uint (drop_bit n (w :: sb_word)) = uint w div 2 ^ n"
  using uint_word_bound [of w]
  by (simp only: unsigned_drop_bit_eq) (simp add: take_bit_int_eq_self drop_bit_eq_div [of n "uint w"])

lemma uint_push_bit_high:
  assumes "0 < n" "n < 64"
  shows "uint (push_bit (64 - n) (w :: sb_word)) = (uint w mod 2 ^ n) * 2 ^ (64 - n)"
proof -
  have "uint (push_bit (64 - n) w) = take_bit 64 (push_bit (64 - n) (uint w))"
    by (simp add: unsigned_push_bit_eq)
  also have "\<dots> = push_bit (64 - n) (take_bit n (uint w))"
    using assms by (simp add: take_bit_push_bit)
  finally show ?thesis by (simp add: push_bit_eq_mult take_bit_eq_mod)
qed

lemma uint_or_disjoint:
  fixes a b :: sb_word
  assumes "uint a < 2 ^ n" "uint b = k * 2 ^ n"
  shows "uint (a OR b) = uint a + uint b"
proof -
  have "uint a = take_bit n (uint a)"
    using assms(1) by (simp add: take_bit_eq_mod mod_pos_pos_trivial)
  moreover have "uint b = push_bit n k"
    using assms(2) by (simp add: push_bit_eq_mult)
  ultimately have "uint a AND uint b = 0"
    by (metis bit.conj_zero_right bit_and_iff bit_eqI bit_push_bit_iff_int bit_take_bit_iff
        linorder_not_less bit_0_eq bot_apply bot_bool_def)
  then show ?thesis
    by (simp add: unsigned_or_eq disjunctive_add_eq_or)
qed

lemma rshift_words_val:
  assumes n: "0 < n" "n < 64"
  shows "lval (rev (rshift_words n (push_bit (64 - n) k) ws))
    = ((uint k mod 2 ^ n) * 2 ^ (64 * length ws) + lval (rev ws)) div 2 ^ n"
proof (induction ws arbitrary: k)
  case Nil
  show ?case by (simp add: div_pos_pos_trivial)
next
  case (Cons w ws)
  let ?c = "uint k mod 2 ^ n" and ?L = "64 * length ws"
  define q where "q = uint w div 2 ^ n"
  define r where "r = uint w mod 2 ^ n"
  have w: "uint w = q * 2 ^ n + r" by (simp only: q_def r_def div_mult_mod_eq)
  have "0 \<le> r" by (simp add: r_def)
  then have "q * 2 ^ n < 2 ^ (64 - n) * 2 ^ n"
    using w uint_word_bound [of w] n by (simp flip: power_add)
  then have "uint (drop_bit n w) < 2 ^ (64 - n)"
    by (simp add: uint_drop_bit q_def)
  then have head: "uint (drop_bit n w OR push_bit (64 - n) k) = q + ?c * 2 ^ (64 - n)"
    using uint_push_bit_high [OF n, of k]
    by (subst uint_or_disjoint) (simp_all add: uint_drop_bit q_def)
  have pow: "18446744073709551616 = (2 :: int) ^ n * 2 ^ (64 - n)"
      "(2 :: int) ^ (64 * length (w # ws)) = 2 ^ 64 * 2 ^ ?L"
    using n by (simp flip: power_add) (simp add: power_add)
  have "(?c * 2 ^ (64 * length (w # ws)) + lval (rev (w # ws))) div 2 ^ n
      = (2 ^ n * (2 ^ ?L * (q + ?c * 2 ^ (64 - n))) + (r * 2 ^ ?L + lval (rev ws))) div 2 ^ n"
    by (simp only: pow(2)) (simp add: lval_append w pow(1) algebra_simps)
  also have "\<dots> = 2 ^ ?L * (q + ?c * 2 ^ (64 - n)) + (r * 2 ^ ?L + lval (rev ws)) div 2 ^ n"
    by simp
  finally show ?case
    using Cons.IH [of w] by (simp add: lval_append len_simps head r_def)
qed

lemma sb_fe_rshift_w_val [fe_simps]:
  assumes "0 < n" "n < 64"
  shows "fe_val (sb_fe_rshift_w a n) = fe_val a div 2 ^ n"
  using rshift_words_val [OF assms, of 0 "rev (fe_words a)"]
  by (simp add: sb_fe_rshift_w_def fe_val_fe_of len_simps fe_val_def)

subsection \<open>Bit test\<close>

lemma nonneg_mask_bit:
  assumes "uint a < 256" "uint b < 256"
  shows "bit (sb_fe_nonneg_word_mask a b) 0 \<longleftrightarrow> b \<le> a"
proof -
  have nn: "0 \<le> uint a" "0 \<le> uint b" by simp_all
  have "uint (drop_bit 8 (a - b)) = uint (a - b) div 256"
    by (simp only: drop_bit_eq_div uint_div_distrib) simp
  also have "\<dots> = (if b \<le> a then 0 else 16777215)"
  proof (cases "uint b \<le> uint a")
    case True
    then have "uint (a - b) = uint a - uint b"
      by (simp add: uint_sub_if')
    with assms nn have "uint (a - b) < 256" by linarith
    with True show ?thesis by (simp add: word_le_def div_pos_pos_trivial)
  next
    case False
    have "uint (a - b) div 256 = 16777215"
      by (rule int_div_pos_eq [where r = "256 + uint a - uint b"])
        (use False assms nn in \<open>simp_all add: uint_sub_if' del: unsigned_greater_eq uint_ge_0\<close>)
    with False show ?thesis by (simp add: word_le_def)
  qed
  finally have "drop_bit 8 (a - b) = (if b \<le> a then 0 else 16777215)"
    by (simp only: word_uint_eq_iff split: if_split) simp
  then show ?thesis
    by (simp add: sb_fe_nonneg_word_mask_def Let_def del: drop_bit_word_numeral)
qed

lemma bit_zero_and_one: "(w :: sb_word) AND 1 = of_bool (bit w 0)"
  by (simp add: and_one_eq bit_0 mod_2_eq_odd)

lemma bit_lval:
  "bit (lval ws) n \<longleftrightarrow> n < 64 * length ws \<and> bit (ws ! (n div 64)) (n mod 64)"
proof (induction ws arbitrary: n)
  case Nil
  show ?case by simp
next
  case (Cons w ws)
  have "take_bit 64 (uint w) = uint w"
    using uint_word_bound [of w] by (simp add: take_bit_int_eq_self)
  then have "lval (w # ws) = concat_bit 64 (uint w) (lval ws)"
    by (simp add: concat_bit_eq push_bit_eq_mult)
  then show ?case
    using Cons.IH [of "n - 64"]
    by (auto simp: bit_concat_bit_iff bit_uint_iff le_mod_geq le_div_geq nth_Cons'
        dest: bit_imp_le_length)
qed

lemma bit_fe_val:
  "n < 256 \<Longrightarrow> bit (fe_val a) n \<longleftrightarrow> bit (fe_words a ! (n div 64)) (n mod 64)"
  by (simp add: fe_val_def bit_lval)

lemma sb_fe_test_bit_val [fe_simps]:
  assumes "unat b < 256"
  shows "sb_fe_test_bit a b = of_bool (bit (fe_val a) (unat b))"
proof -
  have m: "unat (b AND 0x3F) = unat b mod 64"
    using take_bit_eq_mask [of 6 b] unsigned_take_bit_eq [of 6 b, where 'a = nat]
    by (simp add: mask_eq_exp_minus_1 take_bit_eq_mod)
  have u: "uint b < 256"
    using assms by (metis of_nat_less_iff of_nat_numeral of_nat_unat)
  have low: "bit (test_bit_words (fe_words a) b 0 0) 0 \<longleftrightarrow>
      bit (fe0 a) (unat b mod 64) \<and> unat b \<le> 63 \<or>
      bit (fe1 a) (unat b mod 64) \<and> 64 \<le> unat b \<and> unat b \<le> 127 \<or>
      bit (fe2 a) (unat b mod 64) \<and> 128 \<le> unat b \<and> unat b \<le> 191 \<or>
      bit (fe3 a) (unat b mod 64) \<and> 192 \<le> unat b"
    using assms u
    by (simp add: fe_words_def bit_or_iff bit_and_iff nonneg_mask_bit m bit_drop_bit_eq
        Let_def word_le_nat_alt)
  consider "unat b div 64 = 0" "unat b \<le> 63" | "unat b div 64 = 1" "64 \<le> unat b" "unat b \<le> 127"
    | "unat b div 64 = 2" "128 \<le> unat b" "unat b \<le> 191" | "unat b div 64 = 3" "192 \<le> unat b"
    using assms by linarith
  then have "bit (test_bit_words (fe_words a) b 0 0) 0 \<longleftrightarrow> bit (fe_val a) (unat b)"
    unfolding low by cases (simp_all add: bit_fe_val [OF assms] fe_words_def)
  then show ?thesis
    by (simp add: sb_fe_test_bit_def bit_zero_and_one)
qed

subsection \<open>Bytes\<close>

lemma word_from_bytes_val:
  "uint t * 256 ^ length bs + be_val bs < 2 ^ 64 \<Longrightarrow>
    uint (word_from_bytes bs t) = uint t * 256 ^ length bs + be_val bs"
proof (induction bs arbitrary: t)
  case Nil
  then show ?case by simp
next
  case (Cons b bs)
  have "uint t * 256 * 1 \<le> uint t * 256 * 256 ^ length bs"
    by (intro mult_left_mono) simp_all
  then have "uint t * 256 \<le> uint t * 256 ^ length (b # bs)"
    by (simp add: mult.assoc)
  then have "uint t * 256 < 2 ^ 64"
    using Cons.prems be_val_nonneg [of "b # bs"] by linarith
  then have sh: "uint (push_bit 8 t) = uint t * 2 ^ 8"
    by (simp only: unsigned_push_bit_eq) (simp add: push_bit_eq_mult take_bit_int_eq_self)
  have ub: "uint (ucast b :: sb_word) = uint b"
    by (rule uint_up_ucast) (simp add: is_up)
  have "uint (push_bit 8 t OR ucast b) = uint (ucast b :: sb_word) + uint (push_bit 8 t)"
    by (subst or.commute) (rule uint_or_disjoint [OF _ sh], use uint_byte_bound [of b] ub in simp)
  then have st: "uint (push_bit 8 t OR ucast b) = uint t * 256 + uint b"
    using sh ub by simp
  from Cons.prems have "uint (push_bit 8 t OR ucast b) * 256 ^ length bs + be_val bs < 2 ^ 64"
    by (simp add: st be_val_Cons algebra_simps)
  from Cons.IH [OF this] show ?case
    by (simp add: st be_val_Cons algebra_simps)
qed

lemma byte_index_in_order:
  assumes "length src = 32"
  shows "map (\<lambda>k. src ! byte_index e k) [0..<32] = in_order e src"
  using assms
  by (intro nth_equalityI) (simp_all add: byte_index_def in_order_def rev_nth SB_ELEM_BYTES_def)

lemma sb_fe_from_bytes_val [fe_simps]:
  assumes "length src = 32"
  shows "fe_val (sb_fe_from_bytes src e) = be_val (in_order e src)"
proof -
  define bs where "bs = in_order e src"
  have idx: "src ! byte_index e k = bs ! k" if "k < 32" for k
    using that assms by (auto simp: bs_def in_order_def byte_index_def rev_nth SB_ELEM_BYTES_def)
  define chunk where "chunk i = map (\<lambda>j. bs ! (8 * i + j)) [0..<8]" for i
  have len: "length (chunk i) = 8" for i by (simp add: chunk_def)
  have w: "uint (word_from_bytes (chunk i) 0) = be_val (chunk i)" for i
    using word_from_bytes_val [of 0 "chunk i"] be_val_bound [of "chunk i"] len by simp
  have "[0..<32] = [0..<8] @ map ((+) 8) [0..<8] @ map ((+) 16) [0..<8] @ map ((+) 24) [0..<8]"
    by (simp add: upt_conv_Cons_Cons numeral_eq_Suc)
  then have "bs = chunk 0 @ chunk 1 @ chunk 2 @ chunk 3"
    using map_nth [of bs] assms by (simp add: bs_def chunk_def comp_def)
  moreover have ch: "map (\<lambda>j. src ! byte_index e (8 * i + j)) [0..<8] = chunk i" if "i < 4" for i
    using that by (auto simp: chunk_def idx)
  have "sb_fe_from_bytes src e = FE (word_from_bytes (chunk 3) 0) (word_from_bytes (chunk 2) 0)
      (word_from_bytes (chunk 1) 0) (word_from_bytes (chunk 0) 0)"
    using ch [of 0] ch [of 1] ch [of 2] ch [of 3] by (simp add: sb_fe_from_bytes_def fe_of_def Let_def)
  ultimately show ?thesis
    by (simp add: fe_val_FE w be_val_append len flip: bs_def)
qed

lemma word_to_bytes_val:
  "n \<le> 8 \<Longrightarrow> be_val (word_to_bytes n t) = uint t div 256 ^ (8 - n)"
proof (induction n arbitrary: t)
  case 0
  show ?case
    using uint_word_bound [of t] by (simp add: div_pos_pos_trivial)
next
  case (Suc n)
  define q where "q = uint t div 2 ^ 56"
  define r where "r = uint t mod 2 ^ 56"
  have t: "uint t = q * 2 ^ 56 + r" by (simp add: q_def r_def)
  have q: "0 \<le> q" "q < 256"
    using uint_word_bound [of t] by (simp_all add: q_def pos_imp_zdiv_nonneg_iff)
  have hd: "uint (ucast (drop_bit 56 t) :: sb_byte) = q"
    using q uint_drop_bit [of 56 t] by (simp add: unsigned_ucast_eq q_def take_bit_int_eq_self)
  have tl: "uint (push_bit 8 t) = r * 256"
    using uint_push_bit_high [of 56 t] by (simp add: r_def)
  have "8 - n = Suc (7 - n)"
    using Suc.prems by arith
  then have e: "(256 :: int) ^ (8 - n) = 256 ^ (7 - n) * 256" "(2 :: int) ^ 56 = 256 ^ (7 - n) * 256 ^ n"
    using Suc.prems by (simp_all flip: power_add)
  have "be_val (word_to_bytes (Suc n) t) = q * 256 ^ n + (r * 256) div 256 ^ (8 - n)"
    using Suc by (simp add: be_val_Cons hd tl len_simps)
  also have "\<dots> = q * 256 ^ n + r div 256 ^ (7 - n)"
    by (simp add: e(1))
  also have "\<dots> = (256 ^ (7 - n) * (q * 256 ^ n) + r) div 256 ^ (7 - n)"
    by simp
  also have "256 ^ (7 - n) * (q * 256 ^ n) + r = uint t"
    unfolding t e(2) by (simp add: algebra_simps)
  finally show ?case by simp
qed

lemma length_sb_fe_to_bytes [simp]: "length (sb_fe_to_bytes a e) = 32"
  by (simp add: sb_fe_to_bytes_def SB_ELEM_BYTES_def)

lemma sb_fe_to_bytes_in_order:
  "in_order e (sb_fe_to_bytes a e) = concat (map (word_to_bytes 8) (rev (fe_words a)))"
proof -
  let ?out = "concat (map (word_to_bytes 8) (rev (fe_words a)))"
  have "length ?out = 32"
    by (simp add: length_concat len_simps fe_words_def)
  then have "sb_fe_to_bytes a e = in_order e ?out"
    using byte_index_in_order [of ?out e] by (simp add: sb_fe_to_bytes_def SB_ELEM_BYTES_def)
  then show ?thesis by simp
qed

lemma sb_fe_to_bytes_val [fe_simps]:
  "be_val (in_order e (sb_fe_to_bytes a e)) = fe_val a"
  by (simp add: sb_fe_to_bytes_in_order fe_words_def be_val_append word_to_bytes_val len_simps
      fe_val_def algebra_simps)

lemma sb_fe_from_to_bytes [simp]: "sb_fe_from_bytes (sb_fe_to_bytes a e) e = a"
  by (simp add: sb_fe_from_bytes_val sb_fe_to_bytes_val flip: fe_val_inject)

lemma sb_fe_to_from_bytes:
  assumes "length src = 32"
  shows "sb_fe_to_bytes (sb_fe_from_bytes src e) e = src"
proof -
  have "be_val (in_order e (sb_fe_to_bytes (sb_fe_from_bytes src e) e)) = be_val (in_order e src)"
    using assms by (simp add: sb_fe_to_bytes_val sb_fe_from_bytes_val)
  then have "in_order e (sb_fe_to_bytes (sb_fe_from_bytes src e) e) = in_order e src"
    using assms by (subst (asm) be_val_inject) simp_all
  then show ?thesis by (metis in_order_in_order)
qed

end
