(* ===== verification/FE_Mod.thy ===== *)
theory FE_Mod
  imports FE_Words
begin

text \<open>
  The modular operations of \<open>sb_fe.c\<close> on quasi-reduced field elements, that is on values
  in \<open>[1, p]\<close> instead of \<open>[0, p - 1]\<close> (\<open>sb_fe.h\<close>, "ZVA countermeasure"): quasi-reduction,
  modular addition, subtraction, negation, doubling and halving. \<open>qrep P z\<close> is the
  quasi-reduced representative of the residue of \<open>z\<close>; each operation is shown to return
  exactly that representative of the integer operation.
\<close>

subsection \<open>Prime fields\<close>

text \<open>\<open>sb_prime_field_t\<close>; the field \<open>p\<close> is called \<open>prime_p\<close> here.\<close>

record sb_prime_field =
  prime_p :: sb_fe
  p_mp :: sb_word
  p_minus_two_f1 :: sb_fe
  p_minus_two_f2 :: sb_fe
  r2_mod_p :: sb_fe
  r_mod_p :: sb_fe
  bits :: sb_size

abbreviation modulus :: "sb_prime_field \<Rightarrow> int" where
  "modulus F \<equiv> fe_val (prime_p F)"

definition quasi_reduced :: "sb_prime_field \<Rightarrow> sb_fe \<Rightarrow> bool" where
  "quasi_reduced F x \<longleftrightarrow> 1 \<le> fe_val x \<and> fe_val x \<le> modulus F"

definition qrep :: "int \<Rightarrow> int \<Rightarrow> int" where
  "qrep P z = (if z mod P = 0 then P else z mod P)"

subsection \<open>Operations\<close>

definition sb_fe_qr :: "sb_fe \<Rightarrow> sb_word \<Rightarrow> sb_prime_field \<Rightarrow> sb_fe" where
  "sb_fe_qr dest carry p =
     (let b = sb_fe_lt (prime_p p) dest
      in sb_fe_cond_sub_p dest (carry OR b) (prime_p p))"

definition sb_fe_mod_sub :: "sb_fe \<Rightarrow> sb_fe \<Rightarrow> sb_prime_field \<Rightarrow> sb_fe" where
  "sb_fe_mod_sub left right p =
     (let (dest, b) = sb_fe_sub_borrow left right 1
      in sb_fe_cond_add_p_1 dest b (prime_p p))"

definition sb_fe_mod_reduce :: "sb_fe \<Rightarrow> sb_prime_field \<Rightarrow> sb_fe" where
  "sb_fe_mod_reduce dest p =
     (let (dest1, c) = sb_fe_add dest SB_FE_ONE;
          dest2 = sb_fe_qr dest1 c p
      in sb_fe_mod_sub dest2 SB_FE_ONE p)"

definition sb_fe_mod_reduce_full :: "sb_fe \<Rightarrow> sb_prime_field \<Rightarrow> sb_fe" where
  "sb_fe_mod_reduce_full dest p =
     (let c = sb_fe_lt dest (prime_p p) XOR 1
      in sb_fe_cond_sub_p dest c (prime_p p))"

definition sb_fe_mod_negate :: "sb_fe \<Rightarrow> sb_prime_field \<Rightarrow> sb_fe" where
  "sb_fe_mod_negate left p = sb_fe_mod_sub (prime_p p) left p"

definition sb_fe_mod_add :: "sb_fe \<Rightarrow> sb_fe \<Rightarrow> sb_prime_field \<Rightarrow> sb_fe" where
  "sb_fe_mod_add left right p =
     (let (dest, carry) = sb_fe_add left right in sb_fe_qr dest carry p)"

definition sb_fe_mod_double :: "sb_fe \<Rightarrow> sb_prime_field \<Rightarrow> sb_fe" where
  "sb_fe_mod_double left p = sb_fe_mod_add left left p"

text \<open>The result pairs \<open>dest\<close> with the final content of \<open>temp\<close>.\<close>

definition sb_fe_mod_halve :: "sb_fe \<Rightarrow> sb_prime_field \<Rightarrow> sb_fe \<times> sb_fe" where
  "sb_fe_mod_halve left p =
     (let low = sb_fe_test_bit left 0;
          temp = left;
          dest = sb_fe_rshift_w temp 1;
          temp = fst (sb_fe_sub (prime_p p) temp);
          temp = sb_fe_rshift_w temp 1;
          temp = fst (sb_fe_sub (prime_p p) temp)
      in sb_fe_ctswap low dest temp)"

subsection \<open>Quasi-reduced representatives\<close>

lemma qrep_range:
  assumes "0 < P"
  shows "1 \<le> qrep P z" "qrep P z \<le> P"
  using assms pos_mod_bound [OF assms, of z] pos_mod_sign [OF assms, of z]
  by (auto simp: qrep_def less_le)

lemma qrep_mod [simp]: "qrep P z mod P = z mod P"
  by (auto simp: qrep_def)

lemma qrep_eqI:
  assumes "1 \<le> x" "x \<le> P" "x mod P = z mod P"
  shows "x = qrep P z"
proof (cases "x = P")
  case True
  with assms show ?thesis by (simp add: qrep_def)
next
  case False
  with assms have "z mod P = x"
    by (simp add: mod_pos_pos_trivial)
  with assms show ?thesis by (simp add: qrep_def)
qed

lemma qrep_self: "1 \<le> x \<Longrightarrow> x \<le> P \<Longrightarrow> qrep P x = x"
  by (rule qrep_eqI [symmetric]) auto

lemma qrep_cong: "x mod P = y mod P \<Longrightarrow> qrep P x = qrep P y"
  by (simp add: qrep_def)

lemma quasi_reducedD:
  "quasi_reduced F x \<Longrightarrow> 1 \<le> fe_val x" "quasi_reduced F x \<Longrightarrow> fe_val x \<le> modulus F"
  "quasi_reduced F x \<Longrightarrow> 1 \<le> modulus F"
  by (auto simp: quasi_reduced_def)

lemma quasi_reduced_qrep:
  "0 < modulus F \<Longrightarrow> fe_val x = qrep (modulus F) z \<Longrightarrow> quasi_reduced F x"
  using qrep_range [of "modulus F" z] by (simp add: quasi_reduced_def)

lemma quasi_reduced_prime [simp]: "quasi_reduced F (prime_p F) \<longleftrightarrow> 1 \<le> modulus F"
  by (simp add: quasi_reduced_def)

lemma quasi_reduced_one [simp]: "quasi_reduced F SB_FE_ONE \<longleftrightarrow> 1 \<le> modulus F"
  by (simp add: quasi_reduced_def)

subsection \<open>Correctness of the modular operations\<close>

lemma of_bool_or_word: "(of_bool a :: sb_word) OR of_bool b = of_bool (a \<or> b)"
  by auto

lemma of_bool_xor_one: "(of_bool a :: sb_word) XOR 1 = of_bool (\<not> a)"
  by auto

text \<open>Quasi-reduction of the 257-bit number \<open>(carry | dest)\<close> in \<open>(0, 2 p]\<close>.\<close>

lemma sb_fe_qr_val:
  assumes v: "v = fe_val dest + 2 ^ 256 * of_bool carry"
    and "0 < v" "v \<le> 2 * modulus p"
  shows "fe_val (sb_fe_qr dest (of_bool carry) p) = qrep (modulus p) v"
proof -
  note b = fe_val_bound [of dest] fe_val_bound [of "prime_p p"] fe_val_nonneg [of dest]
    fe_val_nonneg [of "prime_p p"]
  have "fe_val (sb_fe_qr dest (of_bool carry) p) =
      (if carry \<or> modulus p < fe_val dest then (fe_val dest - modulus p) mod 2 ^ 256
       else fe_val dest)"
    by (simp only: sb_fe_qr_def Let_def sb_fe_lt_val of_bool_or_word sb_fe_cond_sub_p_val)
  also have "\<dots> = (if modulus p < v then v - modulus p else v)"
  proof (cases carry)
    case True
    with v b assms(3) have "modulus p < v" by simp
    moreover have "v - modulus p = (fe_val dest - modulus p) mod 2 ^ 256"
      by (rule mod_uniqueI [where k = "- 1"])
        (use True v b assms in simp_all)
    ultimately show ?thesis using True by simp
  next
    case False
    with v b show ?thesis by (auto intro!: mod_pos_pos_trivial)
  qed
  also have "\<dots> = qrep (modulus p) v"
    by (rule qrep_eqI) (use assms in auto)
  finally show ?thesis .
qed

lemma sb_fe_mod_sub_val [fe_simps]:
  assumes "quasi_reduced p l" "quasi_reduced p r"
  shows "fe_val (sb_fe_mod_sub l r p) = qrep (modulus p) (fe_val l - fe_val r)"
proof -
  let ?P = "modulus p" and ?b = "fe_val l < fe_val r + 1"
  note b = fe_val_bound [of l] fe_val_bound [of r] fe_val_bound [of "prime_p p"]
    assms [unfolded quasi_reduced_def]
  have "fe_val (sb_fe_mod_sub l r p)
      = ((fe_val l - fe_val r - 1) mod 2 ^ 256 + (if ?b then ?P else 0) + 1) mod 2 ^ 256"
    using sb_fe_sub_borrow_val [of l r True]
    by (simp add: sb_fe_mod_sub_def sb_fe_cond_add_p_1_val case_prod_unfold)
  also have "\<dots> = (fe_val l - fe_val r + (if ?b then ?P else 0)) mod 2 ^ 256"
    by (simp only: add.assoc mod_add_left_eq) (simp add: algebra_simps)
  also have "\<dots> = fe_val l - fe_val r + (if ?b then ?P else 0)"
    using b by (intro mod_pos_pos_trivial) auto
  also have "\<dots> = qrep ?P (fe_val l - fe_val r)"
    by (rule qrep_eqI) (use b in auto)
  finally show ?thesis .
qed

lemma sb_fe_mod_negate_val [fe_simps]:
  assumes "quasi_reduced p x"
  shows "fe_val (sb_fe_mod_negate x p) = qrep (modulus p) (- fe_val x)"
proof -
  have "fe_val (sb_fe_mod_negate x p) = qrep (modulus p) (modulus p - fe_val x)"
    using assms by (simp add: sb_fe_mod_negate_def sb_fe_mod_sub_val quasi_reducedD)
  also have "\<dots> = qrep (modulus p) (- fe_val x)"
    by (rule qrep_cong) (simp add: mod_simps)
  finally show ?thesis .
qed

lemma sb_fe_mod_add_val [fe_simps]:
  assumes "quasi_reduced p l" "quasi_reduced p r"
  shows "fe_val (sb_fe_mod_add l r p) = qrep (modulus p) (fe_val l + fe_val r)"
proof -
  let ?s = "fe_val l + fe_val r"
  note b = fe_val_bound [of l] fe_val_bound [of r] assms [unfolded quasi_reduced_def]
  have "?s = fe_val (fst (sb_fe_add l r)) + 2 ^ 256 * of_bool (2 ^ 256 \<le> ?s)"
  proof (cases "2 ^ 256 \<le> ?s")
    case True
    have "?s - 2 ^ 256 = ?s mod 2 ^ 256"
      by (rule mod_uniqueI [where k = 1]) (use True b in simp_all)
    with True show ?thesis by (simp add: sb_fe_add_val)
  next
    case False
    with b show ?thesis by (simp add: sb_fe_add_val mod_pos_pos_trivial)
  qed
  from sb_fe_qr_val [OF this] b show ?thesis
    by (simp add: sb_fe_mod_add_def sb_fe_add_val(2) case_prod_unfold)
qed

lemma sb_fe_mod_double_val [fe_simps]:
  "quasi_reduced p x \<Longrightarrow> fe_val (sb_fe_mod_double x p) = qrep (modulus p) (2 * fe_val x)"
  by (simp add: sb_fe_mod_double_def sb_fe_mod_add_val)

text \<open>
  \<open>sb_fe_mod_reduce\<close> quasi-reduces any value below \<open>2 p\<close>, in particular every 256-bit
  value when \<open>2 p > 2 ^ 256\<close>.
\<close>

lemma sb_fe_mod_reduce_val:
  assumes "fe_val x < 2 * modulus p"
  shows "fe_val (sb_fe_mod_reduce x p) = qrep (modulus p) (fe_val x)"
proof -
  let ?s = "fe_val x + 1"
  note b = fe_val_bound [of x] fe_val_nonneg [of x]
  have P: "1 \<le> modulus p"
    using assms b by linarith
  have "?s = fe_val (fst (sb_fe_add x SB_FE_ONE)) + 2 ^ 256 * of_bool (2 ^ 256 \<le> ?s)"
  proof (cases "2 ^ 256 \<le> ?s")
    case True
    with b have "?s = 2 ^ 256" by linarith
    then show ?thesis by (simp add: sb_fe_add_val)
  next
    case False
    with b show ?thesis by (simp add: sb_fe_add_val mod_pos_pos_trivial)
  qed
  from sb_fe_qr_val [OF this] assms
  have q: "fe_val (sb_fe_qr (fst (sb_fe_add x SB_FE_ONE)) (of_bool (2 ^ 256 \<le> ?s)) p)
      = qrep (modulus p) ?s"
    using b by simp
  then have "quasi_reduced p (sb_fe_qr (fst (sb_fe_add x SB_FE_ONE)) (of_bool (2 ^ 256 \<le> ?s)) p)"
    using P by (intro quasi_reduced_qrep) auto
  then have "fe_val (sb_fe_mod_reduce x p) = qrep (modulus p) (qrep (modulus p) ?s - 1)"
    using P q
    by (simp add: sb_fe_mod_reduce_def sb_fe_mod_sub_val sb_fe_add_val(2) case_prod_unfold)
  also have "\<dots> = qrep (modulus p) (fe_val x)"
  proof (rule qrep_cong)
    have "(qrep (modulus p) ?s - 1) mod modulus p = (qrep (modulus p) ?s mod modulus p - 1) mod modulus p"
      by (simp only: mod_simps)
    also have "\<dots> = (?s - 1) mod modulus p"
      by (simp only: qrep_mod mod_simps)
    finally show "(qrep (modulus p) ?s - 1) mod modulus p = fe_val x mod modulus p"
      by simp
  qed
  finally show ?thesis .
qed

lemma sb_fe_mod_reduce_full_val [fe_simps]:
  assumes "quasi_reduced p x"
  shows "fe_val (sb_fe_mod_reduce_full x p) = fe_val x mod modulus p"
proof -
  note b = assms [unfolded quasi_reduced_def] fe_val_bound [of "prime_p p"]
  have "fe_val (sb_fe_mod_reduce_full x p)
      = (if \<not> fe_val x < modulus p then (fe_val x - modulus p) mod 2 ^ 256 else fe_val x)"
    by (simp only: sb_fe_mod_reduce_full_def Let_def sb_fe_lt_val of_bool_xor_one
        sb_fe_cond_sub_p_val)
  also have "\<dots> = fe_val x mod modulus p"
    using b by (cases "fe_val x = modulus p") (auto simp: mod_pos_pos_trivial)
  finally show ?thesis .
qed

text \<open>Halving: the result doubled is the input modulo an odd \<open>p\<close>.\<close>

lemma bit_zero_odd: "bit (z :: int) 0 \<longleftrightarrow> odd z"
  by (simp add: bit_0)

lemma sb_fe_mod_halve_val [fe_simps]:
  assumes "quasi_reduced p x" "odd (modulus p)"
  shows "fe_val (fst (sb_fe_mod_halve x p)) =
    (if even (fe_val x) then fe_val x div 2 else (fe_val x + modulus p) div 2)"
proof -
  let ?P = "modulus p"
  define t1 where "t1 = fst (sb_fe_sub (prime_p p) x)"
  define t2 where "t2 = sb_fe_rshift_w t1 1"
  define t3 where "t3 = fst (sb_fe_sub (prime_p p) t2)"
  note b = assms(1) [unfolded quasi_reduced_def] fe_val_bound [of "prime_p p"]
  have t1: "fe_val t1 = ?P - fe_val x"
    unfolding t1_def sb_fe_sub_val by (rule mod_pos_pos_trivial) (use b in auto)
  have t2: "fe_val t2 = (?P - fe_val x) div 2"
    using sb_fe_rshift_w_val [of 1 t1] by (simp add: t2_def t1)
  have "fe_val t3 = ?P - (?P - fe_val x) div 2"
    unfolding t3_def sb_fe_sub_val t2 by (rule mod_pos_pos_trivial) (use b in auto)
  moreover have "?P - (?P - fe_val x) div 2 = (fe_val x + ?P) div 2" if "odd (fe_val x)"
    using that assms(2) by presburger
  moreover have "sb_fe_test_bit x 0 = of_bool (odd (fe_val x))"
    using sb_fe_test_bit_val [of 0 x] by (simp add: bit_zero_odd)
  moreover have "fe_val (sb_fe_rshift_w x 1) = fe_val x div 2"
    using sb_fe_rshift_w_val [of 1 x] by simp
  moreover have "sb_fe_mod_halve x p = sb_fe_ctswap (of_bool (odd (fe_val x))) (sb_fe_rshift_w x 1) t3"
    using calculation(3) by (simp only: sb_fe_mod_halve_def Let_def t1_def t2_def t3_def)
  ultimately show ?thesis
    by (simp only: sb_fe_ctswap_if) simp
qed

lemma sb_fe_mod_halve_double:
  assumes "quasi_reduced p x" "odd (modulus p)"
  shows "quasi_reduced p (fst (sb_fe_mod_halve x p))"
    and "2 * fe_val (fst (sb_fe_mod_halve x p)) mod modulus p = fe_val x mod modulus p"
proof -
  let ?h = "fe_val (fst (sb_fe_mod_halve x p))"
  note b = assms(1) [unfolded quasi_reduced_def]
  have "2 * ?h = (if even (fe_val x) then fe_val x else fe_val x + modulus p)"
    unfolding sb_fe_mod_halve_val [OF assms] using assms(2) by auto
  then show "2 * ?h mod modulus p = fe_val x mod modulus p" "quasi_reduced p (fst (sb_fe_mod_halve x p))"
    using b by (auto simp: quasi_reduced_def split: if_splits)
qed

text \<open>Every modular operation keeps its result quasi-reduced.\<close>

lemma quasi_reduced_ops [intro]:
  "quasi_reduced p l \<Longrightarrow> quasi_reduced p r \<Longrightarrow> quasi_reduced p (sb_fe_mod_add l r p)"
  "quasi_reduced p l \<Longrightarrow> quasi_reduced p r \<Longrightarrow> quasi_reduced p (sb_fe_mod_sub l r p)"
  "quasi_reduced p l \<Longrightarrow> quasi_reduced p (sb_fe_mod_double l p)"
  "quasi_reduced p l \<Longrightarrow> quasi_reduced p (sb_fe_mod_negate l p)"
  "fe_val x < 2 * modulus p \<Longrightarrow> quasi_reduced p (sb_fe_mod_reduce x p)"
proof -
  note qr = quasi_reduced_qrep
  show "quasi_reduced p l \<Longrightarrow> quasi_reduced p r \<Longrightarrow> quasi_reduced p (sb_fe_mod_add l r p)"
    using quasi_reducedD(3) [of p l] by (intro qr [OF _ sb_fe_mod_add_val]) auto
  show "quasi_reduced p l \<Longrightarrow> quasi_reduced p r \<Longrightarrow> quasi_reduced p (sb_fe_mod_sub l r p)"
    using quasi_reducedD(3) [of p l] by (intro qr [OF _ sb_fe_mod_sub_val]) auto
  show "quasi_reduced p l \<Longrightarrow> quasi_reduced p (sb_fe_mod_double l p)"
    using quasi_reducedD(3) [of p l] by (intro qr [OF _ sb_fe_mod_double_val]) auto
  show "quasi_reduced p l \<Longrightarrow> quasi_reduced p (sb_fe_mod_negate l p)"
    using quasi_reducedD(3) [of p l] by (intro qr [OF _ sb_fe_mod_negate_val]) auto
  show "fe_val x < 2 * modulus p \<Longrightarrow> quasi_reduced p (sb_fe_mod_reduce x p)"
    using fe_val_nonneg [of x] by (intro qr [OF _ sb_fe_mod_reduce_val]) auto
qed

end
