(* ===== verification/SB_Fermat.thy ===== *)
theory SB_Fermat
  imports SB_Prelude
begin

text \<open>
  Arithmetic modulo a prime on integers, as far as the field inversion and square root
  of \<open>sb_fe.c\<close> need it: Fermat's little theorem and its consequences for powers.
\<close>

definition prime_modulus :: "int \<Rightarrow> bool" where
  "prime_modulus P \<longleftrightarrow> 1 < P \<and> (\<forall>d. 0 < d \<and> d dvd P \<longrightarrow> d = 1 \<or> d = P)"

lemma prime_modulus_gt1: "prime_modulus P \<Longrightarrow> 1 < P"
  by (simp add: prime_modulus_def)

lemma prime_modulus_coprime:
  assumes "prime_modulus P" "\<not> P dvd a"
  shows "coprime a P"
proof -
  have "gcd a P dvd P" "0 < gcd a P"
    using prime_modulus_gt1 [OF assms(1)] by auto
  then have "gcd a P = 1 \<or> gcd a P = P"
    using assms(1) by (auto simp: prime_modulus_def)
  moreover have "gcd a P \<noteq> P"
    using assms(2) by (metis gcd_dvd1)
  ultimately show ?thesis
    by (simp add: coprime_iff_gcd_eq_1)
qed

lemma prime_modulus_dvd_mult:
  "prime_modulus P \<Longrightarrow> P dvd a * b \<longleftrightarrow> P dvd a \<or> P dvd b"
  by (metis coprime_commute coprime_dvd_mult_right_iff dvd_mult dvd_mult2 prime_modulus_coprime)

lemma prime_modulus_mult_mod_inj:
  assumes "prime_modulus P" "\<not> P dvd a" "(a * x) mod P = (a * y) mod P"
    and "0 \<le> x" "x < P" "0 \<le> y" "y < P"
  shows "x = y"
proof -
  have "P dvd a * (x - y)"
    using assms(3) by (simp add: mod_eq_dvd_iff right_diff_distrib)
  then have "P dvd x - y"
    using assms(1,2) by (simp add: prime_modulus_dvd_mult)
  then have "x mod P = y mod P"
    by (simp add: mod_eq_dvd_iff)
  with assms show ?thesis by simp
qed

lemma prime_modulus_mult_perm:
  assumes "prime_modulus P" "\<not> P dvd a"
  shows "bij_betw (\<lambda>x. (a * x) mod P) {0<..<P} {0<..<P}"
proof -
  have "inj_on (\<lambda>x. (a * x) mod P) {0<..<P}"
    by (rule inj_onI) (rule prime_modulus_mult_mod_inj [OF assms], auto)
  moreover have "(\<lambda>x. (a * x) mod P) ` {0<..<P} \<subseteq> {0<..<P}"
  proof safe
    fix x assume x: "x \<in> {0<..<P}"
    then have "\<not> P dvd x" by (auto dest: zdvd_imp_le)
    then have "\<not> P dvd a * x"
      using assms by (simp add: prime_modulus_dvd_mult)
    then show "(a * x) mod P \<in> {0<..<P}"
      using prime_modulus_gt1 [OF assms(1)] pos_mod_bound [of P "a * x"] pos_mod_sign [of P "a * x"]
      unfolding dvd_eq_mod_eq_0 greaterThanLessThan_iff by linarith
  qed
  ultimately show ?thesis
    by (metis bij_betw_def endo_inj_surj finite_greaterThanLessThan_int)
qed

lemma prime_modulus_not_dvd_prod:
  assumes "prime_modulus P" "finite A" "\<forall>x \<in> A. \<not> P dvd x"
  shows "\<not> P dvd \<Prod>A"
  using assms(2,3)
proof (induction A rule: finite_induct)
  case empty
  show ?case using prime_modulus_gt1 [OF assms(1)] by simp
next
  case (insert x A)
  then show ?case by (simp add: prime_modulus_dvd_mult [OF assms(1)])
qed

theorem fermat_little:
  assumes "prime_modulus P" "\<not> P dvd a"
  shows "a ^ nat (P - 1) mod P = 1"
proof -
  let ?S = "{0<..<P}"
  have "(\<Prod>x\<in>?S. (a * x) mod P) = \<Prod>?S"
    by (rule prod.reindex_bij_betw [OF prime_modulus_mult_perm [OF assms]])
  then have "(\<Prod>x\<in>?S. a * x) mod P = \<Prod>?S mod P"
    using mod_prod_eq [of "\<lambda>x. a * x" P ?S] by simp
  moreover have "(\<Prod>x\<in>?S. a * x) = a ^ nat (P - 1) * \<Prod>?S"
    by (simp add: prod.distrib)
  ultimately have "P dvd (a ^ nat (P - 1) - 1) * \<Prod>?S"
    by (simp add: mod_eq_dvd_iff left_diff_distrib)
  moreover have "\<not> P dvd \<Prod>?S"
    by (rule prime_modulus_not_dvd_prod [OF assms(1)]) (auto dest: zdvd_imp_le)
  ultimately have "P dvd a ^ nat (P - 1) - 1"
    by (simp add: prime_modulus_dvd_mult [OF assms(1)])
  then have "a ^ nat (P - 1) mod P = 1 mod P"
    by (simp add: mod_eq_dvd_iff)
  then show ?thesis
    using prime_modulus_gt1 [OF assms(1)] by simp
qed

text \<open>The inverse and, for \<open>P mod 4 = 3\<close>, the square root as powers.\<close>

lemma fermat_inverse:
  assumes "prime_modulus P" "\<not> P dvd a"
  shows "(a * a ^ nat (P - 2)) mod P = 1"
proof -
  have "nat (P - 1) = Suc (nat (P - 2))"
    using prime_modulus_gt1 [OF assms(1)] by simp
  with fermat_little [OF assms] show ?thesis by simp
qed

lemma prime_sqrt_complete:
  assumes "prime_modulus P" "P mod 4 = 3" "a mod P = (r * r) mod P"
  shows "(a ^ nat ((P + 1) div 4) * a ^ nat ((P + 1) div 4)) mod P = a mod P"
proof (cases "P dvd r")
  case True
  then have z: "a mod P = 0"
    using assms(3) by (simp add: dvd_eq_mod_eq_0 mod_mult_left_eq [symmetric])
  have "0 < (P + 1) div 4"
    using assms(2) prime_modulus_gt1 [OF assms(1)] by presburger
  then have "0 < nat ((P + 1) div 4)" by simp
  with z have "P dvd a ^ nat ((P + 1) div 4)"
    by (meson dvd_eq_mod_eq_0 dvd_power dvd_trans)
  then have "(a ^ nat ((P + 1) div 4) * a ^ nat ((P + 1) div 4)) mod P = 0"
    by simp
  with z show ?thesis by simp
next
  case False
  let ?k = "nat ((P + 1) div 4)"
  have k: "2 * ?k + 2 * ?k = nat (P - 1) + 2"
  proof -
    obtain q where "P = 4 * q + 3"
      using assms(2) by (metis mult_div_mod_eq)
    with prime_modulus_gt1 [OF assms(1)] show ?thesis by simp
  qed
  have "(a ^ ?k * a ^ ?k) mod P = (a mod P) ^ (?k + ?k) mod P"
    by (simp only: power_add [symmetric] power_mod)
  also have "\<dots> = (r * r) ^ (?k + ?k) mod P"
    unfolding assms(3) by (simp add: power_mod)
  also have "(r * r) ^ (?k + ?k) = r ^ nat (P - 1) * (r * r)"
    using k by (metis power2_eq_square power_add power_mult_distrib mult_2)
  also have "(r ^ nat (P - 1) * (r * r)) mod P = (r * r) mod P"
    using fermat_little [OF assms(1) False] by (metis mod_mult_left_eq mult_1)
  finally show ?thesis
    using assms(3) by simp
qed

text \<open>
  What the code needs of the modulus at one element: Fermat's congruence, so that the power
  \<open>P - 2\<close> inverts it, and Euler's, so that the power \<open>(P + 1) / 4\<close> of its square is a root.
  Modulo a prime they hold for every element that is not zero. Stated for one element they
  can be used, and checked, without a proof that the modulus is prime.
\<close>

definition fermat_at :: "int \<Rightarrow> int \<Rightarrow> bool" where
  "fermat_at P a \<longleftrightarrow> 1 < P \<and> a ^ nat (P - 1) mod P = 1"

definition euler_at :: "int \<Rightarrow> int \<Rightarrow> bool" where
  "euler_at P a \<longleftrightarrow> 1 < P \<and>
     (P dvd a ^ nat ((P - 1) div 2) - 1 \<or> P dvd a ^ nat ((P - 1) div 2) + 1)"

lemma fermat_at_prime: "prime_modulus P \<Longrightarrow> \<not> P dvd a \<Longrightarrow> fermat_at P a"
  by (simp add: fermat_at_def fermat_little prime_modulus_gt1)

lemma fermat_at_mod [simp]: "fermat_at P (a mod P) = fermat_at P a"
  by (simp add: fermat_at_def power_mod)

lemma fermat_at_one [simp]: "fermat_at P 1 \<longleftrightarrow> 1 < P"
  by (auto simp: fermat_at_def)

lemma fermat_at_mult: "fermat_at P a \<Longrightarrow> fermat_at P b \<Longrightarrow> fermat_at P (a * b)"
  using mod_mult_eq [of "a ^ nat (P - 1)" P "b ^ nat (P - 1)"]
  by (auto simp: fermat_at_def power_mult_distrib)

lemma fermat_at_inverse:
  assumes "fermat_at P a"
  shows "(a * a ^ nat (P - 2)) mod P = 1"
proof -
  have "nat (P - 1) = Suc (nat (P - 2))"
    using assms by (simp add: fermat_at_def del: nat_diff_distrib) linarith
  with assms show ?thesis by (simp add: fermat_at_def)
qed

lemma euler_at_prime:
  assumes pm: "prime_modulus P" and odd: "odd P" and nd: "\<not> P dvd a"
  shows "euler_at P a"
proof -
  let ?b = "a ^ nat ((P - 1) div 2)"
  have "nat (P - 1) = nat ((P - 1) div 2) + nat ((P - 1) div 2)"
    using prime_modulus_gt1 [OF pm] odd by (auto elim!: oddE)
  then have "a ^ nat (P - 1) = ?b * ?b"
    by (simp add: power_add)
  with fermat_little [OF pm nd] have "(?b * ?b) mod P = 1 mod P"
    using prime_modulus_gt1 [OF pm] by simp
  then have "P dvd (?b - 1) * (?b + 1)"
    by (simp add: mod_eq_dvd_iff algebra_simps)
  then show ?thesis
    using prime_modulus_dvd_mult [OF pm] prime_modulus_gt1 [OF pm] by (simp add: euler_at_def)
qed

lemma euler_at_one [simp]: "euler_at P 1 \<longleftrightarrow> 1 < P"
  by (auto simp: euler_at_def)

lemma euler_sqrt:
  assumes e: "euler_at P y" and P: "P mod 4 = 3" and a: "a mod P = (y * y) mod P"
  shows "a ^ nat ((P + 1) div 4) mod P = y mod P \<or> a ^ nat ((P + 1) div 4) mod P = (- y) mod P"
proof -
  let ?k = "nat ((P + 1) div 4)" and ?b = "y ^ nat ((P - 1) div 2)"
  have k: "?k + ?k = Suc (nat ((P - 1) div 2))"
  proof -
    obtain q where "P = 4 * q + 3"
      using P by (metis mult_div_mod_eq)
    with e show ?thesis by (simp add: euler_at_def) linarith
  qed
  have "a ^ ?k mod P = (y * y) ^ ?k mod P"
    by (metis a power_mod)
  also have "(y * y) ^ ?k = y * ?b"
    using k by (metis power2_eq_square power_Suc power_even_eq power_add power_mult_distrib)
  finally have b: "a ^ ?k mod P = (y * ?b) mod P" .
  from e consider "?b mod P = 1 mod P" | "?b mod P = (- 1) mod P"
    unfolding euler_at_def mod_eq_dvd_iff by auto
  then show ?thesis
  proof cases
    case 1
    then have "(y * ?b) mod P = (y * 1) mod P" by (rule mod_mult_cong [OF refl])
    with b show ?thesis by simp
  next
    case 2
    then have "(y * ?b) mod P = (y * (- 1)) mod P" by (rule mod_mult_cong [OF refl])
    with b show ?thesis by simp
  qed
qed

end
