(* ===== verification/FE_Mont.thy ===== *)
theory FE_Mont
  imports FE_Mod SB_Fermat
begin

text \<open>
  Montgomery arithmetic of \<open>sb_fe.c\<close>: word-serial Montgomery multiplication, domain
  conversion, modular exponentiation by square-and-multiply, inversion by Fermat's little
  theorem and square roots modulo \<open>p = 3 mod 4\<close>. \<open>mval F x\<close> is the residue a field element
  stands for in the Montgomery domain, \<open>x R\<^sup>-\<^sup>1 mod p\<close> with \<open>R = 2 ^ 256\<close>.
\<close>

subsection \<open>Operations\<close>

text \<open>\<open>(h, l) = a * b + c + d\<close>.\<close>

definition sb_mult_add_add :: "sb_word \<Rightarrow> sb_word \<Rightarrow> sb_word \<Rightarrow> sb_word \<Rightarrow> sb_word \<times> sb_word" where
  "sb_mult_add_add a b c d =
     (let t = (ucast a :: sb_dword) * ucast b + ucast c + ucast d in (dw_high t, dw_low t))"

definition sb_add_carry_2 :: "sb_word \<Rightarrow> sb_word \<Rightarrow> sb_word \<Rightarrow> sb_word \<times> sb_word" where
  "sb_add_carry_2 a b c =
     (let r = (ucast a :: sb_dword) + ucast b + ucast c in (dw_high r, dw_low r))"

text \<open>The inner loops: \<open>A := A + a * y\<close>, returning the carry word.\<close>

fun mult_row :: "sb_word \<Rightarrow> sb_word list \<Rightarrow> sb_word list \<Rightarrow> sb_word \<Rightarrow> sb_word list \<times> sb_word" where
  "mult_row a (y # ys) (A_j # As) c =
     (let (h, l) = sb_mult_add_add a y A_j c;
          (ls, c') = mult_row a ys As h
      in (l # ls, c'))"
| "mult_row a _ _ c = ([], c)"

text \<open>
  One iteration of the outer loop: \<open>A\<close> holds the low words and \<open>hw\<close> the carry bit. The
  accumulator starts as zero words, which is what the first iteration reads.
\<close>

definition mont_step ::
  "sb_word list \<Rightarrow> sb_prime_field \<Rightarrow> sb_word \<Rightarrow> sb_word list \<times> sb_word \<Rightarrow> sb_word list \<times> sb_word" where
  "mont_step y p x_i st =
     (let (A, hw) = st;
          (A1, c) = mult_row x_i y A 0;
          u_i = (A1 ! 0) * p_mp p;
          (A2, c2) = mult_row u_i (fe_words (prime_p p)) A1 0;
          (hw', top) = sb_add_carry_2 hw c c2
      in (tl A2 @ [top], hw'))"

definition sb_fe_mont_mult :: "sb_fe \<Rightarrow> sb_fe \<Rightarrow> sb_prime_field \<Rightarrow> sb_fe" where
  "sb_fe_mont_mult x y p =
     (let (A, hw) = fold (mont_step (fe_words y) p) (fe_words x) ([0, 0, 0, 0], 0)
      in sb_fe_qr (fe_of A) hw p)"

definition sb_fe_mont_square :: "sb_fe \<Rightarrow> sb_prime_field \<Rightarrow> sb_fe" where
  "sb_fe_mont_square left p = sb_fe_mont_mult left left p"

definition sb_fe_mont_reduce :: "sb_fe \<Rightarrow> sb_prime_field \<Rightarrow> sb_fe" where
  "sb_fe_mont_reduce left p = sb_fe_mont_mult left SB_FE_ONE p"

definition sb_fe_mont_convert :: "sb_fe \<Rightarrow> sb_prime_field \<Rightarrow> sb_fe" where
  "sb_fe_mont_convert left p = sb_fe_mont_mult left (r2_mod_p p) p"

text \<open>
  The exponentiation loop counts \<open>i\<close> down in \<open>sb_size_t\<close>; decrementing zero wraps to a
  value above \<open>SB_FE_BITS\<close>, which ends the loop. The state is \<open>(by, t2, t3)\<close>.
\<close>

definition SB_FE_BITS :: sb_size where "SB_FE_BITS = 256"

lemma expt_loop_decreases:
  assumes "i \<le> SB_FE_BITS"
  shows "(if i - 1 \<le> SB_FE_BITS then Suc (unat (i - 1)) else 0) < Suc (unat i)"
proof (cases "i = 0")
  case True
  have "\<not> (0 :: sb_size) - 1 \<le> SB_FE_BITS"
    by (simp add: SB_FE_BITS_def word_le_def uint_word_ariths)
  with True show ?thesis by simp
next
  case False
  then have "unat (i - 1) < unat i"
    by (simp add: unat_minus_one word_neq_0_conv unat_gt_0)
  then show ?thesis by simp
qed

function expt_loop ::
  "sb_fe \<Rightarrow> sb_fe \<Rightarrow> sb_word \<Rightarrow> sb_prime_field \<Rightarrow> sb_size \<Rightarrow> bool \<Rightarrow> sb_fe \<Rightarrow> sb_fe \<Rightarrow> sb_fe \<times> sb_fe" where
  "expt_loop x e e_shift p i by_bit t2 t3 =
     (if e_shift \<le> ucast i \<and> i \<le> SB_FE_BITS then
        let b = sb_fe_test_bit e i in
        if \<not> by_bit \<and> b = 0 then expt_loop x e e_shift p (i - 1) by_bit t2 t3
        else
          let t3' = sb_fe_mont_square t2 p;
              t2' = (if b \<noteq> 0 then sb_fe_mont_mult t3' x p else t3')
          in expt_loop x e e_shift p (i - 1) True t2' t3'
      else (t2, t3))"
  by pat_completeness auto

termination
  by (relation "measure (\<lambda>(x, e, e_shift, p, i, by_bit, t2, t3).
      if i \<le> SB_FE_BITS then Suc (unat i) else 0)")
    (auto dest: expt_loop_decreases)

declare expt_loop.simps [simp del]

text \<open>\<open>x = x^(e >> e_shift)\<close>; the result holds \<open>x\<close>, \<open>t2\<close> and \<open>t3\<close>.\<close>

definition sb_fe_mod_expt_r ::
  "sb_fe \<Rightarrow> sb_fe \<Rightarrow> sb_word \<Rightarrow> sb_prime_field \<Rightarrow> sb_fe \<Rightarrow> sb_fe \<times> sb_fe \<times> sb_fe" where
  "sb_fe_mod_expt_r x e e_shift p t3 =
     (let (t2, t3) = expt_loop x e e_shift p (bits p - 1) False (r_mod_p p) t3
      in (t2, t2, t3))"

definition sb_fe_mod_inv_r :: "sb_fe \<Rightarrow> sb_prime_field \<Rightarrow> sb_fe \<Rightarrow> sb_fe \<times> sb_fe \<times> sb_fe" where
  "sb_fe_mod_inv_r dest p t3 =
     (let (dest, t2, t3) = sb_fe_mod_expt_r dest (p_minus_two_f1 p) 0 p t3
      in sb_fe_mod_expt_r dest (p_minus_two_f2 p) 0 p t3)"

text \<open>
  The square root routines return the flag, \<open>x\<close> and the temporaries \<open>t1\<close> to \<open>t4\<close>. When
  \<open>p mod 4\<close> is not 3 the routine returns at once and leaves its operands as they are.
\<close>

definition sb_fe_mod_sqrt_r ::
  "sb_fe \<Rightarrow> sb_fe \<Rightarrow> sb_fe \<Rightarrow> sb_fe \<Rightarrow> sb_fe \<Rightarrow> sb_prime_field \<Rightarrow>
     bool \<times> sb_fe \<times> sb_fe \<times> sb_fe \<times> sb_fe \<times> sb_fe" where
  "sb_fe_mod_sqrt_r x t1 t2 t3 t4 p =
     (if fe0 (prime_p p) AND 3 \<noteq> 3 then (False, x, t1, t2, t3, t4)
      else
        let t1 = prime_p p;
            t1 = fst (sb_fe_add t1 SB_FE_ONE);
            t4 = x;
            (x, t2, t3) = sb_fe_mod_expt_r x t1 2 p t3;
            t3 = sb_fe_mont_square x p
        in (sb_fe_equal t3 t4 \<noteq> 0, x, t1, t2, t3, t4))"

definition sb_fe_mod_sqrt ::
  "sb_fe \<Rightarrow> sb_fe \<Rightarrow> sb_fe \<Rightarrow> sb_fe \<Rightarrow> sb_prime_field \<Rightarrow>
     bool \<times> sb_fe \<times> sb_fe \<times> sb_fe \<times> sb_fe \<times> sb_fe" where
  "sb_fe_mod_sqrt x t1 t2 t3 p =
     (let t4 = sb_fe_mont_convert x p;
          x = t4;
          (rv, x, t1, t2, t3, t4) = sb_fe_mod_sqrt_r x t1 t2 t3 t4 p;
          t4 = sb_fe_mont_reduce x p;
          x = t4
      in (rv, x, t1, t2, t3, t4))"

subsection \<open>Montgomery multiplication\<close>

text \<open>
  The condition on a prime field's constants that Montgomery multiplication needs: an odd
  modulus and \<open>p_mp = - p\<^sup>-\<^sup>1 mod 2 ^ 64\<close>.
\<close>

definition mont_ok :: "sb_prime_field \<Rightarrow> bool" where
  "mont_ok F \<longleftrightarrow> odd (modulus F) \<and>
     (uint (p_mp F) * modulus F) mod 2 ^ 64 = 2 ^ 64 - 1"

text \<open>The inverse of \<open>R = 2 ^ 256\<close> modulo an odd \<open>P\<close>, and the residue of a field element.\<close>

definition rinv :: "int \<Rightarrow> int" where
  "rinv P = ((P + 1) div 2) ^ 256"

definition mval :: "sb_prime_field \<Rightarrow> sb_fe \<Rightarrow> int" where
  "mval F x = (fe_val x * rinv (modulus F)) mod modulus F"

lemma rinv_inverse:
  assumes "odd P"
  shows "(2 ^ 256 * rinv P) mod P = 1 mod P"
proof -
  have "2 * ((P + 1) div 2) = P + 1"
    using assms by presburger
  then have "2 ^ 256 * rinv P = (P + 1) ^ 256"
    unfolding rinv_def by (metis power_mult_distrib)
  also have "(P + 1) ^ 256 mod P = 1 ^ 256 mod P"
    by (rule power_mod [THEN trans [OF sym]]) (simp add: power_mod)
  finally show ?thesis by simp
qed

lemma rinv_cancel:
  assumes "odd P" "(2 ^ 256 * t) mod P = z mod P"
  shows "t mod P = (z * rinv P) mod P"
proof -
  have "(z * rinv P) mod P = (2 ^ 256 * t * rinv P) mod P"
    using assms(2) by (metis mod_mult_left_eq)
  also have "\<dots> = (t * ((2 ^ 256 * rinv P) mod P)) mod P"
    by (simp add: mod_simps ac_simps)
  also have "\<dots> = t mod P"
    unfolding rinv_inverse [OF assms(1)] by (simp add: mod_simps)
  finally show ?thesis by simp
qed

lemma uint_mult_add_add:
  "uint (snd (sb_mult_add_add a b c d)) + 2 ^ 64 * uint (fst (sb_mult_add_add a b c d))
    = uint a * uint b + uint c + uint d"
  unfolding sb_mult_add_add_def Let_def fst_conv snd_conv dw_split
  by (rule uint_dword_mult_add_add)

lemma uint_add_carry_2:
  "uint (snd (sb_add_carry_2 a b c)) + 2 ^ 64 * uint (fst (sb_add_carry_2 a b c))
    = uint a + uint b + uint c"
  unfolding sb_add_carry_2_def Let_def fst_conv snd_conv dw_split
  by (rule uint_dword_add3)

lemma mult_row_val:
  "length ys = length As \<Longrightarrow>
    length (fst (mult_row a ys As c)) = length ys \<and>
    lval (fst (mult_row a ys As c)) + 2 ^ (64 * length ys) * uint (snd (mult_row a ys As c))
      = lval As + uint a * lval ys + uint c"
proof (induction ys As arbitrary: c rule: list_induct2)
  case Nil
  show ?case by simp
next
  case (Cons y ys z As)
  let ?hl = "sb_mult_add_add a y z c"
  let ?r = "mult_row a ys As (fst ?hl)"
  from Cons.IH [of "fst ?hl"]
  have IH: "lval (fst ?r) + 2 ^ (64 * length ys) * uint (snd ?r)
      = lval As + uint a * lval ys + uint (fst ?hl)" by simp
  have r: "mult_row a (y # ys) (z # As) c = (snd ?hl # fst ?r, snd ?r)"
    by (simp add: case_prod_unfold Let_def)
  have "uint (snd ?hl) + 2 ^ 64 * lval (fst ?r) + 2 ^ (64 * length (y # ys)) * uint (snd ?r)
      = uint (snd ?hl) + 2 ^ 64 * (lval (fst ?r) + 2 ^ (64 * length ys) * uint (snd ?r))"
    by (simp add: power_add algebra_simps)
  also have "\<dots> = (uint (snd ?hl) + 2 ^ 64 * uint (fst ?hl)) + 2 ^ 64 * (lval As + uint a * lval ys)"
    unfolding IH by (simp add: algebra_simps)
  also have "\<dots> = lval (z # As) + uint a * lval (y # ys) + uint c"
    unfolding uint_mult_add_add by (simp add: algebra_simps)
  finally show ?case
    unfolding r using Cons.IH [of "fst ?hl"] by simp
qed

text \<open>The number the accumulator and its carry stand for.\<close>

abbreviation acc_val :: "sb_word list \<times> sb_word \<Rightarrow> int" where
  "acc_val st \<equiv> lval (fst st) + 2 ^ 256 * uint (snd st)"

lemma lval_mod: "lval ws mod 2 ^ 64 = (if ws = [] then 0 else uint (hd ws))"
  using uint_word_bound by (cases ws) (simp_all add: mod_pos_pos_trivial)

lemma mont_step_low_word:
  assumes "mont_ok p"
    and "lval A2 + k * 2 ^ 64 = lval A1 + uint (hd A1 * p_mp p) * modulus p"
    and "A1 \<noteq> []" "A2 \<noteq> []"
  shows "uint (hd A2) = 0"
proof -
  let ?M = "2 ^ 64 :: int" and ?P = "modulus p"
  have "uint (hd A2) = (lval A2 + k * ?M) mod ?M"
    using lval_mod [of A2] assms(4) by simp
  also have "\<dots> = (lval A1 mod ?M + (uint (hd A1) * uint (p_mp p)) mod ?M * ?P) mod ?M"
    unfolding assms(2) uint_word_ariths by (simp add: mod_simps)
  also have "\<dots> = (uint (hd A1) + uint (hd A1) * ((uint (p_mp p) * ?P) mod ?M)) mod ?M"
    using lval_mod [of A1] assms(3)
    by (intro mod_add_cong) (simp_all add: mod_mult_left_eq mod_mult_right_eq mult.assoc)
  also have "\<dots> = (uint (hd A1) * ?M) mod ?M"
    using assms(1) by (simp add: mont_ok_def algebra_simps)
  finally show ?thesis by simp
qed

text \<open>
  One outer iteration divides \<open>T + x\<^sub>i y + u p\<close> exactly by \<open>2 ^ 64\<close>, and keeps the
  accumulator below \<open>y + p\<close>.
\<close>

lemma mont_step_val:
  assumes ok: "mont_ok p" and len: "length A = 4" "length y = 4"
  obtains u :: sb_word where "2 ^ 64 * acc_val (mont_step y p x_i (A, hw))
      = acc_val (A, hw) + uint x_i * lval y + uint u * modulus p"
    and "length (fst (mont_step y p x_i (A, hw))) = 4"
proof -
  define r1 where "r1 = mult_row x_i y A 0"
  define u where "u = hd (fst r1) * p_mp p"
  define r2 where "r2 = mult_row u (fe_words (prime_p p)) (fst r1) 0"
  define s where "s = sb_add_carry_2 hw (snd r1) (snd r2)"
  have l1: "length (fst r1) = 4" and
    v1: "lval (fst r1) + 2 ^ 256 * uint (snd r1) = lval A + uint x_i * lval y"
    using mult_row_val [of y A x_i 0] len by (simp_all add: r1_def)
  have l2: "length (fst r2) = 4" and
    v2: "lval (fst r2) + 2 ^ 256 * uint (snd r2) = lval (fst r1) + uint u * modulus p"
    using mult_row_val [of "fe_words (prime_p p)" "fst r1" u 0] l1
    by (simp_all add: r2_def fe_val_def)
  have ne: "fst r1 \<noteq> []" "fst r2 \<noteq> []"
    using l1 l2 by auto
  have "uint (hd (fst r2)) = 0"
    by (rule mont_step_low_word [OF ok, where k = "2 ^ 192 * uint (snd r2)" and ?A1.0 = "fst r1"])
      (use v2 ne in \<open>simp_all add: u_def algebra_simps\<close>)
  then have z: "lval (fst r2) = 2 ^ 64 * lval (tl (fst r2))"
    using ne by (cases "fst r2") auto
  have st: "mont_step y p x_i (A, hw) = (tl (fst r2) @ [snd s], fst s)"
    using ne by (simp add: mont_step_def case_prod_unfold Let_def r1_def r2_def u_def s_def hd_conv_nth)
  have sv: "uint (snd s) + 2 ^ 64 * uint (fst s) = uint hw + uint (snd r1) + uint (snd r2)"
    unfolding s_def by (rule uint_add_carry_2)
  have "2 ^ 64 * acc_val (mont_step y p x_i (A, hw))
      = 2 ^ 64 * lval (tl (fst r2)) + 2 ^ 256 * (uint (snd s) + 2 ^ 64 * uint (fst s))"
    unfolding st using l2 by (simp add: lval_append)
  also have "\<dots> = acc_val (A, hw) + uint x_i * lval y + uint u * modulus p"
    unfolding sv z [symmetric] using v1 v2 by simp
  finally show thesis
    using that [of u] st l2 by simp
qed

lemma mont_fold_val:
  assumes ok: "mont_ok p" and "length y = 4"
    and "length (fst st) = 4" "0 < modulus p"
    and "acc_val st < lval y + modulus p"
  shows "length (fst (fold (mont_step y p) xs st)) = 4 \<and>
    acc_val (fold (mont_step y p) xs st) < lval y + modulus p \<and>
    (\<exists>U \<ge> 0. 2 ^ (64 * length xs) * acc_val (fold (mont_step y p) xs st)
      = acc_val st + lval xs * lval y + U * modulus p)"
  using assms(3-5)
proof (induction xs arbitrary: st)
  case Nil
  then show ?case by (intro conjI exI [where x = 0]) simp_all
next
  case (Cons x xs)
  let ?s = "mont_step y p x st"
  obtain A hw where st: "st = (A, hw)" by (cases st)
  have lA: "length A = 4" using Cons.prems(1) st by simp
  obtain u :: sb_word
    where v: "2 ^ 64 * acc_val ?s = acc_val st + uint x * lval y + uint u * modulus p"
    and l: "length (fst ?s) = 4"
    using mont_step_val [OF ok lA assms(2), of x hw] unfolding st by blast
  have "uint x * lval y \<le> (2 ^ 64 - 1) * lval y" "uint u * modulus p \<le> (2 ^ 64 - 1) * modulus p"
    using uint_word_bound [of x] uint_word_bound [of u] Cons.prems(2)
    by (auto intro!: mult_right_mono)
  with v Cons.prems(3) have "2 ^ 64 * acc_val ?s < 2 ^ 64 * (lval y + modulus p)"
    by simp
  then have b: "acc_val ?s < lval y + modulus p"
    by (simp only: mult_less_cancel_left_pos zero_less_numeral zero_less_power)
  from Cons.IH [OF l Cons.prems(2) b] obtain U where
    IH: "length (fst (fold (mont_step y p) xs ?s)) = 4"
      "acc_val (fold (mont_step y p) xs ?s) < lval y + modulus p"
    and U0: "0 \<le> U"
    and U: "2 ^ (64 * length xs) * acc_val (fold (mont_step y p) xs ?s)
      = acc_val ?s + lval xs * lval y + U * modulus p"
    by blast
  have "2 ^ (64 * length (x # xs)) * acc_val (fold (mont_step y p) xs ?s)
      = 2 ^ 64 * (2 ^ (64 * length xs) * acc_val (fold (mont_step y p) xs ?s))"
    by (simp add: power_add)
  also have "\<dots> = 2 ^ 64 * acc_val ?s + 2 ^ 64 * (lval xs * lval y + U * modulus p)"
    unfolding U by (simp add: algebra_simps)
  also have "\<dots> = acc_val st + lval (x # xs) * lval y + (uint u + 2 ^ 64 * U) * modulus p"
    unfolding v by (simp add: algebra_simps)
  finally show ?case
    using IH U0 by (intro conjI exI [where x = "uint u + 2 ^ 64 * U"]) simp_all
qed

theorem sb_fe_mont_mult_val [fe_simps]:
  assumes ok: "mont_ok p" and "quasi_reduced p x" "quasi_reduced p y"
  shows "fe_val (sb_fe_mont_mult x y p)
    = qrep (modulus p) (fe_val x * fe_val y * rinv (modulus p))"
proof -
  let ?P = "modulus p"
  define st where "st = fold (mont_step (fe_words y) p) (fe_words x) ([0, 0, 0, 0], 0)"
  note b = assms(2,3) [unfolded quasi_reduced_def] fe_val_bound [of "prime_p p"]
  have y: "lval (fe_words y) = fe_val y" "length (fe_words y) = 4"
    by (simp_all add: fe_val_def)
  obtain U where l: "length (fst st) = 4" and t: "acc_val st < fe_val y + ?P"
    and U0: "0 \<le> U" and U: "2 ^ 256 * acc_val st = fe_val x * fe_val y + U * ?P"
    using mont_fold_val [OF ok, of "fe_words y" "([0, 0, 0, 0], 0)" "fe_words x"] b
    unfolding st_def [symmetric] y by (auto simp: fe_val_def)
  have hw: "snd st = of_bool (snd st \<noteq> 0)"
  proof -
    have "acc_val st < 2 * 2 ^ 256" using t b by linarith
    moreover have "0 \<le> lval (fst st)" by simp
    ultimately have "2 ^ 256 * uint (snd st) < 2 ^ 256 * 2" by linarith
    then have "uint (snd st) < 2"
      by (simp only: mult_less_cancel_left_pos zero_less_numeral zero_less_power)
    moreover have "0 \<le> uint (snd st)" by simp
    ultimately have "uint (snd st) = 0 \<or> uint (snd st) = 1" by linarith
    then show ?thesis
      by (cases "snd st = 0") (simp_all add: word_uint_eq_iff)
  qed
  have res: "sb_fe_mont_mult x y p = sb_fe_qr (fe_of (fst st)) (of_bool (snd st \<noteq> 0)) p"
    using hw by (simp add: sb_fe_mont_mult_def case_prod_unfold Let_def st_def)
  have fo: "fe_val (fe_of (fst st)) = lval (fst st)"
    using l by (rule fe_val_fe_of)
  have v: "acc_val st = fe_val (fe_of (fst st)) + 2 ^ 256 * of_bool (snd st \<noteq> 0)"
    unfolding fo by (subst hw) simp
  have m: "(2 ^ 256 * acc_val st) mod ?P = (fe_val x * fe_val y) mod ?P"
    unfolding U by simp
  have "1 * 1 \<le> fe_val x * fe_val y"
    using b by (intro mult_mono) auto
  moreover have "0 \<le> U * ?P"
    using U0 b by simp
  ultimately have "0 < 2 ^ 256 * acc_val st"
    unfolding U by linarith
  then have "0 < acc_val st"
    by (simp only: zero_less_mult_iff) simp
  with sb_fe_qr_val [OF v] t b have "fe_val (sb_fe_mont_mult x y p) = qrep ?P (acc_val st)"
    unfolding res by simp
  also have "\<dots> = qrep ?P (fe_val x * fe_val y * rinv ?P)"
    by (rule qrep_cong [OF rinv_cancel [OF _ m]]) (use ok in \<open>simp add: mont_ok_def\<close>)
  finally show ?thesis .
qed

subsection \<open>Conversion and exponentiation\<close>

text \<open>The constants of a prime field as \<open>sb_prime_field_t\<close> documents them.\<close>

definition prime_field_ok :: "sb_prime_field \<Rightarrow> bool" where
  "prime_field_ok F \<longleftrightarrow> mont_ok F \<and> 3 \<le> modulus F
     \<and> fe_val (r_mod_p F) = 2 ^ 256 mod modulus F
     \<and> fe_val (r2_mod_p F) = 2 ^ 512 mod modulus F
     \<and> fe_val (p_minus_two_f1 F) * fe_val (p_minus_two_f2 F) = modulus F - 2
     \<and> 1 \<le> unat (bits F) \<and> unat (bits F) \<le> 256 \<and> modulus F < 2 ^ unat (bits F)"

lemma prime_field_okD:
  assumes "prime_field_ok F"
  shows "mont_ok F" "odd (modulus F)" "3 \<le> modulus F" "0 < modulus F"
  using assms by (auto simp: prime_field_ok_def mont_ok_def)

lemma rinv_pow_cancel:
  assumes "odd P" "3 \<le> P"
  shows "(2 ^ 256 mod P * rinv P) mod P = 1" "(2 ^ 512 mod P * rinv P) mod P = 2 ^ 256 mod P"
    and "2 ^ 256 mod P \<noteq> 0" "2 ^ 512 mod P \<noteq> 0"
proof -
  show 1: "(2 ^ 256 mod P * rinv P) mod P = 1"
    using rinv_inverse [OF assms(1)] assms(2) by (simp add: mod_mult_left_eq)
  have "(2 ^ 512 mod P * rinv P) mod P = (2 ^ 256 * (2 ^ 256 * rinv P)) mod P"
    by (simp add: mod_mult_left_eq)
  also have "\<dots> = (2 ^ 256 * ((2 ^ 256 * rinv P) mod P)) mod P"
    by (rule mod_mult_right_eq [symmetric])
  finally show 2: "(2 ^ 512 mod P * rinv P) mod P = 2 ^ 256 mod P"
    using rinv_inverse [OF assms(1)] assms(2) by simp
  show 3: "2 ^ 256 mod P \<noteq> 0"
  proof
    assume "2 ^ 256 mod P = 0"
    with 1 show False by simp
  qed
  show "2 ^ 512 mod P \<noteq> 0"
  proof
    assume "2 ^ 512 mod P = 0"
    then have "(0 * rinv P) mod P = 2 ^ 256 mod P" using 2 by metis
    with 3 show False by simp
  qed
qed

lemma prime_field_ok_qr:
  assumes "prime_field_ok F"
  shows "quasi_reduced F (r_mod_p F)" "quasi_reduced F (r2_mod_p F)"
proof -
  note D = prime_field_okD [OF assms]
  have "\<And>z. z mod modulus F \<noteq> 0 \<Longrightarrow> 1 \<le> z mod modulus F \<and> z mod modulus F \<le> modulus F"
    using pos_mod_bound [OF D(4)] pos_mod_sign [OF D(4)] by (smt (verit))
  then show "quasi_reduced F (r_mod_p F)" "quasi_reduced F (r2_mod_p F)"
    using rinv_pow_cancel(3,4) [OF D(2,3)] assms
    unfolding quasi_reduced_def prime_field_ok_def by metis+
qed

lemma mont_qr [intro]:
  assumes "mont_ok p" "quasi_reduced p x" "quasi_reduced p y"
  shows "quasi_reduced p (sb_fe_mont_mult x y p)"
  by (rule quasi_reduced_qrep [OF _ sb_fe_mont_mult_val [OF assms]])
    (use quasi_reducedD(3) [OF assms(2)] in auto)

text \<open>In the Montgomery domain multiplication is multiplication of residues.\<close>

lemma mval_mont_mult:
  assumes "mont_ok p" "quasi_reduced p x" "quasi_reduced p y"
  shows "mval p (sb_fe_mont_mult x y p) = (mval p x * mval p y) mod modulus p"
proof -
  let ?P = "modulus p" and ?r = "rinv (modulus p)"
  have "mval p (sb_fe_mont_mult x y p) = (qrep ?P (fe_val x * fe_val y * ?r) mod ?P * ?r) mod ?P"
    by (simp only: mval_def sb_fe_mont_mult_val [OF assms] mod_mult_left_eq)
  also have "\<dots> = (fe_val x * fe_val y * ?r * ?r) mod ?P"
    by (simp only: qrep_mod mod_mult_left_eq)
  also have "\<dots> = ((fe_val x * ?r) * (fe_val y * ?r)) mod ?P"
    by (simp only: ac_simps)
  also have "\<dots> = (mval p x * mval p y) mod ?P"
    by (simp only: mval_def mod_mult_eq)
  finally show ?thesis .
qed

lemma mval_range:
  "0 < modulus F \<Longrightarrow> 0 \<le> mval F x" "0 < modulus F \<Longrightarrow> mval F x < modulus F"
  by (simp_all add: mval_def)

lemma mval_r_mod_p:
  assumes "prime_field_ok F"
  shows "mval F (r_mod_p F) = 1"
  using assms rinv_pow_cancel(1) prime_field_okD [OF assms]
  by (simp add: mval_def prime_field_ok_def)

lemma sb_fe_mont_convert_val:
  assumes "prime_field_ok F" "quasi_reduced F x"
  shows "fe_val (sb_fe_mont_convert x F) = qrep (modulus F) (fe_val x * 2 ^ 256)"
    and "mval F (sb_fe_mont_convert x F) = fe_val x mod modulus F"
    and "quasi_reduced F (sb_fe_mont_convert x F)"
proof -
  let ?P = "modulus F"
  note D = prime_field_okD [OF assms(1)] and qr = prime_field_ok_qr [OF assms(1)]
  have "(fe_val x * (2 ^ 512 mod ?P) * rinv ?P) mod ?P
      = (fe_val x * ((2 ^ 512 mod ?P * rinv ?P) mod ?P)) mod ?P"
    by (simp add: mod_mult_right_eq mult.assoc)
  also have "\<dots> = (fe_val x * 2 ^ 256) mod ?P"
    unfolding rinv_pow_cancel(2) [OF D(2,3)] by (rule mod_mult_right_eq)
  finally show v: "fe_val (sb_fe_mont_convert x F) = qrep ?P (fe_val x * 2 ^ 256)"
    using assms(1) sb_fe_mont_mult_val [OF D(1) assms(2) qr(2)]
    by (simp add: sb_fe_mont_convert_def prime_field_ok_def cong: qrep_cong)
  have "mval F (sb_fe_mont_convert x F) = (fe_val x * 2 ^ 256 * rinv ?P) mod ?P"
    unfolding mval_def v by (metis mod_mult_left_eq qrep_mod)
  also have "\<dots> = (fe_val x * ((2 ^ 256 * rinv ?P) mod ?P)) mod ?P"
    by (simp add: mod_mult_right_eq mult.assoc)
  finally show "mval F (sb_fe_mont_convert x F) = fe_val x mod ?P"
    unfolding rinv_inverse [OF D(2)] by (simp add: mod_mult_right_eq)
  show "quasi_reduced F (sb_fe_mont_convert x F)"
    unfolding sb_fe_mont_convert_def by (rule mont_qr [OF D(1) assms(2) qr(2)])
qed

lemma sb_fe_mont_reduce_val:
  assumes "prime_field_ok F" "quasi_reduced F x"
  shows "fe_val (sb_fe_mont_reduce x F) = qrep (modulus F) (mval F x)"
    and "quasi_reduced F (sb_fe_mont_reduce x F)"
proof -
  note D = prime_field_okD [OF assms(1)]
  have one: "quasi_reduced F SB_FE_ONE" using D(4) by simp
  show "quasi_reduced F (sb_fe_mont_reduce x F)"
    unfolding sb_fe_mont_reduce_def by (rule mont_qr [OF D(1) assms(2) one])
  have "fe_val (sb_fe_mont_reduce x F) = qrep (modulus F) (fe_val x * rinv (modulus F))"
    using sb_fe_mont_mult_val [OF D(1) assms(2) one] by (simp add: sb_fe_mont_reduce_def)
  also have "\<dots> = qrep (modulus F) (mval F x)"
    by (rule qrep_cong) (simp add: mval_def)
  finally show "fe_val (sb_fe_mont_reduce x F) = qrep (modulus F) (mval F x)" .
qed

text \<open>
  The loop invariant: when bit \<open>n - 1\<close> is next, \<open>t2\<close> holds \<open>x ^ (e div 2 ^ n)\<close>, and
  \<open>by\<close> is still false only if that exponent is zero.
\<close>

lemma div_pow2_Suc:
  "(E :: nat) div 2 ^ m = 2 * (E div 2 ^ Suc m) + of_bool (bit E m)"
proof -
  have "E div 2 ^ Suc m = E div 2 ^ m div 2"
    by (metis div_mult2_eq power_Suc2)
  then show ?thesis by (simp add: bit_iff_odd)
qed

lemma unat_of_nat_size:
  assumes "m \<le> 256"
  shows "unat (of_nat m :: sb_size) = m"
  unfolding unat_of_nat by (rule mod_less) (rule order.strict_trans1 [OF assms], simp)

lemma expt_loop_val:
  assumes ok: "mont_ok p" and x: "quasi_reduced p x"
    and "unat s \<le> n" "n \<le> 256" "quasi_reduced p t2"
    and "mval p t2 = mval p x ^ (nat (fe_val e) div 2 ^ n) mod modulus p"
    and "\<not> by_bit \<Longrightarrow> nat (fe_val e) div 2 ^ n = 0"
  shows "mval p (fst (expt_loop x e s p (of_nat n - 1) by_bit t2 t3))
      = mval p x ^ (nat (fe_val e) div 2 ^ unat s) mod modulus p \<and>
    quasi_reduced p (fst (expt_loop x e s p (of_nat n - 1) by_bit t2 t3))"
  using assms(3-)
proof (induction n arbitrary: by_bit t2 t3)
  case 0
  have "\<not> (of_nat 0 - 1 :: sb_size) \<le> SB_FE_BITS"
    by (simp add: SB_FE_BITS_def word_le_def uint_word_ariths)
  with 0 show ?case by (subst (1 2) expt_loop.simps) simp
next
  case (Suc m)
  let ?E = "nat (fe_val e)" and ?i = "of_nat m :: sb_size"
  have i: "of_nat (Suc m) - 1 = ?i" by simp
  have ui: "unat ?i = m"
    by (rule unat_of_nat_size) (use Suc.prems(2) in simp)
  have uc: "unat (ucast ?i :: sb_word) = m"
    unfolding unat_ucast_size ui ..
  have range: "s \<le> ucast ?i \<and> ?i \<le> SB_FE_BITS \<longleftrightarrow> unat s \<le> m"
    unfolding word_le_nat_alt ui uc SB_FE_BITS_def using Suc.prems(2) by simp
  show ?case
  proof (cases "unat s \<le> m")
    case False
    then have "unat s = Suc m" using Suc.prems(1) by simp
    with Suc.prems False show ?thesis
      unfolding i by (subst (1 2) expt_loop.simps) (simp add: range)
  next
    case True
    let ?b = "bit ?E m"
    have b: "sb_fe_test_bit e ?i = of_bool ?b"
      using sb_fe_test_bit_val [of ?i e] Suc.prems(2) by (simp add: ui bit_nat_iff fe_val_nonneg)
    let ?sq = "sb_fe_mont_square t2 p"
    let ?t2 = "if ?b then sb_fe_mont_mult ?sq x p else ?sq"
    have sq: "quasi_reduced p ?sq" "mval p ?sq = (mval p t2 * mval p t2) mod modulus p"
      using mont_qr [OF ok] mval_mont_mult [OF ok] Suc.prems(3)
      by (simp_all add: sb_fe_mont_square_def)
    have step: "expt_loop x e s p ?i by_bit t2 t3 =
      (if \<not> by_bit \<and> \<not> ?b then expt_loop x e s p (?i - 1) by_bit t2 t3
       else expt_loop x e s p (?i - 1) True ?t2 ?sq)"
      by (subst expt_loop.simps) (use True in \<open>simp add: range b Let_def\<close>)
    show ?thesis
    proof (cases "\<not> by_bit \<and> \<not> ?b")
      case t: True
      then have "?E div 2 ^ m = 0" "?E div 2 ^ Suc m = 0"
        using Suc.prems(5) div_pow2_Suc [of ?E m] by simp_all
      with t True Suc.prems show ?thesis
        unfolding i step by (simp add: Suc.IH)
    next
      case f: False
      have "quasi_reduced p ?t2"
        using sq(1) mont_qr [OF ok sq(1) x] by simp
      moreover have "mval p ?t2 = mval p x ^ (?E div 2 ^ m) mod modulus p"
      proof -
        have "mval p ?sq = mval p x ^ (2 * (?E div 2 ^ Suc m)) mod modulus p"
          unfolding sq(2) Suc.prems(4) mult_2 power_add by (rule mod_mult_eq)
        then show ?thesis
          unfolding div_pow2_Suc [of ?E m] using mval_mont_mult [OF ok sq(1) x]
          by (simp add: mod_simps mult.commute)
      qed
      moreover have "expt_loop x e s p ?i by_bit t2 t3 = expt_loop x e s p (?i - 1) True ?t2 ?sq"
        using f by (simp only: step if_False)
      ultimately show ?thesis
        unfolding i using Suc.IH [of ?t2 True ?sq] True Suc.prems(2) by simp
    qed
  qed
qed

theorem sb_fe_mod_expt_r_val:
  assumes ok: "prime_field_ok p" and x: "quasi_reduced p x"
    and e: "fe_val e < 2 ^ unat (bits p)" and s: "unat s \<le> unat (bits p)"
  shows "mval p (fst (sb_fe_mod_expt_r x e s p t3))
      = mval p x ^ (nat (fe_val e) div 2 ^ unat s) mod modulus p"
    and "quasi_reduced p (fst (sb_fe_mod_expt_r x e s p t3))"
proof -
  note D = prime_field_okD [OF ok]
  have n: "of_nat (unat (bits p)) = bits p" "unat (bits p) \<le> 256"
    using ok by (simp_all add: prime_field_ok_def)
  have "nat (fe_val e) < 2 ^ unat (bits p)"
    using e by (simp add: nat_less_iff)
  then have z: "nat (fe_val e) div 2 ^ unat (bits p) = 0" by simp
  have one: "mval p (r_mod_p p) = mval p x ^ (nat (fe_val e) div 2 ^ unat (bits p)) mod modulus p"
    unfolding z mval_r_mod_p [OF ok] using D(3) by simp
  from expt_loop_val [OF D(1) x s n(2) prime_field_ok_qr(1) [OF ok] one, of False t3]
  show "mval p (fst (sb_fe_mod_expt_r x e s p t3))
      = mval p x ^ (nat (fe_val e) div 2 ^ unat s) mod modulus p"
    and "quasi_reduced p (fst (sb_fe_mod_expt_r x e s p t3))"
    unfolding n(1) by (simp_all add: sb_fe_mod_expt_r_def case_prod_unfold Let_def z)
qed

subsection \<open>Inversion and square roots\<close>

lemma sb_fe_mod_inv_r_val:
  assumes ok: "prime_field_ok p" and x: "quasi_reduced p x"
  shows "mval p (fst (sb_fe_mod_inv_r x p t3)) = mval p x ^ nat (modulus p - 2) mod modulus p"
    and "quasi_reduced p (fst (sb_fe_mod_inv_r x p t3))"
proof -
  note D = prime_field_okD [OF ok]
  let ?f1 = "p_minus_two_f1 p" and ?f2 = "p_minus_two_f2 p"
  have f: "fe_val ?f1 * fe_val ?f2 = modulus p - 2" and P: "modulus p < 2 ^ unat (bits p)"
    using ok by (simp_all add: prime_field_ok_def)
  have "0 < fe_val ?f1 * fe_val ?f2"
    using f D(3) by simp
  then have pos: "0 < fe_val ?f1" "0 < fe_val ?f2"
    using fe_val_nonneg [of ?f1] fe_val_nonneg [of ?f2] by (auto simp: zero_less_mult_iff)
  have "fe_val ?f1 * 1 \<le> fe_val ?f1 * fe_val ?f2" "1 * fe_val ?f2 \<le> fe_val ?f1 * fe_val ?f2"
    using pos by (auto intro!: mult_left_mono mult_right_mono)
  then have b: "fe_val ?f1 < 2 ^ unat (bits p)" "fe_val ?f2 < 2 ^ unat (bits p)"
    using f P by simp_all
  obtain y t2 t3' where y: "sb_fe_mod_expt_r x ?f1 0 p t3 = (y, t2, t3')"
    by (metis prod_cases3)
  have yv: "mval p y = mval p x ^ nat (fe_val ?f1) mod modulus p" and yq: "quasi_reduced p y"
    using sb_fe_mod_expt_r_val [OF ok x b(1), of 0 t3] by (simp_all add: y)
  have r: "sb_fe_mod_inv_r x p t3 = sb_fe_mod_expt_r y ?f2 0 p t3'"
    by (simp add: sb_fe_mod_inv_r_def y)
  have "mval p (fst (sb_fe_mod_inv_r x p t3)) = mval p y ^ nat (fe_val ?f2) mod modulus p"
    using sb_fe_mod_expt_r_val(1) [OF ok yq b(2), of 0 t3'] by (simp add: r)
  also have "\<dots> = mval p x ^ (nat (fe_val ?f1) * nat (fe_val ?f2)) mod modulus p"
    by (simp only: yv power_mod power_mult)
  also have "nat (fe_val ?f1) * nat (fe_val ?f2) = nat (modulus p - 2)"
    using f pos by (simp add: nat_mult_distrib [symmetric])
  finally show "mval p (fst (sb_fe_mod_inv_r x p t3)) = mval p x ^ nat (modulus p - 2) mod modulus p" .
  show "quasi_reduced p (fst (sb_fe_mod_inv_r x p t3))"
    using sb_fe_mod_expt_r_val(2) [OF ok yq b(2), of 0 t3'] by (simp add: r)
qed

theorem sb_fe_mod_inv_r_inverse:
  assumes "prime_field_ok p" "quasi_reduced p x" "fermat_at (modulus p) (mval p x)"
  shows "(mval p x * mval p (fst (sb_fe_mod_inv_r x p t3))) mod modulus p = 1"
  using fermat_at_inverse [OF assms(3)]
  by (simp add: sb_fe_mod_inv_r_val(1) [OF assms(1,2)] mod_mult_right_eq)

lemma fermat_at_mval:
  assumes "prime_field_ok p" "prime_modulus (modulus p)" "mval p x \<noteq> 0"
  shows "fermat_at (modulus p) (mval p x)"
proof (rule fermat_at_prime [OF assms(2)])
  show "\<not> modulus p dvd mval p x"
    using assms(3) mval_range [OF prime_field_okD(4) [OF assms(1)], of x]
    by (auto dest: zdvd_imp_le)
qed

lemma mval_inject:
  assumes "prime_field_ok p" "quasi_reduced p x" "quasi_reduced p y"
  shows "mval p x = mval p y \<longleftrightarrow> x = y"
proof
  let ?P = "modulus p"
  note D = prime_field_okD [OF assms(1)]
  have c: "(2 ^ 256 * mval p z) mod ?P = fe_val z mod ?P" for z
  proof -
    have "(2 ^ 256 * mval p z) mod ?P = (2 ^ 256 * (fe_val z * rinv ?P)) mod ?P"
      unfolding mval_def by (rule mod_mult_right_eq)
    also have "\<dots> = (fe_val z * ((2 ^ 256 * rinv ?P) mod ?P)) mod ?P"
      unfolding mod_mult_right_eq by (simp only: ac_simps)
    finally have "(2 ^ 256 * mval p z) mod ?P = (fe_val z * ((2 ^ 256 * rinv ?P) mod ?P)) mod ?P" .
    then show ?thesis
      unfolding rinv_inverse [OF D(2)] by (simp add: mod_mult_right_eq)
  qed
  assume "mval p x = mval p y"
  with c [of x] c [of y] have "fe_val x mod ?P = fe_val y mod ?P" by simp
  then have "qrep ?P (fe_val x) = qrep ?P (fe_val y)" by (rule qrep_cong)
  then show "x = y"
    using assms(2,3) by (simp add: quasi_reduced_def qrep_self fe_val_inject)
qed simp

lemma low_bits_3: "fe0 x AND 3 = 3 \<longleftrightarrow> fe_val x mod 4 = 3"
proof -
  have "fe0 x AND 3 = 3 \<longleftrightarrow> uint (fe0 x) mod 4 = 3"
  proof -
    have "(fe0 x AND 3) = take_bit 2 (fe0 x)"
      by (simp add: take_bit_eq_mask mask_eq_exp_minus_1)
    moreover have "uint (take_bit 2 (fe0 x)) = uint (fe0 x) mod 4"
      by (simp only: unsigned_take_bit_eq) (simp add: take_bit_eq_mod)
    ultimately show ?thesis
      by (simp add: word_uint_eq_iff)
  qed
  moreover have "fe_val x mod 4 = uint (fe0 x) mod 4"
  proof -
    have "fe_val x = uint (fe0 x) + 4 * (2 ^ 62 * lval [fe1 x, fe2 x, fe3 x])"
      by (cases x) (simp add: fe_val_FE)
    then show ?thesis by (simp only: mod_mult_self2)
  qed
  ultimately show ?thesis by simp
qed

lemma sb_fe_mod_sqrt_r_val:
  assumes ok: "prime_field_ok p" and x: "quasi_reduced p x"
    and P: "modulus p mod 4 = 3" "modulus p + 1 < 2 ^ unat (bits p)"
    and r: "sb_fe_mod_sqrt_r x t1 t2 t3 t4 p = (rv, x', rest)"
  shows "quasi_reduced p x'"
    and "mval p x' = mval p x ^ nat ((modulus p + 1) div 4) mod modulus p"
    and "rv \<longleftrightarrow> (mval p x' * mval p x') mod modulus p = mval p x"
proof -
  note D = prime_field_okD [OF ok]
  let ?e = "fst (sb_fe_add (prime_p p) SB_FE_ONE)"
  obtain y t2' t3' where y: "sb_fe_mod_expt_r x ?e 2 p t3 = (y, t2', t3')"
    by (metis prod_cases3)
  have "(2 :: int) ^ unat (bits p) \<le> 2 ^ 256"
    using ok by (intro power_increasing) (simp_all add: prime_field_ok_def)
  then have e: "fe_val ?e = modulus p + 1"
    using P(2) D(4) by (simp add: sb_fe_add_val mod_pos_pos_trivial)
  have "(2 :: int) ^ 1 < 2 ^ unat (bits p)"
    using P(2) D(3) by simp
  then have "1 < unat (bits p)"
    by (rule power_less_imp_less_exp [rotated]) simp
  then have s: "unat (2 :: sb_word) \<le> unat (bits p)" by simp
  have ed: "nat (fe_val ?e) div 2 ^ unat (2 :: sb_word) = nat ((modulus p + 1) div 4)"
    unfolding e using D(4) by (simp add: nat_div_distrib)
  have eb: "fe_val ?e < 2 ^ unat (bits p)"
    unfolding e by (rule P(2))
  have yv: "mval p y = mval p x ^ nat ((modulus p + 1) div 4) mod modulus p"
    and yq: "quasi_reduced p y"
    using sb_fe_mod_expt_r_val [OF ok x eb s, of t3] unfolding ed y fst_conv by blast+
  have res: "x' = y" "rv \<longleftrightarrow> sb_fe_equal (sb_fe_mont_square y p) x \<noteq> 0"
    using r P(1) y by (auto simp add: sb_fe_mod_sqrt_r_def low_bits_3 Let_def)
  show "quasi_reduced p x'"
    and "mval p x' = mval p x ^ nat ((modulus p + 1) div 4) mod modulus p"
    using yq yv by (simp_all add: res)
  have "rv \<longleftrightarrow> sb_fe_mont_square y p = x"
    by (simp add: res sb_fe_equal_iff)
  also have "\<dots> \<longleftrightarrow> mval p (sb_fe_mont_square y p) = mval p x"
    using mval_inject [OF ok mont_qr [OF D(1) yq yq] x] by (simp add: sb_fe_mont_square_def)
  finally show "rv \<longleftrightarrow> (mval p x' * mval p x') mod modulus p = mval p x"
    by (simp add: sb_fe_mont_square_def mval_mont_mult [OF D(1) yq yq] res)
qed

text \<open>
  \<open>sb_fe_mod_sqrt\<close> replaces its operand by the candidate root and answers whether it is one;
  modulo a prime it is one exactly for the squares.
\<close>

lemma sb_fe_mod_sqrt_power:
  assumes ok: "prime_field_ok p" and x: "quasi_reduced p x"
    and P: "modulus p mod 4 = 3" "modulus p + 1 < 2 ^ unat (bits p)"
    and r: "sb_fe_mod_sqrt x t1 t2 t3 p = (rv, x', rest)"
  shows "rv \<longleftrightarrow> (fe_val x' * fe_val x') mod modulus p = fe_val x mod modulus p"
    and "quasi_reduced p x'"
    and "fe_val x' mod modulus p = fe_val x ^ nat ((modulus p + 1) div 4) mod modulus p"
proof -
  let ?P = "modulus p"
  define m where "m = sb_fe_mont_convert x p"
  note D = prime_field_okD [OF ok]
  have m: "mval p m = fe_val x mod ?P" "quasi_reduced p m"
    unfolding m_def using sb_fe_mont_convert_val [OF ok x] by simp_all
  obtain rv' y u1 u2 u3 u4 where
    y: "sb_fe_mod_sqrt_r m t1 t2 t3 m p = (rv', y, u1, u2, u3, u4)"
    by (metis prod_cases6)
  have res: "rv = rv'" "x' = sb_fe_mont_reduce y p"
    using r y by (simp_all add: sb_fe_mod_sqrt_def m_def [symmetric] Let_def)
  note sq = sb_fe_mod_sqrt_r_val [OF ok m(2) P(1,2) y]
  note red = sb_fe_mont_reduce_val [OF ok sq(1)]
  have x'm: "fe_val x' mod ?P = mval p y"
    unfolding res red(1) qrep_mod using mval_range [OF D(4)] by simp
  show "rv \<longleftrightarrow> (fe_val x' * fe_val x') mod ?P = fe_val x mod ?P"
    unfolding res(1) sq(3) m(1) x'm [symmetric] by (simp add: mod_mult_eq)
  show "quasi_reduced p x'"
    unfolding res(2) by (rule red(2))
  show "fe_val x' mod ?P = fe_val x ^ nat ((?P + 1) div 4) mod ?P"
    by (simp add: x'm sq(2) m(1) power_mod)
qed

theorem sb_fe_mod_sqrt_val:
  assumes ok: "prime_field_ok p" and x: "quasi_reduced p x"
    and P: "modulus p mod 4 = 3" "modulus p + 1 < 2 ^ unat (bits p)" "prime_modulus (modulus p)"
    and r: "sb_fe_mod_sqrt x t1 t2 t3 p = (rv, x', rest)"
  shows "rv \<longleftrightarrow> (\<exists>z. (z * z) mod modulus p = fe_val x mod modulus p)"
    and "rv \<longleftrightarrow> (fe_val x' * fe_val x') mod modulus p = fe_val x mod modulus p"
    and "quasi_reduced p x'"
proof -
  note q = sb_fe_mod_sqrt_power [OF ok x P(1,2) r]
  show "rv \<longleftrightarrow> (fe_val x' * fe_val x') mod modulus p = fe_val x mod modulus p"
    "quasi_reduced p x'"
    by (rule q)+
  have "rv" if "(z * z) mod modulus p = fe_val x mod modulus p" for z
    using prime_sqrt_complete [OF P(3,1) that [symmetric]] q(1,3) by (metis mod_mult_eq)
  with q(1) show "rv \<longleftrightarrow> (\<exists>z. (z * z) mod modulus p = fe_val x mod modulus p)"
    by blast
qed

end
