(* ===== verification/Affine.thy ===== *)
theory Affine
  imports SB_Fermat
begin

text \<open>
  The abstract level of the curve arithmetic: points of \<open>y\<^sup>2 = x\<^sup>3 - A x + B\<close> as pairs of
  integers modulo \<open>P\<close> (\<open>A\<close> is the \<open>minus_a\<close> of \<open>sb_sw_curve_t\<close>), and the chord and tangent
  constructions, stated without division: a slope \<open>l\<close> with \<open>l (x\<^sub>2 - x\<^sub>1) = y\<^sub>2 - y\<^sub>1\<close>, or
  \<open>2 l y = 3 x\<^sup>2 - A\<close>. For distinct abscissae modulo a prime the slope, and with it the
  result, is unique.
\<close>

type_synonym affine = "int \<times> int"

definition eqm :: "int \<Rightarrow> int \<Rightarrow> int \<Rightarrow> bool" where
  "eqm P x y \<longleftrightarrow> P dvd x - y"

lemma eqm_mod: "eqm P x y \<longleftrightarrow> x mod P = y mod P"
  by (simp add: eqm_def mod_eq_dvd_iff)

lemma eqm_refl [simp]: "eqm P x x"
  by (simp add: eqm_def)

lemma eqm_sym: "eqm P x y \<Longrightarrow> eqm P y x"
  by (simp add: eqm_mod)

lemma eqm_trans [trans]: "eqm P x y \<Longrightarrow> eqm P y z \<Longrightarrow> eqm P x z"
  by (simp add: eqm_mod)

lemma eqm_add: "eqm P a b \<Longrightarrow> eqm P c d \<Longrightarrow> eqm P (a + c) (b + d)"
  unfolding eqm_mod by (rule mod_add_cong)

lemma eqm_diff: "eqm P a b \<Longrightarrow> eqm P c d \<Longrightarrow> eqm P (a - c) (b - d)"
  unfolding eqm_mod by (rule mod_diff_cong)

lemma eqm_mult: "eqm P a b \<Longrightarrow> eqm P c d \<Longrightarrow> eqm P (a * c) (b * d)"
  unfolding eqm_mod by (rule mod_mult_cong)

lemma eqm_minus: "eqm P a b \<Longrightarrow> eqm P (- a) (- b)"
  using eqm_diff [of P 0 0 a b] by simp

lemma eqm_modulus [simp]: "eqm P (x mod P) x"
  by (simp add: eqm_mod)

lemma eqmI: "x = y + P * k \<Longrightarrow> eqm P x y"
  by (simp add: eqm_def)

lemma fermat_at_cong: "eqm P a b \<Longrightarrow> fermat_at P a \<longleftrightarrow> fermat_at P b"
  by (metis eqm_mod fermat_at_mod)

lemma fermat_at_not_dvd: "fermat_at P a \<Longrightarrow> \<not> P dvd a"
proof
  assume f: "fermat_at P a" and "P dvd a"
  then have "fermat_at P 0"
    by (metis dvd_eq_mod_eq_0 fermat_at_mod)
  then show False by (auto simp: fermat_at_def zero_power)
qed

lemma fermat_at_prime_iff: "prime_modulus P \<Longrightarrow> fermat_at P a \<longleftrightarrow> \<not> P dvd a"
  using fermat_at_not_dvd fermat_at_prime by blast

definition on_curve :: "int \<Rightarrow> int \<Rightarrow> int \<Rightarrow> affine \<Rightarrow> bool" where
  "on_curve P A B q \<longleftrightarrow> eqm P (snd q * snd q) (fst q * fst q * fst q - A * fst q + B)"

definition slope_result :: "int \<Rightarrow> int \<Rightarrow> affine \<Rightarrow> affine \<Rightarrow> affine \<Rightarrow> bool" where
  "slope_result P l p q r \<longleftrightarrow>
     eqm P (fst r) (l * l - fst p - fst q) \<and> eqm P (snd r) (l * (fst p - fst r) - snd p)"

definition chord :: "int \<Rightarrow> affine \<Rightarrow> affine \<Rightarrow> affine \<Rightarrow> bool" where
  "chord P p q r \<longleftrightarrow>
     (\<exists>l. eqm P (l * (fst q - fst p)) (snd q - snd p) \<and> slope_result P l p q r)"

definition tangent :: "int \<Rightarrow> int \<Rightarrow> affine \<Rightarrow> affine \<Rightarrow> bool" where
  "tangent P A p r \<longleftrightarrow>
     (\<exists>l. eqm P (l * (2 * snd p)) (3 * (fst p * fst p) - A) \<and> slope_result P l p p r)"

definition opposite :: "affine \<Rightarrow> affine" where
  "opposite p = (fst p, - snd p)"

lemma chordI:
  "eqm P (l * (fst q - fst p)) (snd q - snd p) \<Longrightarrow> slope_result P l p q r \<Longrightarrow> chord P p q r"
  by (auto simp: chord_def)

lemma tangentI:
  "eqm P (l * (2 * snd p)) (3 * (fst p * fst p) - A) \<Longrightarrow> slope_result P l p p r \<Longrightarrow>
    tangent P A p r"
  by (auto simp: tangent_def)

text \<open>The chord through points with distinct abscissae is unique modulo a prime.\<close>

lemma chord_unique:
  assumes "prime_modulus P" "\<not> eqm P (fst p) (fst q)" "chord P p q r" "chord P p q s"
  shows "eqm P (fst r) (fst s) \<and> eqm P (snd r) (snd s)"
proof -
  obtain l where l: "eqm P (l * (fst q - fst p)) (snd q - snd p)" "slope_result P l p q r"
    using assms(3) by (auto simp: chord_def)
  obtain m where m: "eqm P (m * (fst q - fst p)) (snd q - snd p)" "slope_result P m p q s"
    using assms(4) by (auto simp: chord_def)
  have "P dvd (l - m) * (fst q - fst p)"
    using eqm_trans [OF l(1) eqm_sym [OF m(1)]] by (simp add: eqm_def left_diff_distrib)
  moreover have "\<not> P dvd fst q - fst p"
    using assms(2) by (metis eqm_def eqm_sym)
  ultimately have lm: "eqm P l m"
    using assms(1) by (simp add: eqm_def prime_modulus_dvd_mult)
  have x: "eqm P (fst r) (fst s)"
  proof -
    have "eqm P (l * l - fst p - fst q) (m * m - fst p - fst q)"
      by (intro eqm_diff eqm_mult lm eqm_refl)
    with l(2) m(2) show ?thesis
      unfolding slope_result_def by (meson eqm_trans eqm_sym)
  qed
  have "eqm P (l * (fst p - fst r) - snd p) (m * (fst p - fst s) - snd p)"
    by (intro eqm_diff eqm_mult lm x eqm_refl)
  with l(2) m(2) x show ?thesis
    unfolding slope_result_def by (meson eqm_trans eqm_sym)
qed

text \<open>
  Both constructions stay on the curve: the cubic \<open>f(x)\<close> minus the squared line has the
  three abscissae as its roots.
\<close>

definition line_cubic :: "int \<Rightarrow> int \<Rightarrow> int \<Rightarrow> affine \<Rightarrow> int \<Rightarrow> int" where
  "line_cubic A B l p x =
     x * x * x - A * x + B - (l * (x - fst p) + snd p) * (l * (x - fst p) + snd p)"

lemma on_curve_cong:
  assumes "eqm P (fst p) (fst q)" "eqm P (snd p) (snd q)"
  shows "on_curve P A B p \<longleftrightarrow> on_curve P A B q"
proof -
  have "eqm P (fst p * fst p * fst p - A * fst p + B) (fst q * fst q * fst q - A * fst q + B)"
    by (intro eqm_add eqm_diff eqm_mult assms(1) eqm_refl)
  moreover have "eqm P (snd p * snd p) (snd q * snd q)"
    by (intro eqm_mult assms(2))
  ultimately show ?thesis
    unfolding on_curve_def by (meson eqm_trans eqm_sym)
qed

lemma slope_result_on_curve:
  assumes "slope_result P l p q r"
    and "P dvd line_cubic A B l p (l * l - fst p - fst q)"
  shows "on_curve P A B r"
proof -
  let ?x = "l * l - fst p - fst q"
  let ?r = "(?x, l * (fst p - ?x) - snd p)"
  have "fst ?r * fst ?r * fst ?r - A * fst ?r + B - snd ?r * snd ?r = line_cubic A B l p ?x"
    by (simp add: line_cubic_def algebra_simps)
  with assms(2) have "P dvd fst ?r * fst ?r * fst ?r - A * fst ?r + B - snd ?r * snd ?r"
    by simp
  then have "on_curve P A B ?r"
    unfolding on_curve_def by (metis eqm_def eqm_sym)
  moreover have "eqm P (fst r) (fst ?r)"
    using assms(1) by (simp add: slope_result_def)
  moreover have "eqm P (snd r) (snd ?r)"
  proof -
    have "eqm P (l * (fst p - fst r) - snd p) (snd ?r)"
      using assms(1) by (simp only: snd_conv) (intro eqm_diff eqm_mult eqm_refl, simp add: slope_result_def)
    with assms(1) show ?thesis
      unfolding slope_result_def by (meson eqm_trans)
  qed
  ultimately show ?thesis
    using on_curve_cong [of P r ?r A B] by simp
qed

lemma on_curve_line:
  assumes "on_curve P A B q" "eqm P (l * (fst q - fst p)) (snd q - snd p)"
  shows "P dvd line_cubic A B l p (fst q)"
proof -
  have "eqm P (l * (fst q - fst p) + snd p) (snd q)"
    using eqm_add [OF assms(2) eqm_refl [of P "snd p"]] by simp
  then have "eqm P ((l * (fst q - fst p) + snd p) * (l * (fst q - fst p) + snd p)) (snd q * snd q)"
    by (intro eqm_mult)
  then have "eqm P (fst q * fst q * fst q - A * fst q + B)
      ((l * (fst q - fst p) + snd p) * (l * (fst q - fst p) + snd p))"
    using assms(1) unfolding on_curve_def by (meson eqm_trans eqm_sym)
  then show ?thesis
    by (simp add: eqm_def line_cubic_def)
qed

lemma chord_on_curve:
  assumes "prime_modulus P" "\<not> eqm P (fst p) (fst q)"
    and "on_curve P A B p" "on_curve P A B q" "chord P p q r"
  shows "on_curve P A B r"
proof -
  obtain l where l: "eqm P (l * (fst q - fst p)) (snd q - snd p)" "slope_result P l p q r"
    using assms(5) by (auto simp: chord_def)
  let ?f = "line_cubic A B l p" and ?x = "l * l - fst p - fst q"
  have fp: "P dvd ?f (fst p)"
    by (rule on_curve_line [OF assms(3)]) simp
  have fq: "P dvd ?f (fst q)"
    by (rule on_curve_line [OF assms(4) l(1)])
  have "(fst q - fst p) * ?f ?x = (fst q - ?x) * ?f (fst p) + (?x - fst p) * ?f (fst q)"
    by (simp add: line_cubic_def algebra_simps)
  with fp fq have "P dvd (fst q - fst p) * ?f ?x"
    by simp
  moreover have "\<not> P dvd fst q - fst p"
    using assms(2) by (metis eqm_def eqm_sym)
  ultimately have "P dvd ?f ?x"
    using assms(1) by (simp add: prime_modulus_dvd_mult)
  with l(2) show ?thesis by (rule slope_result_on_curve)
qed

lemma tangent_on_curve:
  assumes "on_curve P A B p" "tangent P A p r"
  shows "on_curve P A B r"
proof -
  obtain l where l: "eqm P (l * (2 * snd p)) (3 * (fst p * fst p) - A)" "slope_result P l p p r"
    using assms(2) by (auto simp: tangent_def)
  let ?f = "line_cubic A B l p" and ?x = "l * l - fst p - fst p"
  have "P dvd ?f (fst p)"
    by (rule on_curve_line [OF assms(1)]) simp
  moreover have "P dvd 3 * (fst p * fst p) - A - l * (2 * snd p)"
    using eqm_sym [OF l(1)] by (simp add: eqm_def)
  moreover have "?f ?x = ?f (fst p) + (?x - fst p) * (3 * (fst p * fst p) - A - l * (2 * snd p))"
    by (simp add: line_cubic_def algebra_simps)
  ultimately have "P dvd ?f ?x" by simp
  with l(2) show ?thesis by (rule slope_result_on_curve)
qed

end
