(* ===== verification/Curves.thy ===== *)
theory Curves
  imports FE_Mont Affine
begin

text \<open>
  The curves of \<open>sb_sw_curves.h\<close>, their prime fields and precomputed points, all
  coordinates multiplied by \<open>R = 2 ^ 256\<close>, and the checks that the field constants are what
  the comments there say: the Montgomery constants and the factorisation of \<open>p - 2\<close>. The
  points are checked in \<open>Curve_Points\<close>.
\<close>

subsection \<open>Curve descriptions\<close>

text \<open>\<open>sb_fe_pair_t\<close> and \<open>sb_sw_curve_t\<close>; \<open>p\<close>, \<open>n\<close> and \<open>b\<close> are prefixed here.\<close>

record sb_fe_pair =
  pair_x :: sb_fe
  pair_y :: sb_fe

type_synonym sb_sw_curve_id = "32 word"

definition SB_SW_CURVE_P256 :: sb_sw_curve_id where "SB_SW_CURVE_P256 = 0"
definition SB_SW_CURVE_SECP256K1 :: sb_sw_curve_id where "SB_SW_CURVE_SECP256K1 = 1"

record sb_sw_curve =
  curve_p :: sb_prime_field
  curve_n :: sb_prime_field
  minus_a :: sb_fe
  minus_a_r_over_three :: sb_fe
  curve_b :: sb_fe
  g_r :: sb_fe_pair
  h_r :: sb_fe_pair
  g_h_r :: sb_fe_pair
  dz_r :: sb_fe_pair
  curve_id :: sb_sw_curve_id

definition SB_CURVE_P256_P :: sb_prime_field where
  "SB_CURVE_P256_P =
    \<lparr>prime_p = sb_fe_const 0xFFFFFFFF00000001 0 0xFFFFFFFF 0xFFFFFFFFFFFFFFFF,
     p_mp = 1,
     p_minus_two_f1 = sb_fe_const 0xF04D3168 0xCA47D4443B0552EC 0x999CB770B4B62944 0x6571423119245693,
     p_minus_two_f2 = sb_fe_const 0 0 0 0x110B9592F,
     r2_mod_p = sb_fe_const 0x4FFFFFFFD 0xFFFFFFFFFFFFFFFE 0xFFFFFFFBFFFFFFFF 3,
     r_mod_p = sb_fe_const 0xFFFFFFFE 0xFFFFFFFFFFFFFFFF 0xFFFFFFFF00000000 1,
     bits = 256\<rparr>"

definition SB_CURVE_P256_N :: sb_prime_field where
  "SB_CURVE_P256_N =
    \<lparr>prime_p = sb_fe_const 0xFFFFFFFF00000000 0xFFFFFFFFFFFFFFFF 0xBCE6FAADA7179E84 0xF3B9CAC2FC632551,
     p_mp = 0xCCD1C8AAEE00BC4F,
     p_minus_two_f1 = sb_fe_const 0 0x1E85574166915052 0x945E2FDE9505C722 0x24DC681531C30637,
     p_minus_two_f2 = sb_fe_const 0 0 8 0x6340A6B209A6CDA9,
     r2_mod_p = sb_fe_const 0x66E12D94F3D95620 0x2845B2392B6BEC59 0x4699799C49BD6FA6 0x83244C95BE79EEA2,
     r_mod_p = sb_fe_const 0xFFFFFFFF 0 0x4319055258E8617B 0xC46353D039CDAAF,
     bits = 256\<rparr>"

definition SB_CURVE_P256 :: sb_sw_curve where
  "SB_CURVE_P256 =
    \<lparr>curve_p = SB_CURVE_P256_P,
     curve_n = SB_CURVE_P256_N,
     minus_a = sb_fe_const 0 0 0 3,
     minus_a_r_over_three = r_mod_p SB_CURVE_P256_P,
     curve_b = sb_fe_const 0x5AC635D8AA3A93E7 0xB3EBBD55769886BC 0x651D06B0CC53B0F6 0x3BCE3C3E27D2604B,
     g_r = \<lparr>pair_x = sb_fe_const 0x18905F76A53755C6 0x79FB732B77622510 0x75BA95FC5FEDB601 0x79E730D418A9143C,
       pair_y = sb_fe_const 0x8571FF1825885D85 0xD2E88688DD21F325 0x8B4AB8E4BA19E45C 0xDDF25357CE95560A\<rparr>,
     h_r = \<lparr>pair_x = sb_fe_const 0x3DABB6DD63469FDA 0xD6636C75F0AEE963 0x5E3BDEACE03C7C1E 0x599DE4BA95AEDB71,
       pair_y = sb_fe_const 0xCA44FCA952D8F196 0x7AC346280EA74210 0x77AE0F653969D951 0x3EF12A374A0D7441\<rparr>,
     g_h_r = \<lparr>pair_x = sb_fe_const 0x41FBBA1A1842253C 0x2DDFA21F8A5F4377 0x928D36DAB2C0BD2F 0x2C487DEB40FA32F9,
       pair_y = sb_fe_const 0xD041EE1CCC6223C9 0xCD81EFC57B6F0943 0xC614355C4D10A425 0x3A1739581FCABBB7\<rparr>,
     dz_r = \<lparr>pair_x = sb_fe_const 0x2D0F1BE2B5577CF9 0x8DECDF26C01CE141 0x7E28A0D562D7881 0x8218884B2F38E1D6,
       pair_y = sb_fe_const 0x707320391E7826FA 0x36925B3CB704A1FC 0xE77DA7D78929B20A 0x747C0826CD4F4E7B\<rparr>,
     curve_id = SB_SW_CURVE_P256\<rparr>"

definition SB_CURVE_SECP256K1_P :: sb_prime_field where
  "SB_CURVE_SECP256K1_P =
    \<lparr>prime_p = sb_fe_const 0xFFFFFFFFFFFFFFFF 0xFFFFFFFFFFFFFFFF 0xFFFFFFFFFFFFFFFF 0xFFFFFFFEFFFFFC2F,
     p_mp = 0xD838091DD2253531,
     p_minus_two_f1 = sb_fe_const 0 0 0x37F6FF774E142D5 0xC004A68677B5D811,
     p_minus_two_f2 = sb_fe_const 0 0x49 0x30562E37A2A6A014 0x99B40D0074369E5D,
     r2_mod_p = sb_fe_const 0 0 1 0x7A2000E90A1,
     r_mod_p = sb_fe_const 0 0 0 0x1000003D1,
     bits = 256\<rparr>"

definition SB_CURVE_SECP256K1_N :: sb_prime_field where
  "SB_CURVE_SECP256K1_N =
    \<lparr>prime_p = sb_fe_const 0xFFFFFFFFFFFFFFFF 0xFFFFFFFFFFFFFFFE 0xBAAEDCE6AF48A03B 0xBFD25E8CD0364141,
     p_mp = 0x4B0DFF665588B13F,
     p_minus_two_f1 = sb_fe_const 0x3333333333333333 0x3333333333333332 0xF222F8FAEFDB533F 0x265D461C29A47373,
     p_minus_two_f2 = sb_fe_const 0 0 0 5,
     r2_mod_p = sb_fe_const 0x9D671CD581C69BC5 0xE697F5E45BCD07C6 0x741496C20E7CF878 0x896CF21467D7D140,
     r_mod_p = sb_fe_const 0 1 0x4551231950B75FC4 0x402DA1732FC9BEBF,
     bits = 256\<rparr>"

definition SB_CURVE_SECP256K1 :: sb_sw_curve where
  "SB_CURVE_SECP256K1 =
    \<lparr>curve_p = SB_CURVE_SECP256K1_P,
     curve_n = SB_CURVE_SECP256K1_N,
     minus_a = sb_fe_const 0xFFFFFFFFFFFFFFFF 0xFFFFFFFFFFFFFFFF 0xFFFFFFFFFFFFFFFF 0xFFFFFFFEFFFFFC2F,
     minus_a_r_over_three = prime_p SB_CURVE_SECP256K1_P,
     curve_b = sb_fe_const 0 0 0 7,
     g_r = \<lparr>pair_x = sb_fe_const 0x9981E643E9089F48 0x979F48C033FD129C 0x231E295329BC66DB 0xD7362E5A487E2097,
       pair_y = sb_fe_const 0xCF3F851FD4A582D6 0x70B6B59AAC19C136 0x8DFC5D5D1F1DC64D 0xB15EA6D2D3DBABE2\<rparr>,
     h_r = \<lparr>pair_x = sb_fe_const 0x30A198DEBBCEFCAE 0x537053ECF418BA53 0xD8C36C4D8EC6CE34 0xA381C3D21219CA1C,
       pair_y = sb_fe_const 0xC198D9AFBD3AB7C6 0xA5495A07C2AFCCE5 0xF671D727A3637755 0x446A2AD0C25FF948\<rparr>,
     g_h_r = \<lparr>pair_x = sb_fe_const 0x7BCE0EF2C201767E 0xEC431492C7C96E54 0x15EF56335DF148DB 0xCDA8D7EF632EA0D8,
       pair_y = sb_fe_const 0x3FB97A191E4DE5EA 0xBBA21827B7EFEC04 0xC7B977CC32E0BAA9 0xC374BB2A1315A22F\<rparr>,
     dz_r = \<lparr>pair_x = sb_fe_const 0 0 0 1,
       pair_y = sb_fe_const 0 0 0 1\<rparr>,
     curve_id = SB_SW_CURVE_SECP256K1\<rparr>"

subsection \<open>The field constants\<close>

lemma SB_CURVE_P256_P_val:
  "modulus SB_CURVE_P256_P = 115792089210356248762697446949407573530086143415290314195533631308867097853951"
  "fe_val (p_minus_two_f1 SB_CURVE_P256_P) = 25306705360924812649927177712120345214239788325975219147679503505043"
  "fe_val (p_minus_two_f2 SB_CURVE_P256_P) = 4575549743"
  "fe_val (r_mod_p SB_CURVE_P256_P) = 26959946660873538059280334323183841250350249843923952699046031785985"
  "fe_val (r2_mod_p SB_CURVE_P256_P) = 134799733323198995502561713907086292154532538166959272814710328655875"
  "bits SB_CURVE_P256_P = 256" "uint (p_mp SB_CURVE_P256_P) = 1"
  by (simp_all add: SB_CURVE_P256_P_def sb_fe_const_def fe_val_FE)

lemma SB_CURVE_P256_P_ok: "prime_field_ok SB_CURVE_P256_P"
  unfolding prime_field_ok_def mont_ok_def SB_CURVE_P256_P_val
proof (intro conjI)
  show "odd (115792089210356248762697446949407573530086143415290314195533631308867097853951 :: int)" by simp
  show "(1 :: int) * 115792089210356248762697446949407573530086143415290314195533631308867097853951 mod 2 ^ 64 = 2 ^ 64 - 1"
    by (rule mod_uniqueI [symmetric, where k = 6277101733925179126845168871924920046849447032244165148671]) simp_all
  show "(26959946660873538059280334323183841250350249843923952699046031785985 :: int) = 2 ^ 256 mod 115792089210356248762697446949407573530086143415290314195533631308867097853951"
    by (rule mod_uniqueI [where k = 1]) simp_all
  show "(134799733323198995502561713907086292154532538166959272814710328655875 :: int) = 2 ^ 512 mod 115792089210356248762697446949407573530086143415290314195533631308867097853951"
    by (rule mod_uniqueI [where k = 115792089264276142090721624801893421302618430054073857003285787780261785632771]) simp_all
qed simp_all

lemma SB_CURVE_P256_N_val:
  "modulus SB_CURVE_P256_N = 115792089210356248762697446949407573529996955224135760342422259061068512044369"
  "fe_val (p_minus_two_f1 SB_CURVE_P256_N) = 748369374946705077286656238756326349688533815382857942583"
  "fe_val (p_minus_two_f2 SB_CURVE_P256_N) = 154725852081537076649"
  "fe_val (r_mod_p SB_CURVE_P256_N) = 26959946660873538059280334323273029441504803697035324946844617595567"
  "fe_val (r2_mod_p SB_CURVE_P256_N) = 46533765739406314298121036767150998762426774378559716911348521029833835802274"
  "bits SB_CURVE_P256_N = 256" "uint (p_mp SB_CURVE_P256_N) = 14758798090332847183"
  by (simp_all add: SB_CURVE_P256_N_def sb_fe_const_def fe_val_FE)

lemma SB_CURVE_P256_N_ok: "prime_field_ok SB_CURVE_P256_N"
  unfolding prime_field_ok_def mont_ok_def SB_CURVE_P256_N_val
proof (intro conjI)
  show "odd (115792089210356248762697446949407573529996955224135760342422259061068512044369 :: int)" by simp
  show "(14758798090332847183 :: int) * 115792089210356248762697446949407573529996955224135760342422259061068512044369 mod 2 ^ 64 = 2 ^ 64 - 1"
    by (rule mod_uniqueI [symmetric, where k = 92642477083479937529731757477833778746952469466660261742446881162473064518107]) simp_all
  show "(26959946660873538059280334323273029441504803697035324946844617595567 :: int) = 2 ^ 256 mod 115792089210356248762697446949407573529996955224135760342422259061068512044369"
    by (rule mod_uniqueI [where k = 1]) simp_all
  show "(46533765739406314298121036767150998762426774378559716911348521029833835802274 :: int) = 2 ^ 512 mod 115792089210356248762697446949407573529996955224135760342422259061068512044369"
    by (rule mod_uniqueI [where k = 115792089264276142090721624801893421302707618245269942344307673200490803338238]) simp_all
qed simp_all

lemma SB_CURVE_SECP256K1_P_val:
  "modulus SB_CURVE_SECP256K1_P = 115792089237316195423570985008687907853269984665640564039457584007908834671663"
  "fe_val (p_minus_two_f1 SB_CURVE_SECP256K1_P) = 4649376641383402154113281649655797777"
  "fe_val (p_minus_two_f2 SB_CURVE_SECP256K1_P) = 24904863203954746505398922335188378099293"
  "fe_val (r_mod_p SB_CURVE_SECP256K1_P) = 4294968273"
  "fe_val (r2_mod_p SB_CURVE_SECP256K1_P) = 18446752466076602529"
  "bits SB_CURVE_SECP256K1_P = 256" "uint (p_mp SB_CURVE_SECP256K1_P) = 15580212934572586289"
  by (simp_all add: SB_CURVE_SECP256K1_P_def sb_fe_const_def fe_val_FE)

lemma SB_CURVE_SECP256K1_P_ok: "prime_field_ok SB_CURVE_SECP256K1_P"
  unfolding prime_field_ok_def mont_ok_def SB_CURVE_SECP256K1_P_val
proof (intro conjI)
  show "odd (115792089237316195423570985008687907853269984665640564039457584007908834671663 :: int)" by simp
  show "(15580212934572586289 :: int) * 115792089237316195423570985008687907853269984665640564039457584007908834671663 mod 2 ^ 64 = 2 ^ 64 - 1"
    by (rule mod_uniqueI [symmetric, where k = 97798581649299591516383885342152904135335272353249846763749256112567415731112]) simp_all
  show "(4294968273 :: int) = 2 ^ 256 mod 115792089237316195423570985008687907853269984665640564039457584007908834671663"
    by (rule mod_uniqueI [where k = 1]) simp_all
  show "(18446752466076602529 :: int) = 2 ^ 512 mod 115792089237316195423570985008687907853269984665640564039457584007908834671663"
    by (rule mod_uniqueI [where k = 115792089237316195423570985008687907853269984665640564039457584007917424608209]) simp_all
qed simp_all

lemma SB_CURVE_SECP256K1_N_val:
  "modulus SB_CURVE_SECP256K1_N = 115792089237316195423570985008687907852837564279074904382605163141518161494337"
  "fe_val (p_minus_two_f1 SB_CURVE_SECP256K1_N) = 23158417847463239084714197001737581570567512855814980876521032628303632298867"
  "fe_val (p_minus_two_f2 SB_CURVE_SECP256K1_N) = 5"
  "fe_val (r_mod_p SB_CURVE_SECP256K1_N) = 432420386565659656852420866394968145599"
  "fe_val (r2_mod_p SB_CURVE_SECP256K1_N) = 71195301480278335217902614543643724933430614355449737089222010364394701574464"
  "bits SB_CURVE_SECP256K1_N = 256" "uint (p_mp SB_CURVE_SECP256K1_N) = 5408259542528602431"
  by (simp_all add: SB_CURVE_SECP256K1_N_def sb_fe_const_def fe_val_FE)

lemma SB_CURVE_SECP256K1_N_ok: "prime_field_ok SB_CURVE_SECP256K1_N"
  unfolding prime_field_ok_def mont_ok_def SB_CURVE_SECP256K1_N_val
proof (intro conjI)
  show "odd (115792089237316195423570985008687907852837564279074904382605163141518161494337 :: int)" by simp
  show "(5408259542528602431 :: int) * 115792089237316195423570985008687907852837564279074904382605163141518161494337 mod 2 ^ 64 = 2 ^ 64 - 1"
    by (rule mod_uniqueI [symmetric, where k = 33948195359827866537682474845950073316223388546971052506426809744093962168027]) simp_all
  show "(432420386565659656852420866394968145599 :: int) = 2 ^ 256 mod 115792089237316195423570985008687907852837564279074904382605163141518161494337"
    by (rule mod_uniqueI [where k = 1]) simp_all
  show "(71195301480278335217902614543643724933430614355449737089222010364394701574464 :: int) = 2 ^ 512 mod 115792089237316195423570985008687907852837564279074904382605163141518161494337"
    by (rule mod_uniqueI [where k = 115792089237316195423570985008687907853702405052206223696310004874308097785536]) simp_all
qed simp_all

subsection \<open>The precomputed points\<close>

definition point_val :: "sb_prime_field \<Rightarrow> sb_fe_pair \<Rightarrow> affine" where
  "point_val F q = (mval F (pair_x q), mval F (pair_y q))"

definition curve_on :: "sb_sw_curve \<Rightarrow> affine \<Rightarrow> bool" where
  "curve_on C = on_curve (modulus (curve_p C)) (fe_val (minus_a C)) (fe_val (curve_b C))"

lemma mval_eqI:
  assumes "prime_field_ok F" "0 \<le> v" "v < modulus F" "v * 2 ^ 256 = fe_val x + modulus F * k"
  shows "mval F x = v"
proof -
  have "fe_val x mod modulus F = (v * 2 ^ 256) mod modulus F"
    by (simp only: assms(4) mod_mult_self2)
  then have "mval F x = (v * 2 ^ 256 * rinv (modulus F)) mod modulus F"
    unfolding mval_def by (metis mod_mult_left_eq)
  also have "\<dots> = (v * ((2 ^ 256 * rinv (modulus F)) mod modulus F)) mod modulus F"
    unfolding mod_mult_right_eq by (simp only: ac_simps)
  also have "\<dots> = v"
    unfolding rinv_inverse [OF prime_field_okD(2) [OF assms(1)]]
    using assms(2,3) by (simp add: mod_mult_right_eq)
  finally show ?thesis .
qed

lemma SB_CURVE_P256_coeffs:
  "fe_val (minus_a SB_CURVE_P256) = 3" "fe_val (curve_b SB_CURVE_P256) = 41058363725152142129326129780047268409114441015993725554835256314039467401291"
  "curve_p SB_CURVE_P256 = SB_CURVE_P256_P" "curve_n SB_CURVE_P256 = SB_CURVE_P256_N"
  by (simp_all add: SB_CURVE_P256_def sb_fe_const_def fe_val_FE)

lemma SB_CURVE_P256_minus_a_r_over_three:
  "mval SB_CURVE_P256_P (minus_a_r_over_three SB_CURVE_P256) = 1"
  "quasi_reduced SB_CURVE_P256_P (minus_a_r_over_three SB_CURVE_P256)"
  "quasi_reduced SB_CURVE_P256_P (minus_a SB_CURVE_P256)" "quasi_reduced SB_CURVE_P256_P (curve_b SB_CURVE_P256)"
  "quasi_reduced SB_CURVE_P256_P (pair_x (g_r SB_CURVE_P256))" "quasi_reduced SB_CURVE_P256_P (pair_y (g_r SB_CURVE_P256))"
  "quasi_reduced SB_CURVE_P256_P (pair_x (h_r SB_CURVE_P256))" "quasi_reduced SB_CURVE_P256_P (pair_y (h_r SB_CURVE_P256))"
  "quasi_reduced SB_CURVE_P256_P (pair_x (g_h_r SB_CURVE_P256))" "quasi_reduced SB_CURVE_P256_P (pair_y (g_h_r SB_CURVE_P256))"
  "quasi_reduced SB_CURVE_P256_P (pair_x (dz_r SB_CURVE_P256))" "quasi_reduced SB_CURVE_P256_P (pair_y (dz_r SB_CURVE_P256))"
  by (simp_all add: SB_CURVE_P256_def quasi_reduced_def SB_CURVE_P256_P_val sb_fe_const_def fe_val_FE mval_r_mod_p [OF SB_CURVE_P256_P_ok])

lemma SB_CURVE_SECP256K1_coeffs:
  "fe_val (minus_a SB_CURVE_SECP256K1) = 115792089237316195423570985008687907853269984665640564039457584007908834671663" "fe_val (curve_b SB_CURVE_SECP256K1) = 7"
  "curve_p SB_CURVE_SECP256K1 = SB_CURVE_SECP256K1_P" "curve_n SB_CURVE_SECP256K1 = SB_CURVE_SECP256K1_N"
  by (simp_all add: SB_CURVE_SECP256K1_def sb_fe_const_def fe_val_FE)

lemma SB_CURVE_SECP256K1_minus_a_r_over_three:
  "mval SB_CURVE_SECP256K1_P (minus_a_r_over_three SB_CURVE_SECP256K1) = 0"
  "quasi_reduced SB_CURVE_SECP256K1_P (minus_a_r_over_three SB_CURVE_SECP256K1)"
  "quasi_reduced SB_CURVE_SECP256K1_P (minus_a SB_CURVE_SECP256K1)" "quasi_reduced SB_CURVE_SECP256K1_P (curve_b SB_CURVE_SECP256K1)"
  "quasi_reduced SB_CURVE_SECP256K1_P (pair_x (g_r SB_CURVE_SECP256K1))" "quasi_reduced SB_CURVE_SECP256K1_P (pair_y (g_r SB_CURVE_SECP256K1))"
  "quasi_reduced SB_CURVE_SECP256K1_P (pair_x (h_r SB_CURVE_SECP256K1))" "quasi_reduced SB_CURVE_SECP256K1_P (pair_y (h_r SB_CURVE_SECP256K1))"
  "quasi_reduced SB_CURVE_SECP256K1_P (pair_x (g_h_r SB_CURVE_SECP256K1))" "quasi_reduced SB_CURVE_SECP256K1_P (pair_y (g_h_r SB_CURVE_SECP256K1))"
  "quasi_reduced SB_CURVE_SECP256K1_P (pair_x (dz_r SB_CURVE_SECP256K1))" "quasi_reduced SB_CURVE_SECP256K1_P (pair_y (dz_r SB_CURVE_SECP256K1))"
  by (simp_all add: SB_CURVE_SECP256K1_def quasi_reduced_def SB_CURVE_SECP256K1_P_val sb_fe_const_def fe_val_FE mval_def)

end
