(* ===== verification/Field_Claims.thy ===== *)
theory Field_Claims
  imports Curves
begin

text \<open>
  The properties of the field layer. \<open>tiny_field\<close> is the prime field modulo 7 with constants
  in the form of \<open>sb_prime_field_t\<close>; its primality is provable by computation, which makes it
  the concrete field for the properties that need a prime modulus.
\<close>

definition tiny_field :: sb_prime_field where
  "tiny_field =
    \<lparr>prime_p = sb_fe_const 0 0 0 7, p_mp = 0x9249249249249249,
     p_minus_two_f1 = sb_fe_const 0 0 0 5, p_minus_two_f2 = sb_fe_const 0 0 0 1,
     r2_mod_p = sb_fe_const 0 0 0 4, r_mod_p = sb_fe_const 0 0 0 2, bits = 4\<rparr>"

lemma tiny_field_val:
  "modulus tiny_field = 7" "fe_val (p_minus_two_f1 tiny_field) = 5"
  "fe_val (p_minus_two_f2 tiny_field) = 1" "fe_val (r_mod_p tiny_field) = 2"
  "fe_val (r2_mod_p tiny_field) = 4" "bits tiny_field = 4"
  "uint (p_mp tiny_field) = 0x9249249249249249"
  by (simp_all add: tiny_field_def sb_fe_const_def fe_val_FE)

lemma tiny_field_ok: "prime_field_ok tiny_field"
  unfolding prime_field_ok_def mont_ok_def tiny_field_val by simp

lemma prime_modulus_7: "prime_modulus 7"
proof -
  have "d = 1 \<or> d = 7" if "0 < d" "d dvd 7" for d :: int
  proof -
    have "d \<le> 7" using that by (auto dest: zdvd_imp_le)
    with that have "d \<in> {1, 2, 3, 4, 5, 6, 7}" by auto
    with that(2) show ?thesis by auto
  qed
  then show ?thesis by (simp add: prime_modulus_def)
qed

lemma tiny_quasi_reduced: "quasi_reduced tiny_field (sb_fe_const 0 0 0 2)"
  by (simp add: quasi_reduced_def tiny_field_val sb_fe_const_def fe_val_FE)

text \<open>
  C25: \<open>sb_fe_mont_mult\<close> (Montgomery multiplication by words, with the carry bit and the final
  quasi-reduction) returns the quasi-reduced representative of \<open>x y R\<^sup>-\<^sup>1 mod p\<close>, for every pair
  of quasi-reduced operands and every odd modulus with matching \<open>p_mp\<close>.
\<close>

theorem mont_mult_exact:
  assumes "mont_ok p" "quasi_reduced p x" "quasi_reduced p y"
  shows "fe_val (sb_fe_mont_mult x y p) = qrep (modulus p) (fe_val x * fe_val y * rinv (modulus p))
    \<and> (2 ^ 256 * fe_val (sb_fe_mont_mult x y p)) mod modulus p = (fe_val x * fe_val y) mod modulus p
    \<and> quasi_reduced p (sb_fe_mont_mult x y p)"
proof (intro conjI)
  let ?P = "modulus p"
  have odd: "odd ?P" using assms(1) by (simp add: mont_ok_def)
  show v: "fe_val (sb_fe_mont_mult x y p) = qrep ?P (fe_val x * fe_val y * rinv ?P)"
    by (rule sb_fe_mont_mult_val [OF assms])
  show "quasi_reduced p (sb_fe_mont_mult x y p)"
    by (rule mont_qr [OF assms])
  have "(2 ^ 256 * fe_val (sb_fe_mont_mult x y p)) mod ?P
      = (2 ^ 256 * (fe_val x * fe_val y * rinv ?P)) mod ?P"
    unfolding v by (metis mod_mult_right_eq qrep_mod)
  also have "\<dots> = (fe_val x * fe_val y * ((2 ^ 256 * rinv ?P) mod ?P)) mod ?P"
    unfolding mod_mult_right_eq by (simp only: ac_simps)
  finally show "(2 ^ 256 * fe_val (sb_fe_mont_mult x y p)) mod ?P = (fe_val x * fe_val y) mod ?P"
    unfolding rinv_inverse [OF odd] by (simp add: mod_mult_right_eq)
qed

theorem mont_mult_exact_witness:
  "(2 ^ 256 * fe_val (sb_fe_mont_mult (pair_x (g_r SB_CURVE_P256)) (pair_y (g_r SB_CURVE_P256)) SB_CURVE_P256_P))
      mod modulus SB_CURVE_P256_P
    = (fe_val (pair_x (g_r SB_CURVE_P256)) * fe_val (pair_y (g_r SB_CURVE_P256))) mod modulus SB_CURVE_P256_P"
  using mont_mult_exact [OF prime_field_okD(1) [OF SB_CURVE_P256_P_ok]
      SB_CURVE_P256_minus_a_r_over_three(5,6)] by blast

text \<open>
  C26: the modular operations on quasi-reduced elements return exactly the quasi-reduced
  representative of the sum, difference, negation and double, and halving returns an element
  whose double is the operand.
\<close>

theorem mod_operations_exact:
  assumes "quasi_reduced p x" "quasi_reduced p y" "odd (modulus p)"
  shows "fe_val (sb_fe_mod_add x y p) = qrep (modulus p) (fe_val x + fe_val y)
    \<and> fe_val (sb_fe_mod_sub x y p) = qrep (modulus p) (fe_val x - fe_val y)
    \<and> fe_val (sb_fe_mod_negate x p) = qrep (modulus p) (- fe_val x)
    \<and> fe_val (sb_fe_mod_double x p) = qrep (modulus p) (2 * fe_val x)
    \<and> fe_val (sb_fe_mod_reduce_full x p) = fe_val x mod modulus p
    \<and> quasi_reduced p (fst (sb_fe_mod_halve x p))
    \<and> 2 * fe_val (fst (sb_fe_mod_halve x p)) mod modulus p = fe_val x mod modulus p"
  using assms sb_fe_mod_halve_double [OF assms(1,3)] by (simp add: fe_simps)

theorem mod_operations_exact_witness:
  "fe_val (sb_fe_mod_sub (sb_fe_const 0 0 0 2) (sb_fe_const 0 0 0 2) tiny_field)
    = qrep (modulus tiny_field) (fe_val (sb_fe_const 0 0 0 2) - fe_val (sb_fe_const 0 0 0 2))"
  using mod_operations_exact [OF tiny_quasi_reduced tiny_quasi_reduced
      prime_field_okD(2) [OF tiny_field_ok]] by blast

text \<open>
  \<open>sb_fe_mod_reduce\<close> quasi-reduces every value below \<open>2 p\<close>; the moduli of both curves
  exceed \<open>2 ^ 255\<close>, so for them this is every 256-bit value.
\<close>

theorem mod_reduce_every_value:
  assumes "p \<in> {SB_CURVE_P256_P, SB_CURVE_P256_N, SB_CURVE_SECP256K1_P, SB_CURVE_SECP256K1_N}"
  shows "fe_val (sb_fe_mod_reduce x p) = qrep (modulus p) (fe_val x)
    \<and> quasi_reduced p (sb_fe_mod_reduce x p)"
proof -
  have "fe_val x < 2 * modulus p"
    using assms fe_val_bound [of x]
    by (auto simp: SB_CURVE_P256_P_val SB_CURVE_P256_N_val SB_CURVE_SECP256K1_P_val
        SB_CURVE_SECP256K1_N_val)
  then show ?thesis
    by (simp add: sb_fe_mod_reduce_val quasi_reduced_ops)
qed

theorem mod_reduce_every_value_witness:
  "quasi_reduced SB_CURVE_P256_N (sb_fe_mod_reduce SB_FE_ZERO SB_CURVE_P256_N)"
  using mod_reduce_every_value [of SB_CURVE_P256_N SB_FE_ZERO] by simp

text \<open>
  C27: \<open>sb_fe_mod_inv_r\<close> inverts: for a field with correct constants and a prime modulus the
  product of a nonzero element with its inverse is one in the Montgomery domain.
\<close>

theorem mod_inv_inverts:
  assumes "prime_field_ok p" "prime_modulus (modulus p)" "quasi_reduced p x" "mval p x \<noteq> 0"
  shows "(mval p x * mval p (fst (sb_fe_mod_inv_r x p t3))) mod modulus p = 1
    \<and> quasi_reduced p (fst (sb_fe_mod_inv_r x p t3))"
  using sb_fe_mod_inv_r_inverse [OF assms(1,3) fermat_at_mval [OF assms(1,2,4)]]
    sb_fe_mod_inv_r_val(2) [OF assms(1,3)] by blast

theorem mod_inv_inverts_witness:
  "(mval tiny_field (sb_fe_const 0 0 0 2)
      * mval tiny_field (fst (sb_fe_mod_inv_r (sb_fe_const 0 0 0 2) tiny_field SB_FE_ZERO)))
     mod modulus tiny_field = 1"
proof -
  have "mval tiny_field (sb_fe_const 0 0 0 2) = mval tiny_field (r_mod_p tiny_field)"
    by (simp add: tiny_field_def)
  then have "mval tiny_field (sb_fe_const 0 0 0 2) \<noteq> 0"
    by (simp add: mval_r_mod_p [OF tiny_field_ok])
  then show ?thesis
    using mod_inv_inverts [OF tiny_field_ok _ tiny_quasi_reduced, of SB_FE_ZERO] prime_modulus_7
    by (simp add: tiny_field_val)
qed

text \<open>
  C28: \<open>sb_fe_mod_sqrt\<close> decides quadratic residuosity: it returns true exactly when its
  operand is a square modulo the prime, and then its result is a root.
\<close>

theorem mod_sqrt_decides:
  assumes "prime_field_ok p" "prime_modulus (modulus p)" "modulus p mod 4 = 3"
    and "modulus p + 1 < 2 ^ unat (bits p)" "quasi_reduced p x"
  shows "case sb_fe_mod_sqrt x t1 t2 t3 p of (rv, x', rest) \<Rightarrow>
      (rv \<longleftrightarrow> (\<exists>z. (z * z) mod modulus p = fe_val x mod modulus p))
      \<and> (rv \<longleftrightarrow> (fe_val x' * fe_val x') mod modulus p = fe_val x mod modulus p)
      \<and> quasi_reduced p x'"
proof -
  obtain rv x' rest where r: "sb_fe_mod_sqrt x t1 t2 t3 p = (rv, x', rest)"
    by (metis prod_cases3)
  from sb_fe_mod_sqrt_val [OF assms(1,5,3,4,2) r] show ?thesis
    unfolding r by simp
qed

theorem mod_sqrt_decides_witness:
  "case sb_fe_mod_sqrt (sb_fe_const 0 0 0 2) SB_FE_ZERO SB_FE_ZERO SB_FE_ZERO tiny_field of
     (rv, x', rest) \<Rightarrow> rv \<and> (fe_val x' * fe_val x') mod 7 = 2"
proof -
  have "\<exists>z :: int. (z * z) mod 7 = 2"
    by (rule exI [where x = 3]) simp
  then show ?thesis
    using mod_sqrt_decides [OF tiny_field_ok _ _ _ tiny_quasi_reduced, of SB_FE_ZERO SB_FE_ZERO SB_FE_ZERO]
      prime_modulus_7
    by (simp add: tiny_field_val sb_fe_const_def fe_val_FE split: prod.splits)
qed

text \<open>
  C29: byte conversion: \<open>sb_fe_from_bytes\<close> reads the 32 bytes as a number in the given byte
  order, \<open>sb_fe_to_bytes\<close> writes it, and the two are inverse to each other.
\<close>

theorem fe_bytes_roundtrip:
  assumes "length src = 32"
  shows "fe_val (sb_fe_from_bytes src e) = be_val (in_order e src)
    \<and> be_val (in_order e (sb_fe_to_bytes a e)) = fe_val a
    \<and> sb_fe_from_bytes (sb_fe_to_bytes a e) e = a
    \<and> sb_fe_to_bytes (sb_fe_from_bytes src e) e = src"
  using assms by (simp add: sb_fe_from_bytes_val sb_fe_to_bytes_val sb_fe_to_from_bytes)

theorem fe_bytes_roundtrip_witness:
  "sb_fe_to_bytes (sb_fe_from_bytes (replicate 31 0 @ [5]) SB_DATA_ENDIAN_LITTLE) SB_DATA_ENDIAN_LITTLE
    = replicate 31 0 @ [5]"
  using fe_bytes_roundtrip [of "replicate 31 0 @ [5]"] by simp

text \<open>
  C30: the multi-word primitives compute on 256-bit numbers with exact carries and borrows:
  addition, subtraction with borrow, comparison, equality, conditional subtraction and swap.
\<close>

theorem fe_words_exact:
  "fe_val (fst (sb_fe_add l r)) + 2 ^ 256 * uint (snd (sb_fe_add l r)) = fe_val l + fe_val r
   \<and> fe_val (fst (sb_fe_sub l r)) - 2 ^ 256 * uint (snd (sb_fe_sub l r)) = fe_val l - fe_val r
   \<and> sb_fe_lt l r = of_bool (fe_val l < fe_val r)
   \<and> sb_fe_equal l r = of_bool (fe_val l = fe_val r)
   \<and> sb_fe_cond_sub_p l (of_bool c) r = (if c then fst (sb_fe_sub l r) else l)
   \<and> sb_fe_ctswap (of_bool c) l r = (if c then (r, l) else (l, r))"
proof (intro conjI)
  note b = fe_val_bound [of l] fe_val_bound [of r] fe_val_nonneg [of l] fe_val_nonneg [of r]
  show "fe_val (fst (sb_fe_add l r)) + 2 ^ 256 * uint (snd (sb_fe_add l r)) = fe_val l + fe_val r"
  proof (cases "2 ^ 256 \<le> fe_val l + fe_val r")
    case True
    have "fe_val l + fe_val r - 2 ^ 256 = (fe_val l + fe_val r) mod 2 ^ 256"
      by (rule mod_uniqueI [where k = 1]) (use True b in simp_all)
    with True show ?thesis by (simp add: sb_fe_add_val)
  next
    case False
    with b show ?thesis by (simp add: sb_fe_add_val mod_pos_pos_trivial)
  qed
  show "fe_val (fst (sb_fe_sub l r)) - 2 ^ 256 * uint (snd (sb_fe_sub l r)) = fe_val l - fe_val r"
  proof (cases "fe_val l < fe_val r")
    case True
    have "fe_val l - fe_val r + 2 ^ 256 = (fe_val l - fe_val r) mod 2 ^ 256"
      by (rule mod_uniqueI [where k = "-1"]) (use True b in simp_all)
    with True show ?thesis by (simp add: sb_fe_sub_val)
  next
    case False
    with b show ?thesis by (simp add: sb_fe_sub_val mod_pos_pos_trivial)
  qed
qed (simp_all add: sb_fe_lt_val sb_fe_equal_val sb_fe_cond_sub_p_if sb_fe_ctswap_if)

text \<open>
  The constants of the four prime fields are correct: odd modulus, Montgomery constants
  \<open>-p\<^sup>-\<^sup>1\<close>, \<open>R mod p\<close>, \<open>R\<^sup>2 mod p\<close>, the factorisation of \<open>p - 2\<close> and the bit length.
\<close>

theorem field_constants:
  "prime_field_ok SB_CURVE_P256_P \<and> prime_field_ok SB_CURVE_P256_N
   \<and> prime_field_ok SB_CURVE_SECP256K1_P \<and> prime_field_ok SB_CURVE_SECP256K1_N"
  by (simp add: SB_CURVE_P256_P_ok SB_CURVE_P256_N_ok SB_CURVE_SECP256K1_P_ok SB_CURVE_SECP256K1_N_ok)

end
