(* ===== verification/Sha256_Spec.thy ===== *)
theory Sha256_Spec
  imports Sha256
begin

text \<open>
  SHA-256 as FIPS 180-4 states it, and the proof that \<open>sb_sha256.c\<close> refines it. The
  reference has the full message schedule, working variables that move instead of a
  rotating index, explicit padding and no buffer. The round constants and the initial
  hash value are those of the code; \<open>Sha256_Vectors\<close> checks them against the definition in
  the standard (fractional parts of roots of primes).
\<close>

subsection \<open>Reference\<close>

definition fips_ch :: "sha_word \<Rightarrow> sha_word \<Rightarrow> sha_word \<Rightarrow> sha_word" where
  "fips_ch x y z = (x AND y) XOR (NOT x AND z)"

definition fips_maj :: "sha_word \<Rightarrow> sha_word \<Rightarrow> sha_word \<Rightarrow> sha_word" where
  "fips_maj x y z = (x AND y) XOR (x AND z) XOR (y AND z)"

definition fips_Sigma0 :: "sha_word \<Rightarrow> sha_word" where
  "fips_Sigma0 x = word_rotr 2 x XOR word_rotr 13 x XOR word_rotr 22 x"

definition fips_Sigma1 :: "sha_word \<Rightarrow> sha_word" where
  "fips_Sigma1 x = word_rotr 6 x XOR word_rotr 11 x XOR word_rotr 25 x"

definition fips_sigma0 :: "sha_word \<Rightarrow> sha_word" where
  "fips_sigma0 x = word_rotr 7 x XOR word_rotr 18 x XOR drop_bit 3 x"

definition fips_sigma1 :: "sha_word \<Rightarrow> sha_word" where
  "fips_sigma1 x = word_rotr 17 x XOR word_rotr 19 x XOR drop_bit 10 x"

text \<open>The \<open>t\<close>-th word of a block is a big-endian number.\<close>

definition fips_word :: "sb_byte list \<Rightarrow> nat \<Rightarrow> sha_word" where
  "fips_word M t = word_of_int (be_val (take 4 (drop (4 * t) M)))"

fun fips_W :: "sb_byte list \<Rightarrow> nat \<Rightarrow> sha_word" where
  "fips_W M t =
     (if t < 16 then fips_word M t
      else fips_sigma1 (fips_W M (t - 2)) + fips_W M (t - 7) +
           fips_sigma0 (fips_W M (t - 15)) + fips_W M (t - 16))"

declare fips_W.simps [simp del]

text \<open>The working variables \<open>a\<close> to \<open>h\<close> are a list of eight words.\<close>

definition fips_round :: "sb_byte list \<Rightarrow> nat \<Rightarrow> sha_word list \<Rightarrow> sha_word list" where
  "fips_round M t v =
     (let T1 = v ! 7 + fips_Sigma1 (v ! 4) + fips_ch (v ! 4) (v ! 5) (v ! 6) + sha_K ! t + fips_W M t;
          T2 = fips_Sigma0 (v ! 0) + fips_maj (v ! 0) (v ! 1) (v ! 2)
      in [T1 + T2, v ! 0, v ! 1, v ! 2, v ! 3 + T1, v ! 4, v ! 5, v ! 6])"

definition fips_compress :: "sha_word list \<Rightarrow> sb_byte list \<Rightarrow> sha_word list" where
  "fips_compress H M = map2 (+) H (fold (fips_round M) [0..<64] H)"

function fips_blocks :: "sha_word list \<Rightarrow> sb_byte list \<Rightarrow> sha_word list" where
  "fips_blocks H msg =
     (if length msg < 64 then H
      else fips_blocks (fips_compress H (take 64 msg)) (drop 64 msg))"
  by pat_completeness auto

termination by (relation "measure (\<lambda>(H, msg). length msg)") auto

declare fips_blocks.simps [simp del]

definition be64 :: "nat \<Rightarrow> sb_byte list" where
  "be64 n = map (\<lambda>i. of_nat (n div 256 ^ (7 - i))) [0..<8]"

definition fips_pad :: "sb_byte list \<Rightarrow> sb_byte list" where
  "fips_pad msg =
     msg @ [0x80] @ replicate ((119 - length msg mod 64) mod 64) 0 @ be64 (8 * length msg)"

definition sha256 :: "sb_byte list \<Rightarrow> sb_byte list" where
  "sha256 msg =
     concat (map sb_sha256_word_set (fips_blocks sb_sha256_init_state (fips_pad msg)))"

subsection \<open>The word functions agree\<close>

lemma ROTR_eq:
  assumes "0 < n" "n < 32"
  shows "ROTR n x = word_rotr n x"
proof (rule bit_word_eqI)
  fix i assume "i < LENGTH(32)"
  then have i: "i < 32" by simp
  show "bit (ROTR n x) i = bit (word_rotr n x) i"
  proof (cases "i + n < 32")
    case True
    with i assms show ?thesis
      by (auto simp: ROTR_def SHR_def bit_simps add.commute)
  next
    case False
    then have "\<not> bit x (i + n)"
      using bit_imp_le_length [of x "i + n"] by auto
    moreover have "(i + n) mod 32 = i - (32 - n)"
      using False i assms by (simp add: mod_if)
    ultimately show ?thesis
      using False i assms by (auto simp: ROTR_def SHR_def bit_simps add.commute)
  qed
qed

lemma CH_eq: "CH x y z = fips_ch x y z"
  by (rule bit_word_eqI) (auto simp: CH_def fips_ch_def bit_simps)

lemma MAJ_eq: "MAJ x y z = fips_maj x y z"
  by (rule bit_word_eqI) (auto simp: MAJ_def fips_maj_def bit_simps)

lemma SIG_eq:
  "BSIG0 x = fips_Sigma0 x" "BSIG1 x = fips_Sigma1 x"
  "SSIG0 x = fips_sigma0 x" "SSIG1 x = fips_sigma1 x"
  by (simp_all add: BSIG0_def BSIG1_def SSIG0_def SSIG1_def fips_Sigma0_def fips_Sigma1_def
      fips_sigma0_def fips_sigma1_def ROTR_eq SHR_def)

lemma uint_or_parts:
  fixes a b :: sha_word
  assumes "a AND b = 0" "uint a + uint b < 2 ^ 32"
  shows "uint (a OR b) = uint a + uint b"
proof -
  have "a OR b = a + b"
    by (rule disjunctive_add [symmetric]) (use assms(1) in \<open>metis bit_and_iff bit_0_eq bot_apply bot_bool_def\<close>)
  with assms(2) show ?thesis
    by (simp add: uint_word_ariths)
qed

lemma uint_byte_shift:
  assumes "n \<le> 24"
  shows "uint (push_bit n (ucast (b :: sb_byte)) :: sha_word) = uint b * 2 ^ n"
proof -
  have "uint b * 2 ^ n \<le> 255 * 2 ^ 24"
    using assms uint_byte_bound [of b] by (intro mult_mono power_increasing) auto
  then have "uint b * 2 ^ n < 2 ^ 32" by simp
  then have "take_bit 32 (uint b * 2 ^ n) = uint b * 2 ^ n"
    by (simp add: take_bit_int_eq_self_iff)
  then show ?thesis
    by (simp only: unsigned_push_bit_eq) (simp add: push_bit_eq_mult uint_up_ucast is_up)
qed

lemma shift_disjoint:
  assumes "uint x < 2 ^ m"
  shows "push_bit m y AND (x :: sha_word) = 0"
proof (rule bit_word_eqI)
  fix k
  have "take_bit m (uint x) = uint x"
    using assms by (simp add: take_bit_int_eq_self_iff)
  then have "bit (uint x) k \<Longrightarrow> k < m"
    by (metis bit_take_bit_iff)
  then show "bit (push_bit m y AND x) k = bit (0 :: sha_word) k"
    by (auto simp: bit_simps)
qed

lemma uint_shift_or:
  assumes "uint x < 2 ^ m" "m \<le> 24"
  shows "uint (push_bit m (ucast (b :: sb_byte)) OR x :: sha_word) = uint b * 2 ^ m + uint x"
proof -
  have "uint b * 2 ^ m + uint x < (uint b + 1) * 2 ^ m"
    using assms(1) by (simp add: algebra_simps)
  also have "\<dots> \<le> 256 * 2 ^ 24"
    using assms(2) uint_byte_bound [of b] by (intro mult_mono power_increasing) auto
  finally show ?thesis
    using uint_or_parts [OF shift_disjoint [OF assms(1)], of "ucast b"]
    by (simp add: uint_byte_shift [OF assms(2)])
qed

lemma sb_sha256_word_uint:
  fixes a b c d :: sb_byte
  shows "uint (push_bit 24 (ucast a) OR push_bit 16 (ucast b) OR push_bit 8 (ucast c) OR ucast d :: sha_word)
    = be_val [a, b, c, d]"
proof -
  note bd = uint_byte_bound [of b] uint_byte_bound [of c] uint_byte_bound [of d]
  have d: "uint (ucast d :: sha_word) = uint d"
    by (simp add: uint_up_ucast is_up)
  have c: "uint (push_bit 8 (ucast c) OR ucast d :: sha_word) = uint c * 2 ^ 8 + uint d"
    using bd by (subst uint_shift_or) (simp_all add: d)
  have b: "uint (push_bit 16 (ucast b) OR push_bit 8 (ucast c) OR ucast d :: sha_word)
      = uint b * 2 ^ 16 + (uint c * 2 ^ 8 + uint d)"
    using bd by (subst uint_shift_or) (simp_all only: c, simp_all)
  show ?thesis
    using bd by (subst uint_shift_or) (simp_all only: b, simp_all add: be_val_Cons)
qed

lemma sb_sha256_word_eq:
  assumes "length M = 64" "t < 16"
  shows "sb_sha256_word M t = fips_word M t"
proof -
  have d: "take 4 (drop (4 * t) M) = [M ! (4 * t), M ! (4 * t + 1), M ! (4 * t + 2), M ! (4 * t + 3)]"
    using assms by (intro nth_equalityI) (auto simp: less_Suc_eq numeral_eq_Suc nth_Cons split: nat.splits)
  have "sb_sha256_word M t = word_of_int (uint (sb_sha256_word M t))" by simp
  also have "\<dots> = fips_word M t"
    unfolding fips_word_def d sb_sha256_word_def sb_sha256_word_uint ..
  finally show ?thesis .
qed

subsection \<open>One block\<close>

definition rot_ok :: "nat \<Rightarrow> sha_word list \<Rightarrow> sha_word list \<Rightarrow> bool" where
  "rot_ok t ah v \<longleftrightarrow> length ah = 8 \<and> length v = 8 \<and>
     (\<forall>i<8. ah ! ((i + (64 - t)) mod 8) = v ! i)"

definition win_ok :: "sb_byte list \<Rightarrow> nat \<Rightarrow> sha_word list \<Rightarrow> bool" where
  "win_ok M t W \<longleftrightarrow> length W = 16 \<and> (\<forall>j<t. t \<le> j + 16 \<longrightarrow> W ! (j mod 16) = fips_W M j)"

lemma sha_round_W_eq:
  assumes "length M = 64" "win_ok M t W"
  shows "sha_round_W M t W = fips_W M t"
proof (cases "t < 16")
  case True
  with assms show ?thesis
    by (simp add: sha_round_W_def fips_W.simps [of M t] sb_sha256_word_eq)
next
  case False
  have "W ! ((16 - k + t) mod 16) = fips_W M (t - k)" if "1 \<le> k" "k \<le> 16" for k
  proof -
    have "(16 - k + t) mod 16 = (t - k) mod 16"
    proof -
      have "16 - k + t = (t - k) + 16" using that False by simp
      then show ?thesis by simp
    qed
    with assms(2) that False show ?thesis by (simp add: win_ok_def)
  qed
  note w = this [of 2] this [of 7] this [of 15] this [of 16]
  from False w show ?thesis
    by (simp add: sha_round_W_def fips_W.simps [of M t] SIG_eq)
qed

lemma mod_neq_close: "j < t \<Longrightarrow> t < j + m \<Longrightarrow> j mod m \<noteq> t mod (m :: nat)"
  using mod_eq_dvd_iff_nat [of j t m] by (auto dest: dvd_imp_le)

lemma win_ok_step:
  assumes "win_ok M t W"
  shows "win_ok M (Suc t) (W[(16 + t) mod 16 := fips_W M t])"
proof -
  have "(W[t mod 16 := fips_W M t]) ! (j mod 16) = fips_W M j"
    if "j < Suc t" "Suc t \<le> j + 16" for j
  proof (cases "j = t")
    case True
    with assms show ?thesis by (simp add: win_ok_def)
  next
    case False
    with that have "j mod 16 \<noteq> t mod 16" by (intro mod_neq_close) auto
    with that False assms show ?thesis by (simp add: win_ok_def)
  qed
  with assms show ?thesis by (simp add: win_ok_def)
qed

lemma rot_index_inj:
  "i < 8 \<Longrightarrow> j < 8 \<Longrightarrow> ((i + s) mod 8 = (j + s) mod 8) \<longleftrightarrow> i = (j :: nat)"
  using mod_neq_close [of "i + s" "j + s" 8] mod_neq_close [of "j + s" "i + s" 8]
  by (cases i j rule: linorder_cases) auto

lemma rot_index_Suc:
  assumes "t < 64"
  shows "(Suc i + (64 - Suc t)) mod 8 = (i + (64 - t)) mod 8"
    and "(0 + (64 - Suc t)) mod 8 = (7 + (64 - t)) mod 8"
proof -
  show "(Suc i + (64 - Suc t)) mod 8 = (i + (64 - t)) mod 8"
    using assms by (metis Suc_diff_Suc add_Suc add_Suc_right)
  have "7 + (64 - t) = (64 - Suc t) + 8" using assms by simp
  then show "(0 + (64 - Suc t)) mod 8 = (7 + (64 - t)) mod 8"
    by (simp only: mod_add_self2 add_0)
qed

lemma rot_ok_step:
  assumes "rot_ok t ah v" "t < 64"
  shows "rot_ok (Suc t) ((ah[(3 + (64 - t)) mod 8 := x])[(7 + (64 - t)) mod 8 := y])
    [y, v ! 0, v ! 1, v ! 2, x, v ! 4, v ! 5, v ! 6]"
proof -
  let ?ah = "(ah[(3 + (64 - t)) mod 8 := x])[(7 + (64 - t)) mod 8 := y]"
  let ?v = "[y, v ! 0, v ! 1, v ! 2, x, v ! 4, v ! 5, v ! 6]"
  have l: "length ah = 8" using assms(1) by (simp add: rot_ok_def)
  have old: "?ah ! ((i + (64 - t)) mod 8) = (if i = 7 then y else if i = 3 then x else v ! i)"
    if "i < 8" for i
    using that assms(1) l by (auto simp: rot_ok_def nth_list_update rot_index_inj)
  have "?ah ! ((i + (64 - Suc t)) mod 8) = ?v ! i" if "i < 8" for i
  proof (cases i)
    case 0
    show ?thesis
      unfolding 0 rot_index_Suc(2) [OF assms(2)] using old [of 7] by simp
  next
    case (Suc k)
    then have "k = 0 \<or> k = 1 \<or> k = 2 \<or> k = 3 \<or> k = 4 \<or> k = 5 \<or> k = 6"
      using that by auto
    then show ?thesis
      unfolding Suc rot_index_Suc(1) [OF assms(2)] using old [of k] by auto
  qed
  with l show ?thesis by (simp add: rot_ok_def)
qed

lemma sha_round_step:
  assumes "length M = 64" "t < 64" "rot_ok t (a_h sha) v" "win_ok M t (sha_W sha)"
  shows "rot_ok (Suc t) (a_h (sha_round M t sha)) (fips_round M t v)
    \<and> win_ok M (Suc t) (sha_W (sha_round M t sha))"
proof -
  have A: "a_h sha ! ((i + (64 - t)) mod 8) = v ! i" if "i < 8" for i
    using assms(3) that by (simp add: rot_ok_def)
  note w = sha_round_W_eq [OF assms(1,4)]
  have "win_ok M (Suc t) (sha_W (sha_round M t sha))"
    unfolding sha_round_def Let_def w using win_ok_step [OF assms(4)] by simp
  moreover have "rot_ok (Suc t) (a_h (sha_round M t sha)) (fips_round M t v)"
    unfolding sha_round_def fips_round_def Let_def w
    using rot_ok_step [OF assms(3,2)]
    by (simp only: A SIG_eq CH_eq MAJ_eq sb_sha256_state.simps) (simp add: A)
  ultimately show ?thesis by blast
qed

lemma sha_rounds:
  assumes "length M = 64" "n \<le> 64" "length (ihash sha) = 8" "length (sha_W sha) = 16"
  shows "rot_ok n (a_h (fold (sha_round M) [0..<n] (sha\<lparr>a_h := ihash sha\<rparr>)))
      (fold (fips_round M) [0..<n] (ihash sha))
    \<and> win_ok M n (sha_W (fold (sha_round M) [0..<n] (sha\<lparr>a_h := ihash sha\<rparr>)))"
  using assms(2)
proof (induction n)
  case 0
  have "(i + 64) mod 8 = i" if "i < 8" for i :: nat
    using that by presburger
  with assms(3,4) show ?case by (simp add: rot_ok_def win_ok_def)
next
  case (Suc n)
  let ?s = "fold (sha_round M) [0..<n] (sha\<lparr>a_h := ihash sha\<rparr>)"
  from Suc have "rot_ok n (a_h ?s) (fold (fips_round M) [0..<n] (ihash sha))" "win_ok M n (sha_W ?s)"
    by simp_all
  from sha_round_step [OF assms(1) _ this] Suc.prems show ?case by simp
qed

lemma sha_round_frame:
  "ihash (sha_round M t sha) = ihash sha" "sha_buffer (sha_round M t sha) = sha_buffer sha"
  "total_bytes (sha_round M t sha) = total_bytes sha"
  "length (a_h (sha_round M t sha)) = length (a_h sha)"
  by (simp_all add: sha_round_def Let_def)

lemma sha_rounds_frame:
  "ihash (fold (sha_round M) ts sha) = ihash sha"
  "sha_buffer (fold (sha_round M) ts sha) = sha_buffer sha"
  "total_bytes (fold (sha_round M) ts sha) = total_bytes sha"
  by (induction ts arbitrary: sha) (simp_all add: sha_round_frame)

text \<open>The code's compression function is the reference's.\<close>

lemma sb_sha256_process_block_eq:
  assumes "length M = 64" "length (ihash sha) = 8" "length (sha_W sha) = 16"
  shows "ihash (sb_sha256_process_block sha M) = fips_compress (ihash sha) M"
    and "length (sha_W (sb_sha256_process_block sha M)) = 16"
proof -
  let ?s = "fold (sha_round M) [0..<64] (sha\<lparr>a_h := ihash sha\<rparr>)"
  let ?v = "fold (fips_round M) [0..<64] (ihash sha)"
  have r: "rot_ok 64 (a_h ?s) ?v" and w: "win_ok M 64 (sha_W ?s)"
    using sha_rounds [OF assms(1) order.refl assms(2,3)] by blast+
  have "a_h ?s = ?v"
    using r by (intro nth_equalityI) (auto simp: rot_ok_def)
  then show "ihash (sb_sha256_process_block sha M) = fips_compress (ihash sha) M"
    by (simp add: sb_sha256_process_block_def fips_compress_def Let_def sha_rounds_frame)
  show "length (sha_W (sb_sha256_process_block sha M)) = 16"
    using w by (simp add: sb_sha256_process_block_def Let_def win_ok_def)
qed

lemma process_block_frame [simp]:
  "sha_buffer (sb_sha256_process_block sha M) = sha_buffer sha"
  "total_bytes (sb_sha256_process_block sha M) = total_bytes sha"
  by (simp_all add: sb_sha256_process_block_def Let_def sha_rounds_frame)

lemma length_fips_round [len_simps]: "length (fips_round M t v) = 8"
  by (simp add: fips_round_def Let_def)

lemma length_fips_compress [len_simps]:
  assumes "length H = 8"
  shows "length (fips_compress H M) = 8"
proof -
  have "length (fold (fips_round M) ts H) = 8" for ts
    using assms by (induction ts arbitrary: H) (simp_all add: len_simps)
  with assms show ?thesis by (simp add: fips_compress_def)
qed

subsection \<open>Streaming\<close>

lemma fips_blocks_short: "length msg < 64 \<Longrightarrow> fips_blocks H msg = H"
  by (simp add: fips_blocks.simps [of H msg])

lemma fips_blocks_one: "length M = 64 \<Longrightarrow> fips_blocks H M = fips_compress H M"
  by (simp add: fips_blocks.simps [of H M] fips_blocks_short)

lemma fips_blocks_append:
  "length a mod 64 = 0 \<Longrightarrow> fips_blocks H (a @ b) = fips_blocks (fips_blocks H a) b"
proof (induction H a rule: fips_blocks.induct)
  case (1 H a)
  show ?case
  proof (cases "length a < 64")
    case True
    with "1.prems" show ?thesis by (simp add: fips_blocks_short)
  next
    case False
    with "1.prems" have "length (drop 64 a) mod 64 = 0"
      by (simp add: le_mod_geq [symmetric])
    with False "1.IH" show ?thesis
      by (simp add: fips_blocks.simps [of H a] fips_blocks.simps [of H "a @ b"])
  qed
qed

lemma length_fips_blocks [len_simps]: "length H = 8 \<Longrightarrow> length (fips_blocks H msg) = 8"
proof (induction H msg rule: fips_blocks.induct)
  case (1 H msg)
  then show ?case
    by (subst fips_blocks.simps) (simp add: len_simps)
qed

lemma length_init_state [len_simps]: "length sb_sha256_init_state = 8"
  by (simp add: sb_sha256_init_state_def)

text \<open>
  The state has absorbed \<open>msg\<close>: all full blocks are compressed (\<open>fips_blocks\<close> ignores a
  final partial block), the rest is at the front of the buffer.
\<close>

definition msg_tail :: "sb_byte list \<Rightarrow> sb_byte list" where
  "msg_tail msg = drop (length msg - length msg mod 64) msg"

definition sha_absorbed :: "sb_byte list \<Rightarrow> sb_sha256_state \<Rightarrow> bool" where
  "sha_absorbed msg sha \<longleftrightarrow>
     ihash sha = fips_blocks sb_sha256_init_state msg \<and>
     take (length msg mod 64) (sha_buffer sha) = msg_tail msg \<and>
     length (sha_buffer sha) = 64 \<and> length (sha_W sha) = 16 \<and>
     total_bytes sha = of_nat (length msg)"

lemma msg_split:
  obtains full where "msg = full @ msg_tail msg" "length full mod 64 = 0"
    and "length (msg_tail msg) = length msg mod 64"
proof
  let ?n = "length msg - length msg mod 64"
  show "msg = take ?n msg @ msg_tail msg"
    by (simp add: msg_tail_def)
  show "length (take ?n msg) mod 64 = 0"
    by (simp add: minus_mod_eq_mult_div)
  show "length (msg_tail msg) = length msg mod 64"
    by (simp add: msg_tail_def)
qed

lemma length_append_mod64:
  "length full mod 64 = 0 \<Longrightarrow> length (full @ x) mod 64 = length x mod 64"
  by (metis add_0 length_append mod_add_left_eq)

lemma msg_tail_append:
  assumes "length full mod 64 = 0" "length t < 64"
  shows "msg_tail (full @ t) = t"
proof -
  have "length (full @ t) mod 64 = length t"
    unfolding length_append_mod64 [OF assms(1)] using assms(2) by simp
  then show ?thesis by (simp add: msg_tail_def)
qed

lemma unat_total_mod: "unat (of_nat n :: sb_size) mod 64 = n mod 64"
proof -
  have "(64 :: nat) dvd 2 ^ LENGTH(32)" by simp
  then show ?thesis
    unfolding unat_of_nat by (rule mod_mod_cancel)
qed

lemma sha_absorbed_init: "sha_absorbed [] sb_sha256_init"
  by (simp add: sha_absorbed_def sb_sha256_init_def sha_zero_def msg_tail_def fips_blocks_short)

lemma sha_absorb_step:
  assumes "sha_absorbed msg sha" "sha_absorb sha input = (sha', rest)" "input \<noteq> []"
  obtains chunk where "input = chunk @ rest" "sha_absorbed (msg @ chunk) sha'"
proof -
  obtain full where msg: "msg = full @ msg_tail msg" and full: "length full mod 64 = 0"
    and lt: "length (msg_tail msg) = length msg mod 64" by (rule msg_split)
  define t where "t = msg_tail msg"
  define tk where "tk = (if 64 - length t < length input then 64 - length t else length input)"
  define c where "c = take tk input"
  note A = assms(1) [unfolded sha_absorbed_def]
  have lt: "length t = length msg mod 64" "length t < 64"
    using lt by (simp_all add: t_def)
  have fill: "unat (total_bytes sha) mod 64 = length t"
    using A by (simp add: unat_total_mod lt)
  have lc: "length c = tk" "tk + length t \<le> 64"
    using lt(2) by (auto simp: c_def tk_def min_def)
  have bl: "fips_blocks sb_sha256_init_state (full @ xs)
      = fips_blocks (ihash sha) xs" for xs
  proof -
    have "ihash sha = fips_blocks sb_sha256_init_state (full @ t)"
      using A msg by (simp add: t_def)
    also have "\<dots> = fips_blocks sb_sha256_init_state full"
      using full lt(2) by (simp add: fips_blocks_append fips_blocks_short)
    finally show ?thesis by (simp add: fips_blocks_append full)
  qed
  have li: "length (ihash sha) = 8"
    using A by (simp add: len_simps)
  let ?sha1 = "sha\<lparr>total_bytes := total_bytes sha + of_nat tk\<rparr>"
  have tot: "total_bytes sha + of_nat tk = of_nat (length (msg @ c))"
    using A lc by simp
  have m': "msg @ c = full @ (t @ c)"
    using msg by (simp add: t_def)
  have modc: "length (msg @ c) mod 64 = (length t + tk) mod 64"
    unfolding m' length_append_mod64 [OF full] by (simp add: lc)
  have r: "rest = drop tk input"
    using assms(2) by (auto simp: sha_absorb_def Let_def SB_SHA256_BLOCK_SIZE_def fill tk_def)
  show thesis
  proof (rule that [of c])
    show "input = c @ rest" by (simp add: c_def r)
    let ?buf = "memcpy_at (sha_buffer sha) (length t) c"
    have tb: "take (length t) (sha_buffer sha) = t"
      using A lt by (simp add: t_def)
    have buf: "length ?buf = 64" "take (length t + tk) ?buf = t @ c"
      using A lc lt(2) tb by (simp_all add: memcpy_at_def)
    have um: "unat (total_bytes sha + of_nat tk) mod 64 = (length t + tk) mod 64"
      unfolding tot unat_total_mod modc ..
    consider (direct) "length t = 0" "tk = 64" | (block) "\<not> (length t = 0 \<and> tk = 64)" "length t + tk = 64"
      | (part) "length t + tk < 64"
      using lc by linarith
    then show "sha_absorbed (msg @ c) sha'"
    proof cases
      case direct
      then have s: "sha' = sb_sha256_process_block ?sha1 c"
        using assms(2) by (auto simp: sha_absorb_def Let_def SB_SHA256_BLOCK_SIZE_def fill tk_def c_def
            split: if_splits)
      from direct lc have t: "t = []" "length c = 64" by simp_all
      have "msg_tail (full @ c) = []"
        unfolding msg_tail_def length_append_mod64 [OF full] t by simp
      with direct t A tot li full m' modc show ?thesis
        unfolding sha_absorbed_def s
        by (simp add: sb_sha256_process_block_eq bl fips_blocks_one)
    next
      case block
      then have s: "sha' = sb_sha256_process_block (?sha1\<lparr>sha_buffer := ?buf\<rparr>) ?buf"
        using assms(2) um by (auto simp: sha_absorb_def Let_def SB_SHA256_BLOCK_SIZE_def fill tk_def
            c_def split: if_splits)
      have b: "?buf = t @ c" "length (t @ c) = 64"
        using buf block lc by simp_all
      have "msg_tail (full @ (t @ c)) = []"
        unfolding msg_tail_def length_append_mod64 [OF full] b by simp
      with A b block tot li full m' modc show ?thesis
        unfolding sha_absorbed_def s
        by (simp add: sb_sha256_process_block_eq bl fips_blocks_one)
    next
      case part
      have "0 < tk" using assms(3) lt(2) by (simp add: tk_def)
      with part have "(length t + tk) mod 64 \<noteq> 0" "\<not> (length t = 0 \<and> tk = 64)" by simp_all
      then have s: "sha' = ?sha1\<lparr>sha_buffer := ?buf\<rparr>"
        using assms(2) um by (auto simp: sha_absorb_def Let_def SB_SHA256_BLOCK_SIZE_def fill tk_def
            c_def split: if_splits)
      have "length (t @ c) < 64" using part lc by simp
      then have "msg_tail (full @ (t @ c)) = t @ c"
        "fips_blocks sb_sha256_init_state (full @ (t @ c)) = ihash sha"
        using msg_tail_append [OF full] bl [of "t @ c"] by (simp_all add: fips_blocks_short)
      with A buf part tot m' modc show ?thesis
        unfolding sha_absorbed_def s by simp
    qed
  qed
qed


lemma sb_sha256_update_absorbed:
  "sha_absorbed msg sha \<Longrightarrow> sha_absorbed (msg @ input) (sb_sha256_update sha input)"
proof (induction sha input arbitrary: msg rule: sb_sha256_update.induct)
  case (1 sha input)
  show ?case
  proof (cases "input = []")
    case True
    with "1.prems" show ?thesis by (simp add: sb_sha256_update.simps [of sha "[]"])
  next
    case False
    obtain sha' rest where s: "sha_absorb sha input = (sha', rest)" by force
    obtain chunk where c: "input = chunk @ rest" "sha_absorbed (msg @ chunk) sha'"
      by (rule sha_absorb_step [OF "1.prems" s False])
    have "sha_absorbed ((msg @ chunk) @ rest) (sb_sha256_update sha' rest)"
      by (rule "1.IH" [OF False s [symmetric] refl c(2)])
    moreover have "sb_sha256_update sha input = sb_sha256_update sha' rest"
      by (subst sb_sha256_update.simps) (simp add: False s)
    ultimately show ?thesis
      using c(1) by simp
  qed
qed

subsection \<open>Finishing\<close>

lemma length_be64 [len_simps]: "length (be64 n) = 8"
  by (simp add: be64_def)

lemma byte_of_word64:
  assumes "n < 2 ^ 64"
  shows "ucast (drop_bit k (of_nat n :: 64 word)) = (of_nat (n div 2 ^ k) :: sb_byte)"
proof (rule word_uint_eq_iff [THEN iffD2])
  have n: "uint (of_nat n :: 64 word) = int n"
    using assms by (simp add: uint_nat take_bit_nat_eq_self_iff unsigned_of_nat)
  have m: "int n mod 2 ^ 64 = int n"
    by (rule mod_pos_pos_trivial) (use assms in \<open>simp_all add: nat_less_iff [symmetric]\<close>)
  show "uint (ucast (drop_bit k (of_nat n :: 64 word)) :: sb_byte) = uint (of_nat (n div 2 ^ k) :: sb_byte)"
    by (simp only: unsigned_ucast_eq unsigned_drop_bit_eq n)
      (use m in \<open>simp add: take_bit_eq_mod drop_bit_eq_div unsigned_of_nat zdiv_int zmod_int\<close>)
qed

lemma be64_expand:
  "be64 n = [of_nat (n div 2 ^ 56), of_nat (n div 2 ^ 48), of_nat (n div 2 ^ 40),
     of_nat (n div 2 ^ 32), of_nat (n div 2 ^ 24), of_nat (n div 2 ^ 16), of_nat (n div 2 ^ 8),
     of_nat n]"
  by (simp add: be64_def upt_rec)

lemma sb_sha2_uint64_set_eq:
  assumes "n < 2 ^ 32"
  shows "sb_sha2_uint64_set (push_bit 3 (ucast (of_nat n :: sb_size))) = be64 (8 * n)"
proof -
  have "uint (ucast (of_nat n :: sb_size) :: 64 word) = int n"
    using assms by (simp add: uint_up_ucast is_up unsigned_of_nat take_bit_nat_eq_self_iff)
  then have "(ucast (of_nat n :: sb_size) :: 64 word) = of_nat n"
    by (metis of_int_of_nat_eq word_of_int_uint)
  then have w: "push_bit 3 (ucast (of_nat n :: sb_size)) = (of_nat (8 * n) :: 64 word)"
    by (simp add: push_bit_eq_mult)
  have n: "8 * n < 2 ^ 64" using assms by simp
  have b: "ucast (drop_bit k (of_nat (8 * n) :: 64 word)) = (of_nat (8 * n div 2 ^ k) :: sb_byte)" for k
    by (rule byte_of_word64 [OF n])
  have b0: "ucast (of_nat (8 * n) :: 64 word) = (of_nat (8 * n) :: sb_byte)"
    using b [of 0] by (simp only: drop_bit_0 power_0 div_by_1 id_apply)
  show ?thesis
    unfolding sb_sha2_uint64_set_def w b b0 be64_expand ..
qed

lemma process_buffer_absorbed:
  assumes "ihash sha = fips_blocks sb_sha256_init_state full" "length full mod 64 = 0"
    and "length (sha_buffer sha) = 64" "length (sha_W sha) = 16"
  shows "ihash (sb_sha256_process_block sha (sha_buffer sha))
      = fips_blocks sb_sha256_init_state (full @ sha_buffer sha)"
    and "length (sha_W (sb_sha256_process_block sha (sha_buffer sha))) = 16"
  using assms by (simp_all add: sb_sha256_process_block_eq len_simps fips_blocks_append fips_blocks_one)

lemma sb_sha256_finish_internal_val:
  assumes "sha_absorbed msg sha" "length msg < 2 ^ 32"
  shows "ihash (sb_sha256_finish_internal sha) = fips_blocks sb_sha256_init_state (fips_pad msg)"
    and "length (sha_buffer (sb_sha256_finish_internal sha)) = 64"
proof -
  define m where "m = msg @ [0x80]"
  define s1 where "s1 = sb_sha256_update sha [0x80]"
  have a: "sha_absorbed m s1"
    unfolding m_def s1_def by (rule sb_sha256_update_absorbed [OF assms(1)])
  note A = a [unfolded sha_absorbed_def]
  obtain full where m: "m = full @ msg_tail m" and full: "length full mod 64 = 0"
    and lt: "length (msg_tail m) = length m mod 64" by (rule msg_split)
  define t where "t = msg_tail m"
  have lt: "length t = length m mod 64" "length t < 64" using lt by (simp_all add: t_def)
  have ih: "ihash s1 = fips_blocks sb_sha256_init_state full"
    using A m full lt(2) by (metis fips_blocks_append fips_blocks_short t_def)
  have fill: "unat (total_bytes s1) mod 64 = length t"
    using A by (simp add: unat_total_mod lt)
  define buf where "buf = t @ replicate (64 - length t) 0"
  have buf: "memcpy_at (sha_buffer s1) (length t) (replicate (64 - length t) 0) = buf"
    using A lt by (simp add: memcpy_at_def buf_def t_def)
  define lb where "lb = be64 (8 * length msg)"
  have tb: "sb_sha2_uint64_set (push_bit 3 (ucast (total_bytes sha))) = lb"
    using assms sb_sha2_uint64_set_eq by (simp add: sha_absorbed_def lb_def)
  have llb: "length lb = 8" by (simp add: lb_def len_simps)
  let ?s2 = "s1\<lparr>sha_buffer := buf\<rparr>"
  have lbuf: "length buf = 64" using lt by (simp add: buf_def)
  have pad: "fips_pad msg = full @ t @ replicate ((120 - length t) mod 64) 0 @ lb"
  proof -
    have "(119 - length msg mod 64) mod 64 = (120 - length t) mod 64"
    proof -
      have "length t = Suc (length msg) mod 64" using lt(1) by (simp add: m_def)
      then have "length t = Suc (length msg mod 64) \<or> length t = 0 \<and> length msg mod 64 = 63"
        by (simp add: mod_Suc split: if_splits)
      then show ?thesis by auto
    qed
    then show ?thesis
      using m by (simp add: fips_pad_def lb_def m_def t_def)
  qed
  have fin: "sb_sha256_finish_internal sha =
    (let s3 = (if 64 - length t < 8
               then (sb_sha256_process_block ?s2 buf)\<lparr>sha_buffer := replicate 64 0\<rparr> else ?s2);
         s4 = s3\<lparr>sha_buffer := memcpy_at (sha_buffer s3) 56 lb\<rparr>
     in sb_sha256_process_block s4 (sha_buffer s4))"
    unfolding sb_sha256_finish_internal_def SB_SHA256_BLOCK_SIZE_def Let_def
      s1_def [symmetric] tb fill buf by simp
  have mem: "length (memcpy_at b 56 lb) = 64" "memcpy_at b 56 lb = take 56 b @ lb" if "length b = 64" for b
    using that llb by (simp_all add: memcpy_at_def)
  show "length (sha_buffer (sb_sha256_finish_internal sha)) = 64"
    unfolding fin Let_def by (simp add: mem lbuf llb)
  show "ihash (sb_sha256_finish_internal sha) = fips_blocks sb_sha256_init_state (fips_pad msg)"
  proof (cases "64 - length t < 8")
    case True
    let ?s3 = "(sb_sha256_process_block ?s2 buf)\<lparr>sha_buffer := take 56 (replicate 64 0) @ lb\<rparr>"
    have r: "sb_sha256_finish_internal sha = sb_sha256_process_block ?s3 (sha_buffer ?s3)"
      unfolding fin Let_def using True by (simp add: mem)
    have p2: "ihash (sb_sha256_process_block ?s2 buf) = fips_blocks sb_sha256_init_state (full @ buf)"
      "length (sha_W (sb_sha256_process_block ?s2 buf)) = 16"
      using process_buffer_absorbed [of ?s2 full] ih full A lbuf by simp_all
    have fb: "length (full @ buf) mod 64 = 0"
      unfolding length_append_mod64 [OF full] lbuf by simp
    have "ihash (sb_sha256_finish_internal sha)
        = fips_blocks sb_sha256_init_state ((full @ buf) @ (take 56 (replicate 64 0) @ lb))"
      unfolding r using process_buffer_absorbed(1) [of ?s3 "full @ buf"] p2 fb llb by simp
    also have "(full @ buf) @ (take 56 (replicate 64 0) @ lb) = fips_pad msg"
    proof -
      have "(120 - length t) mod 64 = (64 - length t) + 56"
        using True lt(2) by simp
      then show ?thesis
        unfolding pad buf_def by (simp only: replicate_add append.assoc) simp
    qed
    finally show ?thesis .
  next
    case False
    let ?s3 = "s1\<lparr>sha_buffer := take 56 buf @ lb\<rparr>"
    have r: "sb_sha256_finish_internal sha = sb_sha256_process_block ?s3 (sha_buffer ?s3)"
      unfolding fin Let_def using False by (simp add: mem lbuf)
    have "ihash (sb_sha256_finish_internal sha)
        = fips_blocks sb_sha256_init_state (full @ (take 56 buf @ lb))"
      unfolding r using process_buffer_absorbed(1) [of ?s3 full] ih full A lbuf llb by simp
    also have "full @ (take 56 buf @ lb) = fips_pad msg"
    proof -
      have "(120 - length t) mod 64 = 56 - length t"
        using False lt(2) by (simp add: le_mod_geq)
      then show ?thesis
        unfolding pad buf_def using False lt(2) by simp
    qed
    finally show ?thesis .
  qed
qed

lemma sha_output_eq:
  assumes "length (ihash sha) = 8"
  shows "sha_output sha = concat (map sb_sha256_word_set (ihash sha))"
proof -
  have "map (\<lambda>i. sb_sha256_word_set (ihash sha ! i)) [0..<8] = map sb_sha256_word_set (ihash sha)"
    using arg_cong [OF map_nth [of "ihash sha"], of "map sb_sha256_word_set"] assms
    by (simp add: comp_def)
  then show ?thesis by (simp add: sha_output_def)
qed

lemma length_concat_word_set [len_simps]:
  "length (concat (map sb_sha256_word_set ws)) = 4 * length ws"
  by (induction ws) (simp_all add: sb_sha256_word_set_def)

lemma length_sha256 [len_simps]: "length (sha256 msg) = 32"
  by (simp add: sha256_def len_simps)

theorem sb_sha256_finish_digest:
  assumes "sha_absorbed msg sha" "length msg < 2 ^ 32"
  shows "sb_sha256_finish sha = (sha256 msg, sha_zero)"
  using sb_sha256_finish_internal_val(1) [OF assms]
  by (simp add: sb_sha256_finish_def sha_output_eq len_simps sha256_def)

text \<open>\<open>sb_sha256_finish_to_buffer\<close> leaves the digest in the first 32 bytes of the buffer.\<close>

theorem sb_sha256_finish_to_buffer_digest:
  assumes "sha_absorbed msg sha" "length msg < 2 ^ 32"
  shows "take 32 (sha_buffer (sb_sha256_finish_to_buffer sha)) = sha256 msg"
    and "length (sha_buffer (sb_sha256_finish_to_buffer sha)) = 64"
  using sb_sha256_finish_internal_val [OF assms]
  by (simp_all add: sb_sha256_finish_to_buffer_def Let_def memcpy_at_def sha_output_eq len_simps
      sha256_def)

theorem sb_sha256_message_digest:
  "length msg < 2 ^ 32 \<Longrightarrow> sb_sha256_message msg = (sha256 msg, sha_zero)"
  using sb_sha256_finish_digest [OF sb_sha256_update_absorbed [OF sha_absorbed_init]]
  by (simp add: sb_sha256_message_def)

end
