(* ===== verification/Hash_Interface.thy ===== *)
theory Hash_Interface
  imports SB_Prelude
begin

text \<open>
  What the keyed constructions rely on: \<open>streaming_hash\<close> is the contract between a
  streaming digest and HMAC, \<open>streaming_mac\<close> the contract between HMAC and its clients
  HKDF and HMAC-DRBG. \<open>absorbed\<close> relates a state to the message fed to it so far; messages
  shorter than \<open>limit\<close> are digested correctly.
\<close>

locale streaming_hash =
  fixes init :: 's
    and update :: "'s \<Rightarrow> sb_byte list \<Rightarrow> 's"
    and finish :: "'s \<Rightarrow> sb_byte list \<times> 's"
    and absorbed :: "sb_byte list \<Rightarrow> 's \<Rightarrow> bool"
    and digest :: "sb_byte list \<Rightarrow> sb_byte list"
    and limit :: nat
  assumes absorbed_init: "absorbed [] init"
    and absorbed_update: "absorbed m s \<Longrightarrow> absorbed (m @ d) (update s d)"
    and finish_digest: "absorbed m s \<Longrightarrow> length m < limit \<Longrightarrow> fst (finish s) = digest m"
begin

lemma absorbed_updates: "absorbed m s \<Longrightarrow> absorbed (m @ concat ds) (foldl update s ds)"
proof (induction ds arbitrary: m s)
  case Nil
  then show ?case by simp
next
  case (Cons d ds)
  from Cons.IH [OF absorbed_update [OF Cons.prems, of d]] show ?case by simp
qed

lemma digest_parts:
  "length (concat ds) < limit \<Longrightarrow> fst (finish (foldl update init ds)) = digest (concat ds)"
  using absorbed_updates [OF absorbed_init, of ds] by (simp add: finish_digest)

lemma digest_two:
  "length (a @ b) < limit \<Longrightarrow> fst (finish (update (update init a) b)) = digest (a @ b)"
  using digest_parts [of "[a, b]"] by simp

lemma digest_three:
  "length (a @ b @ c) < limit \<Longrightarrow>
    fst (finish (update (update (update init a) b) c)) = digest (a @ b @ c)"
  using digest_parts [of "[a, b, c]"] by simp

end

locale streaming_mac =
  fixes init :: "sb_byte list \<Rightarrow> 's"
    and reinit :: "'s \<Rightarrow> 's"
    and update :: "'s \<Rightarrow> sb_byte list \<Rightarrow> 's"
    and finish :: "'s \<Rightarrow> sb_byte list \<times> 's"
    and keyed :: "sb_byte list \<Rightarrow> 's \<Rightarrow> bool"
    and absorbed :: "sb_byte list \<Rightarrow> sb_byte list \<Rightarrow> 's \<Rightarrow> bool"
    and mac :: "sb_byte list \<Rightarrow> sb_byte list \<Rightarrow> sb_byte list"
    and limit :: nat
  assumes absorbed_init: "length k < limit \<Longrightarrow> absorbed k [] (init k)"
    and reinit_absorbed: "keyed k s \<Longrightarrow> absorbed k [] (reinit s)"
    and reinit_init: "length k < limit \<Longrightarrow> keyed k s \<Longrightarrow> reinit s = init k"
    and absorbed_update: "absorbed k m s \<Longrightarrow> absorbed k (m @ d) (update s d)"
    and absorbed_keyed: "absorbed k m s \<Longrightarrow> keyed k s"
    and finish_mac: "absorbed k m s \<Longrightarrow> length m < limit \<Longrightarrow> fst (finish s) = mac k m"
    and finish_keyed: "keyed k s \<Longrightarrow> keyed k (snd (finish s))"
begin

lemma absorbed_updates: "absorbed k m s \<Longrightarrow> absorbed k (m @ concat ds) (foldl update s ds)"
proof (induction ds arbitrary: m s)
  case Nil
  then show ?case by simp
next
  case (Cons d ds)
  from Cons.IH [OF absorbed_update [OF Cons.prems, of d]] show ?case by simp
qed

lemma keyed_update: "keyed k s \<Longrightarrow> keyed k (reinit s)"
  by (rule absorbed_keyed [OF reinit_absorbed])

text \<open>Restarting a keyed state, feeding parts and finishing is the MAC of their concatenation.\<close>

lemma mac_parts:
  assumes "keyed k s" "length (concat ds) < limit"
  shows "fst (finish (foldl update (reinit s) ds)) = mac k (concat ds)"
    and "keyed k (snd (finish (foldl update (reinit s) ds)))"
proof -
  have a: "absorbed k (concat ds) (foldl update (reinit s) ds)"
    using absorbed_updates [OF reinit_absorbed [OF assms(1)], of ds] by simp
  show "fst (finish (foldl update (reinit s) ds)) = mac k (concat ds)"
    by (rule finish_mac [OF a assms(2)])
  show "keyed k (snd (finish (foldl update (reinit s) ds)))"
    by (rule finish_keyed [OF absorbed_keyed [OF a]])
qed

end

end
