(* ===== verification/Hmac.thy ===== *)
theory Hmac
  imports Sha256_Spec Hash_Interface
begin

text \<open>
  \<open>sb_hmac_sha256.c\<close>: the HMAC state (a hash state and the padded key), its operations,
  and their agreement with HMAC as RFC 2104 / FIPS 198-1 define it. The digest is used
  through the locale \<open>streaming_hash\<close>, interpreted here on the SHA-256 model; HMAC in turn
  provides \<open>streaming_mac\<close>.
\<close>

interpretation sha: streaming_hash sb_sha256_init sb_sha256_update sb_sha256_finish
  sha_absorbed sha256 "2 ^ 32"
  by unfold_locales
    (auto simp: sha_absorbed_init sb_sha256_update_absorbed sb_sha256_finish_digest)

subsection \<open>Operations\<close>

record sb_hmac_sha256_state =
  hmac_sha :: sb_sha256_state
  hmac_key :: "sb_byte list"

definition ipad :: sb_byte where "ipad = 0x36"
definition opad :: sb_byte where "opad = 0x5C"

definition hmac_zero :: sb_hmac_sha256_state where
  "hmac_zero = \<lparr>hmac_sha = sha_zero, hmac_key = replicate 64 0\<rparr>"

definition sb_hmac_sha256_key_pad :: "sb_hmac_sha256_state \<Rightarrow> sb_byte \<Rightarrow> sb_hmac_sha256_state" where
  "sb_hmac_sha256_key_pad hmac pad = hmac\<lparr>hmac_key := map (\<lambda>k. k XOR pad) (hmac_key hmac)\<rparr>"

definition sb_hmac_sha256_reinit :: "sb_hmac_sha256_state \<Rightarrow> sb_hmac_sha256_state" where
  "sb_hmac_sha256_reinit hmac =
     (let h1 = sb_hmac_sha256_key_pad hmac ipad;
          h2 = h1\<lparr>hmac_sha := sb_sha256_update sb_sha256_init (hmac_key h1)\<rparr>
      in sb_hmac_sha256_key_pad h2 ipad)"

definition sb_hmac_sha256_init :: "sb_byte list \<Rightarrow> sb_hmac_sha256_state" where
  "sb_hmac_sha256_init key =
     (let h1 =
        (if SB_SHA256_BLOCK_SIZE < length key then
           let (d, s) = sb_sha256_finish (sb_sha256_update sb_sha256_init key)
           in hmac_zero\<lparr>hmac_sha := s, hmac_key := memcpy_at (hmac_key hmac_zero) 0 d\<rparr>
         else hmac_zero\<lparr>hmac_key := memcpy_at (hmac_key hmac_zero) 0 key\<rparr>)
      in sb_hmac_sha256_reinit h1)"

definition sb_hmac_sha256_update ::
  "sb_hmac_sha256_state \<Rightarrow> sb_byte list \<Rightarrow> sb_hmac_sha256_state" where
  "sb_hmac_sha256_update hmac input = hmac\<lparr>hmac_sha := sb_sha256_update (hmac_sha hmac) input\<rparr>"

definition sb_hmac_sha256_finish ::
  "sb_hmac_sha256_state \<Rightarrow> sb_byte list \<times> sb_hmac_sha256_state" where
  "sb_hmac_sha256_finish hmac =
     (let (inner, s1) = sb_sha256_finish (hmac_sha hmac);
          h1 = sb_hmac_sha256_key_pad (hmac\<lparr>hmac_sha := s1\<rparr>) opad;
          s2 = sb_sha256_update sb_sha256_init (hmac_key h1);
          s3 = sb_sha256_update s2 inner;
          (output, s4) = sb_sha256_finish s3
      in (output, sb_hmac_sha256_key_pad (h1\<lparr>hmac_sha := s4\<rparr>) opad))"

text \<open>The lower half of the padded key is used as scratch space for the inner digest.\<close>

definition sb_hmac_sha256_finish_to_key :: "sb_hmac_sha256_state \<Rightarrow> sb_hmac_sha256_state" where
  "sb_hmac_sha256_finish_to_key hmac =
     (let h1 = sb_hmac_sha256_key_pad hmac opad;
          (inner, s1) = sb_sha256_finish (hmac_sha h1);
          key1 = memcpy_at (hmac_key h1) SB_SHA256_SIZE inner;
          s2 = sb_sha256_update sb_sha256_init (take SB_SHA256_SIZE key1);
          key2 = memcpy_at key1 0 (replicate SB_SHA256_SIZE opad);
          s3 = sb_sha256_update s2 (take SB_SHA256_SIZE key2);
          s4 = sb_sha256_update s3 (take SB_SHA256_SIZE (drop SB_SHA256_SIZE key2));
          (output, s5) = sb_sha256_finish s4;
          key3 = memcpy_at key2 0 output;
          key4 = memcpy_at key3 SB_SHA256_SIZE (replicate SB_SHA256_SIZE 0)
      in sb_hmac_sha256_reinit (h1\<lparr>hmac_sha := s5, hmac_key := key4\<rparr>))"

definition sb_hmac_sha256 ::
  "sb_byte list \<Rightarrow> sb_byte list \<Rightarrow> sb_byte list \<times> sb_hmac_sha256_state" where
  "sb_hmac_sha256 key input =
     sb_hmac_sha256_finish (sb_hmac_sha256_update (sb_hmac_sha256_init key) input)"

subsection \<open>Reference\<close>

definition key_block :: "sb_byte list \<Rightarrow> sb_byte list" where
  "key_block k =
     (let k0 = (if 64 < length k then sha256 k else k) in k0 @ replicate (64 - length k0) 0)"

definition hmac_ref :: "sb_byte list \<Rightarrow> sb_byte list \<Rightarrow> sb_byte list" where
  "hmac_ref k msg =
     sha256 (map (\<lambda>b. b XOR opad) (key_block k) @ sha256 (map (\<lambda>b. b XOR ipad) (key_block k) @ msg))"

lemma length_key_block [len_simps]: "length (key_block k) = 64"
  by (simp add: key_block_def Let_def len_simps)

lemma length_hmac_ref [len_simps]: "length (hmac_ref k msg) = 32"
  by (simp add: hmac_ref_def len_simps)

subsection \<open>Correctness\<close>

definition hmac_keyed :: "sb_byte list \<Rightarrow> sb_hmac_sha256_state \<Rightarrow> bool" where
  "hmac_keyed k h \<longleftrightarrow> hmac_key h = key_block k"

definition hmac_absorbed :: "sb_byte list \<Rightarrow> sb_byte list \<Rightarrow> sb_hmac_sha256_state \<Rightarrow> bool" where
  "hmac_absorbed k msg h \<longleftrightarrow> hmac_key h = key_block k \<and>
     sha_absorbed (map (\<lambda>b. b XOR ipad) (key_block k) @ msg) (hmac_sha h)"

lemma xor_twice [simp]: "map (\<lambda>b. b XOR pad) (map (\<lambda>b. b XOR pad) (bs :: sb_byte list)) = bs"
  by (simp add: map_idI xor.assoc)

lemma xor_twice_comp [simp]:
  "map ((\<lambda>b. b XOR pad) \<circ> (\<lambda>b. b XOR pad)) (bs :: sb_byte list) = bs"
  using xor_twice [of pad bs] by (simp del: xor_twice)

lemma hmac_reinit_eq:
  "sb_hmac_sha256_reinit h = \<lparr>hmac_sha = sb_sha256_update sb_sha256_init
     (map (\<lambda>b. b XOR ipad) (hmac_key h)), hmac_key = hmac_key h\<rparr>"
  by (cases h) (simp add: sb_hmac_sha256_reinit_def sb_hmac_sha256_key_pad_def Let_def)

lemma hmac_reinit_absorbed: "hmac_keyed k h \<Longrightarrow> hmac_absorbed k [] (sb_hmac_sha256_reinit h)"
  using sha.absorbed_update [OF sha.absorbed_init]
  by (simp add: hmac_reinit_eq hmac_keyed_def hmac_absorbed_def)

lemma hmac_init_eq:
  assumes "length k < 2 ^ 32"
  shows "sb_hmac_sha256_init k = sb_hmac_sha256_reinit \<lparr>hmac_sha = sha_zero, hmac_key = key_block k\<rparr>"
proof (cases "64 < length k")
  case True
  have "sb_sha256_finish (sb_sha256_update sb_sha256_init k) = (sha256 k, sha_zero)"
    using sb_sha256_message_digest [OF assms] by (simp add: sb_sha256_message_def)
  with True show ?thesis
    by (simp add: sb_hmac_sha256_init_def SB_SHA256_BLOCK_SIZE_def hmac_zero_def memcpy_at_def
        key_block_def len_simps)
next
  case False
  then show ?thesis
    by (simp add: sb_hmac_sha256_init_def SB_SHA256_BLOCK_SIZE_def hmac_zero_def memcpy_at_def
        key_block_def)
qed

lemma hmac_reinit_init:
  "length k < 2 ^ 32 \<Longrightarrow> hmac_keyed k h \<Longrightarrow> sb_hmac_sha256_reinit h = sb_hmac_sha256_init k"
  by (simp add: hmac_init_eq hmac_reinit_eq hmac_keyed_def)

lemma hmac_finish_val:
  assumes "hmac_absorbed k msg h" "length msg < 2 ^ 32 - 64"
  shows "sb_hmac_sha256_finish h = (hmac_ref k msg, \<lparr>hmac_sha = sha_zero, hmac_key = key_block k\<rparr>)"
proof -
  let ?inner = "sha256 (map (\<lambda>b. b XOR ipad) (key_block k) @ msg)"
  have 1: "sb_sha256_finish (hmac_sha h) = (?inner, sha_zero)"
    using assms by (intro sb_sha256_finish_digest) (auto simp: hmac_absorbed_def len_simps)
  let ?ok = "map (\<lambda>b. b XOR opad) (key_block k)"
  have "sha_absorbed (([] @ ?ok) @ ?inner) (sb_sha256_update (sb_sha256_update sb_sha256_init ?ok) ?inner)"
    by (intro sha.absorbed_update sha.absorbed_init)
  then have 2: "sb_sha256_finish (sb_sha256_update (sb_sha256_update sb_sha256_init ?ok) ?inner)
      = (hmac_ref k msg, sha_zero)"
    unfolding hmac_ref_def by (subst sb_sha256_finish_digest) (auto simp: len_simps)
  show ?thesis
    using assms(1) 1 2 by (cases h)
      (simp add: sb_hmac_sha256_finish_def sb_hmac_sha256_key_pad_def hmac_absorbed_def)
qed

lemma hmac_finish_keyed: "hmac_keyed k h \<Longrightarrow> hmac_keyed k (snd (sb_hmac_sha256_finish h))"
  by (simp add: sb_hmac_sha256_finish_def sb_sha256_finish_def sb_hmac_sha256_key_pad_def
      hmac_keyed_def Let_def)

interpretation mac: streaming_mac sb_hmac_sha256_init sb_hmac_sha256_reinit sb_hmac_sha256_update
  sb_hmac_sha256_finish hmac_keyed hmac_absorbed hmac_ref "2 ^ 32 - 64"
proof unfold_locales
  fix k d :: "sb_byte list" and m h
  show "length k < 2 ^ 32 - 64 \<Longrightarrow> hmac_absorbed k [] (sb_hmac_sha256_init k)"
    by (simp add: hmac_init_eq hmac_reinit_absorbed hmac_keyed_def)
  show "hmac_absorbed k m h \<Longrightarrow> hmac_absorbed k (m @ d) (sb_hmac_sha256_update h d)"
    using sha.absorbed_update [of "map (\<lambda>b. b XOR ipad) (key_block k) @ m" "hmac_sha h" d]
    by (simp add: hmac_absorbed_def sb_hmac_sha256_update_def)
  show "hmac_absorbed k m h \<Longrightarrow> hmac_keyed k h"
    by (simp add: hmac_keyed_def hmac_absorbed_def)
qed (simp_all add: hmac_reinit_absorbed hmac_reinit_init hmac_finish_val hmac_finish_keyed)

lemma sb_hmac_sha256_val:
  assumes "length key < 2 ^ 32 - 64" "length input < 2 ^ 32 - 64"
  shows "fst (sb_hmac_sha256 key input) = hmac_ref key input"
  using mac.absorbed_update [OF mac.absorbed_init [OF assms(1)], of input] assms(2)
  by (simp add: sb_hmac_sha256_def hmac_finish_val)

text \<open>
  \<open>finish_to_key\<close> rekeys a state whose key is 32 bytes long: the MAC becomes the key, and
  the state is restarted with it.
\<close>

lemma sb_hmac_sha256_finish_to_key_val:
  assumes "hmac_absorbed k msg h" "length msg < 2 ^ 32 - 64" "length k = 32"
  shows "hmac_absorbed (hmac_ref k msg) [] (sb_hmac_sha256_finish_to_key h)"
proof -
  let ?inner = "sha256 (map (\<lambda>b. b XOR ipad) (key_block k) @ msg)"
  have kb: "key_block k = k @ replicate 32 0"
    using assms(3) by (simp add: key_block_def)
  have 1: "sb_sha256_finish (hmac_sha h) = (?inner, sha_zero)"
    using assms by (intro sb_sha256_finish_digest) (auto simp: hmac_absorbed_def len_simps)
  let ?ok = "map (\<lambda>b. b XOR opad) k" and ?op = "replicate 32 opad"
  have ref: "hmac_ref k msg = sha256 ((?ok @ ?op) @ ?inner)"
    by (simp add: hmac_ref_def kb)
  have "sha_absorbed ((([] @ ?ok) @ ?op) @ ?inner)
      (sb_sha256_update (sb_sha256_update (sb_sha256_update sb_sha256_init ?ok) ?op) ?inner)"
    by (intro sha.absorbed_update sha.absorbed_init)
  then have 2: "sb_sha256_finish
      (sb_sha256_update (sb_sha256_update (sb_sha256_update sb_sha256_init ?ok) ?op) ?inner)
      = (hmac_ref k msg, sha_zero)"
    unfolding ref using assms(3) by (subst sb_sha256_finish_digest) (auto simp: len_simps)
  have hk: "hmac_key h = k @ replicate 32 0"
    using assms(1) by (simp add: hmac_absorbed_def kb)
  have "\<exists>s. sb_hmac_sha256_finish_to_key h
      = sb_hmac_sha256_reinit \<lparr>hmac_sha = s, hmac_key = hmac_ref k msg @ replicate 32 0\<rparr>"
    using assms(3)
    by (simp add: sb_hmac_sha256_finish_to_key_def sb_hmac_sha256_key_pad_def SB_SHA256_SIZE_def
        memcpy_at_def hk 1 2 len_simps hmac_reinit_eq)
  moreover have "key_block (hmac_ref k msg) = hmac_ref k msg @ replicate 32 0"
    by (simp add: key_block_def len_simps)
  ultimately show ?thesis
    using hmac_reinit_absorbed by (metis hmac_keyed_def sb_hmac_sha256_state.select_convs(2))
qed

end
