(* ===== verification/Hkdf.thy ===== *)
theory Hkdf
  imports Hmac
begin

text \<open>
  \<open>sb_hkdf.c\<close>: HKDF-SHA256 extraction and expansion over the HMAC state, and their
  agreement with RFC 5869. The expansion loop counts bytes as the code does; its block
  counter is a byte, which wraps after 255 blocks (the RFC's limit, which the code does not
  check), and so does the byte \<open>of_nat n\<close> of the reference blocks.
\<close>

subsection \<open>Operations\<close>

record sb_hkdf_state =
  hkdf_hmac :: sb_hmac_sha256_state
  hkdf_output :: "sb_byte list"

definition hkdf_zero :: sb_hkdf_state where
  "hkdf_zero = \<lparr>hkdf_hmac = hmac_zero, hkdf_output = replicate 32 0\<rparr>"

definition sb_hkdf_extract_init :: "sb_byte list \<Rightarrow> sb_hkdf_state" where
  "sb_hkdf_extract_init salt =
     (if 0 < length salt
      then hkdf_zero\<lparr>hkdf_hmac := sb_hmac_sha256_init salt\<rparr>
      else hkdf_zero\<lparr>hkdf_hmac := sb_hmac_sha256_init (take SB_SHA256_SIZE (hkdf_output hkdf_zero))\<rparr>)"

definition sb_hkdf_extract_update :: "sb_hkdf_state \<Rightarrow> sb_byte list \<Rightarrow> sb_hkdf_state" where
  "sb_hkdf_extract_update hkdf input =
     hkdf\<lparr>hkdf_hmac := sb_hmac_sha256_update (hkdf_hmac hkdf) input\<rparr>"

definition sb_hkdf_extract_finish :: "sb_hkdf_state \<Rightarrow> sb_hkdf_state" where
  "sb_hkdf_extract_finish hkdf =
     (let (prk, h1) = sb_hmac_sha256_finish (hkdf_hmac hkdf);
          hkdf1 = hkdf\<lparr>hkdf_hmac := h1, hkdf_output := prk\<rparr>;
          hkdf2 = hkdf1\<lparr>hkdf_hmac := sb_hmac_sha256_init (hkdf_output hkdf1)\<rparr>
      in hkdf2\<lparr>hkdf_output := replicate SB_SHA256_SIZE 0\<rparr>)"

definition sb_hkdf_extract :: "sb_byte list \<Rightarrow> sb_byte list \<Rightarrow> sb_hkdf_state" where
  "sb_hkdf_extract salt input =
     sb_hkdf_extract_finish (sb_hkdf_extract_update (sb_hkdf_extract_init salt) input)"

definition sb_hkdf_kdf_init :: "sb_byte list \<Rightarrow> sb_hkdf_state" where
  "sb_hkdf_kdf_init input = hkdf_zero\<lparr>hkdf_hmac := sb_hmac_sha256_init input\<rparr>"

text \<open>
  The expansion loop; the result is the bytes written to \<open>output\<close> and the final state.
\<close>

function hkdf_expand_loop ::
  "sb_byte list \<Rightarrow> nat \<Rightarrow> nat \<Rightarrow> sb_byte \<Rightarrow> sb_hkdf_state \<Rightarrow> sb_byte list \<times> sb_hkdf_state" where
  "hkdf_expand_loop info output_len bytes_produced iter hkdf =
     (if bytes_produced < output_len then
        let bytes = (if SB_SHA256_SIZE < output_len - bytes_produced then SB_SHA256_SIZE
                     else output_len - bytes_produced);
            h0 = hkdf_hmac hkdf;
            h1 = (if 0 < bytes_produced then sb_hmac_sha256_update h0 (hkdf_output hkdf) else h0);
            h2 = sb_hmac_sha256_update h1 info;
            h3 = sb_hmac_sha256_update h2 [iter];
            (t, h4) = sb_hmac_sha256_finish h3;
            h5 = sb_hmac_sha256_reinit h4;
            (rest, hkdf') = hkdf_expand_loop info output_len (bytes_produced + bytes) (iter + 1)
              (hkdf\<lparr>hkdf_hmac := h5, hkdf_output := t\<rparr>)
        in (take bytes t @ rest, hkdf')
      else ([], hkdf))"
  by pat_completeness auto

termination
  by (relation "measure (\<lambda>(info, output_len, bytes_produced, iter, hkdf). output_len - bytes_produced)")
    (auto simp: SB_SHA256_SIZE_def)

declare hkdf_expand_loop.simps [simp del]

definition sb_hkdf_expand ::
  "sb_hkdf_state \<Rightarrow> sb_byte list \<Rightarrow> nat \<Rightarrow> sb_byte list \<times> sb_hkdf_state" where
  "sb_hkdf_expand hkdf info output_len =
     (let (out, hkdf1) = hkdf_expand_loop info output_len 0 1 hkdf
      in (out, hkdf1\<lparr>hkdf_output := replicate SB_SHA256_SIZE 0\<rparr>))"

subsection \<open>Reference\<close>

definition hkdf_prk :: "sb_byte list \<Rightarrow> sb_byte list \<Rightarrow> sb_byte list" where
  "hkdf_prk salt ikm = hmac_ref (if salt = [] then replicate 32 0 else salt) ikm"

text \<open>\<open>T(0)\<close> is empty, \<open>T(n) = HMAC(PRK, T(n - 1) | info | n)\<close>.\<close>

fun hkdf_T :: "sb_byte list \<Rightarrow> sb_byte list \<Rightarrow> nat \<Rightarrow> sb_byte list" where
  "hkdf_T prk info 0 = []"
| "hkdf_T prk info (Suc n) = hmac_ref prk (hkdf_T prk info n @ info @ [of_nat (Suc n)])"

definition hkdf_okm :: "sb_byte list \<Rightarrow> sb_byte list \<Rightarrow> nat \<Rightarrow> sb_byte list" where
  "hkdf_okm prk info L =
     take L (concat (map (hkdf_T prk info) [1..<Suc ((L + 31) div 32)]))"

subsection \<open>Correctness\<close>

text \<open>The state every expansion starts from and returns to.\<close>

definition hkdf_ready :: "sb_byte list \<Rightarrow> sb_hkdf_state" where
  "hkdf_ready prk = \<lparr>hkdf_hmac = sb_hmac_sha256_init prk, hkdf_output = replicate 32 0\<rparr>"

lemma sb_hkdf_kdf_init_val: "sb_hkdf_kdf_init prk = hkdf_ready prk"
  by (simp add: sb_hkdf_kdf_init_def hkdf_zero_def hkdf_ready_def)

lemma sb_hkdf_extract_init_val:
  "hkdf_hmac (sb_hkdf_extract_init salt)
    = sb_hmac_sha256_init (if salt = [] then replicate 32 0 else salt)"
  by (simp add: sb_hkdf_extract_init_def hkdf_zero_def SB_SHA256_SIZE_def)

lemma sb_hkdf_extract_parts:
  assumes "length salt < 2 ^ 32 - 64" "length (concat ikms) < 2 ^ 32 - 64"
  shows "sb_hkdf_extract_finish (foldl sb_hkdf_extract_update (sb_hkdf_extract_init salt) ikms)
    = hkdf_ready (hkdf_prk salt (concat ikms))"
proof -
  let ?k = "if salt = [] then replicate 32 0 else salt"
  have f: "hkdf_hmac (foldl sb_hkdf_extract_update s ikms)
      = foldl sb_hmac_sha256_update (hkdf_hmac s) ikms" for s
    by (induction ikms arbitrary: s) (simp_all add: sb_hkdf_extract_update_def)
  have "hmac_absorbed ?k [] (sb_hmac_sha256_init ?k)"
    by (rule mac.absorbed_init) (use assms(1) in simp)
  from mac.absorbed_updates [OF this, of ikms]
  have "hmac_absorbed ?k (concat ikms)
      (hkdf_hmac (foldl sb_hkdf_extract_update (sb_hkdf_extract_init salt) ikms))"
    by (simp only: f sb_hkdf_extract_init_val append_Nil)
  from hmac_finish_val [OF this assms(2)] show ?thesis
    by (simp add: sb_hkdf_extract_finish_def hkdf_ready_def hkdf_prk_def SB_SHA256_SIZE_def)
qed

lemma sb_hkdf_extract_val:
  "length salt < 2 ^ 32 - 64 \<Longrightarrow> length ikm < 2 ^ 32 - 64 \<Longrightarrow>
    sb_hkdf_extract salt ikm = hkdf_ready (hkdf_prk salt ikm)"
  using sb_hkdf_extract_parts [of salt "[ikm]"] by (simp add: sb_hkdf_extract_def)

lemma length_hkdf_T: "length (hkdf_T prk info n) = (if n = 0 then 0 else 32)"
  by (cases n) (simp_all add: len_simps)

text \<open>
  The loop invariant: after \<open>n\<close> blocks the HMAC is restarted, \<open>output\<close> holds \<open>T(n)\<close> and
  the counter is \<open>n + 1\<close>.
\<close>

lemma hkdf_expand_loop_val:
  assumes "length prk < 2 ^ 32 - 64" "length info < 2 ^ 31"
    and "hkdf_hmac hkdf = sb_hmac_sha256_init prk"
    and "0 < n \<longrightarrow> hkdf_output hkdf = hkdf_T prk info n"
  shows "fst (hkdf_expand_loop info L (32 * n) (of_nat (Suc n)) hkdf)
      = take (L - 32 * n) (concat (map (hkdf_T prk info) [Suc n..<Suc ((L + 31) div 32)]))
    \<and> hkdf_hmac (snd (hkdf_expand_loop info L (32 * n) (of_nat (Suc n)) hkdf))
      = sb_hmac_sha256_init prk"
  using assms(3,4)
proof (induction "L - 32 * n" arbitrary: n hkdf rule: less_induct)
  case less
  show ?case
  proof (cases "32 * n < L")
    case False
    with less.prems(1) show ?thesis
      by (subst (1 2) hkdf_expand_loop.simps) simp
  next
    case True
    let ?T = "hkdf_T prk info (Suc n)"
    let ?b = "if 32 < L - 32 * n then 32 else L - 32 * n"
    let ?h1 = "if 0 < 32 * n then sb_hmac_sha256_update (hkdf_hmac hkdf) (hkdf_output hkdf)
      else hkdf_hmac hkdf"
    let ?h3 = "sb_hmac_sha256_update (sb_hmac_sha256_update ?h1 info) [of_nat (Suc n)]"
    have "hmac_absorbed prk [] (hkdf_hmac hkdf)"
      unfolding less.prems(1) by (rule mac.absorbed_init [OF assms(1)])
    then have "hmac_absorbed prk (hkdf_T prk info n) ?h1"
      using less.prems(2) mac.absorbed_update [of prk "[]" "hkdf_hmac hkdf" "hkdf_output hkdf"]
      by (cases "n = 0") simp_all
    then have "hmac_absorbed prk ((hkdf_T prk info n @ info) @ [of_nat (Suc n)]) ?h3"
      by (intro mac.absorbed_update)
    then have "sb_hmac_sha256_finish ?h3
        = (?T, \<lparr>hmac_sha = sha_zero, hmac_key = key_block prk\<rparr>)"
      using assms(2) by (subst hmac_finish_val) (auto simp: length_hkdf_T)
    moreover have "sb_hmac_sha256_reinit \<lparr>hmac_sha = sha_zero, hmac_key = key_block prk\<rparr>
        = sb_hmac_sha256_init prk"
      using assms(1) by (intro mac.reinit_init) (simp_all add: hmac_keyed_def)
    ultimately have step: "hkdf_expand_loop info L (32 * n) (of_nat (Suc n)) hkdf =
        (let r = hkdf_expand_loop info L (32 * n + ?b) (of_nat (Suc n) + 1)
            (hkdf\<lparr>hkdf_hmac := sb_hmac_sha256_init prk, hkdf_output := ?T\<rparr>)
         in (take ?b ?T @ fst r, snd r))"
      by (subst hkdf_expand_loop.simps)
        (simp only: True if_True Let_def SB_SHA256_SIZE_def prod.case case_prod_unfold fst_conv snd_conv)
    let ?hk = "hkdf\<lparr>hkdf_hmac := sb_hmac_sha256_init prk, hkdf_output := ?T\<rparr>"
    have upt: "[Suc n..<Suc ((L + 31) div 32)] = Suc n # [Suc (Suc n)..<Suc ((L + 31) div 32)]"
      using True by (intro upt_conv_Cons) linarith
    show ?thesis
    proof (cases "32 < L - 32 * n")
      case more: True
      have "L - 32 * Suc n < L - 32 * n" using True by simp
      from less.hyps [OF this, of ?hk]
      have IH: "fst (hkdf_expand_loop info L (32 * Suc n) (of_nat (Suc (Suc n))) ?hk)
          = take (L - 32 * Suc n) (concat (map (hkdf_T prk info) [Suc (Suc n)..<Suc ((L + 31) div 32)]))"
        "hkdf_hmac (snd (hkdf_expand_loop info L (32 * Suc n) (of_nat (Suc (Suc n))) ?hk))
          = sb_hmac_sha256_init prk"
        by simp_all
      have i: "32 * n + 32 = 32 * Suc n" "of_nat (Suc n) + 1 = (of_nat (Suc (Suc n)) :: sb_byte)"
        by simp_all
      have t: "take (L - 32 * n) (?T @ xs) = ?T @ take (L - 32 * Suc n) xs" for xs
        using more length_hkdf_T [of prk info "Suc n"] by (simp add: add.commute)
      show ?thesis
        unfolding step using more length_hkdf_T [of prk info "Suc n"]
        by (simp only: if_True i IH Let_def fst_conv snd_conv upt list.map concat.simps t) simp
    next
      case last: False
      have e: "32 * n + (L - 32 * n) = L" using True by simp
      have "(L + 31) div 32 = Suc n" using True last by simp
      then have "[Suc (Suc n)..<Suc ((L + 31) div 32)] = []" by simp
      with last length_hkdf_T [of prk info "Suc n"] show ?thesis
        unfolding step upt by (simp add: e Let_def hkdf_expand_loop.simps [of info L L])
    qed
  qed
qed

text \<open>Expansion yields the RFC's output and leaves the state as it was.\<close>

theorem sb_hkdf_expand_val:
  assumes "length prk < 2 ^ 32 - 64" "length info < 2 ^ 31"
  shows "sb_hkdf_expand (hkdf_ready prk) info L = (hkdf_okm prk info L, hkdf_ready prk)"
proof -
  have "fst (hkdf_expand_loop info L 0 1 (hkdf_ready prk)) = hkdf_okm prk info L
    \<and> hkdf_hmac (snd (hkdf_expand_loop info L 0 1 (hkdf_ready prk))) = sb_hmac_sha256_init prk"
    using hkdf_expand_loop_val [OF assms, of "hkdf_ready prk" 0 L]
    by (simp add: hkdf_ready_def hkdf_okm_def)
  then show ?thesis
    by (simp add: sb_hkdf_expand_def case_prod_unfold Let_def hkdf_ready_def SB_SHA256_SIZE_def)
qed

lemma length_hkdf_okm [len_simps]: "length (hkdf_okm prk info L) = L"
proof -
  have "length (concat (map (hkdf_T prk info) [1..<Suc k])) = 32 * k" for k
    by (induction k) (simp_all add: length_hkdf_T len_simps)
  then show ?thesis by (simp add: hkdf_okm_def)
qed

end
