(* ===== verification/Drbg.thy ===== *)
theory Drbg
  imports Hmac
begin

text \<open>
  \<open>sb_hmac_drbg.c\<close>: the HMAC-DRBG state, instantiation, reseeding and generation with their
  argument checks, and their agreement with HMAC_DRBG of SP 800-90A. An output or error is
  part of each operation's result; the state is returned as the code leaves it, on the
  error paths too.
\<close>

subsection \<open>State and limits\<close>

record sb_hmac_drbg_state =
  drbg_hmac :: sb_hmac_sha256_state
  drbg_V :: "sb_byte list"
  reseed_counter :: sb_size

definition SB_HMAC_DRBG_MIN_ENTROPY_INPUT_LENGTH :: nat where
  "SB_HMAC_DRBG_MIN_ENTROPY_INPUT_LENGTH = 32"
definition SB_HMAC_DRBG_MIN_NONCE_LENGTH :: nat where
  "SB_HMAC_DRBG_MIN_NONCE_LENGTH = 16"
definition SB_HMAC_DRBG_RESEED_INTERVAL :: nat where
  "SB_HMAC_DRBG_RESEED_INTERVAL = 1024"
definition SB_HMAC_DRBG_MAX_BYTES_PER_REQUEST :: nat where
  "SB_HMAC_DRBG_MAX_BYTES_PER_REQUEST = 1024"
definition SB_HMAC_DRBG_MAX_ENTROPY_INPUT_LENGTH :: nat where
  "SB_HMAC_DRBG_MAX_ENTROPY_INPUT_LENGTH = 1024"
definition SB_HMAC_DRBG_ADD_VECTOR_LEN :: nat where
  "SB_HMAC_DRBG_ADD_VECTOR_LEN = 4"

lemmas drbg_limits =
  SB_HMAC_DRBG_MIN_ENTROPY_INPUT_LENGTH_def SB_HMAC_DRBG_MIN_NONCE_LENGTH_def
  SB_HMAC_DRBG_RESEED_INTERVAL_def SB_HMAC_DRBG_MAX_BYTES_PER_REQUEST_def
  SB_HMAC_DRBG_MAX_ENTROPY_INPUT_LENGTH_def SB_HMAC_DRBG_ADD_VECTOR_LEN_def

definition drbg_zero :: sb_hmac_drbg_state where
  "drbg_zero = \<lparr>drbg_hmac = hmac_zero, drbg_V = replicate 32 0, reseed_counter = 0\<rparr>"

subsection \<open>Operations\<close>

text \<open>\<open>provided\<close> is the vector of inputs, in order; absent ones are empty.\<close>

definition sb_hmac_drbg_update_step ::
  "sb_hmac_drbg_state \<Rightarrow> sb_byte \<Rightarrow> sb_byte list list \<Rightarrow> sb_hmac_drbg_state" where
  "sb_hmac_drbg_update_step drbg r provided =
     (let h1 = sb_hmac_sha256_reinit (drbg_hmac drbg);
          h2 = sb_hmac_sha256_update h1 (drbg_V drbg);
          h3 = sb_hmac_sha256_update h2 [r];
          h4 = foldl (\<lambda>h p. if 0 < length p then sb_hmac_sha256_update h p else h) h3 provided;
          h5 = sb_hmac_sha256_finish_to_key h4;
          h6 = sb_hmac_sha256_update h5 (drbg_V drbg);
          (v, h7) = sb_hmac_sha256_finish h6
      in drbg\<lparr>drbg_hmac := h7, drbg_V := v\<rparr>)"

definition sb_hmac_drbg_update_vec ::
  "sb_hmac_drbg_state \<Rightarrow> sb_byte list list \<Rightarrow> bool \<Rightarrow> sb_hmac_drbg_state" where
  "sb_hmac_drbg_update_vec drbg provided any_provided =
     (let d1 = sb_hmac_drbg_update_step drbg 0x00 provided
      in if any_provided then sb_hmac_drbg_update_step d1 0x01 provided else d1)"

definition sb_hmac_drbg_reseed ::
  "sb_hmac_drbg_state \<Rightarrow> sb_byte list \<Rightarrow> sb_byte list \<Rightarrow> sb_error \<times> sb_hmac_drbg_state" where
  "sb_hmac_drbg_reseed drbg entropy additional =
     (let err = 0 :: sb_error;
          err = (if reseed_counter drbg = 0 then err OR SB_ERROR_DRBG_UNINITIALIZED else err);
          err = (if length entropy < SB_HMAC_DRBG_MIN_ENTROPY_INPUT_LENGTH
                 then err OR SB_ERROR_INSUFFICIENT_ENTROPY else err);
          err = (if SB_HMAC_DRBG_MAX_ENTROPY_INPUT_LENGTH < length entropy \<or>
                    SB_HMAC_DRBG_MAX_ENTROPY_INPUT_LENGTH < length additional
                 then err OR SB_ERROR_INPUT_TOO_LARGE else err)
      in if err \<noteq> 0 then (err, drbg)
         else
           let d = sb_hmac_drbg_update_vec drbg [entropy, additional, [], []] True
           in (SB_SUCCESS, d\<lparr>reseed_counter := 1\<rparr>))"

text \<open>\<open>count\<close> is a \<open>size_t\<close>, 64 bits wide; the sum wraps.\<close>

definition sb_hmac_drbg_reseed_required :: "sb_hmac_drbg_state \<Rightarrow> 64 word \<Rightarrow> sb_error" where
  "sb_hmac_drbg_reseed_required drbg count =
     (let err = 0 :: sb_error;
          err = (if reseed_counter drbg = 0 then err OR SB_ERROR_DRBG_UNINITIALIZED else err);
          err = (if of_nat (SB_HMAC_DRBG_RESEED_INTERVAL + 1) < ucast (reseed_counter drbg) + count
                 then err OR SB_ERROR_RESEED_REQUIRED else err)
      in err)"

definition sb_hmac_drbg_init ::
  "sb_byte list \<Rightarrow> sb_byte list \<Rightarrow> sb_byte list \<Rightarrow> sb_error \<times> sb_hmac_drbg_state" where
  "sb_hmac_drbg_init entropy nonce personalization =
     (let d0 = drbg_zero\<lparr>drbg_hmac := sb_hmac_sha256_init (drbg_V drbg_zero)\<rparr>;
          d1 = d0\<lparr>drbg_V := replicate SB_SHA256_SIZE 0x01\<rparr>;
          err = 0 :: sb_error;
          err = (if length entropy < SB_HMAC_DRBG_MIN_ENTROPY_INPUT_LENGTH \<or>
                    length nonce < SB_HMAC_DRBG_MIN_NONCE_LENGTH
                 then err OR SB_ERROR_INSUFFICIENT_ENTROPY else err);
          err = (if SB_HMAC_DRBG_MAX_ENTROPY_INPUT_LENGTH < length entropy \<or>
                    SB_HMAC_DRBG_MAX_ENTROPY_INPUT_LENGTH < length nonce \<or>
                    SB_HMAC_DRBG_MAX_ENTROPY_INPUT_LENGTH < length personalization
                 then err OR SB_ERROR_INPUT_TOO_LARGE else err)
      in if err \<noteq> 0 then (err, d1)
         else
           let d2 = sb_hmac_drbg_update_vec d1 [entropy, nonce, personalization, []] True
           in (SB_SUCCESS, d2\<lparr>reseed_counter := 1\<rparr>))"

function drbg_generate_loop ::
  "sb_hmac_drbg_state \<Rightarrow> nat \<Rightarrow> sb_byte list \<times> sb_hmac_drbg_state" where
  "drbg_generate_loop drbg remaining =
     (if remaining = 0 then ([], drbg)
      else
        let gen = (if SB_SHA256_SIZE < remaining then SB_SHA256_SIZE else remaining);
            h1 = sb_hmac_sha256_reinit (drbg_hmac drbg);
            h2 = sb_hmac_sha256_update h1 (drbg_V drbg);
            (v, h3) = sb_hmac_sha256_finish h2;
            (rest, d) = drbg_generate_loop (drbg\<lparr>drbg_hmac := h3, drbg_V := v\<rparr>) (remaining - gen)
        in (take gen v @ rest, d))"
  by pat_completeness auto

termination
  by (relation "measure (\<lambda>(drbg, remaining). remaining)") (auto simp: SB_SHA256_SIZE_def)

declare drbg_generate_loop.simps [simp del]

text \<open>The output is \<open>None\<close> when the call fails before writing any.\<close>

definition sb_hmac_drbg_generate_additional_vec_opt ::
  "sb_hmac_drbg_state \<Rightarrow> nat \<Rightarrow> sb_byte list list \<Rightarrow> bool \<Rightarrow>
     sb_error \<times> sb_byte list option \<times> sb_hmac_drbg_state" where
  "sb_hmac_drbg_generate_additional_vec_opt drbg output_len additional additional_required =
     (let err = 0 :: sb_error;
          err = (if reseed_counter drbg = 0 then err OR SB_ERROR_DRBG_UNINITIALIZED else err);
          err = (if SB_HMAC_DRBG_MAX_BYTES_PER_REQUEST < output_len
                 then err OR SB_ERROR_REQUEST_TOO_LARGE else err);
          total_additional_len = sum_list (map length additional);
          err = (if additional_required \<and> total_additional_len = 0
                 then err OR SB_ERROR_ADDITIONAL_INPUT_REQUIRED else err);
          err = (if SB_HMAC_DRBG_MAX_ENTROPY_INPUT_LENGTH < total_additional_len
                 then err OR SB_ERROR_INPUT_TOO_LARGE else err);
          err = (if of_nat SB_HMAC_DRBG_RESEED_INTERVAL < reseed_counter drbg
                 then err OR SB_ERROR_RESEED_REQUIRED else err)
      in if err \<noteq> 0 then (err, None, drbg)
         else
           let d1 = (if 0 < total_additional_len
                     then sb_hmac_drbg_update_vec drbg additional (0 < total_additional_len) else drbg);
               (output, d2) = drbg_generate_loop d1 output_len;
               d3 = sb_hmac_drbg_update_vec d2 additional (0 < total_additional_len)
           in (SB_SUCCESS, Some output, d3\<lparr>reseed_counter := reseed_counter d3 + 1\<rparr>))"

definition sb_hmac_drbg_generate_additional_vec ::
  "sb_hmac_drbg_state \<Rightarrow> nat \<Rightarrow> sb_byte list list \<Rightarrow>
     sb_error \<times> sb_byte list option \<times> sb_hmac_drbg_state" where
  "sb_hmac_drbg_generate_additional_vec drbg output_len additional =
     sb_hmac_drbg_generate_additional_vec_opt drbg output_len additional True"

definition sb_hmac_drbg_generate ::
  "sb_hmac_drbg_state \<Rightarrow> nat \<Rightarrow> sb_error \<times> sb_byte list option \<times> sb_hmac_drbg_state" where
  "sb_hmac_drbg_generate drbg output_len =
     sb_hmac_drbg_generate_additional_vec_opt drbg output_len [[], [], [], []] False"

definition sb_hmac_drbg_generate_additional_dummy ::
  "sb_hmac_drbg_state \<Rightarrow> nat \<Rightarrow> sb_error \<times> sb_byte list option \<times> sb_hmac_drbg_state" where
  "sb_hmac_drbg_generate_additional_dummy drbg output_len =
     sb_hmac_drbg_generate_additional_vec_opt drbg output_len [[0], [], [], []] True"

subsection \<open>Reference\<close>

text \<open>The working state of SP 800-90A is the pair \<open>(K, V)\<close>.\<close>

type_synonym drbg_kv = "sb_byte list \<times> sb_byte list"

definition spec_update :: "sb_byte list \<Rightarrow> drbg_kv \<Rightarrow> drbg_kv" where
  "spec_update provided KV =
     (let (K, V) = KV;
          K1 = hmac_ref K (V @ [0] @ provided);
          V1 = hmac_ref K1 V
      in if provided = [] then (K1, V1)
         else
           let K2 = hmac_ref K1 (V1 @ [1] @ provided) in (K2, hmac_ref K2 V1))"

definition spec_instantiate :: "sb_byte list \<Rightarrow> sb_byte list \<Rightarrow> sb_byte list \<Rightarrow> drbg_kv" where
  "spec_instantiate entropy nonce personalization =
     spec_update (entropy @ nonce @ personalization) (replicate 32 0, replicate 32 1)"

fun spec_blocks :: "sb_byte list \<Rightarrow> sb_byte list \<Rightarrow> nat \<Rightarrow> sb_byte list \<times> sb_byte list" where
  "spec_blocks K V 0 = ([], V)"
| "spec_blocks K V (Suc n) =
     (let V1 = hmac_ref K V; (rest, V2) = spec_blocks K V1 n in (V1 @ rest, V2))"

definition spec_generate :: "nat \<Rightarrow> sb_byte list \<Rightarrow> drbg_kv \<Rightarrow> sb_byte list \<times> drbg_kv" where
  "spec_generate n additional KV =
     (let (K, V) = (if additional = [] then KV else spec_update additional KV);
          (temp, V1) = spec_blocks K V ((n + 31) div 32)
      in (take n temp, spec_update additional (K, V1)))"

subsection \<open>Refinement\<close>

definition drbg_rel :: "drbg_kv \<Rightarrow> sb_hmac_drbg_state \<Rightarrow> bool" where
  "drbg_rel KV d \<longleftrightarrow> hmac_keyed (fst KV) (drbg_hmac d) \<and> length (fst KV) = 32 \<and>
     drbg_V d = snd KV \<and> length (snd KV) = 32"

lemma foldl_skip_empty:
  "foldl (\<lambda>h p. if p \<noteq> [] then sb_hmac_sha256_update h p else h) h ps
    = foldl sb_hmac_sha256_update h ps"
proof (induction ps arbitrary: h)
  case (Cons p ps)
  have "sb_hmac_sha256_update h [] = h"
    by (cases h) (simp add: sb_hmac_sha256_update_def sb_sha256_update.simps)
  with Cons show ?case by (cases p) simp_all
qed simp

lemma reseed_counter_frame [simp]:
  "reseed_counter (sb_hmac_drbg_update_step d r ps) = reseed_counter d"
  "reseed_counter (sb_hmac_drbg_update_vec d ps b) = reseed_counter d"
  "reseed_counter (snd (drbg_generate_loop d n)) = reseed_counter d"
proof -
  show 1: "reseed_counter (sb_hmac_drbg_update_step d r ps) = reseed_counter d" for d r ps
    by (simp add: sb_hmac_drbg_update_step_def Let_def case_prod_unfold)
  show "reseed_counter (sb_hmac_drbg_update_vec d ps b) = reseed_counter d"
    by (simp add: sb_hmac_drbg_update_vec_def Let_def 1)
  show "reseed_counter (snd (drbg_generate_loop d n)) = reseed_counter d"
  proof (induction d n rule: drbg_generate_loop.induct)
    case (1 d n)
    then show ?case
      by (cases "n = 0"; subst drbg_generate_loop.simps) (simp_all add: Let_def case_prod_unfold)
  qed
qed

lemma drbg_update_step_rel:
  assumes "drbg_rel (K, V) d" "length (concat ps) \<le> 4096"
  shows "drbg_rel (let K1 = hmac_ref K (V @ [r] @ concat ps) in (K1, hmac_ref K1 V))
      (sb_hmac_drbg_update_step d r ps)"
    and "reseed_counter (sb_hmac_drbg_update_step d r ps) = reseed_counter d"
proof -
  let ?h3 = "foldl sb_hmac_sha256_update
    (sb_hmac_sha256_update (sb_hmac_sha256_update (sb_hmac_sha256_reinit (drbg_hmac d)) V) [r]) ps"
  let ?K1 = "hmac_ref K (V @ [r] @ concat ps)"
  have d: "hmac_keyed K (drbg_hmac d)" "length K = 32" "drbg_V d = V" "length V = 32"
    using assms(1) by (simp_all add: drbg_rel_def)
  have "hmac_absorbed K ((([] @ V) @ [r]) @ concat ps) ?h3"
    by (intro mac.absorbed_updates mac.absorbed_update mac.reinit_absorbed d)
  then have "hmac_absorbed ?K1 [] (sb_hmac_sha256_finish_to_key ?h3)"
    using sb_hmac_sha256_finish_to_key_val [of K "V @ [r] @ concat ps" ?h3] d assms(2) by simp
  then have "hmac_absorbed ?K1 ([] @ V) (sb_hmac_sha256_update (sb_hmac_sha256_finish_to_key ?h3) V)"
    by (rule mac.absorbed_update)
  then have f: "sb_hmac_sha256_finish (sb_hmac_sha256_update (sb_hmac_sha256_finish_to_key ?h3) V)
      = (hmac_ref ?K1 V, \<lparr>hmac_sha = sha_zero, hmac_key = key_block ?K1\<rparr>)"
    using d by (subst hmac_finish_val) simp_all
  show "drbg_rel (let K1 = ?K1 in (K1, hmac_ref K1 V)) (sb_hmac_drbg_update_step d r ps)"
    by (simp add: sb_hmac_drbg_update_step_def foldl_skip_empty d Let_def
        f [unfolded append.simps] drbg_rel_def hmac_keyed_def len_simps)
  show "reseed_counter (sb_hmac_drbg_update_step d r ps) = reseed_counter d"
    by (simp add: sb_hmac_drbg_update_step_def Let_def case_prod_unfold)
qed

lemma drbg_update_vec_rel:
  assumes "drbg_rel KV d" "length (concat ps) \<le> 4096"
  shows "drbg_rel (spec_update (concat ps) KV) (sb_hmac_drbg_update_vec d ps (concat ps \<noteq> []))"
    and "reseed_counter (sb_hmac_drbg_update_vec d ps b) = reseed_counter d"
proof -
  obtain K V where KV: "KV = (K, V)" by (cases KV)
  let ?K1 = "hmac_ref K (V @ [0] @ concat ps)"
  note 1 = drbg_update_step_rel [OF assms(1) [unfolded KV] assms(2)]
  note 2 = drbg_update_step_rel [OF 1(1) [of 0, unfolded Let_def] assms(2)]
  show "drbg_rel (spec_update (concat ps) KV) (sb_hmac_drbg_update_vec d ps (concat ps \<noteq> []))"
    using 1(1) [of 0] 2(1) [of 1]
    by (simp add: spec_update_def sb_hmac_drbg_update_vec_def KV Let_def)
  show "reseed_counter (sb_hmac_drbg_update_vec d ps b) = reseed_counter d"
    using 1(2) 2(2) by (simp add: sb_hmac_drbg_update_vec_def Let_def)
qed

lemma drbg_generate_loop_rel:
  assumes "drbg_rel (K, V) d"
  shows "fst (drbg_generate_loop d n) = take n (fst (spec_blocks K V ((n + 31) div 32)))
    \<and> drbg_rel (K, snd (spec_blocks K V ((n + 31) div 32))) (snd (drbg_generate_loop d n))
    \<and> reseed_counter (snd (drbg_generate_loop d n)) = reseed_counter d"
  using assms
proof (induction d n arbitrary: V rule: drbg_generate_loop.induct)
  case (1 d n)
  show ?case
  proof (cases "n = 0")
    case True
    with "1.prems" show ?thesis by (subst (1 2 3) drbg_generate_loop.simps) simp
  next
    case False
    let ?g = "if SB_SHA256_SIZE < n then SB_SHA256_SIZE else n"
    let ?V1 = "hmac_ref K V"
    have d: "hmac_keyed K (drbg_hmac d)" "length K = 32" "drbg_V d = V" "length V = 32"
      using "1.prems" by (simp_all add: drbg_rel_def)
    have "hmac_absorbed K ([] @ V) (sb_hmac_sha256_update (sb_hmac_sha256_reinit (drbg_hmac d)) V)"
      by (intro mac.absorbed_update mac.reinit_absorbed d)
    then have f: "sb_hmac_sha256_finish (sb_hmac_sha256_update (sb_hmac_sha256_reinit (drbg_hmac d)) V)
        = (?V1, \<lparr>hmac_sha = sha_zero, hmac_key = key_block K\<rparr>)"
      using d by (subst hmac_finish_val) simp_all
    let ?d1 = "d\<lparr>drbg_hmac := \<lparr>hmac_sha = sha_zero, hmac_key = key_block K\<rparr>, drbg_V := ?V1\<rparr>"
    have r1: "drbg_rel (K, ?V1) ?d1"
      using d by (simp add: drbg_rel_def hmac_keyed_def len_simps)
    have IH: "fst (drbg_generate_loop ?d1 (n - ?g)) = take (n - ?g) (fst (spec_blocks K ?V1 ((n - ?g + 31) div 32)))
      \<and> drbg_rel (K, snd (spec_blocks K ?V1 ((n - ?g + 31) div 32))) (snd (drbg_generate_loop ?d1 (n - ?g)))
      \<and> reseed_counter (snd (drbg_generate_loop ?d1 (n - ?g))) = reseed_counter ?d1"
      by (rule "1.IH" [OF False refl refl refl _ refl r1]) (simp add: f d)
    have step: "drbg_generate_loop d n =
        (take ?g ?V1 @ fst (drbg_generate_loop ?d1 (n - ?g)), snd (drbg_generate_loop ?d1 (n - ?g)))"
      by (subst drbg_generate_loop.simps) (simp add: False f d Let_def case_prod_unfold)
    have k: "(n + 31) div 32 = Suc ((n - ?g + 31) div 32)"
      using False by (simp add: SB_SHA256_SIZE_def) linarith
    have lv: "length ?V1 = 32" by (simp add: len_simps)
    show ?thesis
      unfolding step k using IH lv False
      by (auto simp: Let_def case_prod_unfold SB_SHA256_SIZE_def)
  qed
qed

subsection \<open>The public operations\<close>

lemma err_zero: "(0 :: sb_error) = SB_SUCCESS"
  by (simp add: SB_SUCCESS_def)

lemma or_if_success:
  "e \<noteq> SB_SUCCESS \<Longrightarrow> (if c then a OR e else a) = SB_SUCCESS \<longleftrightarrow> \<not> c \<and> a = SB_SUCCESS"
  by (simp add: sb_error_or_success)

lemma errors_keep:
  assumes "fst (if e \<noteq> 0 then (e, x) else S) \<noteq> SB_SUCCESS" "fst S = SB_SUCCESS"
  shows "snd (if e \<noteq> 0 then (e, x) else S) = x"
  using assms by (auto split: if_splits)

lemma drbg_init_start: "drbg_rel (replicate 32 0, replicate 32 1)
    (drbg_zero\<lparr>drbg_hmac := sb_hmac_sha256_init (drbg_V drbg_zero),
       drbg_V := replicate SB_SHA256_SIZE 0x01\<rparr>)"
  using mac.absorbed_keyed [OF mac.absorbed_init [of "replicate 32 0"]]
  by (simp add: drbg_rel_def drbg_zero_def SB_SHA256_SIZE_def)

lemma sb_hmac_drbg_init_success_iff:
  "fst (sb_hmac_drbg_init e n p) = SB_SUCCESS \<longleftrightarrow>
    32 \<le> length e \<and> length e \<le> 1024 \<and> 16 \<le> length n \<and> length n \<le> 1024 \<and> length p \<le> 1024"
  unfolding sb_hmac_drbg_init_def drbg_limits Let_def err_zero
  by (auto simp: or_if_success not_less)

lemma sb_hmac_drbg_init_state:
  assumes "fst (sb_hmac_drbg_init e n p) = SB_SUCCESS"
  shows "drbg_rel (spec_instantiate e n p) (snd (sb_hmac_drbg_init e n p))"
    and "reseed_counter (snd (sb_hmac_drbg_init e n p)) = 1"
proof -
  let ?d1 = "drbg_zero\<lparr>drbg_hmac := sb_hmac_sha256_init (drbg_V drbg_zero),
       drbg_V := replicate SB_SHA256_SIZE 0x01\<rparr>"
  have L: "32 \<le> length e" "length e \<le> 1024" "16 \<le> length n" "length n \<le> 1024" "length p \<le> 1024"
    using assms by (simp_all add: sb_hmac_drbg_init_success_iff)
  have i: "sb_hmac_drbg_init e n p =
      (SB_SUCCESS, (sb_hmac_drbg_update_vec ?d1 [e, n, p, []] True)\<lparr>reseed_counter := 1\<rparr>)"
    unfolding sb_hmac_drbg_init_def drbg_limits Let_def using L by (auto simp: err_zero)
  have ne: "concat [e, n, p, []] \<noteq> []" using L by auto
  have "drbg_rel (spec_instantiate e n p) (sb_hmac_drbg_update_vec ?d1 [e, n, p, []] True)"
    using drbg_update_vec_rel(1) [OF drbg_init_start, of "[e, n, p, []]"] L ne
    by (simp add: spec_instantiate_def)
  then show "drbg_rel (spec_instantiate e n p) (snd (sb_hmac_drbg_init e n p))"
    by (simp add: i drbg_rel_def)
  show "reseed_counter (snd (sb_hmac_drbg_init e n p)) = 1"
    by (simp add: i)
qed

lemma sb_hmac_drbg_init_failure:
  assumes "fst (sb_hmac_drbg_init e n p) \<noteq> SB_SUCCESS"
  shows "reseed_counter (snd (sb_hmac_drbg_init e n p)) = 0"
  using errors_keep [OF assms [unfolded sb_hmac_drbg_init_def Let_def]]
  unfolding sb_hmac_drbg_init_def Let_def by (simp add: drbg_zero_def)

lemma sb_hmac_drbg_reseed_success_iff:
  "fst (sb_hmac_drbg_reseed d e a) = SB_SUCCESS \<longleftrightarrow>
    reseed_counter d \<noteq> 0 \<and> 32 \<le> length e \<and> length e \<le> 1024 \<and> length a \<le> 1024"
  unfolding sb_hmac_drbg_reseed_def drbg_limits Let_def err_zero
  by (auto simp: or_if_success not_less)

lemma sb_hmac_drbg_reseed_state:
  assumes "drbg_rel KV d" "fst (sb_hmac_drbg_reseed d e a) = SB_SUCCESS"
  shows "drbg_rel (spec_update (e @ a) KV) (snd (sb_hmac_drbg_reseed d e a))"
    and "reseed_counter (snd (sb_hmac_drbg_reseed d e a)) = 1"
proof -
  have L: "reseed_counter d \<noteq> 0" "32 \<le> length e" "length e \<le> 1024" "length a \<le> 1024"
    using assms(2) by (simp_all add: sb_hmac_drbg_reseed_success_iff)
  have i: "sb_hmac_drbg_reseed d e a =
      (SB_SUCCESS, (sb_hmac_drbg_update_vec d [e, a, [], []] True)\<lparr>reseed_counter := 1\<rparr>)"
    unfolding sb_hmac_drbg_reseed_def drbg_limits Let_def using L by (auto simp: err_zero)
  have ne: "concat [e, a, [], []] \<noteq> []" using L by auto
  have "drbg_rel (spec_update (e @ a) KV) (sb_hmac_drbg_update_vec d [e, a, [], []] True)"
    using drbg_update_vec_rel(1) [OF assms(1), of "[e, a, [], []]"] L ne by simp
  then show "drbg_rel (spec_update (e @ a) KV) (snd (sb_hmac_drbg_reseed d e a))"
    by (simp add: i drbg_rel_def)
  show "reseed_counter (snd (sb_hmac_drbg_reseed d e a)) = 1"
    by (simp add: i)
qed

lemma sb_hmac_drbg_reseed_failure:
  "fst (sb_hmac_drbg_reseed d e a) \<noteq> SB_SUCCESS \<Longrightarrow> snd (sb_hmac_drbg_reseed d e a) = d"
  unfolding sb_hmac_drbg_reseed_def Let_def by (erule errors_keep) simp

lemma sb_hmac_drbg_generate_opt_success_iff:
  "fst (sb_hmac_drbg_generate_additional_vec_opt d n ad req) = SB_SUCCESS \<longleftrightarrow>
    reseed_counter d \<noteq> 0 \<and> reseed_counter d \<le> 1024 \<and> n \<le> 1024 \<and>
    length (concat ad) \<le> 1024 \<and> (req \<longrightarrow> concat ad \<noteq> [])"
  unfolding sb_hmac_drbg_generate_additional_vec_opt_def drbg_limits Let_def err_zero
  by (auto simp: or_if_success not_less length_concat case_prod_unfold)

lemma sb_hmac_drbg_generate_opt_failure:
  "fst (sb_hmac_drbg_generate_additional_vec_opt d n ad req) \<noteq> SB_SUCCESS \<Longrightarrow>
    snd (sb_hmac_drbg_generate_additional_vec_opt d n ad req) = (None, d)"
  unfolding sb_hmac_drbg_generate_additional_vec_opt_def Let_def
  by (erule errors_keep) (simp add: case_prod_unfold)

lemma sb_hmac_drbg_generate_opt_state:
  assumes "drbg_rel KV d" "fst (sb_hmac_drbg_generate_additional_vec_opt d n ad req) = SB_SUCCESS"
  shows "\<exists>d'. snd (sb_hmac_drbg_generate_additional_vec_opt d n ad req)
      = (Some (fst (spec_generate n (concat ad) KV)), d')
    \<and> drbg_rel (snd (spec_generate n (concat ad) KV)) d' \<and> reseed_counter d' = reseed_counter d + 1"
proof -
  let ?any = "concat ad \<noteq> []"
  have L: "reseed_counter d \<noteq> 0" "reseed_counter d \<le> 1024" "n \<le> 1024"
    "length (concat ad) \<le> 1024" "req \<longrightarrow> ?any"
    using assms(2) unfolding sb_hmac_drbg_generate_opt_success_iff by blast+
  define d1 where "d1 = (if ?any then sb_hmac_drbg_update_vec d ad True else d)"
  obtain K V where KV1: "(if concat ad = [] then KV else spec_update (concat ad) KV) = (K, V)"
    by (metis surj_pair)
  have r1: "drbg_rel (K, V) d1" "reseed_counter d1 = reseed_counter d"
    using drbg_update_vec_rel [OF assms(1), of ad] L(4) assms(1) KV1
    by (auto simp: d1_def split: if_splits)
  define d2 where "d2 = snd (drbg_generate_loop d1 n)"
  define V2 where "V2 = snd (spec_blocks K V ((n + 31) div 32))"
  have r2: "fst (drbg_generate_loop d1 n) = take n (fst (spec_blocks K V ((n + 31) div 32)))"
    "drbg_rel (K, V2) d2" "reseed_counter d2 = reseed_counter d"
    using drbg_generate_loop_rel [OF r1(1), of n] r1(2) by (simp_all add: d2_def V2_def)
  define d3 where "d3 = sb_hmac_drbg_update_vec d2 ad ?any"
  have r3: "drbg_rel (spec_update (concat ad) (K, V2)) d3" "reseed_counter d3 = reseed_counter d"
    using drbg_update_vec_rel [OF r2(2), of ad] L(4) r2(3) by (simp_all add: d3_def)
  have tot: "0 < sum_list (map length ad) \<longleftrightarrow> ?any"
    by (simp add: length_concat [symmetric] del: concat_eq_Nil_conv length_concat)
  have "snd (sb_hmac_drbg_generate_additional_vec_opt d n ad req)
      = (Some (fst (drbg_generate_loop d1 n)), d3\<lparr>reseed_counter := reseed_counter d + 1\<rparr>)"
    using L unfolding sb_hmac_drbg_generate_additional_vec_opt_def drbg_limits Let_def tot
    by (auto simp: d1_def d2_def d3_def r3(2) case_prod_unfold err_zero length_concat)
  moreover have "spec_generate n (concat ad) KV
      = (fst (drbg_generate_loop d1 n), spec_update (concat ad) (K, V2))"
    unfolding spec_generate_def KV1 by (simp add: r2(1) V2_def case_prod_unfold Let_def)
  ultimately show ?thesis
    using r3(1) by (simp add: drbg_rel_def)
qed

subsection \<open>Reachable states and the reseed limit\<close>

inductive drbg_reachable :: "sb_hmac_drbg_state \<Rightarrow> bool" where
  reach_init: "drbg_reachable (snd (sb_hmac_drbg_init e n p))"
| reach_reseed: "drbg_reachable d \<Longrightarrow> drbg_reachable (snd (sb_hmac_drbg_reseed d e a))"
| reach_generate: "drbg_reachable d \<Longrightarrow>
    drbg_reachable (snd (snd (sb_hmac_drbg_generate_additional_vec_opt d n ad req)))"

lemma drbg_reachable_inv:
  "drbg_reachable d \<Longrightarrow> reseed_counter d \<le> 1025 \<and> (reseed_counter d \<noteq> 0 \<longrightarrow> (\<exists>KV. drbg_rel KV d))"
proof (induction rule: drbg_reachable.induct)
  case (reach_init e n p)
  show ?case
  proof (cases "fst (sb_hmac_drbg_init e n p) = SB_SUCCESS")
    case True
    from sb_hmac_drbg_init_state [OF True] show ?thesis
      by (intro conjI impI exI) simp_all
  next
    case False
    from sb_hmac_drbg_init_failure [OF False] show ?thesis by simp
  qed
next
  case (reach_reseed d e a)
  show ?case
  proof (cases "fst (sb_hmac_drbg_reseed d e a) = SB_SUCCESS")
    case True
    then obtain KV where "drbg_rel KV d"
      using reach_reseed.IH by (auto simp: sb_hmac_drbg_reseed_success_iff)
    from sb_hmac_drbg_reseed_state [OF this True] show ?thesis
      by (intro conjI impI exI) simp_all
  next
    case False
    with reach_reseed.IH show ?thesis by (simp add: sb_hmac_drbg_reseed_failure)
  qed
next
  case (reach_generate d n ad req)
  show ?case
  proof (cases "fst (sb_hmac_drbg_generate_additional_vec_opt d n ad req) = SB_SUCCESS")
    case True
    then have c: "reseed_counter d \<noteq> 0" "reseed_counter d \<le> 1024"
      by (simp_all add: sb_hmac_drbg_generate_opt_success_iff)
    then obtain KV where "drbg_rel KV d"
      using reach_generate.IH by auto
    from sb_hmac_drbg_generate_opt_state [OF this True] obtain d' where
      d': "snd (sb_hmac_drbg_generate_additional_vec_opt d n ad req)
        = (Some (fst (spec_generate n (concat ad) KV)), d')"
      "drbg_rel (snd (spec_generate n (concat ad) KV)) d'" "reseed_counter d' = reseed_counter d + 1"
      by blast
    have "reseed_counter d + 1 \<le> 1025"
      using c(2) by unat_arith
    with d' show ?thesis
      by (intro conjI impI exI) simp_all
  next
    case False
    with reach_generate.IH show ?thesis by (simp add: sb_hmac_drbg_generate_opt_failure)
  qed
qed

text \<open>A run of successive requests, stopping at the first error.\<close>

fun drbg_generates :: "sb_hmac_drbg_state \<Rightarrow> nat list \<Rightarrow> sb_error" where
  "drbg_generates d [] = SB_SUCCESS"
| "drbg_generates d (n # ns) =
     (let (err, out, d') = sb_hmac_drbg_generate d n
      in if err \<noteq> SB_SUCCESS then err else drbg_generates d' ns)"

lemma generate_counter:
  assumes "fst (sb_hmac_drbg_generate d n) = SB_SUCCESS"
  shows "reseed_counter (snd (snd (sb_hmac_drbg_generate d n))) = reseed_counter d + 1"
proof -
  have L: "reseed_counter d \<noteq> 0" "reseed_counter d \<le> 1024" "n \<le> 1024"
    using assms unfolding sb_hmac_drbg_generate_def sb_hmac_drbg_generate_opt_success_iff by auto
  then have "\<not> 1024 < reseed_counter d" by simp
  with L show ?thesis
    unfolding sb_hmac_drbg_generate_def sb_hmac_drbg_generate_additional_vec_opt_def drbg_limits Let_def
    by (simp add: case_prod_unfold)
qed

text \<open>A run of requests that are not too large succeeds exactly when the counter leaves room for all of them.\<close>

lemma drbg_generates_iff:
  assumes "\<forall>n \<in> set ns. n \<le> 1024"
  shows "drbg_generates d ns = SB_SUCCESS \<longleftrightarrow>
    ns = [] \<or> reseed_counter d \<noteq> 0 \<and> unat (reseed_counter d) + length ns \<le> 1025"
  using assms
proof (induction ns arbitrary: d)
  case (Cons n ns)
  let ?r = "sb_hmac_drbg_generate d n"
  have s: "fst ?r = SB_SUCCESS \<longleftrightarrow> reseed_counter d \<noteq> 0 \<and> unat (reseed_counter d) \<le> 1024"
    using Cons.prems unfolding sb_hmac_drbg_generate_def sb_hmac_drbg_generate_opt_success_iff
    by (simp add: word_le_nat_alt)
  show ?case
  proof (cases "fst ?r = SB_SUCCESS")
    case True
    have c: "unat (reseed_counter (snd (snd ?r))) = unat (reseed_counter d) + 1"
      unfolding generate_counter [OF True]
      using unat_add_lem [THEN iffD1, of "reseed_counter d" 1] s True by simp
    then have "reseed_counter (snd (snd ?r)) \<noteq> 0" by auto
    with c s True Cons show ?thesis
      by (auto simp: case_prod_unfold Let_def)
  next
    case False
    with s show ?thesis by (auto simp: case_prod_unfold Let_def)
  qed
qed simp

text \<open>
  What \<open>reseed_required\<close> answers: the sum of the counter and the count, which wraps at 64 bits, is compared.
\<close>

lemma reseed_required_iff:
  "sb_hmac_drbg_reseed_required d count = SB_SUCCESS \<longleftrightarrow>
    reseed_counter d \<noteq> 0 \<and> (unat (reseed_counter d) + unat count) mod 2 ^ 64 \<le> 1025"
proof -
  have "unat (ucast (reseed_counter d) + count :: 64 word) = (unat (reseed_counter d) + unat count) mod 2 ^ 64"
    by (simp add: unat_word_ariths unat_ucast_size)
  then show ?thesis
    unfolding sb_hmac_drbg_reseed_required_def drbg_limits Let_def err_zero
    by (auto simp: or_if_success word_less_nat_alt)
qed

text \<open>
  With a count that does not wrap the sum: success promises that this many requests succeed.
\<close>

lemma reseed_required_success_iff:
  assumes "c + 2 ^ 32 \<le> 2 ^ 64"
  shows "sb_hmac_drbg_reseed_required d (of_nat c) = SB_SUCCESS \<longleftrightarrow>
    reseed_counter d \<noteq> 0 \<and> unat (reseed_counter d) + c \<le> 1025"
proof -
  have "unat (reseed_counter d) < 2 ^ 32"
    using unsigned_less [of "reseed_counter d"] by simp
  moreover have "unat (of_nat c :: 64 word) = c"
    using assms by (intro of_nat_inverse) simp_all
  ultimately show ?thesis
    using assms by (simp add: reseed_required_iff)
qed

end
