(* ===== verification/Hash_Claims.thy ===== *)
theory Hash_Claims
  imports Hkdf Drbg Sha256_Vectors
begin

text \<open>The properties of the hash, MAC, key derivation and random generator components.\<close>

text \<open>
  C31: streaming SHA-256: initialising, feeding any sequence of pieces and finishing gives the
  FIPS 180-4 digest of their concatenation and clears the state, while fewer than \<open>2 ^ 32\<close>
  bytes are absorbed; \<open>sb_sha256_finish_to_buffer\<close> leaves the same digest in the buffer.
\<close>

theorem sha256_streaming:
  assumes "length (concat pieces) < 2 ^ 32"
  shows "sb_sha256_finish (foldl sb_sha256_update sb_sha256_init pieces)
      = (sha256 (concat pieces), sha_zero)
    \<and> take 32 (sha_buffer (sb_sha256_finish_to_buffer (foldl sb_sha256_update sb_sha256_init pieces)))
      = sha256 (concat pieces)"
proof -
  have a: "sha_absorbed (concat pieces) (foldl sb_sha256_update sb_sha256_init pieces)"
    using sha.absorbed_updates [OF sha.absorbed_init, of pieces] by simp
  show ?thesis
    using sb_sha256_finish_digest [OF a assms] sb_sha256_finish_to_buffer_digest(1) [OF a assms] by blast
qed

theorem sha256_streaming_witness:
  "sb_sha256_finish (foldl sb_sha256_update sb_sha256_init [[0x61], [], [0x62, 0x63]])
    = (sha256 [0x61, 0x62, 0x63], sha_zero)"
  using sha256_streaming [of "[[0x61], [], [0x62, 0x63]]"] by simp

text \<open>
  C32: \<open>sb_sha256_process_block\<close>, with its rotating message schedule and rotating working
  variables, computes the compression function of FIPS 180-4.
\<close>

theorem process_block_compresses:
  assumes "length M = 64" "length (ihash sha) = 8" "length (sha_W sha) = 16"
  shows "ihash (sb_sha256_process_block sha M) = fips_compress (ihash sha) M"
  by (rule sb_sha256_process_block_eq(1) [OF assms])

theorem process_block_compresses_witness:
  "ihash (sb_sha256_process_block sb_sha256_init (replicate 64 7))
    = fips_compress (ihash sb_sha256_init) (replicate 64 7)"
  by (rule process_block_compresses)
    (simp_all add: sb_sha256_init_def sha_zero_def sb_sha256_init_state_def)

text \<open>
  The round constants and initial hash value are the first 32 bits of the fractional
  parts of the cube roots of the first 64 primes and the square roots of the first 8.
\<close>

theorem sha256_constants:
  "list_all2 (\<lambda>n k. root_fraction 3 n (root_floor 3 n) (uint k)) first_primes sha_K
   \<and> list_all2 (\<lambda>n h. root_fraction 2 n (root_floor 2 n) (uint h)) (take 8 first_primes) sb_sha256_init_state"
  using sha_K_cube_roots sb_sha256_init_state_roots by blast

text \<open>
  The model run on the message \<open>abc\<close> yields the digest of FIPS 180-2 that the
  repository's test expects.
\<close>

theorem sha256_abc:
  "fst (sb_sha256_message [0x61, 0x62, 0x63]) =
    [0xBA, 0x78, 0x16, 0xBF, 0x8F, 0x01, 0xCF, 0xEA, 0x41, 0x41, 0x40, 0xDE, 0x5D, 0xAE, 0x22, 0x23,
     0xB0, 0x03, 0x61, 0xA3, 0x96, 0x17, 0x7A, 0x9C, 0xB4, 0x10, 0xFF, 0x61, 0xF2, 0x00, 0x15, 0xAD]"
  by code_simp

text \<open>
  C33: \<open>sb_hmac_sha256\<close> computes HMAC-SHA256 for keys of every length, and
  \<open>sb_hmac_sha256_finish_to_key\<close> rekeys a state with a 32-byte key to its own MAC.
\<close>

theorem hmac_correct:
  assumes "length key < 2 ^ 32 - 64" "length input < 2 ^ 32 - 64"
    and "hmac_absorbed k msg h" "length msg < 2 ^ 32 - 64" "length k = 32"
  shows "fst (sb_hmac_sha256 key input) = hmac_ref key input
    \<and> hmac_absorbed (hmac_ref k msg) [] (sb_hmac_sha256_finish_to_key h)"
  using sb_hmac_sha256_val [OF assms(1,2)] sb_hmac_sha256_finish_to_key_val [OF assms(3-5)] by blast

theorem hmac_correct_witness:
  "fst (sb_hmac_sha256 [1, 2] [3]) = hmac_ref [1, 2] [3]
    \<and> hmac_absorbed (hmac_ref (replicate 32 0) []) []
        (sb_hmac_sha256_finish_to_key (sb_hmac_sha256_init (replicate 32 0)))"
  by (rule hmac_correct) (simp_all add: mac.absorbed_init)

text \<open>
  C34: HKDF: extraction from any sequence of pieces followed by expansion yields the output
  of RFC 5869, of the requested length, and expansion leaves the state unchanged, so that it
  can be repeated.
\<close>

theorem hkdf_correct:
  assumes "length salt < 2 ^ 32 - 64" "length (concat ikms) < 2 ^ 32 - 64" "length info < 2 ^ 31"
  shows "let h = sb_hkdf_extract_finish (foldl sb_hkdf_extract_update (sb_hkdf_extract_init salt) ikms)
    in sb_hkdf_expand h info L = (hkdf_okm (hkdf_prk salt (concat ikms)) info L, h)
      \<and> length (fst (sb_hkdf_expand h info L)) = L"
proof -
  have "length (hkdf_prk salt (concat ikms)) < 2 ^ 32 - 64"
    by (simp add: hkdf_prk_def len_simps)
  from sb_hkdf_expand_val [OF this assms(3), of L] show ?thesis
    unfolding sb_hkdf_extract_parts [OF assms(1,2)] Let_def by (simp add: len_simps)
qed

theorem hkdf_correct_witness:
  "let h = sb_hkdf_extract_finish (foldl sb_hkdf_extract_update (sb_hkdf_extract_init []) [[1], [2]])
    in sb_hkdf_expand h [3] 40 = (hkdf_okm (hkdf_prk [] [1, 2]) [3] 40, h)
      \<and> length (fst (sb_hkdf_expand h [3] 40)) = 40"
  using hkdf_correct [of "[]" "[[1], [2]]" "[3]" 40] by simp

text \<open>
  C35: \<open>sb_hmac_drbg_init\<close> accepts exactly the documented input lengths, then holds the
  working state of SP 800-90A's Instantiate and may be used; rejected inputs leave a state
  that every later call refuses.
\<close>

theorem drbg_init_correct:
  "let (err, d) = sb_hmac_drbg_init e n p in
    (err = SB_SUCCESS \<longleftrightarrow> 32 \<le> length e \<and> length e \<le> 1024 \<and> 16 \<le> length n \<and> length n \<le> 1024
        \<and> length p \<le> 1024)
    \<and> (if err = SB_SUCCESS then drbg_rel (spec_instantiate e n p) d \<and> reseed_counter d = 1
       else reseed_counter d = 0)"
  using sb_hmac_drbg_init_state [of e n p] sb_hmac_drbg_init_failure [of e n p]
  by (simp add: case_prod_unfold Let_def sb_hmac_drbg_init_success_iff)

text \<open>
  C36: generation: in a state that implements the working state \<open>(K, V)\<close> a request succeeds
  exactly within the limits on counter, output and additional input, returns the output of
  SP 800-90A's Generate, advances \<open>(K, V)\<close> as it prescribes and counts the request; a
  refused request changes nothing.
\<close>

theorem drbg_generate_correct:
  assumes "drbg_rel KV d"
  shows "case sb_hmac_drbg_generate_additional_vec_opt d n ad req of (err, out, d') \<Rightarrow>
    (err = SB_SUCCESS \<longleftrightarrow> reseed_counter d \<noteq> 0 \<and> reseed_counter d \<le> 1024 \<and> n \<le> 1024
       \<and> length (concat ad) \<le> 1024 \<and> \<not> (req \<and> concat ad = []))
    \<and> (if err = SB_SUCCESS
       then out = Some (fst (spec_generate n (concat ad) KV))
         \<and> drbg_rel (snd (spec_generate n (concat ad) KV)) d' \<and> reseed_counter d' = reseed_counter d + 1
       else out = None \<and> d' = d)"
proof -
  obtain err out d' where r: "sb_hmac_drbg_generate_additional_vec_opt d n ad req = (err, out, d')"
    by (metis prod_cases3)
  show ?thesis
    using sb_hmac_drbg_generate_opt_success_iff [of d n ad req]
      sb_hmac_drbg_generate_opt_failure [of d n ad req]
      sb_hmac_drbg_generate_opt_state [OF assms, of n ad req]
    unfolding r by (auto simp del: concat_eq_Nil_conv)
qed

theorem drbg_generate_correct_witness:
  "fst (snd (sb_hmac_drbg_generate_additional_vec_opt
       (snd (sb_hmac_drbg_init (replicate 32 1) (replicate 16 2) [])) 48 [[5], [], [], []] True))
    = Some (fst (spec_generate 48 [5] (spec_instantiate (replicate 32 1) (replicate 16 2) [])))"
proof -
  let ?d = "snd (sb_hmac_drbg_init (replicate 32 1) (replicate 16 2) [])"
  have s: "fst (sb_hmac_drbg_init (replicate 32 1) (replicate 16 2) []) = SB_SUCCESS"
    by (simp add: sb_hmac_drbg_init_success_iff)
  show ?thesis
    using drbg_generate_correct [OF sb_hmac_drbg_init_state(1) [OF s], of 48 "[[5], [], [], []]" True]
      sb_hmac_drbg_init_state(2) [OF s]
    by (simp split: prod.splits)
qed

text \<open>
  C37: reseeding: it succeeds exactly for an initialised state and inputs within the limits,
  mixes entropy and additional input as SP 800-90A prescribes and restarts the request
  counter; a refused reseed changes nothing.
\<close>

theorem drbg_reseed_correct:
  assumes "drbg_rel KV d"
  shows "case sb_hmac_drbg_reseed d e a of (err, d') \<Rightarrow>
    (err = SB_SUCCESS \<longleftrightarrow> reseed_counter d \<noteq> 0 \<and> 32 \<le> length e \<and> length e \<le> 1024 \<and> length a \<le> 1024)
    \<and> (if err = SB_SUCCESS then drbg_rel (spec_update (e @ a) KV) d' \<and> reseed_counter d' = 1
       else d' = d)"
  using sb_hmac_drbg_reseed_success_iff [of d e a] sb_hmac_drbg_reseed_failure [of d e a]
    sb_hmac_drbg_reseed_state [OF assms, of e a]
  by (auto simp: case_prod_unfold)

theorem drbg_reseed_correct_witness:
  "reseed_counter (snd (sb_hmac_drbg_reseed
     (snd (sb_hmac_drbg_init (replicate 32 1) (replicate 16 2) [])) (replicate 32 3) [])) = 1"
proof -
  have s: "fst (sb_hmac_drbg_init (replicate 32 1) (replicate 16 2) []) = SB_SUCCESS"
    by (simp add: sb_hmac_drbg_init_success_iff)
  show ?thesis
    using drbg_reseed_correct [OF sb_hmac_drbg_init_state(1) [OF s], of "replicate 32 3" "[]"]
      sb_hmac_drbg_init_state(2) [OF s]
    by (simp split: prod.splits)
qed

text \<open>
  C38: in every state that initialisation, reseeding and generation can reach, in any order
  and with any arguments, the request counter is at most one above the reseed interval, and
  a state with a nonzero counter implements some SP 800-90A working state.
\<close>

theorem drbg_reachable_sound:
  assumes "drbg_reachable d"
  shows "reseed_counter d \<le> 1025 \<and> (reseed_counter d = 0 \<or> (\<exists>KV. drbg_rel KV d))"
  using drbg_reachable_inv [OF assms] by blast

theorem drbg_reachable_sound_witness:
  "reseed_counter (snd (sb_hmac_drbg_init [] [] [])) \<le> 1025"
  using drbg_reachable_sound [OF reach_init [of "[]" "[]" "[]"]] by blast

text \<open>
  C39: \<open>sb_hmac_drbg_reseed_required\<close> is a promise: when it returns success for a count whose
  sum with the counter does not wrap, that many requests of at most 1024 bytes succeed.
\<close>

theorem reseed_required_promise:
  assumes "length ns + 2 ^ 32 \<le> 2 ^ 64"
    and "sb_hmac_drbg_reseed_required d (of_nat (length ns)) = SB_SUCCESS" "list_all (\<lambda>n. n \<le> 1024) ns"
  shows "drbg_generates d ns = SB_SUCCESS"
  using assms drbg_generates_iff [of ns d]
  by (simp add: reseed_required_success_iff list_all_iff)

theorem reseed_required_promise_witness:
  "drbg_generates (drbg_zero\<lparr>reseed_counter := 1024\<rparr>) [7] = SB_SUCCESS"
  by (rule reseed_required_promise)
    (simp_all add: sb_hmac_drbg_reseed_required_def drbg_limits SB_SUCCESS_def word_less_nat_alt)

text \<open>
  C40: for every state and every nonzero 64-bit count, \<open>sb_hmac_drbg_reseed_required\<close> answers success exactly
  when that many requests in a row would succeed, or when the sum of the counter and the count wraps to
  at most 1025, the interval plus one. In the second case the answer is wrong: when the sum wraps the requests cannot all
  succeed. Without the wrap the answer is thus right in both directions.
\<close>

theorem reseed_required_wraps:
  fixes d :: sb_hmac_drbg_state and count :: "64 word"
  assumes "0 < count" "n \<le> 1024"
  shows "(sb_hmac_drbg_reseed_required d count = SB_SUCCESS \<longleftrightarrow>
      drbg_generates d (replicate (unat count) n) = SB_SUCCESS \<or>
      unat (reseed_counter d) + unat count \<in> {2 ^ 64..2 ^ 64 + 1025}) \<and>
    \<not> (2 ^ 64 \<le> unat (reseed_counter d) + unat count \<and> drbg_generates d (replicate (unat count) n) = SB_SUCCESS)"
proof -
  have b: "unat (reseed_counter d) < 2 ^ 32" "unat count < 2 ^ 64" "0 < unat count"
    using unsigned_less [of "reseed_counter d"] unsigned_less [of count] assms(1) by (simp_all add: unat_gt_0 word_gt_0)
  have r: "drbg_generates d (replicate (unat count) n) = SB_SUCCESS \<longleftrightarrow>
      reseed_counter d \<noteq> 0 \<and> unat (reseed_counter d) + unat count \<le> 1025"
    using drbg_generates_iff [of "replicate (unat count) n" d] assms(2) b(3) by auto
  have z: "reseed_counter d \<noteq> 0" if "2 ^ 64 \<le> unat (reseed_counter d) + unat count"
    using that b(2) by auto
  show ?thesis
  proof (cases "2 ^ 64 \<le> unat (reseed_counter d) + unat count")
    case True
    then have "(unat (reseed_counter d) + unat count) mod 2 ^ 64 = unat (reseed_counter d) + unat count - 2 ^ 64"
      using b by (simp add: mod_if)
    then show ?thesis
      using True z r b unfolding reseed_required_iff by auto
  next
    case False
    then show ?thesis
      using r unfolding reseed_required_iff by simp
  qed
qed

text \<open>The exhausted state with the largest count, and the last request that the interval allows.\<close>

theorem reseed_required_wraps_witness:
  "sb_hmac_drbg_reseed_required (drbg_zero\<lparr>reseed_counter := 1025\<rparr>) (- 1) = SB_SUCCESS \<and>
   drbg_generates (drbg_zero\<lparr>reseed_counter := 1025\<rparr>) (replicate (unat (- 1 :: 64 word)) 1) \<noteq> SB_SUCCESS \<and>
   drbg_generates (drbg_zero\<lparr>reseed_counter := 1024\<rparr>) (replicate (unat (1 :: 64 word)) 1) = SB_SUCCESS"
proof (intro conjI)
  let ?d = "drbg_zero\<lparr>reseed_counter := 1025\<rparr>" and ?m = "- 1 :: 64 word"
  have "unat (reseed_counter ?d) + unat ?m = 2 ^ 64 + 1024"
    by (simp add: unsigned_minus_1_eq_mask mask_eq_exp_minus_1)
  then have w: "2 ^ 64 \<le> unat (reseed_counter ?d) + unat ?m" "unat (reseed_counter ?d) + unat ?m \<in> {2 ^ 64..2 ^ 64 + 1025}"
    by simp_all
  have m: "0 < ?m" by (simp add: word_gt_0)
  have t: "(1 :: nat) \<le> 1024" by simp
  show "sb_hmac_drbg_reseed_required ?d ?m = SB_SUCCESS"
    using reseed_required_wraps [OF m t, of ?d] w(2) by blast
  show "drbg_generates ?d (replicate (unat ?m) 1) \<noteq> SB_SUCCESS"
    using reseed_required_wraps [OF m t, of ?d] w(1) by blast
  have "sb_hmac_drbg_reseed_required (drbg_zero\<lparr>reseed_counter := 1024\<rparr>) 1 = SB_SUCCESS"
    by (simp add: sb_hmac_drbg_reseed_required_def drbg_limits SB_SUCCESS_def)
  then show "drbg_generates (drbg_zero\<lparr>reseed_counter := 1024\<rparr>) (replicate (unat (1 :: 64 word)) 1) = SB_SUCCESS"
    using reseed_required_wraps [of 1 1 "drbg_zero\<lparr>reseed_counter := 1024\<rparr>"] by simp
qed

end
