(* ===== verification/Curve_Points.thy ===== *)
theory Curve_Points
  imports Curves
begin

text \<open>
  The precomputed points of \<open>sb_sw_curves.h\<close>: their affine coordinates, that they lie on
  their curve, that \<open>g_h_r\<close> is the chord sum of \<open>g_r\<close> and \<open>h_r\<close>, and that \<open>dz_r\<close> of P-256 is
  the double of \<open>(0, sqrt B)\<close>.
\<close>

lemma SB_CURVE_P256_g_r_val:
  "point_val SB_CURVE_P256_P (g_r SB_CURVE_P256) =
    (48439561293906451759052585252797914202762949526041747995844080717082404635286,
     36134250956749795798585127919587881956611106672985015071877198253568414405109)"
  unfolding point_val_def prod.inject
proof
  show "mval SB_CURVE_P256_P (pair_x (g_r SB_CURVE_P256)) = 48439561293906451759052585252797914202762949526041747995844080717082404635286"
    by (rule mval_eqI [OF SB_CURVE_P256_P_ok, where k = 48439561305184665993423894364723378180203120149941700644825339993997804377148])
      (simp_all add: SB_CURVE_P256_P_val SB_CURVE_P256_def sb_fe_const_def fe_val_FE)
  show "mval SB_CURVE_P256_P (pair_y (g_r SB_CURVE_P256)) = 36134250956749795798585127919587881956611106672985015071877198253568414405109"
    by (rule mval_eqI [OF SB_CURVE_P256_P_ok, where k = 36134250965162956706795637328930375411003541772815910961454314815606691812874])
      (simp_all add: SB_CURVE_P256_P_val SB_CURVE_P256_def sb_fe_const_def fe_val_FE)
qed

lemma SB_CURVE_P256_g_r_on_curve: "curve_on SB_CURVE_P256 (point_val SB_CURVE_P256_P (g_r SB_CURVE_P256))"
  unfolding curve_on_def on_curve_def SB_CURVE_P256_g_r_val SB_CURVE_P256_coeffs SB_CURVE_P256_P_val
  by (rule eqmI [where k = "-981570988164258562257936101525215858910690391106138407341175333813841188485201771743408849884010754226965632845910189239885256093057339116530079505515608"]) simp

lemma SB_CURVE_P256_h_r_val:
  "point_val SB_CURVE_P256_P (h_r SB_CURVE_P256) =
    (34332587213918660075394534022875366097089151272163442614457406318957304830825,
     5768968955262278090624466357355325188120458878960250268579740370794362127061)"
  unfolding point_val_def prod.inject
proof
  show "mval SB_CURVE_P256_P (pair_x (h_r SB_CURVE_P256)) = 34332587213918660075394534022875366097089151272163442614457406318957304830825"
    by (rule mval_eqI [OF SB_CURVE_P256_P_ok, where k = 34332587221912338454713830258451023607339747313796016930417185443366908648305])
      (simp_all add: SB_CURVE_P256_P_val SB_CURVE_P256_def sb_fe_const_def fe_val_FE)
  show "mval SB_CURVE_P256_P (pair_y (h_r SB_CURVE_P256)) = 5768968955262278090624466357355325188120458878960250268579740370794362127061"
    by (rule mval_eqI [OF SB_CURVE_P256_P_ok, where k = 5768968956605470845697374388716439869718181323131324967609908705124019958849])
      (simp_all add: SB_CURVE_P256_P_val SB_CURVE_P256_def sb_fe_const_def fe_val_FE)
qed

lemma SB_CURVE_P256_h_r_on_curve: "curve_on SB_CURVE_P256 (point_val SB_CURVE_P256_P (h_r SB_CURVE_P256))"
  unfolding curve_on_def on_curve_def SB_CURVE_P256_h_r_val SB_CURVE_P256_coeffs SB_CURVE_P256_P_val
  by (rule eqmI [where k = "-349494789987200994935750150373048261585306081669136436192120877269219446826407888277392114525806955522777444296030544967892210981576364010457082475932720"]) simp

lemma SB_CURVE_P256_g_h_r_val:
  "point_val SB_CURVE_P256_P (g_h_r SB_CURVE_P256) =
    (103102196290052725627475652681610485224355994702169295043019110904016971944331,
     72406596023179751964672291067139324557749883351688408395861487303476005747311)"
  unfolding point_val_def prod.inject
proof
  show "mval SB_CURVE_P256_P (pair_x (g_h_r SB_CURVE_P256)) = 103102196290052725627475652681610485224355994702169295043019110904016971944331"
    by (rule mval_eqI [OF SB_CURVE_P256_P_ok, where k = 103102196314058076351816238119653008428710575316185419059168675057790766166777])
      (simp_all add: SB_CURVE_P256_P_val SB_CURVE_P256_def sb_fe_const_def fe_val_FE)
  show "mval SB_CURVE_P256_P (pair_y (g_h_r SB_CURVE_P256)) = 72406596023179751964672291067139324557749883351688408395861487303476005747311"
    by (rule mval_eqI [OF SB_CURVE_P256_P_ok, where k = 72406596040038226321534949692781889085136411835525799583077505150838006004663])
      (simp_all add: SB_CURVE_P256_P_val SB_CURVE_P256_def sb_fe_const_def fe_val_FE)
qed

lemma SB_CURVE_P256_g_h_r_on_curve: "curve_on SB_CURVE_P256 (point_val SB_CURVE_P256_P (g_h_r SB_CURVE_P256))"
  unfolding curve_on_def on_curve_def SB_CURVE_P256_g_h_r_val SB_CURVE_P256_coeffs SB_CURVE_P256_P_val
  by (rule eqmI [where k = "-9465092452223213850319767605363667331238508620638075331567601522213117158384117130996918503164513152646918158520983739705317769960592570443736173178665668"]) simp

lemma SB_CURVE_P256_dz_r_val:
  "point_val SB_CURVE_P256_P (dz_r SB_CURVE_P256) =
    (87812602023915091554008014672837927937550987992501844572273008327590008072628,
     30362411217190829796407765600294096177413203619928371208700569416610654782886)"
  unfolding point_val_def prod.inject
proof
  show "mval SB_CURVE_P256_P (pair_x (dz_r SB_CURVE_P256)) = 87812602023915091554008014672837927937550987992501844572273008327590008072628"
    by (rule mval_eqI [OF SB_CURVE_P256_P_ok, where k = 87812602044360556204157260314322710963343063729228411923253332764027606589910])
      (simp_all add: SB_CURVE_P256_P_val SB_CURVE_P256_def sb_fe_const_def fe_val_FE)
  show "mval SB_CURVE_P256_P (pair_y (dz_r SB_CURVE_P256)) = 30362411217190829796407765600294096177413203619928371208700569416610654782886"
    by (rule mval_eqI [OF SB_CURVE_P256_P_ok, where k = 30362411224260129542989777710395578074641610673280154165092249249146911805051])
      (simp_all add: SB_CURVE_P256_P_val SB_CURVE_P256_def sb_fe_const_def fe_val_FE)
qed

lemma SB_CURVE_P256_dz_r_on_curve: "curve_on SB_CURVE_P256 (point_val SB_CURVE_P256_P (dz_r SB_CURVE_P256))"
  unfolding curve_on_def on_curve_def SB_CURVE_P256_dz_r_val SB_CURVE_P256_coeffs SB_CURVE_P256_P_val
  by (rule eqmI [where k = "-5847788388728478107794006047807026543843729063824420660989950119334616781552470718438011706862191624658501930316034527993271015012476028704426718399420213"]) simp

lemma SB_CURVE_P256_g_h_chord:
  "chord (modulus SB_CURVE_P256_P) (point_val SB_CURVE_P256_P (g_r SB_CURVE_P256))
    (point_val SB_CURVE_P256_P (h_r SB_CURVE_P256)) (point_val SB_CURVE_P256_P (g_h_r SB_CURVE_P256))"
proof (rule chordI [where l = 17959646256308154024943388438976078717070295545832493692706402421623707657024])
  show "eqm (modulus SB_CURVE_P256_P) (17959646256308154024943388438976078717070295545832493692706402421623707657024
      * (fst (point_val SB_CURVE_P256_P (h_r SB_CURVE_P256)) - fst (point_val SB_CURVE_P256_P (g_r SB_CURVE_P256))))
    (snd (point_val SB_CURVE_P256_P (h_r SB_CURVE_P256)) - snd (point_val SB_CURVE_P256_P (g_r SB_CURVE_P256)))"
    unfolding SB_CURVE_P256_g_r_val SB_CURVE_P256_h_r_val SB_CURVE_P256_P_val
    by (rule eqmI [where k = "-2188027402832534367954948393064676847777107193558509254543579314997683182816"]) simp
  show "slope_result (modulus SB_CURVE_P256_P) 17959646256308154024943388438976078717070295545832493692706402421623707657024 (point_val SB_CURVE_P256_P (g_r SB_CURVE_P256))
      (point_val SB_CURVE_P256_P (h_r SB_CURVE_P256)) (point_val SB_CURVE_P256_P (g_h_r SB_CURVE_P256))"
    unfolding slope_result_def SB_CURVE_P256_g_r_val SB_CURVE_P256_h_r_val SB_CURVE_P256_g_h_r_val SB_CURVE_P256_P_val
  proof
    show "eqm 115792089210356248762697446949407573530086143415290314195533631308867097853951 (fst (103102196290052725627475652681610485224355994702169295043019110904016971944331, 72406596023179751964672291067139324557749883351688408395861487303476005747311)) (17959646256308154024943388438976078717070295545832493692706402421623707657024 * 17959646256308154024943388438976078717070295545832493692706402421623707657024
      - fst (48439561293906451759052585252797914202762949526041747995844080717082404635286, 36134250956749795798585127919587881956611106672985015071877198253568414405109) - fst (34332587213918660075394534022875366097089151272163442614457406318957304830825, 5768968955262278090624466357355325188120458878960250268579740370794362127061))"
      by (rule eqmI [where k = "-2785586613484086477450875206321288368799521644645200101270605606463049981834"]) simp
    show "eqm 115792089210356248762697446949407573530086143415290314195533631308867097853951 (snd (103102196290052725627475652681610485224355994702169295043019110904016971944331, 72406596023179751964672291067139324557749883351688408395861487303476005747311)) (17959646256308154024943388438976078717070295545832493692706402421623707657024
      * (fst (48439561293906451759052585252797914202762949526041747995844080717082404635286, 36134250956749795798585127919587881956611106672985015071877198253568414405109) - fst (103102196290052725627475652681610485224355994702169295043019110904016971944331, 72406596023179751964672291067139324557749883351688408395861487303476005747311)) - snd (48439561293906451759052585252797914202762949526041747995844080717082404635286, 36134250956749795798585127919587881956611106672985015071877198253568414405109))"
      by (rule eqmI [where k = "8478313109844761253723517961154122081600602338314356698860483082664410609500"]) simp
  qed
qed

text \<open>\<open>dz_r\<close> is the double of the point \<open>(0, sqrt B)\<close> with an even ordinate.\<close>

lemma SB_CURVE_P256_dz_tangent:
  "\<exists>s. even s \<and> 0 < s \<and> s < modulus SB_CURVE_P256_P \<and> curve_on SB_CURVE_P256 (0, s)
    \<and> tangent (modulus SB_CURVE_P256_P) (fe_val (minus_a SB_CURVE_P256)) (0, s) (point_val SB_CURVE_P256_P (dz_r SB_CURVE_P256))"
proof (intro exI [where x = 46263761741508638697010950048709651021688891777877937875096931459006746039284] conjI)
  show "curve_on SB_CURVE_P256 (0, 46263761741508638697010950048709651021688891777877937875096931459006746039284)"
    unfolding curve_on_def on_curve_def SB_CURVE_P256_coeffs SB_CURVE_P256_P_val
    by (rule eqmI [where k = "18484299446284197684144414341734473199757642899935467386529302760226016477115"]) simp
  show "tangent (modulus SB_CURVE_P256_P) (fe_val (minus_a SB_CURVE_P256)) (0, 46263761741508638697010950048709651021688891777877937875096931459006746039284)
    (point_val SB_CURVE_P256_P (dz_r SB_CURVE_P256))"
    unfolding SB_CURVE_P256_dz_r_val SB_CURVE_P256_coeffs SB_CURVE_P256_P_val
  proof (rule tangentI [where l = 23690043341463944510323288098440906703583671471480598422422328377199957971118])
    show "eqm 115792089210356248762697446949407573530086143415290314195533631308867097853951 (23690043341463944510323288098440906703583671471480598422422328377199957971118 * (2 * snd (0 :: int, 46263761741508638697010950048709651021688891777877937875096931459006746039284))) (3 * (fst (0 :: int, 46263761741508638697010950048709651021688891777877937875096931459006746039284) * fst (0, 46263761741508638697010950048709651021688891777877937875096931459006746039284)) - 3)"
      by (rule eqmI [where k = "18930317749158939397759450338759961437268563408202886020615981129879931084877"]) simp
    show "slope_result 115792089210356248762697446949407573530086143415290314195533631308867097853951 23690043341463944510323288098440906703583671471480598422422328377199957971118 (0, 46263761741508638697010950048709651021688891777877937875096931459006746039284) (0, 46263761741508638697010950048709651021688891777877937875096931459006746039284) (87812602023915091554008014672837927937550987992501844572273008327590008072628, 30362411217190829796407765600294096177413203619928371208700569416610654782886)"
      unfolding slope_result_def
    proof
      show "eqm 115792089210356248762697446949407573530086143415290314195533631308867097853951 (fst (87812602023915091554008014672837927937550987992501844572273008327590008072628, 30362411217190829796407765600294096177413203619928371208700569416610654782886)) (23690043341463944510323288098440906703583671471480598422422328377199957971118 * 23690043341463944510323288098440906703583671471480598422422328377199957971118 - fst (0, 46263761741508638697010950048709651021688891777877937875096931459006746039284) - fst (0, 46263761741508638697010950048709651021688891777877937875096931459006746039284))"
        by (rule eqmI [where k = "-4846774571109869656284262307990952010935450379627743112073019371643099018096"]) simp
      show "eqm 115792089210356248762697446949407573530086143415290314195533631308867097853951 (snd (87812602023915091554008014672837927937550987992501844572273008327590008072628, 30362411217190829796407765600294096177413203619928371208700569416610654782886)) (23690043341463944510323288098440906703583671471480598422422328377199957971118 * (fst (0, 46263761741508638697010950048709651021688891777877937875096931459006746039284) - fst (87812602023915091554008014672837927937550987992501844572273008327590008072628, 30362411217190829796407765600294096177413203619928371208700569416610654782886)) - snd (0, 46263761741508638697010950048709651021688891777877937875096931459006746039284))"
        by (rule eqmI [where k = "17965686274941275485758839607001591463973385328146064316381448676353485032974"]) simp
    qed
  qed
qed (simp_all add: SB_CURVE_P256_P_val)

lemma SB_CURVE_SECP256K1_g_r_val:
  "point_val SB_CURVE_SECP256K1_P (g_r SB_CURVE_SECP256K1) =
    (55066263022277343669578718895168534326250603453777594175500187360389116729240,
     32670510020758816978083085130507043184471273380659243275938904335757337482424)"
  unfolding point_val_def prod.inject
proof
  show "mval SB_CURVE_SECP256K1_P (pair_x (g_r SB_CURVE_SECP256K1)) = 55066263022277343669578718895168534326250603453777594175500187360389116729240"
    by (rule mval_eqI [OF SB_CURVE_SECP256K1_P_ok, where k = 55066263022277343669578718895168534326250603453777594175500187360391159250919])
      (simp_all add: SB_CURVE_SECP256K1_P_val SB_CURVE_SECP256K1_def sb_fe_const_def fe_val_FE)
  show "mval SB_CURVE_SECP256K1_P (pair_y (g_r SB_CURVE_SECP256K1)) = 32670510020758816978083085130507043184471273380659243275938904335757337482424"
    by (rule mval_eqI [OF SB_CURVE_SECP256K1_P_ok, where k = 32670510020758816978083085130507043184471273380659243275938904335758549299266])
      (simp_all add: SB_CURVE_SECP256K1_P_val SB_CURVE_SECP256K1_def sb_fe_const_def fe_val_FE)
qed

lemma SB_CURVE_SECP256K1_g_r_on_curve: "curve_on SB_CURVE_SECP256K1 (point_val SB_CURVE_SECP256K1_P (g_r SB_CURVE_SECP256K1))"
  unfolding curve_on_def on_curve_def SB_CURVE_SECP256K1_g_r_val SB_CURVE_SECP256K1_coeffs SB_CURVE_SECP256K1_P_val
  by (rule eqmI [where k = "-1442042049659660869506300006036683750029629333882594701370927246876626245108380856639305499338031129995113023553104880348296174641918497707014850671791697"]) simp

lemma SB_CURVE_SECP256K1_h_r_val:
  "point_val SB_CURVE_SECP256K1_P (h_r SB_CURVE_SECP256K1) =
    (47897111076640463810467555693502849859886916163281787624478195141001645829098,
     90530735944064631660242383675596130284489644009848324490538280581039260436259)"
  unfolding point_val_def prod.inject
proof
  show "mval SB_CURVE_SECP256K1_P (pair_x (h_r SB_CURVE_SECP256K1)) = 47897111076640463810467555693502849859886916163281787624478195141001645829098"
    by (rule mval_eqI [OF SB_CURVE_SECP256K1_P_ok, where k = 47897111076640463810467555693502849859886916163281787624478195141003422432092])
      (simp_all add: SB_CURVE_SECP256K1_P_val SB_CURVE_SECP256K1_def sb_fe_const_def fe_val_FE)
  show "mval SB_CURVE_SECP256K1_P (pair_y (h_r SB_CURVE_SECP256K1)) = 90530735944064631660242383675596130284489644009848324490538280581039260436259"
    by (rule mval_eqI [OF SB_CURVE_SECP256K1_P_ok, where k = 90530735944064631660242383675596130284489644009848324490538280581042618408648])
      (simp_all add: SB_CURVE_SECP256K1_P_val SB_CURVE_SECP256K1_def sb_fe_const_def fe_val_FE)
qed

lemma SB_CURVE_SECP256K1_h_r_on_curve: "curve_on SB_CURVE_SECP256K1 (point_val SB_CURVE_SECP256K1_P (h_r SB_CURVE_SECP256K1))"
  unfolding curve_on_def on_curve_def SB_CURVE_SECP256K1_h_r_val SB_CURVE_SECP256K1_coeffs SB_CURVE_SECP256K1_P_val
  by (rule eqmI [where k = "-948962539661395552454578090871765113708284365030164064510280495318688467203915427106537309877821144573545649994057670256315837539371532004951036104740688"]) simp

lemma SB_CURVE_SECP256K1_g_h_r_val:
  "point_val SB_CURVE_SECP256K1_P (g_h_r SB_CURVE_SECP256K1) =
    (58127312380108696722810509858928150040584924411576883826606885577936398621400,
     100777747288061005033737501267462412993538766522736129536239889372893456667564)"
  unfolding point_val_def prod.inject
proof
  show "mval SB_CURVE_SECP256K1_P (pair_x (g_h_r SB_CURVE_SECP256K1)) = 58127312380108696722810509858928150040584924411576883826606885577936398621400"
    by (rule mval_eqI [OF SB_CURVE_SECP256K1_P_ok, where k = 58127312380108696722810509858928150040584924411576883826606885577938554683736])
      (simp_all add: SB_CURVE_SECP256K1_P_val SB_CURVE_SECP256K1_def sb_fe_const_def fe_val_FE)
  show "mval SB_CURVE_SECP256K1_P (pair_y (g_h_r SB_CURVE_SECP256K1)) = 100777747288061005033737501267462412993538766522736129536239889372893456667564"
    by (rule mval_eqI [OF SB_CURVE_SECP256K1_P_ok, where k = 100777747288061005033737501267462412993538766522736129536239889372897194722815])
      (simp_all add: SB_CURVE_SECP256K1_P_val SB_CURVE_SECP256K1_def sb_fe_const_def fe_val_FE)
qed

lemma SB_CURVE_SECP256K1_g_h_r_on_curve: "curve_on SB_CURVE_SECP256K1 (point_val SB_CURVE_SECP256K1_P (g_h_r SB_CURVE_SECP256K1))"
  unfolding curve_on_def on_curve_def SB_CURVE_SECP256K1_g_h_r_val SB_CURVE_SECP256K1_coeffs SB_CURVE_SECP256K1_P_val
  by (rule eqmI [where k = "-1696140558186156605448504892850085607706423842741033827757366827360335936198424158185941743570424329357361607858806389289413166056059865613526354564972897"]) simp

lemma SB_CURVE_SECP256K1_g_h_chord:
  "chord (modulus SB_CURVE_SECP256K1_P) (point_val SB_CURVE_SECP256K1_P (g_r SB_CURVE_SECP256K1))
    (point_val SB_CURVE_SECP256K1_P (h_r SB_CURVE_SECP256K1)) (point_val SB_CURVE_SECP256K1_P (g_h_r SB_CURVE_SECP256K1))"
proof (rule chordI [where l = 22508661098018288201677872790302149011709780364222861827623790748163892226342])
  show "eqm (modulus SB_CURVE_SECP256K1_P) (22508661098018288201677872790302149011709780364222861827623790748163892226342
      * (fst (point_val SB_CURVE_SECP256K1_P (h_r SB_CURVE_SECP256K1)) - fst (point_val SB_CURVE_SECP256K1_P (g_r SB_CURVE_SECP256K1))))
    (snd (point_val SB_CURVE_SECP256K1_P (h_r SB_CURVE_SECP256K1)) - snd (point_val SB_CURVE_SECP256K1_P (g_r SB_CURVE_SECP256K1)))"
    unfolding SB_CURVE_SECP256K1_g_r_val SB_CURVE_SECP256K1_h_r_val SB_CURVE_SECP256K1_P_val
    by (rule eqmI [where k = "-1393601346753617942472589588007509843972023402732833263583422881941873401073"]) simp
  show "slope_result (modulus SB_CURVE_SECP256K1_P) 22508661098018288201677872790302149011709780364222861827623790748163892226342 (point_val SB_CURVE_SECP256K1_P (g_r SB_CURVE_SECP256K1))
      (point_val SB_CURVE_SECP256K1_P (h_r SB_CURVE_SECP256K1)) (point_val SB_CURVE_SECP256K1_P (g_h_r SB_CURVE_SECP256K1))"
    unfolding slope_result_def SB_CURVE_SECP256K1_g_r_val SB_CURVE_SECP256K1_h_r_val SB_CURVE_SECP256K1_g_h_r_val SB_CURVE_SECP256K1_P_val
  proof
    show "eqm 115792089237316195423570985008687907853269984665640564039457584007908834671663 (fst (58127312380108696722810509858928150040584924411576883826606885577936398621400, 100777747288061005033737501267462412993538766522736129536239889372893456667564)) (22508661098018288201677872790302149011709780364222861827623790748163892226342 * 22508661098018288201677872790302149011709780364222861827623790748163892226342
      - fst (55066263022277343669578718895168534326250603453777594175500187360389116729240, 32670510020758816978083085130507043184471273380659243275938904335757337482424) - fst (47897111076640463810467555693502849859886916163281787624478195141001645829098, 90530735944064631660242383675596130284489644009848324490538280581039260436259))"
      by (rule eqmI [where k = "-4375426920461571268081249782681173883627322069197798048905688421166828633302"]) simp
    show "eqm 115792089237316195423570985008687907853269984665640564039457584007908834671663 (snd (58127312380108696722810509858928150040584924411576883826606885577936398621400, 100777747288061005033737501267462412993538766522736129536239889372893456667564)) (22508661098018288201677872790302149011709780364222861827623790748163892226342
      * (fst (55066263022277343669578718895168534326250603453777594175500187360389116729240, 32670510020758816978083085130507043184471273380659243275938904335757337482424) - fst (58127312380108696722810509858928150040584924411576883826606885577936398621400, 100777747288061005033737501267462412993538766522736129536239889372893456667564)) - snd (55066263022277343669578718895168534326250603453777594175500187360389116729240, 32670510020758816978083085130507043184471273380659243275938904335757337482424))"
      by (rule eqmI [where k = "595033072237961389117627917379919453454062321317768561376254111993910586716"]) simp
  qed
qed

end
