(* ===== verification/Context.thy ===== *)
theory Context
  imports Curves Hkdf Drbg
begin

text \<open>
  \<open>include/sb_sw_context.h\<close> and the accessor macros, error macros and curve lookup at the
  top of \<open>sb_sw_lib.c\<close>. The fields of the context carry the names of the accessor macros.
  Two overlays of the C structure matter and are kept: the saved state of an incremental
  operation occupies the same bytes as the temporaries \<open>C_T5\<close> and \<open>C_T6\<close>, so arithmetic
  destroys it; and the operands of signing and of the two phases of verification share
  four elements. The outer union of \<open>param_gen\<close> with \<open>param_use\<close> is not overlaid: every
  operation writes the members of \<open>param_use\<close> that it reads after its last use of
  \<open>param_gen\<close>.
\<close>

subsection \<open>Saved state\<close>

type_synonym sb_sw_incremental_operation = "32 word"
type_synonym sb_sw_op_stage = "32 word"

definition SB_SW_INCREMENTAL_OPERATION_NONE :: sb_sw_incremental_operation where
  "SB_SW_INCREMENTAL_OPERATION_NONE = 0"
definition SB_SW_INCREMENTAL_OPERATION_COMPUTE_PUBLIC_KEY :: sb_sw_incremental_operation where
  "SB_SW_INCREMENTAL_OPERATION_COMPUTE_PUBLIC_KEY = 1"
definition SB_SW_INCREMENTAL_OPERATION_SHARED_SECRET :: sb_sw_incremental_operation where
  "SB_SW_INCREMENTAL_OPERATION_SHARED_SECRET = 2"
definition SB_SW_INCREMENTAL_OPERATION_POINT_MULTIPLY :: sb_sw_incremental_operation where
  "SB_SW_INCREMENTAL_OPERATION_POINT_MULTIPLY = 3"
definition SB_SW_INCREMENTAL_OPERATION_SIGN_MESSAGE_DIGEST :: sb_sw_incremental_operation where
  "SB_SW_INCREMENTAL_OPERATION_SIGN_MESSAGE_DIGEST = 4"
definition SB_SW_INCREMENTAL_OPERATION_VERIFY_SIGNATURE :: sb_sw_incremental_operation where
  "SB_SW_INCREMENTAL_OPERATION_VERIFY_SIGNATURE = 5"

lemmas operation_defs =
  SB_SW_INCREMENTAL_OPERATION_NONE_def SB_SW_INCREMENTAL_OPERATION_COMPUTE_PUBLIC_KEY_def
  SB_SW_INCREMENTAL_OPERATION_SHARED_SECRET_def SB_SW_INCREMENTAL_OPERATION_POINT_MULTIPLY_def
  SB_SW_INCREMENTAL_OPERATION_SIGN_MESSAGE_DIGEST_def
  SB_SW_INCREMENTAL_OPERATION_VERIFY_SIGNATURE_def

definition SB_SW_POINT_MULT_OP_STAGE_LADDER :: sb_sw_op_stage where
  "SB_SW_POINT_MULT_OP_STAGE_LADDER = 0"
definition SB_SW_POINT_MULT_OP_STAGE_INV_Z :: sb_sw_op_stage where
  "SB_SW_POINT_MULT_OP_STAGE_INV_Z = 1"
definition SB_SW_POINT_MULT_OP_DONE :: sb_sw_op_stage where
  "SB_SW_POINT_MULT_OP_DONE = 2"

definition SB_SW_SIGN_OP_STAGE_INV :: sb_sw_op_stage where
  "SB_SW_SIGN_OP_STAGE_INV = SB_SW_POINT_MULT_OP_DONE"
definition SB_SW_SIGN_OP_STAGE_DONE :: sb_sw_op_stage where
  "SB_SW_SIGN_OP_STAGE_DONE = 3"

definition SB_SW_VERIFY_OP_STAGE_INV_S :: sb_sw_op_stage where
  "SB_SW_VERIFY_OP_STAGE_INV_S = 0"
definition SB_SW_VERIFY_OP_STAGE_INV_Z :: sb_sw_op_stage where
  "SB_SW_VERIFY_OP_STAGE_INV_Z = 1"
definition SB_SW_VERIFY_OP_STAGE_LADDER :: sb_sw_op_stage where
  "SB_SW_VERIFY_OP_STAGE_LADDER = 2"
definition SB_SW_VERIFY_OP_STAGE_TEST :: sb_sw_op_stage where
  "SB_SW_VERIFY_OP_STAGE_TEST = 3"
definition SB_SW_VERIFY_OP_DONE :: sb_sw_op_stage where
  "SB_SW_VERIFY_OP_DONE = 4"

lemmas mult_stage_defs =
  SB_SW_POINT_MULT_OP_STAGE_LADDER_def SB_SW_POINT_MULT_OP_STAGE_INV_Z_def
  SB_SW_POINT_MULT_OP_DONE_def SB_SW_SIGN_OP_STAGE_INV_def SB_SW_SIGN_OP_STAGE_DONE_def

lemmas verify_stage_defs =
  SB_SW_VERIFY_OP_STAGE_INV_S_def SB_SW_VERIFY_OP_STAGE_INV_Z_def
  SB_SW_VERIFY_OP_STAGE_LADDER_def SB_SW_VERIFY_OP_STAGE_TEST_def SB_SW_VERIFY_OP_DONE_def

text \<open>
  \<open>sb_sw_context_saved_state_t\<close>; \<open>res\<close> of the inner union shares the word of \<open>inv_k\<close>.
\<close>

record sb_sw_saved_state =
  st_operation :: sb_sw_incremental_operation
  st_curve_id :: sb_sw_curve_id
  st_stage :: sb_sw_op_stage
  st_i :: sb_size
  st_inv_k :: sb_word
  st_k_one :: sb_word
  st_swap :: sb_word

abbreviation "st_res \<equiv> st_inv_k"
abbreviation "st_res_update \<equiv> st_inv_k_update"

definition saved_state_zero :: sb_sw_saved_state where
  "saved_state_zero = \<lparr>st_operation = 0, st_curve_id = 0, st_stage = 0, st_i = 0,
     st_inv_k = 0, st_k_one = 0, st_swap = 0\<rparr>"

subsection \<open>The context\<close>

text \<open>
  \<open>sb_sw_context_t\<close>: \<open>params\<close>, then \<open>param_gen\<close>, then \<open>param_use\<close>. The last four fields
  are the elements shared by \<open>sign\<close> and \<open>verify\<close>.
\<close>

definition SB_SW_CONTEXT_PARAM_BUF_ELEMS :: nat where
  "SB_SW_CONTEXT_PARAM_BUF_ELEMS = 4"

definition SB_SW_FIPS186_4_CANDIDATES :: nat where
  "SB_SW_FIPS186_4_CANDIDATES = SB_SW_CONTEXT_PARAM_BUF_ELEMS"

record sb_sw_context =
  MULT_K :: sb_fe
  MULT_Z :: sb_fe
  gen_drbg :: sb_hmac_drbg_state
  gen_hkdf :: sb_hkdf_state
  gen_sha :: sb_sha256_state
  MULT_Z2 :: sb_fe
  gen_buf :: "sb_byte list"
  C_X1 :: sb_fe
  C_Y1 :: sb_fe
  C_X2 :: sb_fe
  C_Y2 :: sb_fe
  MULT_POINT_X :: sb_fe
  MULT_POINT_Y :: sb_fe
  C_T5 :: sb_fe
  C_T6 :: sb_fe
  C_T7 :: sb_fe
  C_T8 :: sb_fe
  use_0 :: sb_fe
  use_1 :: sb_fe
  use_2 :: sb_fe
  use_3 :: sb_fe

abbreviation "SIGN_MESSAGE \<equiv> use_0"
abbreviation "SIGN_MESSAGE_update \<equiv> use_0_update"
abbreviation "SIGN_PRIVATE \<equiv> use_1"
abbreviation "SIGN_PRIVATE_update \<equiv> use_1_update"
abbreviation "VERIFY_QR \<equiv> use_0"
abbreviation "VERIFY_QR_update \<equiv> use_0_update"
abbreviation "VERIFY_MESSAGE \<equiv> use_1"
abbreviation "VERIFY_MESSAGE_update \<equiv> use_1_update"
abbreviation "VERIFY_QS \<equiv> use_2"
abbreviation "VERIFY_QS_update \<equiv> use_2_update"
abbreviation "MULT_ADD_KG \<equiv> use_1"
abbreviation "MULT_ADD_KG_update \<equiv> use_1_update"
abbreviation "MULT_ADD_PG_X \<equiv> use_2"
abbreviation "MULT_ADD_PG_X_update \<equiv> use_2_update"
abbreviation "MULT_ADD_PG_Y \<equiv> use_3"
abbreviation "MULT_ADD_PG_Y_update \<equiv> use_3_update"

text \<open>\<open>SB_NULLIFY(ctx)\<close>.\<close>

definition context_zero :: sb_sw_context where
  "context_zero = \<lparr>MULT_K = SB_FE_ZERO, MULT_Z = SB_FE_ZERO, gen_drbg = drbg_zero,
     gen_hkdf = hkdf_zero, gen_sha = sha_zero, MULT_Z2 = SB_FE_ZERO,
     gen_buf = replicate (SB_SW_CONTEXT_PARAM_BUF_ELEMS * SB_ELEM_BYTES) 0,
     C_X1 = SB_FE_ZERO, C_Y1 = SB_FE_ZERO, C_X2 = SB_FE_ZERO, C_Y2 = SB_FE_ZERO,
     MULT_POINT_X = SB_FE_ZERO, MULT_POINT_Y = SB_FE_ZERO,
     C_T5 = SB_FE_ZERO, C_T6 = SB_FE_ZERO, C_T7 = SB_FE_ZERO, C_T8 = SB_FE_ZERO,
     use_0 = SB_FE_ZERO, use_1 = SB_FE_ZERO, use_2 = SB_FE_ZERO, use_3 = SB_FE_ZERO\<rparr>"

text \<open>
  \<open>*MULT_STATE(ctx)\<close>: the two 32-bit halves of the first two words of \<open>C_T5\<close>, its other
  words and the first word of \<open>C_T6\<close>, in the order of the structure's members.
\<close>

definition pack32 :: "32 word \<Rightarrow> 32 word \<Rightarrow> sb_word" where
  "pack32 lo hi = ucast lo OR push_bit 32 (ucast hi)"

definition MULT_STATE :: "sb_sw_context \<Rightarrow> sb_sw_saved_state" where
  "MULT_STATE c =
     \<lparr>st_operation = ucast (fe0 (C_T5 c)), st_curve_id = ucast (drop_bit 32 (fe0 (C_T5 c))),
      st_stage = ucast (fe1 (C_T5 c)), st_i = ucast (drop_bit 32 (fe1 (C_T5 c))),
      st_inv_k = fe2 (C_T5 c), st_k_one = fe3 (C_T5 c), st_swap = fe0 (C_T6 c)\<rparr>"

definition set_MULT_STATE :: "sb_sw_context \<Rightarrow> sb_sw_saved_state \<Rightarrow> sb_sw_context" where
  "set_MULT_STATE c st =
     c\<lparr>C_T5 := FE (pack32 (st_operation st) (st_curve_id st)) (pack32 (st_stage st) (st_i st))
           (st_inv_k st) (st_k_one st),
       C_T6 := FE (st_swap st) (fe1 (C_T6 c)) (fe2 (C_T6 c)) (fe3 (C_T6 c))\<rparr>"

subsection \<open>Error returns and curve lookup\<close>

text \<open>
  \<open>SB_RETURN_ERRORS(err, ctx)\<close> leaves the function with a nullified context when an error
  bit is set, and \<open>SB_RETURN(err, ctx)\<close> nullifies the context in any case: the operations
  below return \<open>context_zero\<close> there. A curve pointer is an option.
\<close>

definition sb_sw_curve_from_id :: "sb_sw_curve_id \<Rightarrow> sb_error \<times> sb_sw_curve option" where
  "sb_sw_curve_from_id curve =
     (if curve = SB_SW_CURVE_P256 then (0, Some SB_CURVE_P256)
      else if curve = SB_SW_CURVE_SECP256K1 then (0, Some SB_CURVE_SECP256K1)
      else (SB_ERROR_CURVE_INVALID, None))"

lemma sb_sw_curve_from_id_cases:
  obtains (P256) "curve = SB_SW_CURVE_P256" "sb_sw_curve_from_id curve = (SB_SUCCESS, Some SB_CURVE_P256)"
  | (SECP256K1) "curve = SB_SW_CURVE_SECP256K1"
      "sb_sw_curve_from_id curve = (SB_SUCCESS, Some SB_CURVE_SECP256K1)"
  | (invalid) "curve \<noteq> SB_SW_CURVE_P256" "curve \<noteq> SB_SW_CURVE_SECP256K1"
      "sb_sw_curve_from_id curve = (SB_ERROR_CURVE_INVALID, None)"
  by (cases "curve = SB_SW_CURVE_P256"; cases "curve = SB_SW_CURVE_SECP256K1")
    (auto simp: sb_sw_curve_from_id_def SB_SUCCESS_def SB_SW_CURVE_P256_def SB_SW_CURVE_SECP256K1_def)

subsection \<open>Storing the state over the temporaries\<close>

lemma unpack32 [simp]:
  "(ucast (pack32 lo hi) :: 32 word) = lo"
  "(ucast (drop_bit 32 (pack32 lo hi)) :: 32 word) = hi"
  by (rule bit_word_eqI, auto simp: pack32_def bit_simps dest: bit_imp_le_length)+

lemma MULT_STATE_set [simp]: "MULT_STATE (set_MULT_STATE c st) = st"
  by (cases st) (simp add: MULT_STATE_def set_MULT_STATE_def)

text \<open>Only \<open>C_T5\<close> and \<open>C_T6\<close> are written, and the state only depends on them.\<close>

lemma set_MULT_STATE_frame [simp]:
  "MULT_K (set_MULT_STATE c st) = MULT_K c" "MULT_Z (set_MULT_STATE c st) = MULT_Z c"
  "C_X1 (set_MULT_STATE c st) = C_X1 c" "C_Y1 (set_MULT_STATE c st) = C_Y1 c"
  "C_X2 (set_MULT_STATE c st) = C_X2 c" "C_Y2 (set_MULT_STATE c st) = C_Y2 c"
  "MULT_POINT_X (set_MULT_STATE c st) = MULT_POINT_X c"
  "MULT_POINT_Y (set_MULT_STATE c st) = MULT_POINT_Y c"
  "C_T7 (set_MULT_STATE c st) = C_T7 c" "C_T8 (set_MULT_STATE c st) = C_T8 c"
  "use_0 (set_MULT_STATE c st) = use_0 c" "use_1 (set_MULT_STATE c st) = use_1 c"
  "use_2 (set_MULT_STATE c st) = use_2 c" "use_3 (set_MULT_STATE c st) = use_3 c"
  "gen_buf (set_MULT_STATE c st) = gen_buf c"
  by (simp_all add: set_MULT_STATE_def)

lemma MULT_STATE_frame [simp]:
  "MULT_STATE (c\<lparr>MULT_K := a\<rparr>) = MULT_STATE c" "MULT_STATE (c\<lparr>MULT_Z := a\<rparr>) = MULT_STATE c"
  "MULT_STATE (c\<lparr>C_X1 := a\<rparr>) = MULT_STATE c" "MULT_STATE (c\<lparr>C_Y1 := a\<rparr>) = MULT_STATE c"
  "MULT_STATE (c\<lparr>C_X2 := a\<rparr>) = MULT_STATE c" "MULT_STATE (c\<lparr>C_Y2 := a\<rparr>) = MULT_STATE c"
  "MULT_STATE (c\<lparr>MULT_POINT_X := a\<rparr>) = MULT_STATE c"
  "MULT_STATE (c\<lparr>MULT_POINT_Y := a\<rparr>) = MULT_STATE c"
  by (simp_all add: MULT_STATE_def)

subsection \<open>What the operations need of a curve\<close>

text \<open>
  The facts about the curve constants on which the correctness of the operations rests;
  both curves of the library have them.
\<close>

definition pair_qr :: "sb_prime_field \<Rightarrow> sb_fe_pair \<Rightarrow> bool" where
  "pair_qr F q \<longleftrightarrow> quasi_reduced F (pair_x q) \<and> quasi_reduced F (pair_y q)"

definition curve_ok :: "sb_sw_curve \<Rightarrow> bool" where
  "curve_ok s \<longleftrightarrow> prime_field_ok (curve_p s) \<and> prime_field_ok (curve_n s) \<and>
     2 ^ 255 < modulus (curve_p s) \<and> 2 ^ 255 < modulus (curve_n s) \<and>
     modulus (curve_n s) < modulus (curve_p s) \<and> modulus (curve_p s) mod 4 = 3 \<and>
     modulus (curve_p s) + 1 < 2 ^ unat (bits (curve_p s)) \<and>
     quasi_reduced (curve_p s) (minus_a s) \<and> quasi_reduced (curve_p s) (curve_b s) \<and>
     quasi_reduced (curve_p s) (minus_a_r_over_three s) \<and>
     eqm (modulus (curve_p s)) (3 * mval (curve_p s) (minus_a_r_over_three s)) (fe_val (minus_a s)) \<and>
     pair_qr (curve_p s) (g_r s) \<and> pair_qr (curve_p s) (h_r s) \<and>
     pair_qr (curve_p s) (g_h_r s) \<and> pair_qr (curve_p s) (dz_r s)"

lemma curve_okD:
  assumes "curve_ok s"
  shows "prime_field_ok (curve_p s)" "prime_field_ok (curve_n s)" "mont_ok (curve_p s)" "mont_ok (curve_n s)"
    "2 ^ 255 < modulus (curve_p s)" "2 ^ 255 < modulus (curve_n s)"
    "modulus (curve_n s) < modulus (curve_p s)" "modulus (curve_p s) mod 4 = 3"
    "modulus (curve_p s) + 1 < 2 ^ unat (bits (curve_p s))"
    "quasi_reduced (curve_p s) (minus_a s)" "quasi_reduced (curve_p s) (curve_b s)"
    "quasi_reduced (curve_p s) (minus_a_r_over_three s)"
    "eqm (modulus (curve_p s)) (3 * mval (curve_p s) (minus_a_r_over_three s)) (fe_val (minus_a s))"
    "pair_qr (curve_p s) (g_r s)" "pair_qr (curve_p s) (h_r s)"
    "pair_qr (curve_p s) (g_h_r s)" "pair_qr (curve_p s) (dz_r s)"
  using assms by (simp_all add: curve_ok_def prime_field_okD)

lemma SB_CURVE_P256_ok: "curve_ok SB_CURVE_P256"
  unfolding curve_ok_def pair_qr_def SB_CURVE_P256_coeffs
  by (simp add: SB_CURVE_P256_P_ok SB_CURVE_P256_N_ok SB_CURVE_P256_P_val SB_CURVE_P256_N_val
      SB_CURVE_P256_minus_a_r_over_three)

lemma SB_CURVE_SECP256K1_ok: "curve_ok SB_CURVE_SECP256K1"
  unfolding curve_ok_def pair_qr_def SB_CURVE_SECP256K1_coeffs
  by (simp add: SB_CURVE_SECP256K1_P_ok SB_CURVE_SECP256K1_N_ok SB_CURVE_SECP256K1_P_val
      SB_CURVE_SECP256K1_N_val SB_CURVE_SECP256K1_minus_a_r_over_three eqm_def)

lemma curve_from_id_ok:
  "sb_sw_curve_from_id curve = (SB_SUCCESS, s) \<Longrightarrow> \<exists>t. s = Some t \<and> curve_ok t"
  by (cases rule: sb_sw_curve_from_id_cases [of curve])
    (auto simp: SB_CURVE_P256_ok SB_CURVE_SECP256K1_ok)

end
