(* ===== verification/Point_Arith.thy ===== *)
theory Point_Arith
  imports Context
begin

text \<open>
  The point arithmetic of \<open>sb_sw_lib.c\<close>: initial doubling, co-Z addition with update,
  conjugate addition, the Z bookkeeping of multiplication-addition and the regularisation
  of scalars, each a sequence of writes to the registers of the context. The lemmas show
  that every register stays quasi-reduced, and that on Jacobian representations
  \<open>(x z\<^sup>2, y z\<^sup>3)\<close> the formulas compute the tangent and the chord of the affine points.
\<close>

subsection \<open>Operations\<close>

definition sb_sw_point_initial_double :: "sb_sw_context \<Rightarrow> sb_sw_curve \<Rightarrow> sb_sw_context" where
  "sb_sw_point_initial_double c s =
     (let p = curve_p s;
          c = c\<lparr>C_T5 := sb_fe_mod_double (C_Y2 c) p\<rparr>;
          c = c\<lparr>C_Y1 := sb_fe_mont_square (C_X2 c) p\<rparr>;
          c = c\<lparr>C_Y1 := sb_fe_mod_sub (C_Y1 c) (minus_a_r_over_three s) p\<rparr>;
          c = c\<lparr>C_X1 := sb_fe_mod_double (C_Y1 c) p\<rparr>;
          c = c\<lparr>C_Y1 := sb_fe_mod_add (C_Y1 c) (C_X1 c) p\<rparr>;
          c = c\<lparr>C_T6 := sb_fe_mont_square (C_Y2 c) p\<rparr>;
          c = c\<lparr>C_Y2 := sb_fe_mod_double (C_T6 c) p\<rparr>;
          c = c\<lparr>C_T6 := sb_fe_mod_double (C_Y2 c) p\<rparr>;
          c = c\<lparr>C_X1 := sb_fe_mont_mult (C_X2 c) (C_T6 c) p\<rparr>;
          c = c\<lparr>C_X2 := sb_fe_mont_square (C_Y1 c) p\<rparr>;
          c = c\<lparr>C_X2 := sb_fe_mod_sub (C_X2 c) (C_X1 c) p\<rparr>;
          c = c\<lparr>C_X2 := sb_fe_mod_sub (C_X2 c) (C_X1 c) p\<rparr>;
          c = c\<lparr>C_T6 := sb_fe_mod_sub (C_X1 c) (C_X2 c) p\<rparr>;
          c = c\<lparr>C_T7 := sb_fe_mont_mult (C_Y1 c) (C_T6 c) p\<rparr>;
          c = c\<lparr>C_Y1 := sb_fe_mont_square (C_Y2 c) p\<rparr>;
          c = c\<lparr>C_Y1 := sb_fe_mod_double (C_Y1 c) p\<rparr>;
          c = c\<lparr>C_Y2 := sb_fe_mod_sub (C_T7 c) (C_Y1 c) p\<rparr>
      in c)"

definition sb_sw_point_co_z_add_update_zup :: "sb_sw_context \<Rightarrow> sb_sw_curve \<Rightarrow> sb_sw_context" where
  "sb_sw_point_co_z_add_update_zup c s =
     (let p = curve_p s;
          c = c\<lparr>C_T5 := sb_fe_mont_square (C_T6 c) p\<rparr>;
          c = c\<lparr>C_T6 := sb_fe_mont_mult (C_X2 c) (C_T5 c) p\<rparr>;
          c = c\<lparr>C_X2 := sb_fe_mont_mult (C_X1 c) (C_T5 c) p\<rparr>;
          c = c\<lparr>C_T7 := sb_fe_mod_sub (C_Y2 c) (C_Y1 c) p\<rparr>;
          c = c\<lparr>C_T5 := sb_fe_mod_add (C_X2 c) (C_T6 c) p\<rparr>;
          c = c\<lparr>C_T6 := sb_fe_mod_sub (C_T6 c) (C_X2 c) p\<rparr>;
          c = c\<lparr>C_Y2 := sb_fe_mont_mult (C_Y1 c) (C_T6 c) p\<rparr>;
          c = c\<lparr>C_X1 := sb_fe_mont_square (C_T7 c) p\<rparr>;
          c = c\<lparr>C_X1 := sb_fe_mod_sub (C_X1 c) (C_T5 c) p\<rparr>;
          c = c\<lparr>C_T6 := sb_fe_mod_sub (C_X2 c) (C_X1 c) p\<rparr>;
          c = c\<lparr>C_Y1 := sb_fe_mont_mult (C_T7 c) (C_T6 c) p\<rparr>;
          c = c\<lparr>C_Y1 := sb_fe_mod_sub (C_Y1 c) (C_Y2 c) p\<rparr>
      in c)"

definition sb_sw_point_co_z_add_update :: "sb_sw_context \<Rightarrow> sb_sw_curve \<Rightarrow> sb_sw_context" where
  "sb_sw_point_co_z_add_update c s =
     (let c = c\<lparr>C_T6 := sb_fe_mod_sub (C_X2 c) (C_X1 c) (curve_p s)\<rparr>
      in sb_sw_point_co_z_add_update_zup c s)"

definition sb_sw_point_co_z_conj_add :: "sb_sw_context \<Rightarrow> sb_sw_curve \<Rightarrow> sb_sw_context" where
  "sb_sw_point_co_z_conj_add c s =
     (let p = curve_p s;
          c = c\<lparr>C_T8 := sb_fe_mod_add (C_Y1 c) (C_Y2 c) p\<rparr>;
          c = sb_sw_point_co_z_add_update c s;
          c = c\<lparr>C_T6 := C_X2 c\<rparr>;
          c = c\<lparr>C_T7 := C_Y2 c\<rparr>;
          c = c\<lparr>C_X2 := sb_fe_mont_square (C_T8 c) p\<rparr>;
          c = c\<lparr>C_X2 := sb_fe_mod_sub (C_X2 c) (C_T5 c) p\<rparr>;
          c = c\<lparr>C_T5 := sb_fe_mod_sub (C_X2 c) (C_T6 c) p\<rparr>;
          c = c\<lparr>C_Y2 := sb_fe_mont_mult (C_T8 c) (C_T5 c) p\<rparr>;
          c = c\<lparr>C_Y2 := sb_fe_mod_sub (C_Y2 c) (C_T7 c) p\<rparr>
      in c)"

text \<open>The scalar is \<open>MULT_K\<close> at the only call.\<close>

definition sb_sw_regularize_scalar :: "sb_sw_context \<Rightarrow> sb_sw_curve \<Rightarrow> sb_sw_context" where
  "sb_sw_regularize_scalar c s =
     (let (t5, c_1) = sb_fe_add (MULT_K c) (prime_p (curve_n s));
          c = c\<lparr>C_T5 := t5\<rparr>;
          c = c\<lparr>MULT_K := fst (sb_fe_add (C_T5 c) (prime_p (curve_n s)))\<rparr>;
          (k, t5) = sb_fe_ctswap c_1 (MULT_K c) (C_T5 c)
      in c\<lparr>MULT_K := k, C_T5 := t5\<rparr>)"

definition sb_sw_point_mult_add_z_update :: "sb_sw_context \<Rightarrow> sb_sw_curve \<Rightarrow> sb_sw_context" where
  "sb_sw_point_mult_add_z_update q s =
     (let p = curve_p s;
          q = q\<lparr>C_T6 := sb_fe_mod_sub (C_X2 q) (C_X1 q) p\<rparr>;
          q = q\<lparr>C_T5 := sb_fe_mont_mult (C_T6 q) (MULT_Z q) p\<rparr>;
          q = q\<lparr>MULT_Z := C_T5 q\<rparr>
      in sb_sw_point_co_z_add_update_zup q s)"

definition sb_sw_point_mult_add_apply_z :: "sb_sw_context \<Rightarrow> sb_sw_curve \<Rightarrow> sb_sw_context" where
  "sb_sw_point_mult_add_apply_z q s =
     (let p = curve_p s;
          q = q\<lparr>C_T6 := sb_fe_mont_square (MULT_Z q) p\<rparr>;
          q = q\<lparr>C_T7 := sb_fe_mont_mult (C_X2 q) (C_T6 q) p\<rparr>;
          q = q\<lparr>C_X2 := C_T7 q\<rparr>;
          q = q\<lparr>C_T7 := sb_fe_mont_mult (C_T6 q) (MULT_Z q) p\<rparr>;
          q = q\<lparr>C_T6 := sb_fe_mont_mult (C_Y2 q) (C_T7 q) p\<rparr>;
          q = q\<lparr>C_Y2 := C_T6 q\<rparr>
      in q)"

text \<open>\<open>sb_fe_ctswap\<close> on two registers of the context.\<close>

definition ctswap_X2_T5 :: "sb_word \<Rightarrow> sb_sw_context \<Rightarrow> sb_sw_context" where
  "ctswap_X2_T5 a c = (let (x, y) = sb_fe_ctswap a (C_X2 c) (C_T5 c) in c\<lparr>C_X2 := x, C_T5 := y\<rparr>)"

definition ctswap_Y2_T6 :: "sb_word \<Rightarrow> sb_sw_context \<Rightarrow> sb_sw_context" where
  "ctswap_Y2_T6 a c = (let (x, y) = sb_fe_ctswap a (C_Y2 c) (C_T6 c) in c\<lparr>C_Y2 := x, C_T6 := y\<rparr>)"

definition sb_sw_point_mult_add_select ::
  "sb_word \<Rightarrow> sb_word \<Rightarrow> sb_sw_context \<Rightarrow> sb_sw_curve \<Rightarrow> sb_sw_context" where
  "sb_sw_point_mult_add_select bp bg q s =
     (let q = q\<lparr>C_X2 := pair_x (h_r s), C_Y2 := pair_y (h_r s)\<rparr>;
          q = q\<lparr>C_T5 := pair_x (g_h_r s), C_T6 := pair_y (g_h_r s)\<rparr>;
          q = ctswap_X2_T5 bg q;
          q = ctswap_Y2_T6 bg q;
          q = q\<lparr>C_T5 := MULT_POINT_X q, C_T6 := MULT_POINT_Y q\<rparr>;
          q = ctswap_X2_T5 bp q;
          q = ctswap_Y2_T6 bp q;
          q = q\<lparr>C_T5 := MULT_ADD_PG_X q, C_T6 := MULT_ADD_PG_Y q\<rparr>;
          q = ctswap_X2_T5 (bp AND bg) q;
          q = ctswap_Y2_T6 (bp AND bg) q
      in sb_sw_point_mult_add_apply_z q s)"

subsection \<open>Residues of the modular operations\<close>

lemma mval_qrep:
  assumes "fe_val x = qrep (modulus F) z"
  shows "mval F x = (z * rinv (modulus F)) mod modulus F"
  by (metis assms mval_def mod_mult_left_eq qrep_mod)

lemma mval_mod_ops:
  assumes "quasi_reduced F l"
  shows "quasi_reduced F r \<Longrightarrow> mval F (sb_fe_mod_add l r F) = (mval F l + mval F r) mod modulus F"
    and "quasi_reduced F r \<Longrightarrow> mval F (sb_fe_mod_sub l r F) = (mval F l - mval F r) mod modulus F"
    and "mval F (sb_fe_mod_double l F) = (2 * mval F l) mod modulus F"
    and "mval F (sb_fe_mod_negate l F) = (- mval F l) mod modulus F"
proof -
  note D = mval_qrep [OF sb_fe_mod_add_val] mval_qrep [OF sb_fe_mod_sub_val]
    mval_qrep [OF sb_fe_mod_double_val] mval_qrep [OF sb_fe_mod_negate_val]
  show "quasi_reduced F r \<Longrightarrow> mval F (sb_fe_mod_add l r F) = (mval F l + mval F r) mod modulus F"
    by (simp only: D assms) (simp add: mval_def mod_simps algebra_simps)
  show "quasi_reduced F r \<Longrightarrow> mval F (sb_fe_mod_sub l r F) = (mval F l - mval F r) mod modulus F"
    by (simp only: D assms) (simp add: mval_def mod_simps algebra_simps)
  show "mval F (sb_fe_mod_double l F) = (2 * mval F l) mod modulus F"
    by (simp only: D assms) (simp add: mval_def mod_simps algebra_simps)
  show "mval F (sb_fe_mod_negate l F) = (- mval F l) mod modulus F"
    by (simp only: D assms) (simp add: mval_def mod_simps algebra_simps)
qed

lemma mval_mont_square:
  "mont_ok F \<Longrightarrow> quasi_reduced F x \<Longrightarrow> mval F (sb_fe_mont_square x F) = (mval F x * mval F x) mod modulus F"
  by (simp add: sb_fe_mont_square_def mval_mont_mult)

lemma mont_square_qr [intro]:
  "mont_ok F \<Longrightarrow> quasi_reduced F x \<Longrightarrow> quasi_reduced F (sb_fe_mont_square x F)"
  by (auto simp: sb_fe_mont_square_def)

lemmas mval_simps = mval_mod_ops mval_mont_mult mval_mont_square
lemmas qr_intros = mont_qr mont_square_qr quasi_reduced_ops(1-4)

subsection \<open>Registers stay quasi-reduced\<close>

definition coords_qr :: "sb_sw_curve \<Rightarrow> sb_sw_context \<Rightarrow> bool" where
  "coords_qr s c \<longleftrightarrow> quasi_reduced (curve_p s) (C_X1 c) \<and> quasi_reduced (curve_p s) (C_Y1 c) \<and>
     quasi_reduced (curve_p s) (C_X2 c) \<and> quasi_reduced (curve_p s) (C_Y2 c)"

lemma coords_qrD:
  assumes "coords_qr s c"
  shows "quasi_reduced (curve_p s) (C_X1 c)" "quasi_reduced (curve_p s) (C_Y1 c)"
    "quasi_reduced (curve_p s) (C_X2 c)" "quasi_reduced (curve_p s) (C_Y2 c)"
  using assms by (simp_all add: coords_qr_def)

text \<open>
  What the registers hold after a co-Z addition: first as terms of the field operations,
  then as residues.
\<close>

lemma co_z_add_update_zup_terms:
  fixes c s
  defines "c' \<equiv> sb_sw_point_co_z_add_update_zup c s" and "p \<equiv> curve_p s"
  shows "C_T7 c' = sb_fe_mod_sub (C_Y2 c) (C_Y1 c) p"
    and "C_X2 c' = sb_fe_mont_mult (C_X1 c) (sb_fe_mont_square (C_T6 c) p) p"
    and "C_T5 c' = sb_fe_mod_add (C_X2 c') (sb_fe_mont_mult (C_X2 c) (sb_fe_mont_square (C_T6 c) p) p) p"
    and "C_Y2 c' = sb_fe_mont_mult (C_Y1 c)
      (sb_fe_mod_sub (sb_fe_mont_mult (C_X2 c) (sb_fe_mont_square (C_T6 c) p) p) (C_X2 c') p) p"
    and "C_X1 c' = sb_fe_mod_sub (sb_fe_mont_square (C_T7 c') p) (C_T5 c') p"
    and "C_Y1 c' = sb_fe_mod_sub (sb_fe_mont_mult (C_T7 c') (sb_fe_mod_sub (C_X2 c') (C_X1 c') p) p) (C_Y2 c') p"
  unfolding c'_def p_def by (simp_all add: sb_sw_point_co_z_add_update_zup_def Let_def)

lemma co_z_add_update_zup_regs:
  assumes "mont_ok (curve_p s)" "coords_qr s c" "quasi_reduced (curve_p s) (C_T6 c)"
  defines "c' \<equiv> sb_sw_point_co_z_add_update_zup c s"
    and "P \<equiv> modulus (curve_p s)" and "v \<equiv> mval (curve_p s)"
  shows "coords_qr s c'" "quasi_reduced (curve_p s) (C_T5 c')"
    and "eqm P (v (C_X2 c')) (v (C_X1 c) * (v (C_T6 c) * v (C_T6 c)))"
    and "eqm P (v (C_T5 c')) (v (C_X2 c') + v (C_X2 c) * (v (C_T6 c) * v (C_T6 c)))"
    and "eqm P (v (C_Y2 c')) (v (C_Y1 c) * (v (C_X2 c) * (v (C_T6 c) * v (C_T6 c)) - v (C_X2 c')))"
    and "eqm P (v (C_X1 c')) ((v (C_Y2 c) - v (C_Y1 c)) * (v (C_Y2 c) - v (C_Y1 c)) - v (C_T5 c'))"
    and "eqm P (v (C_Y1 c')) ((v (C_Y2 c) - v (C_Y1 c)) * (v (C_X2 c') - v (C_X1 c')) - v (C_Y2 c'))"
proof -
  note t = co_z_add_update_zup_terms [of c s, folded c'_def]
  note q = coords_qrD [OF assms(2)] assms(1,3)
  have r: "quasi_reduced (curve_p s) (C_T7 c')" "quasi_reduced (curve_p s) (C_X2 c')"
    unfolding t(1,2) by (simp_all add: q qr_intros)
  have r5: "quasi_reduced (curve_p s) (C_T5 c')"
    unfolding t(3) by (simp add: q r qr_intros)
  have r1: "quasi_reduced (curve_p s) (C_X1 c')" "quasi_reduced (curve_p s) (C_Y2 c')"
    unfolding t(4,5) by (simp_all add: q r r5 qr_intros)
  show "quasi_reduced (curve_p s) (C_T5 c')" by (rule r5)
  show "coords_qr s c'"
    unfolding coords_qr_def using r r1 by (simp add: t(6) q qr_intros)
  note m = mval_simps mod_simps q r r5 r1 qr_intros
  have t7: "v (C_T7 c') = (v (C_Y2 c) - v (C_Y1 c)) mod P"
    unfolding v_def P_def t(1) by (simp add: m)
  show "eqm P (v (C_X2 c')) (v (C_X1 c) * (v (C_T6 c) * v (C_T6 c)))"
    unfolding eqm_mod v_def P_def t(2) by (simp add: m)
  show "eqm P (v (C_T5 c')) (v (C_X2 c') + v (C_X2 c) * (v (C_T6 c) * v (C_T6 c)))"
    unfolding eqm_mod v_def P_def t(3) by (simp add: m)
  show "eqm P (v (C_Y2 c')) (v (C_Y1 c) * (v (C_X2 c) * (v (C_T6 c) * v (C_T6 c)) - v (C_X2 c')))"
    unfolding eqm_mod v_def P_def t(4) by (simp add: m)
  show "eqm P (v (C_X1 c')) ((v (C_Y2 c) - v (C_Y1 c)) * (v (C_Y2 c) - v (C_Y1 c)) - v (C_T5 c'))"
    unfolding eqm_mod v_def P_def t(5) by (simp add: m t7 [unfolded v_def P_def])
  show "eqm P (v (C_Y1 c')) ((v (C_Y2 c) - v (C_Y1 c)) * (v (C_X2 c') - v (C_X1 c')) - v (C_Y2 c'))"
    unfolding eqm_mod v_def P_def t(6) by (simp add: m t7 [unfolded v_def P_def])
qed

subsection \<open>Co-Z addition computes the chord\<close>

text \<open>\<open>(X, Y)\<close> represents the affine point \<open>q\<close> under the coordinate \<open>z\<close>.\<close>

definition jacobian :: "int \<Rightarrow> int \<Rightarrow> affine \<Rightarrow> affine \<Rightarrow> bool" where
  "jacobian P z q XY \<longleftrightarrow> eqm P (fst XY) (fst q * (z * z)) \<and> eqm P (snd XY) (snd q * (z * (z * z)))"

definition reg1 :: "sb_sw_curve \<Rightarrow> sb_sw_context \<Rightarrow> affine" where
  "reg1 s c = (mval (curve_p s) (C_X1 c), mval (curve_p s) (C_Y1 c))"

definition reg2 :: "sb_sw_curve \<Rightarrow> sb_sw_context \<Rightarrow> affine" where
  "reg2 s c = (mval (curve_p s) (C_X2 c), mval (curve_p s) (C_Y2 c))"

lemmas eqm_cong = eqm_add eqm_diff eqm_mult eqm_minus eqm_refl

lemma jacobianD:
  assumes "jacobian P z q XY"
  shows "eqm P (fst XY) (fst q * (z * z))" "eqm P (snd XY) (snd q * (z * (z * z)))"
  using assms by (simp_all add: jacobian_def)

lemma jacobian_cong:
  assumes "eqm P z z'" "jacobian P z q XY"
  shows "jacobian P z' q XY"
  unfolding jacobian_def
  by (meson assms eqm_cong eqm_trans jacobianD)

text \<open>
  The arithmetic of the co-Z formulas: with \<open>t\<close> the difference of the abscissae,
  \<open>y\<^sub>2 - y\<^sub>1\<close> is the slope times the new coordinate \<open>z t\<close>.
\<close>

lemma co_z_difference:
  assumes "jacobian P z a p1" "jacobian P z b p2" "eqm P t (fst p2 - fst p1)"
    and "eqm P (l * (fst b - fst a)) (snd b - snd a)"
  shows "eqm P t ((fst b - fst a) * (z * z))"
    and "eqm P (snd p2 - snd p1) (l * (z * t))"
proof -
  note A = jacobianD [OF assms(1)] and B = jacobianD [OF assms(2)]
  have "eqm P (fst p2 - fst p1) (fst b * (z * z) - fst a * (z * z))"
    by (intro eqm_cong A B)
  then show t: "eqm P t ((fst b - fst a) * (z * z))"
    using assms(3) by (metis eqm_trans left_diff_distrib)
  have "eqm P (snd p2 - snd p1) (snd b * (z * (z * z)) - snd a * (z * (z * z)))"
    by (intro eqm_cong A B)
  also have "snd b * (z * (z * z)) - snd a * (z * (z * z)) = (snd b - snd a) * (z * (z * z))"
    by (simp add: algebra_simps)
  also have "eqm P \<dots> (l * (fst b - fst a) * (z * (z * z)))"
    by (intro eqm_cong eqm_sym [OF assms(4)])
  also have "l * (fst b - fst a) * (z * (z * z)) = l * (z * ((fst b - fst a) * (z * z)))"
    by (simp add: algebra_simps)
  also have "eqm P \<dots> (l * (z * t))"
    by (intro eqm_cong eqm_sym [OF t])
  finally show "eqm P (snd p2 - snd p1) (l * (z * t))" .
qed

text \<open>The first point under the new coordinate.\<close>

lemma co_z_update:
  assumes "jacobian P z a p1" "jacobian P z b p2" "eqm P t (fst p2 - fst p1)"
    and X: "eqm P X (fst p1 * (t * t))"
    and Y: "eqm P Y (snd p1 * (fst p2 * (t * t) - X))"
  shows "jacobian P (z * t) a (X, Y)"
  unfolding jacobian_def fst_conv snd_conv
proof
  note A = jacobianD [OF assms(1)] and B = jacobianD [OF assms(2)]
  have "eqm P (fst p1 * (t * t)) (fst a * (z * z) * (t * t))"
    by (intro eqm_cong A)
  with X have "eqm P X (fst a * (z * z) * (t * t))"
    by (rule eqm_trans)
  then show X': "eqm P X (fst a * (z * t * (z * t)))"
    by (simp add: algebra_simps)
  have "eqm P (snd p1 * (fst p2 * (t * t) - X)) (snd p1 * (fst p2 * (t * t) - fst p1 * (t * t)))"
    by (intro eqm_cong X)
  also have "snd p1 * (fst p2 * (t * t) - fst p1 * (t * t)) = snd p1 * ((fst p2 - fst p1) * (t * t))"
    by (simp add: algebra_simps)
  also have "eqm P \<dots> (snd a * (z * (z * z)) * (t * (t * t)))"
    by (intro eqm_cong A eqm_sym [OF assms(3)])
  finally have "eqm P Y (snd a * (z * (z * z)) * (t * (t * t)))"
    using Y by (meson eqm_trans)
  then show "eqm P Y (snd a * (z * t * (z * t * (z * t))))"
    by (simp add: algebra_simps)
qed

text \<open>The sum: \<open>m\<close> is \<open>y\<^sub>2 - y\<^sub>1\<close>, \<open>(X', Y')\<close> the updated first point, \<open>w\<close> the sum \<open>B + C\<close>.\<close>

lemma co_z_sum:
  assumes "eqm P m (l * z')" "jacobian P z' a (X', Y')"
    and w: "eqm P w (fst a * (z' * z') + fst b * (z' * z'))"
    and r: "slope_result P l a b r"
    and X: "eqm P X (m * m - w)"
    and Y: "eqm P Y (m * (X' - X) - Y')"
  shows "jacobian P z' r (X, Y)"
  unfolding jacobian_def fst_conv snd_conv
proof
  have R: "eqm P (fst r) (l * l - fst a - fst b)" "eqm P (snd r) (l * (fst a - fst r) - snd a)"
    using r by (simp_all add: slope_result_def)
  have A: "eqm P X' (fst a * (z' * z'))" "eqm P Y' (snd a * (z' * (z' * z')))"
    using jacobianD [OF assms(2)] by simp_all
  have "eqm P (m * m - w) (l * z' * (l * z') - (fst a * (z' * z') + fst b * (z' * z')))"
    by (intro eqm_cong assms)
  also have "l * z' * (l * z') - (fst a * (z' * z') + fst b * (z' * z')) = (l * l - fst a - fst b) * (z' * z')"
    by (simp add: algebra_simps)
  also have "eqm P \<dots> (fst r * (z' * z'))"
    by (intro eqm_cong eqm_sym [OF R(1)])
  finally show X': "eqm P X (fst r * (z' * z'))"
    using X by (meson eqm_trans)
  have "eqm P (m * (X' - X) - Y') (l * z' * (fst a * (z' * z') - fst r * (z' * z')) - snd a * (z' * (z' * z')))"
    by (intro eqm_cong assms A X')
  also have "l * z' * (fst a * (z' * z') - fst r * (z' * z')) - snd a * (z' * (z' * z'))
      = (l * (fst a - fst r) - snd a) * (z' * (z' * z'))"
    by (simp add: algebra_simps)
  also have "eqm P \<dots> (snd r * (z' * (z' * z')))"
    by (intro eqm_cong eqm_sym [OF R(2)])
  finally show "eqm P Y (snd r * (z' * (z' * z')))"
    using Y by (meson eqm_trans)
qed

lemma co_z_add_update_zup_chord:
  assumes "mont_ok (curve_p s)" "coords_qr s c" "quasi_reduced (curve_p s) (C_T6 c)"
    and T6: "eqm (modulus (curve_p s)) (mval (curve_p s) (C_T6 c)) (fst (reg2 s c) - fst (reg1 s c))"
    and "jacobian (modulus (curve_p s)) z a (reg1 s c)" "jacobian (modulus (curve_p s)) z b (reg2 s c)"
    and "chord (modulus (curve_p s)) a b r"
  defines "c' \<equiv> sb_sw_point_co_z_add_update_zup c s"
    and "z' \<equiv> z * mval (curve_p s) (C_T6 c)"
  shows "jacobian (modulus (curve_p s)) z' r (reg1 s c')"
    and "jacobian (modulus (curve_p s)) z' a (reg2 s c')"
    and "eqm (modulus (curve_p s)) (mval (curve_p s) (C_T5 c')) (fst a * (z' * z') + fst b * (z' * z'))"
proof -
  let ?P = "modulus (curve_p s)" and ?v = "mval (curve_p s)"
  note regs = co_z_add_update_zup_regs [OF assms(1-3), folded c'_def]
  obtain l where l: "eqm ?P (l * (fst b - fst a)) (snd b - snd a)" "slope_result ?P l a b r"
    using assms(7) by (auto simp: chord_def)
  note diff = co_z_difference [OF assms(5,6) T6 l(1), folded z'_def]
  have "eqm ?P (?v (C_X2 c')) (fst (reg1 s c) * (?v (C_T6 c) * ?v (C_T6 c)))"
    "eqm ?P (?v (C_Y2 c')) (snd (reg1 s c) * (fst (reg2 s c) * (?v (C_T6 c) * ?v (C_T6 c)) - ?v (C_X2 c')))"
    using regs(3,5) by (simp_all add: reg1_def reg2_def)
  from co_z_update [OF assms(5,6) T6 this]
  show up: "jacobian ?P z' a (reg2 s c')"
    by (simp add: reg2_def z'_def)
  have "eqm ?P (?v (C_X2 c) * (?v (C_T6 c) * ?v (C_T6 c))) (fst b * (z * z) * (?v (C_T6 c) * ?v (C_T6 c)))"
    using jacobianD(1) [OF assms(6)] by (intro eqm_cong) (simp_all add: reg2_def)
  then have "eqm ?P (?v (C_X2 c) * (?v (C_T6 c) * ?v (C_T6 c))) (fst b * (z' * z'))"
    by (simp add: z'_def algebra_simps)
  then have "eqm ?P (?v (C_X2 c') + ?v (C_X2 c) * (?v (C_T6 c) * ?v (C_T6 c))) (fst a * (z' * z') + fst b * (z' * z'))"
    using jacobianD(1) [OF up] by (intro eqm_add) (simp_all add: reg2_def)
  with regs(4) show w: "eqm ?P (?v (C_T5 c')) (fst a * (z' * z') + fst b * (z' * z'))"
    by (rule eqm_trans)
  show "jacobian ?P z' r (reg1 s c')"
    using co_z_sum [OF diff(2) up [unfolded reg2_def] w l(2), where X = "?v (C_X1 c')" and Y = "?v (C_Y1 c')"]
      regs(6,7) by (simp add: reg1_def reg2_def)
qed

text \<open>The same from the initial registers, with \<open>C_T6\<close> computed as the code does.\<close>

lemma set_T6_regs [simp]:
  "reg1 s (c\<lparr>C_T6 := t\<rparr>) = reg1 s c" "reg2 s (c\<lparr>C_T6 := t\<rparr>) = reg2 s c"
  "coords_qr s (c\<lparr>C_T6 := t\<rparr>) = coords_qr s c"
  "reg1 s (c\<lparr>C_T5 := t\<rparr>) = reg1 s c" "reg2 s (c\<lparr>C_T5 := t\<rparr>) = reg2 s c"
  "coords_qr s (c\<lparr>C_T5 := t\<rparr>) = coords_qr s c"
  "reg1 s (c\<lparr>C_T8 := t\<rparr>) = reg1 s c" "reg2 s (c\<lparr>C_T8 := t\<rparr>) = reg2 s c"
  "coords_qr s (c\<lparr>C_T8 := t\<rparr>) = coords_qr s c"
  "reg1 s (c\<lparr>MULT_Z := t\<rparr>) = reg1 s c" "reg2 s (c\<lparr>MULT_Z := t\<rparr>) = reg2 s c"
  "coords_qr s (c\<lparr>MULT_Z := t\<rparr>) = coords_qr s c"
  by (simp_all add: reg1_def reg2_def coords_qr_def)

definition z_factor :: "sb_sw_curve \<Rightarrow> sb_sw_context \<Rightarrow> int" where
  "z_factor s c = mval (curve_p s) (sb_fe_mod_sub (C_X2 c) (C_X1 c) (curve_p s))"

lemma z_factor_eqm:
  assumes "coords_qr s c"
  shows "eqm (modulus (curve_p s)) (z_factor s c) (fst (reg2 s c) - fst (reg1 s c))"
  using coords_qrD [OF assms] by (simp add: eqm_mod z_factor_def reg1_def reg2_def mval_simps)

lemma co_z_add_update_chord:
  assumes ok: "mont_ok (curve_p s)" and q: "coords_qr s c"
    and A: "jacobian (modulus (curve_p s)) z a (reg1 s c)"
    and B: "jacobian (modulus (curve_p s)) z b (reg2 s c)"
    and r: "chord (modulus (curve_p s)) a b r"
  defines "c' \<equiv> sb_sw_point_co_z_add_update c s" and "z' \<equiv> z * z_factor s c"
  shows "jacobian (modulus (curve_p s)) z' r (reg1 s c')"
    and "jacobian (modulus (curve_p s)) z' a (reg2 s c')"
    and "eqm (modulus (curve_p s)) (mval (curve_p s) (C_T5 c')) (fst a * (z' * z') + fst b * (z' * z'))"
    and "coords_qr s c'" "quasi_reduced (curve_p s) (C_T5 c')"
proof -
  let ?d = "c\<lparr>C_T6 := sb_fe_mod_sub (C_X2 c) (C_X1 c) (curve_p s)\<rparr>"
  have qd: "coords_qr s ?d" "quasi_reduced (curve_p s) (C_T6 ?d)"
    using q coords_qrD [OF q] by (simp_all add: quasi_reduced_ops)
  have e: "eqm (modulus (curve_p s)) (mval (curve_p s) (C_T6 ?d)) (fst (reg2 s ?d) - fst (reg1 s ?d))"
    using z_factor_eqm [OF q] by (simp add: z_factor_def)
  note c' = c'_def [unfolded sb_sw_point_co_z_add_update_def Let_def]
  note m = co_z_add_update_zup_chord [OF ok qd e, where z = z and a = a and b = b and r = r]
  show "jacobian (modulus (curve_p s)) z' r (reg1 s c')"
    "jacobian (modulus (curve_p s)) z' a (reg2 s c')"
    "eqm (modulus (curve_p s)) (mval (curve_p s) (C_T5 c')) (fst a * (z' * z') + fst b * (z' * z'))"
    using m A B r by (simp_all add: c' z'_def z_factor_def)
  show "coords_qr s c'" "quasi_reduced (curve_p s) (C_T5 c')"
    using co_z_add_update_zup_regs(1,2) [OF ok qd] by (simp_all add: c')
qed

text \<open>
  Conjugate addition returns the sum and the difference, and leaves the first point under
  the new coordinate in \<open>C_T6\<close> and \<open>C_T7\<close>.
\<close>

lemma co_z_conj_add_terms:
  fixes c s
  defines "c1 \<equiv> sb_sw_point_co_z_add_update (c\<lparr>C_T8 := sb_fe_mod_add (C_Y1 c) (C_Y2 c) (curve_p s)\<rparr>) s"
    and "c' \<equiv> sb_sw_point_co_z_conj_add c s" and "p \<equiv> curve_p s"
  shows "C_X1 c' = C_X1 c1" "C_Y1 c' = C_Y1 c1" "C_T6 c' = C_X2 c1" "C_T7 c' = C_Y2 c1"
    and "C_T8 c1 = sb_fe_mod_add (C_Y1 c) (C_Y2 c) p" "C_T8 c' = C_T8 c1"
    and "C_X2 c' = sb_fe_mod_sub (sb_fe_mont_square (C_T8 c1) p) (C_T5 c1) p"
    and "C_Y2 c' = sb_fe_mod_sub (sb_fe_mont_mult (C_T8 c1) (sb_fe_mod_sub (C_X2 c') (C_X2 c1) p) p) (C_Y2 c1) p"
  unfolding c1_def c'_def p_def
  by (simp_all add: sb_sw_point_co_z_conj_add_def Let_def)
    (simp add: sb_sw_point_co_z_add_update_def sb_sw_point_co_z_add_update_zup_def Let_def)

lemma co_z_conj_add_chords:
  assumes ok: "mont_ok (curve_p s)" and q: "coords_qr s c"
    and A: "jacobian (modulus (curve_p s)) z a (reg1 s c)"
    and B: "jacobian (modulus (curve_p s)) z b (reg2 s c)"
    and sum: "chord (modulus (curve_p s)) a b r"
    and diff: "chord (modulus (curve_p s)) a (opposite b) d"
  defines "c' \<equiv> sb_sw_point_co_z_conj_add c s" and "z' \<equiv> z * z_factor s c"
  shows "jacobian (modulus (curve_p s)) z' r (reg1 s c')"
    and "jacobian (modulus (curve_p s)) z' d (reg2 s c')"
    and "coords_qr s c'"
proof -
  let ?P = "modulus (curve_p s)" and ?v = "mval (curve_p s)"
  let ?c = "c\<lparr>C_T8 := sb_fe_mod_add (C_Y1 c) (C_Y2 c) (curve_p s)\<rparr>"
  define c1 where "c1 = sb_sw_point_co_z_add_update ?c s"
  have qc: "coords_qr s ?c" and zf: "z_factor s ?c = z_factor s c"
    using q by (simp_all add: z_factor_def)
  note t = co_z_conj_add_terms [of c s, folded c1_def c'_def]
  note u = co_z_add_update_chord [OF ok qc, where z = z and a = a and b = b and r = r,
      folded c1_def, unfolded zf, folded z'_def, simplified, OF A B sum]
  show "jacobian ?P z' r (reg1 s c')"
    using u(1) by (simp add: reg1_def t)
  note q1 = coords_qrD [OF u(4)] and q0 = coords_qrD [OF q]
  have q8: "quasi_reduced (curve_p s) (C_T8 c1)"
    by (simp add: t(5) q0 qr_intros)
  have qX: "quasi_reduced (curve_p s) (C_X2 c')"
    unfolding t(7) by (simp add: q8 u(5) ok qr_intros)
  have "quasi_reduced (curve_p s) (C_Y2 c')"
    unfolding t(8) by (simp add: q8 qX q1 ok qr_intros)
  with qX q1 show "coords_qr s c'"
    by (simp add: coords_qr_def t(1,2))
  obtain l where l: "eqm ?P (l * (fst b - fst a)) (- snd b - snd a)" "slope_result ?P l a (opposite b) d"
    using diff by (auto simp: chord_def opposite_def)
  have B': "jacobian ?P z (opposite b) (fst (reg2 s c), - snd (reg2 s c))"
    using jacobianD [OF B] eqm_minus [of ?P "snd (reg2 s c)" "snd b * (z * (z * z))"]
    by (simp add: jacobian_def opposite_def)
  have m: "eqm ?P (- snd (reg2 s c) - snd (reg1 s c)) (l * z')"
    using co_z_difference(2) [OF A B', of "z_factor s c" l] z_factor_eqm [OF q] l(1)
    by (simp add: opposite_def z'_def)
  have "?v (C_T8 c1) = (snd (reg1 s c) + snd (reg2 s c)) mod ?P"
    by (simp add: t(5) mval_simps q0 reg1_def reg2_def)
  then have "eqm ?P (?v (C_T8 c1)) (snd (reg1 s c) + snd (reg2 s c))"
    by (simp add: eqm_mod)
  from eqm_minus [OF this] have "eqm ?P (- ?v (C_T8 c1)) (- snd (reg2 s c) - snd (reg1 s c))"
    by (simp only: minus_add diff_conv_add_uminus add.commute)
  from eqm_trans [OF this m] have m: "eqm ?P (- ?v (C_T8 c1)) (l * z')" .
  have up: "jacobian ?P z' a (?v (C_X2 c1), ?v (C_Y2 c1))"
    using u(2) by (simp add: reg2_def)
  have w: "eqm ?P (?v (C_T5 c1)) (fst a * (z' * z') + fst (opposite b) * (z' * z'))"
    using u(3) by (simp add: opposite_def)
  have X: "eqm ?P (?v (C_X2 c')) (- ?v (C_T8 c1) * - ?v (C_T8 c1) - ?v (C_T5 c1))"
    unfolding eqm_mod t(7) by (simp add: mval_simps mod_simps q8 u(5) ok qr_intros)
  have Y: "eqm ?P (?v (C_Y2 c')) (- ?v (C_T8 c1) * (?v (C_X2 c1) - ?v (C_X2 c')) - ?v (C_Y2 c1))"
    unfolding eqm_mod t(8)
    by (simp add: mval_simps mod_simps q8 qX q1 u(5) ok qr_intros) (simp add: algebra_simps)
  show "jacobian ?P z' d (reg2 s c')"
    unfolding reg2_def by (rule co_z_sum [OF m up w l(2) X Y])
qed

subsection \<open>Initial doubling computes the tangent\<close>

lemma initial_double_terms:
  fixes c s
  defines "c' \<equiv> sb_sw_point_initial_double c s" and "p \<equiv> curve_p s"
    and "B1 \<equiv> sb_fe_mod_sub (sb_fe_mont_square (C_X2 c) (curve_p s)) (minus_a_r_over_three s) (curve_p s)"
    and "yy \<equiv> sb_fe_mod_double (sb_fe_mont_square (C_Y2 c) (curve_p s)) (curve_p s)"
  defines "B \<equiv> sb_fe_mod_add B1 (sb_fe_mod_double B1 p) p"
    and "A \<equiv> sb_fe_mont_mult (C_X2 c) (sb_fe_mod_double yy p) p"
  shows "C_T5 c' = sb_fe_mod_double (C_Y2 c) p" "C_X1 c' = A"
    and "C_X2 c' = sb_fe_mod_sub (sb_fe_mod_sub (sb_fe_mont_square B p) A p) A p"
    and "C_Y1 c' = sb_fe_mod_double (sb_fe_mont_square yy p) p"
    and "C_Y2 c' = sb_fe_mod_sub (sb_fe_mont_mult B (sb_fe_mod_sub A (C_X2 c') p) p) (C_Y1 c') p"
  unfolding c'_def p_def B_def A_def B1_def yy_def
  by (simp_all add: sb_sw_point_initial_double_def Let_def)

lemma initial_double_tangent:
  assumes ok: "mont_ok (curve_p s)" and q: "quasi_reduced (curve_p s) (C_X2 c)" "quasi_reduced (curve_p s) (C_Y2 c)"
    and a: "quasi_reduced (curve_p s) (minus_a_r_over_three s)"
      "eqm (modulus (curve_p s)) (3 * mval (curve_p s) (minus_a_r_over_three s)) (fe_val (minus_a s))"
    and r: "tangent (modulus (curve_p s)) (fe_val (minus_a s)) (reg2 s c) r"
  defines "c' \<equiv> sb_sw_point_initial_double c s" and "z \<equiv> 2 * snd (reg2 s c)"
  shows "jacobian (modulus (curve_p s)) z (reg2 s c) (reg1 s c')"
    and "jacobian (modulus (curve_p s)) z r (reg2 s c')"
    and "coords_qr s c'" "quasi_reduced (curve_p s) (C_T5 c')"
    and "eqm (modulus (curve_p s)) (mval (curve_p s) (C_T5 c')) z"
proof -
  let ?P = "modulus (curve_p s)" and ?v = "mval (curve_p s)"
  define x y where xy: "x = fst (reg2 s c)" "y = snd (reg2 s c)"
  then have v: "?v (C_X2 c) = x" "?v (C_Y2 c) = y" by (simp_all add: reg2_def)
  define B1 where "B1 = sb_fe_mod_sub (sb_fe_mont_square (C_X2 c) (curve_p s)) (minus_a_r_over_three s) (curve_p s)"
  define yy where "yy = sb_fe_mod_double (sb_fe_mont_square (C_Y2 c) (curve_p s)) (curve_p s)"
  define B where "B = sb_fe_mod_add B1 (sb_fe_mod_double B1 (curve_p s)) (curve_p s)"
  define A where "A = sb_fe_mont_mult (C_X2 c) (sb_fe_mod_double yy (curve_p s)) (curve_p s)"
  note t = initial_double_terms [of c s, folded c'_def B1_def yy_def, folded A_def B_def]
  have q1: "quasi_reduced (curve_p s) B1" "quasi_reduced (curve_p s) yy"
    "quasi_reduced (curve_p s) (sb_fe_mont_square (C_X2 c) (curve_p s))"
    by (simp_all add: B1_def yy_def q a ok qr_intros)
  then have q2: "quasi_reduced (curve_p s) B" "quasi_reduced (curve_p s) A"
    by (simp_all add: B_def A_def q ok qr_intros)
  have qX: "quasi_reduced (curve_p s) (C_X1 c')" "quasi_reduced (curve_p s) (C_X2 c')"
      "quasi_reduced (curve_p s) (C_Y1 c')"
    unfolding t(2-4) by (simp_all add: q1 q2 ok qr_intros)
  then show "coords_qr s c'"
    by (simp add: coords_qr_def t(5) q1 q2 ok qr_intros)
  show "quasi_reduced (curve_p s) (C_T5 c')" "eqm ?P (?v (C_T5 c')) z"
    by (simp_all add: t(1) q qr_intros mval_simps v z_def flip: xy)
  note m = mval_simps mod_simps q q1 q2 qX a(1) ok qr_intros
  have yyv: "?v yy = (2 * (y * y)) mod ?P" by (simp add: yy_def m v)
  have Av: "eqm ?P (?v A) (x * (z * z))"
    by (simp add: eqm_mod A_def m yyv v z_def algebra_simps flip: xy)
  have B1v: "?v B1 = (x * x - ?v (minus_a_r_over_three s)) mod ?P"
    by (simp add: B1_def m v)
  have Bv: "eqm ?P (?v B) (3 * (x * x) - 3 * ?v (minus_a_r_over_three s))"
    unfolding eqm_mod B_def by (simp add: m B1v)
  obtain l where l: "eqm ?P (l * z) (3 * (x * x) - fe_val (minus_a s))" "slope_result ?P l (reg2 s c) (reg2 s c) r"
    using r by (auto simp: tangent_def z_def xy)
  have "eqm ?P (3 * (x * x) - 3 * ?v (minus_a_r_over_three s)) (3 * (x * x) - fe_val (minus_a s))"
    by (intro eqm_diff eqm_refl a)
  with Bv l(1) have Bz: "eqm ?P (?v B) (l * z)"
    by (meson eqm_sym eqm_trans)
  have Y1: "eqm ?P (?v (C_Y1 c')) (y * (z * (z * z)))"
    unfolding eqm_mod t(4) by (simp add: m yyv z_def flip: xy) (simp add: algebra_simps)
  have up: "jacobian ?P z (reg2 s c) (?v A, ?v (C_Y1 c'))"
    using Av Y1 by (simp add: jacobian_def flip: xy)
  then show "jacobian ?P z (reg2 s c) (reg1 s c')"
    by (simp add: reg1_def t(2))
  have w: "eqm ?P (?v A + ?v A) (fst (reg2 s c) * (z * z) + fst (reg2 s c) * (z * z))"
    using Av by (intro eqm_add) (simp_all flip: xy)
  have X: "eqm ?P (?v (C_X2 c')) (?v B * ?v B - (?v A + ?v A))"
    unfolding eqm_mod t(3) by (simp add: m)
  have Y: "eqm ?P (?v (C_Y2 c')) (?v B * (?v A - ?v (C_X2 c')) - ?v (C_Y1 c'))"
    unfolding eqm_mod t(5) by (simp add: m)
  show "jacobian ?P z r (reg2 s c')"
    unfolding reg2_def [of s c'] by (rule co_z_sum [OF Bz up w l(2) X Y])
qed

subsection \<open>What the operations leave alone\<close>

lemma co_z_add_update_zup_frame [simp]:
  "MULT_K (sb_sw_point_co_z_add_update_zup c s) = MULT_K c"
  "MULT_Z (sb_sw_point_co_z_add_update_zup c s) = MULT_Z c"
  "MULT_POINT_X (sb_sw_point_co_z_add_update_zup c s) = MULT_POINT_X c"
  "MULT_POINT_Y (sb_sw_point_co_z_add_update_zup c s) = MULT_POINT_Y c"
  "use_0 (sb_sw_point_co_z_add_update_zup c s) = use_0 c"
  "use_1 (sb_sw_point_co_z_add_update_zup c s) = use_1 c"
  "use_2 (sb_sw_point_co_z_add_update_zup c s) = use_2 c"
  "use_3 (sb_sw_point_co_z_add_update_zup c s) = use_3 c"
  "C_T8 (sb_sw_point_co_z_add_update_zup c s) = C_T8 c"
  by (simp_all add: sb_sw_point_co_z_add_update_zup_def Let_def)

lemma co_z_add_update_frame [simp]:
  "MULT_K (sb_sw_point_co_z_add_update c s) = MULT_K c"
  "MULT_Z (sb_sw_point_co_z_add_update c s) = MULT_Z c"
  "MULT_POINT_X (sb_sw_point_co_z_add_update c s) = MULT_POINT_X c"
  "MULT_POINT_Y (sb_sw_point_co_z_add_update c s) = MULT_POINT_Y c"
  "use_0 (sb_sw_point_co_z_add_update c s) = use_0 c"
  "use_1 (sb_sw_point_co_z_add_update c s) = use_1 c"
  "use_2 (sb_sw_point_co_z_add_update c s) = use_2 c"
  "use_3 (sb_sw_point_co_z_add_update c s) = use_3 c"
  "C_T8 (sb_sw_point_co_z_add_update c s) = C_T8 c"
  by (simp_all add: sb_sw_point_co_z_add_update_def Let_def)

lemma co_z_conj_add_frame [simp]:
  "MULT_K (sb_sw_point_co_z_conj_add c s) = MULT_K c"
  "MULT_Z (sb_sw_point_co_z_conj_add c s) = MULT_Z c"
  "MULT_POINT_X (sb_sw_point_co_z_conj_add c s) = MULT_POINT_X c"
  "MULT_POINT_Y (sb_sw_point_co_z_conj_add c s) = MULT_POINT_Y c"
  "use_0 (sb_sw_point_co_z_conj_add c s) = use_0 c"
  "use_1 (sb_sw_point_co_z_conj_add c s) = use_1 c"
  "use_2 (sb_sw_point_co_z_conj_add c s) = use_2 c"
  "use_3 (sb_sw_point_co_z_conj_add c s) = use_3 c"
  by (simp_all add: sb_sw_point_co_z_conj_add_def Let_def)

lemma initial_double_frame [simp]:
  "MULT_K (sb_sw_point_initial_double c s) = MULT_K c"
  "MULT_Z (sb_sw_point_initial_double c s) = MULT_Z c"
  "MULT_POINT_X (sb_sw_point_initial_double c s) = MULT_POINT_X c"
  "MULT_POINT_Y (sb_sw_point_initial_double c s) = MULT_POINT_Y c"
  "use_0 (sb_sw_point_initial_double c s) = use_0 c"
  "use_1 (sb_sw_point_initial_double c s) = use_1 c"
  "use_2 (sb_sw_point_initial_double c s) = use_2 c"
  "use_3 (sb_sw_point_initial_double c s) = use_3 c"
  "C_T8 (sb_sw_point_initial_double c s) = C_T8 c"
  by (simp_all add: sb_sw_point_initial_double_def Let_def)

lemma mult_add_z_update_frame [simp]:
  "MULT_K (sb_sw_point_mult_add_z_update c s) = MULT_K c"
  "MULT_POINT_X (sb_sw_point_mult_add_z_update c s) = MULT_POINT_X c"
  "MULT_POINT_Y (sb_sw_point_mult_add_z_update c s) = MULT_POINT_Y c"
  "use_0 (sb_sw_point_mult_add_z_update c s) = use_0 c"
  "use_1 (sb_sw_point_mult_add_z_update c s) = use_1 c"
  "use_2 (sb_sw_point_mult_add_z_update c s) = use_2 c"
  "use_3 (sb_sw_point_mult_add_z_update c s) = use_3 c"
  "C_T8 (sb_sw_point_mult_add_z_update c s) = C_T8 c"
  by (simp_all add: sb_sw_point_mult_add_z_update_def Let_def)

lemma mult_add_apply_z_frame [simp]:
  "MULT_K (sb_sw_point_mult_add_apply_z c s) = MULT_K c"
  "MULT_Z (sb_sw_point_mult_add_apply_z c s) = MULT_Z c"
  "MULT_POINT_X (sb_sw_point_mult_add_apply_z c s) = MULT_POINT_X c"
  "MULT_POINT_Y (sb_sw_point_mult_add_apply_z c s) = MULT_POINT_Y c"
  "use_0 (sb_sw_point_mult_add_apply_z c s) = use_0 c"
  "use_1 (sb_sw_point_mult_add_apply_z c s) = use_1 c"
  "use_2 (sb_sw_point_mult_add_apply_z c s) = use_2 c"
  "use_3 (sb_sw_point_mult_add_apply_z c s) = use_3 c"
  "C_T8 (sb_sw_point_mult_add_apply_z c s) = C_T8 c"
  "C_X1 (sb_sw_point_mult_add_apply_z c s) = C_X1 c"
  "C_Y1 (sb_sw_point_mult_add_apply_z c s) = C_Y1 c"
  "C_T5 (sb_sw_point_mult_add_apply_z c s) = C_T5 c"
  by (simp_all add: sb_sw_point_mult_add_apply_z_def Let_def)

subsection \<open>The registers stay quasi-reduced\<close>

lemma co_z_add_update_qr:
  assumes "mont_ok (curve_p s)" "coords_qr s c"
  shows "coords_qr s (sb_sw_point_co_z_add_update c s)"
    and "quasi_reduced (curve_p s) (C_T5 (sb_sw_point_co_z_add_update c s))"
  using co_z_add_update_zup_regs(1,2) [OF assms(1), of "c\<lparr>C_T6 := sb_fe_mod_sub (C_X2 c) (C_X1 c) (curve_p s)\<rparr>"]
    coords_qrD [OF assms(2)] assms(2)
  by (simp_all add: sb_sw_point_co_z_add_update_def Let_def quasi_reduced_ops)

lemma co_z_conj_add_qr:
  assumes ok: "mont_ok (curve_p s)" and q: "coords_qr s c"
  shows "coords_qr s (sb_sw_point_co_z_conj_add c s)"
proof -
  let ?c = "c\<lparr>C_T8 := sb_fe_mod_add (C_Y1 c) (C_Y2 c) (curve_p s)\<rparr>"
  have "coords_qr s ?c" using q by simp
  note r = co_z_add_update_qr [OF ok this]
  note rs = r(2) coords_qrD [OF r(1)]
  note t = co_z_conj_add_terms [of c s]
  have 8: "quasi_reduced (curve_p s) (C_T8 (sb_sw_point_co_z_add_update ?c s))"
    using coords_qrD [OF q] by (simp add: qr_intros)
  have X: "quasi_reduced (curve_p s) (C_X2 (sb_sw_point_co_z_conj_add c s))"
    unfolding t(7) by (intro qr_intros ok 8 rs)
  have "quasi_reduced (curve_p s) (C_Y2 (sb_sw_point_co_z_conj_add c s))"
    unfolding t(8) by (intro qr_intros ok 8 X rs)
  with X rs show ?thesis
    by (simp add: coords_qr_def t(1,2))
qed

lemma initial_double_qr:
  assumes "curve_ok s" "quasi_reduced (curve_p s) (C_X2 c)" "quasi_reduced (curve_p s) (C_Y2 c)"
  shows "coords_qr s (sb_sw_point_initial_double c s)"
    and "quasi_reduced (curve_p s) (C_T5 (sb_sw_point_initial_double c s))"
  using curve_okD [OF assms(1)] assms(2,3)
  by (simp_all add: coords_qr_def sb_sw_point_initial_double_def Let_def qr_intros)

lemma mult_add_z_update_qr:
  assumes ok: "mont_ok (curve_p s)" and q: "coords_qr s c" "quasi_reduced (curve_p s) (MULT_Z c)"
  shows "coords_qr s (sb_sw_point_mult_add_z_update c s)"
    and "quasi_reduced (curve_p s) (MULT_Z (sb_sw_point_mult_add_z_update c s))"
proof -
  have t: "quasi_reduced (curve_p s) (sb_fe_mod_sub (C_X2 c) (C_X1 c) (curve_p s))"
    by (simp add: coords_qrD [OF q(1)] quasi_reduced_ops)
  show "coords_qr s (sb_sw_point_mult_add_z_update c s)"
    unfolding sb_sw_point_mult_add_z_update_def Let_def
    by (rule co_z_add_update_zup_regs(1) [OF ok]) (use q t in simp_all)
  show "quasi_reduced (curve_p s) (MULT_Z (sb_sw_point_mult_add_z_update c s))"
    using q t ok by (simp add: sb_sw_point_mult_add_z_update_def Let_def qr_intros)
qed

subsection \<open>Scalars and Z coordinates\<close>

text \<open>
  Regularisation: the 257-bit number \<open>2 ^ 256 + MULT_K\<close> is \<open>k + N\<close> or \<open>k + 2 N\<close>.
\<close>

lemma sb_sw_regularize_scalar_val:
  assumes N: "2 ^ 255 < modulus (curve_n s)" and k: "fe_val (MULT_K c) < modulus (curve_n s)"
  defines "k' \<equiv> 2 ^ 256 + fe_val (MULT_K (sb_sw_regularize_scalar c s))"
  shows "k' = fe_val (MULT_K c) + modulus (curve_n s) * (if 2 ^ 256 \<le> fe_val (MULT_K c) + modulus (curve_n s) then 1 else 2)"
proof -
  let ?k = "fe_val (MULT_K c)" and ?N = "modulus (curve_n s)"
  note b = fe_val_bound [of "MULT_K c"] fe_val_nonneg [of "MULT_K c"] fe_val_bound [of "prime_p (curve_n s)"]
  define t where "t = fst (sb_fe_add (MULT_K c) (prime_p (curve_n s)))"
  have t: "fe_val t = (?k + ?N) mod 2 ^ 256"
    by (simp add: t_def sb_fe_add_val)
  have K: "MULT_K (sb_sw_regularize_scalar c s) =
      (if 2 ^ 256 \<le> ?k + ?N then t else fst (sb_fe_add t (prime_p (curve_n s))))"
    by (simp add: sb_sw_regularize_scalar_def case_prod_unfold Let_def sb_fe_add_val sb_fe_ctswap_if
        flip: t_def)
  show ?thesis
  proof (cases "2 ^ 256 \<le> ?k + ?N")
    case True
    then have "(?k + ?N) mod 2 ^ 256 = ?k + ?N - 2 ^ 256"
      using b by (intro mod_uniqueI [symmetric, where k = 1]) auto
    with True t show ?thesis by (simp add: k'_def K)
  next
    case False
    then have "fe_val t = ?k + ?N"
      using t b N by (simp add: mod_pos_pos_trivial)
    moreover have "(?k + ?N + ?N) mod 2 ^ 256 = ?k + ?N + ?N - 2 ^ 256"
      using False b N by (intro mod_uniqueI [symmetric, where k = 1]) auto
    ultimately show ?thesis using False by (simp add: k'_def K sb_fe_add_val)
  qed
qed

text \<open>One step of multiplication-addition: the chord, with \<open>MULT_Z\<close> following the coordinate.\<close>

lemma mult_add_z_update_chord:
  assumes ok: "mont_ok (curve_p s)" and q: "coords_qr s c" "quasi_reduced (curve_p s) (MULT_Z c)"
    and A: "jacobian (modulus (curve_p s)) (mval (curve_p s) (MULT_Z c)) a (reg1 s c)"
    and B: "jacobian (modulus (curve_p s)) (mval (curve_p s) (MULT_Z c)) b (reg2 s c)"
    and r: "chord (modulus (curve_p s)) a b r"
  defines "c' \<equiv> sb_sw_point_mult_add_z_update c s"
  shows "jacobian (modulus (curve_p s)) (mval (curve_p s) (MULT_Z c')) r (reg1 s c')"
    and "jacobian (modulus (curve_p s)) (mval (curve_p s) (MULT_Z c')) a (reg2 s c')"
    and "coords_qr s c'" "quasi_reduced (curve_p s) (MULT_Z c')"
    and "eqm (modulus (curve_p s)) (mval (curve_p s) (MULT_Z c')) (mval (curve_p s) (MULT_Z c) * z_factor s c)"
proof -
  let ?P = "modulus (curve_p s)" and ?v = "mval (curve_p s)"
  let ?t = "sb_fe_mod_sub (C_X2 c) (C_X1 c) (curve_p s)"
  let ?z = "sb_fe_mont_mult ?t (MULT_Z c) (curve_p s)"
  let ?d = "c\<lparr>C_T6 := ?t, C_T5 := ?z, MULT_Z := ?z\<rparr>"
  have c': "c' = sb_sw_point_co_z_add_update_zup ?d s"
    by (simp add: c'_def sb_sw_point_mult_add_z_update_def Let_def)
  have qt: "quasi_reduced (curve_p s) ?t" "quasi_reduced (curve_p s) ?z"
    by (simp_all add: coords_qrD [OF q(1)] q ok qr_intros)
  have qd: "coords_qr s ?d" "quasi_reduced (curve_p s) (C_T6 ?d)"
    using q qt by simp_all
  have e: "eqm ?P (?v (C_T6 ?d)) (fst (reg2 s ?d) - fst (reg1 s ?d))"
    using z_factor_eqm [OF q(1)] by (simp add: z_factor_def)
  show z: "eqm ?P (?v (MULT_Z c')) (?v (MULT_Z c) * z_factor s c)"
    by (simp add: eqm_mod c' z_factor_def mval_mont_mult qt ok q) (simp add: ac_simps)
  note m = co_z_add_update_zup_chord [OF ok qd e, where z = "?v (MULT_Z c)" and a = a and b = b and r = r,
      folded c', simplified, folded z_factor_def, OF A B r]
  show "jacobian ?P (?v (MULT_Z c')) r (reg1 s c')" "jacobian ?P (?v (MULT_Z c')) a (reg2 s c')"
    using m by (auto intro: jacobian_cong [OF eqm_sym [OF z]])
  show "coords_qr s c'"
    using co_z_add_update_zup_regs(1) [OF ok qd] by (simp add: c')
  show "quasi_reduced (curve_p s) (MULT_Z c')"
    using qt by (simp add: c')
qed

lemma mult_add_apply_z_val:
  assumes ok: "mont_ok (curve_p s)" and q: "coords_qr s c" "quasi_reduced (curve_p s) (MULT_Z c)"
  defines "c' \<equiv> sb_sw_point_mult_add_apply_z c s"
  shows "jacobian (modulus (curve_p s)) z a (reg2 s c) \<Longrightarrow>
      jacobian (modulus (curve_p s)) (z * mval (curve_p s) (MULT_Z c)) a (reg2 s c')"
    and "coords_qr s c'"
proof -
  let ?P = "modulus (curve_p s)" and ?v = "mval (curve_p s)"
  note q = coords_qrD [OF q(1)] q(2)
  show "coords_qr s c'"
    unfolding coords_qr_def c'_def sb_sw_point_mult_add_apply_z_def
    by (simp add: Let_def q ok qr_intros)
  assume a: "jacobian ?P z a (reg2 s c)"
  note a = jacobianD [OF this, unfolded reg2_def fst_conv snd_conv]
  show "jacobian ?P (z * ?v (MULT_Z c)) a (reg2 s c')"
    unfolding jacobian_def
  proof
    have "eqm ?P (fst (reg2 s c')) (?v (C_X2 c) * (?v (MULT_Z c) * ?v (MULT_Z c)))"
      unfolding eqm_mod reg2_def c'_def sb_sw_point_mult_add_apply_z_def
      by (simp add: Let_def q ok qr_intros mval_simps mod_simps)
    also have "eqm ?P \<dots> (fst a * (z * z) * (?v (MULT_Z c) * ?v (MULT_Z c)))"
      by (intro eqm_mult eqm_refl a)
    finally show "eqm ?P (fst (reg2 s c')) (fst a * (z * ?v (MULT_Z c) * (z * ?v (MULT_Z c))))"
      by (simp add: algebra_simps)
    have "eqm ?P (snd (reg2 s c')) (?v (C_Y2 c) * (?v (MULT_Z c) * ?v (MULT_Z c) * ?v (MULT_Z c)))"
      unfolding eqm_mod reg2_def c'_def sb_sw_point_mult_add_apply_z_def
      by (simp add: Let_def q ok qr_intros mval_simps mod_simps)
    also have "eqm ?P \<dots> (snd a * (z * (z * z)) * (?v (MULT_Z c) * ?v (MULT_Z c) * ?v (MULT_Z c)))"
      by (intro eqm_mult eqm_refl a)
    finally show "eqm ?P (snd (reg2 s c'))
        (snd a * (z * ?v (MULT_Z c) * (z * ?v (MULT_Z c) * (z * ?v (MULT_Z c)))))"
      by (simp add: algebra_simps)
  qed
qed

text \<open>The table look-up of multiplication-addition.\<close>

definition selected :: "sb_sw_curve \<Rightarrow> sb_sw_context \<Rightarrow> bool \<Rightarrow> bool \<Rightarrow> sb_fe_pair" where
  "selected s q bp bg =
     (if bp \<and> bg then \<lparr>pair_x = MULT_ADD_PG_X q, pair_y = MULT_ADD_PG_Y q\<rparr>
      else if bp then \<lparr>pair_x = MULT_POINT_X q, pair_y = MULT_POINT_Y q\<rparr>
      else if bg then g_h_r s else h_r s)"

lemma sb_fe_ctswap_01 [simp]: "sb_fe_ctswap 0 a b = (a, b)" "sb_fe_ctswap 1 a b = (b, a)"
  using sb_fe_ctswap_if [of False] sb_fe_ctswap_if [of True] by simp_all

lemma mult_add_select_eq:
  "sb_sw_point_mult_add_select (of_bool bp) (of_bool bg) q s =
     sb_sw_point_mult_add_apply_z (q\<lparr>C_X2 := pair_x (selected s q bp bg),
       C_Y2 := pair_y (selected s q bp bg),
       C_T5 := if bp \<and> bg then MULT_POINT_X q else MULT_ADD_PG_X q,
       C_T6 := if bp \<and> bg then MULT_POINT_Y q else MULT_ADD_PG_Y q\<rparr>) s"
  by (cases q; cases bp; cases bg)
    (simp_all add: sb_sw_point_mult_add_select_def Let_def ctswap_X2_T5_def ctswap_Y2_T6_def
      selected_def)

end
