(* ===== verification/Point_Mult.thy ===== *)
theory Point_Mult
  imports Point_Arith
begin

text \<open>
  Point multiplication of \<open>sb_sw_lib.c\<close> as an incremental operation: the start, the
  chunked Montgomery ladder with its two stages, and the multiplication-addition used by
  signature verification. The state between two calls is saved over the temporaries.
\<close>

definition SB_SW_POINT_ITERATIONS :: nat where "SB_SW_POINT_ITERATIONS = 16"

subsection \<open>Starting a multiplication\<close>

definition ctswap_1_2 :: "sb_word \<Rightarrow> sb_sw_context \<Rightarrow> sb_sw_context" where
  "ctswap_1_2 a m =
     (let (x1, x2) = sb_fe_ctswap a (C_X1 m) (C_X2 m);
          (y1, y2) = sb_fe_ctswap a (C_Y1 m) (C_Y2 m)
      in m\<lparr>C_X1 := x1, C_X2 := x2, C_Y1 := y1, C_Y2 := y2\<rparr>)"

text \<open>
  The point \<open>(0, y)\<close> is recognised by its quasi-reduced abscissa \<open>p\<close>: its double is
  substituted, with the sign of \<open>y\<close>, and the scalar is halved.
\<close>

definition point_mult_zero_point :: "sb_sw_context \<Rightarrow> sb_sw_curve \<Rightarrow> sb_sw_context" where
  "point_mult_zero_point m curve =
     (let p = curve_p curve;
          is_zero = sb_fe_equal (MULT_POINT_X m) (prime_p p);
          m = m\<lparr>C_Y1 := sb_fe_mont_reduce (MULT_POINT_Y m) p\<rparr>;
          zero_sign = sb_fe_test_bit (C_Y1 m) 0;
          m = m\<lparr>C_X1 := pair_x (dz_r curve)\<rparr>;
          m = m\<lparr>C_Y1 := pair_y (dz_r curve)\<rparr>;
          m = m\<lparr>C_Y2 := sb_fe_mod_negate (C_Y1 m) p\<rparr>;
          (y1, y2) = sb_fe_ctswap zero_sign (C_Y1 m) (C_Y2 m);
          m = m\<lparr>C_Y1 := y1, C_Y2 := y2\<rparr>;
          (t5, t6) = sb_fe_mod_halve (MULT_K m) (curve_n curve);
          m = m\<lparr>C_T5 := t5, C_T6 := t6\<rparr>;
          (k, t5) = sb_fe_ctswap is_zero (MULT_K m) (C_T5 m);
          m = m\<lparr>MULT_K := k, C_T5 := t5\<rparr>;
          (px, x1) = sb_fe_ctswap is_zero (MULT_POINT_X m) (C_X1 m);
          m = m\<lparr>MULT_POINT_X := px, C_X1 := x1\<rparr>;
          (py, y1) = sb_fe_ctswap is_zero (MULT_POINT_Y m) (C_Y1 m)
      in m\<lparr>MULT_POINT_Y := py, C_Y1 := y1\<rparr>)"

definition point_mult_apply_z :: "sb_sw_context \<Rightarrow> sb_sw_curve \<Rightarrow> sb_sw_context" where
  "point_mult_apply_z m curve =
     (let p = curve_p curve;
          m = m\<lparr>C_T7 := sb_fe_mont_square (MULT_Z m) p\<rparr>;
          m = m\<lparr>C_T6 := sb_fe_mont_mult (MULT_Z m) (C_T7 m) p\<rparr>;
          m = m\<lparr>C_T5 := C_X1 m\<rparr>;
          m = m\<lparr>C_X1 := sb_fe_mont_mult (C_T5 m) (C_T7 m) p\<rparr>;
          m = m\<lparr>C_T5 := C_Y1 m\<rparr>;
          m = m\<lparr>C_Y1 := sb_fe_mont_mult (C_T5 m) (C_T6 m) p\<rparr>;
          m = m\<lparr>C_T5 := C_X2 m\<rparr>;
          m = m\<lparr>C_X2 := sb_fe_mont_mult (C_T5 m) (C_T7 m) p\<rparr>;
          m = m\<lparr>C_T5 := C_Y2 m\<rparr>;
          m = m\<lparr>C_Y2 := sb_fe_mont_mult (C_T5 m) (C_T6 m) p\<rparr>
      in m)"

definition sb_sw_point_mult_start :: "sb_sw_context \<Rightarrow> sb_sw_curve \<Rightarrow> sb_sw_context" where
  "sb_sw_point_mult_start m curve =
     (let state = MULT_STATE m;
          m = point_mult_zero_point m curve;
          state = state\<lparr>st_inv_k := sb_fe_test_bit (MULT_K m) (SB_FE_BITS - 1)\<rparr>;
          m = m\<lparr>C_T5 := sb_fe_mod_negate (MULT_K m) (curve_n curve)\<rparr>;
          (t5, k) = sb_fe_ctswap (st_inv_k state) (C_T5 m) (MULT_K m);
          m = m\<lparr>C_T5 := t5, MULT_K := k\<rparr>;
          state = state\<lparr>st_k_one := sb_fe_equal (MULT_K m) SB_FE_ONE\<rparr>;
          m = sb_sw_regularize_scalar m curve;
          m = m\<lparr>C_X2 := MULT_POINT_X m\<rparr>;
          m = m\<lparr>C_Y2 := MULT_POINT_Y m\<rparr>;
          m = sb_sw_point_initial_double m curve;
          m = point_mult_apply_z m curve;
          state = state\<lparr>st_i := SB_FE_BITS - 1\<rparr>;
          state = state\<lparr>st_stage := SB_SW_POINT_MULT_OP_STAGE_LADDER\<rparr>
      in set_MULT_STATE m state)"

subsection \<open>The ladder\<close>

text \<open>One iteration, and a chunk: the counter \<open>n\<close> is \<open>SB_SW_POINT_ITERATIONS - ops\<close>.\<close>

definition ladder_step ::
  "sb_sw_saved_state \<Rightarrow> sb_sw_context \<Rightarrow> sb_sw_curve \<Rightarrow> sb_sw_saved_state \<times> sb_sw_context" where
  "ladder_step state m curve =
     (let b = sb_fe_test_bit (MULT_K m) (st_i state);
          state = state\<lparr>st_swap := st_swap state XOR b\<rparr>;
          m = ctswap_1_2 (st_swap state) m;
          state = state\<lparr>st_swap := b\<rparr>;
          m = sb_sw_point_co_z_conj_add m curve;
          m = sb_sw_point_co_z_add_update m curve
      in (state, m))"

fun ladder_loop ::
  "nat \<Rightarrow> sb_sw_saved_state \<Rightarrow> sb_sw_context \<Rightarrow> sb_sw_curve \<Rightarrow> sb_sw_saved_state \<times> sb_sw_context" where
  "ladder_loop 0 state m curve = (state, m)"
| "ladder_loop (Suc n) state m curve =
     (if 0 < st_i state then
        let (state, m) = ladder_step state m curve
        in ladder_loop n (state\<lparr>st_i := st_i state - 1\<rparr>) m curve
      else (state, m))"

text \<open>The last ladder bit, and the recovery of \<open>Z\<^sup>-\<^sup>1\<close> from the input point.\<close>

definition point_mult_recover_z ::
  "sb_sw_saved_state \<Rightarrow> sb_sw_context \<Rightarrow> sb_sw_curve \<Rightarrow> sb_sw_saved_state \<times> sb_sw_context" where
  "point_mult_recover_z state m curve =
     (let p = curve_p curve;
          b = sb_fe_test_bit (MULT_K m) 0;
          state = state\<lparr>st_swap := st_swap state XOR b\<rparr>;
          m = ctswap_1_2 (st_swap state) m;
          m = sb_sw_point_co_z_conj_add m curve;
          m = ctswap_1_2 b m;
          m = m\<lparr>C_T8 := sb_fe_mod_sub (C_X1 m) (C_X2 m) p\<rparr>;
          m = ctswap_1_2 b m;
          m = m\<lparr>C_T5 := sb_fe_mont_mult (C_T8 m) (C_Y2 m) p\<rparr>;
          m = m\<lparr>C_T8 := sb_fe_mont_mult (C_T5 m) (MULT_POINT_X m) p\<rparr>;
          (t8, t5, t6) = sb_fe_mod_inv_r (C_T8 m) p (C_T6 m);
          m = m\<lparr>C_T8 := t8, C_T5 := t5, C_T6 := t6\<rparr>;
          m = m\<lparr>C_T5 := sb_fe_mont_mult (C_T8 m) (MULT_POINT_Y m) p\<rparr>;
          m = m\<lparr>C_T8 := sb_fe_mont_mult (C_T5 m) (C_X2 m) p\<rparr>;
          m = sb_sw_point_co_z_add_update m curve;
          m = ctswap_1_2 (b XOR 1) m
      in (state, m))"

text \<open>The affine result, with the corrections for the scalars one and minus one.\<close>

definition point_mult_output ::
  "sb_sw_saved_state \<Rightarrow> sb_sw_context \<Rightarrow> sb_sw_curve \<Rightarrow> sb_sw_context" where
  "point_mult_output state m curve =
     (let p = curve_p curve; n = curve_n curve;
          m = m\<lparr>C_T5 := sb_fe_mont_square (C_T8 m) p\<rparr>;
          m = m\<lparr>C_T6 := sb_fe_mont_mult (C_T5 m) (C_T8 m) p\<rparr>;
          m = m\<lparr>C_T7 := sb_fe_mont_mult (C_T5 m) (C_X2 m) p\<rparr>;
          m = m\<lparr>C_X2 := sb_fe_mod_add (C_T7 m) (MULT_POINT_X m) p\<rparr>;
          (t7, x2) = sb_fe_ctswap (st_k_one state) (C_T7 m) (C_X2 m);
          m = m\<lparr>C_T7 := t7, C_X2 := x2\<rparr>;
          m = m\<lparr>C_X1 := sb_fe_mont_reduce (C_T7 m) p\<rparr>;
          m = m\<lparr>C_T7 := sb_fe_mont_mult (C_T6 m) (C_Y2 m) p\<rparr>;
          m = m\<lparr>C_Y2 := sb_fe_mod_add (C_T7 m) (MULT_POINT_Y m) p\<rparr>;
          (t7, y2) = sb_fe_ctswap (st_k_one state) (C_T7 m) (C_Y2 m);
          m = m\<lparr>C_T7 := t7, C_Y2 := y2\<rparr>;
          m = m\<lparr>C_Y1 := sb_fe_mont_reduce (C_T7 m) p\<rparr>;
          m = m\<lparr>C_T5 := sb_fe_mod_negate (C_Y1 m) p\<rparr>;
          (y1, t5) = sb_fe_ctswap (st_inv_k state) (C_Y1 m) (C_T5 m);
          m = m\<lparr>C_Y1 := y1, C_T5 := t5\<rparr>;
          m = m\<lparr>MULT_K := fst (sb_fe_sub (MULT_K m) (prime_p n))\<rparr>;
          m = m\<lparr>MULT_K := sb_fe_mod_reduce (MULT_K m) n\<rparr>;
          m = m\<lparr>C_T5 := sb_fe_mod_negate (MULT_K m) n\<rparr>;
          (t5, k) = sb_fe_ctswap (st_inv_k state) (C_T5 m) (MULT_K m)
      in m\<lparr>C_T5 := t5, MULT_K := k\<rparr>)"

definition sb_sw_point_mult_continue :: "sb_sw_context \<Rightarrow> sb_sw_curve \<Rightarrow> bool \<times> sb_sw_context" where
  "sb_sw_point_mult_continue m curve =
     (let state = MULT_STATE m in
      if st_stage state = SB_SW_POINT_MULT_OP_STAGE_LADDER then
        let (state, m) = ladder_loop SB_SW_POINT_ITERATIONS state m curve;
            state = (if st_i state = 0 then state\<lparr>st_stage := SB_SW_POINT_MULT_OP_STAGE_INV_Z\<rparr> else state)
        in (False, set_MULT_STATE m state)
      else if st_stage state = SB_SW_POINT_MULT_OP_STAGE_INV_Z then
        let (state, m) = point_mult_recover_z state m curve;
            m = point_mult_output state m curve;
            state = state\<lparr>st_stage := SB_SW_POINT_MULT_OP_DONE\<rparr>
        in (True, set_MULT_STATE m state)
      else (st_stage state = SB_SW_POINT_MULT_OP_DONE, m))"

definition sb_sw_point_mult_is_finished :: "sb_sw_context \<Rightarrow> bool" where
  "sb_sw_point_mult_is_finished m \<longleftrightarrow> st_stage (MULT_STATE m) = SB_SW_POINT_MULT_OP_DONE"

subsection \<open>Multiplication-addition\<close>

definition mult_add_inv_z :: "sb_sw_context \<Rightarrow> sb_sw_curve \<Rightarrow> sb_sw_context" where
  "mult_add_inv_z q s =
     (let p = curve_p s;
          q = q\<lparr>MULT_ADD_KG := fst (sb_fe_sub (MULT_ADD_KG q) SB_FE_ONE)\<rparr>;
          q = q\<lparr>C_X1 := sb_fe_mont_convert (MULT_POINT_X q) p\<rparr>;
          q = q\<lparr>MULT_POINT_X := C_X1 q\<rparr>;
          q = q\<lparr>C_Y1 := sb_fe_mont_convert (MULT_POINT_Y q) p\<rparr>;
          q = q\<lparr>MULT_POINT_Y := C_Y1 q\<rparr>;
          q = q\<lparr>C_X2 := pair_x (h_r s)\<rparr>;
          q = q\<lparr>C_Y2 := pair_y (h_r s)\<rparr>;
          q = q\<lparr>C_T8 := MULT_Z q\<rparr>;
          q = q\<lparr>MULT_Z := r_mod_p p\<rparr>;
          q = sb_sw_point_mult_add_z_update q s;
          q = q\<lparr>C_X2 := pair_x (g_r s)\<rparr>;
          q = q\<lparr>C_Y2 := pair_y (g_r s)\<rparr>;
          q = sb_sw_point_mult_add_apply_z q s;
          q = sb_sw_point_mult_add_z_update q s;
          q = q\<lparr>C_T5 := MULT_Z q\<rparr>;
          (t5, t6, t7) = sb_fe_mod_inv_r (C_T5 q) p (C_T7 q);
          q = q\<lparr>C_T5 := t5, C_T6 := t6, C_T7 := t7\<rparr>;
          q = q\<lparr>C_T6 := sb_fe_mont_square (C_T5 q) p\<rparr>;
          q = q\<lparr>C_T7 := sb_fe_mont_mult (C_T5 q) (C_T6 q) p\<rparr>;
          q = q\<lparr>MULT_POINT_X := sb_fe_mont_mult (C_X2 q) (C_T6 q) p\<rparr>;
          q = q\<lparr>MULT_POINT_Y := sb_fe_mont_mult (C_Y2 q) (C_T7 q) p\<rparr>;
          q = q\<lparr>MULT_ADD_PG_X := sb_fe_mont_mult (C_X1 q) (C_T6 q) p\<rparr>;
          q = q\<lparr>MULT_ADD_PG_Y := sb_fe_mont_mult (C_Y1 q) (C_T7 q) p\<rparr>;
          q = q\<lparr>C_X2 := pair_x (h_r s)\<rparr>;
          q = q\<lparr>C_Y2 := pair_y (h_r s)\<rparr>;
          q = sb_sw_point_initial_double q s;
          q = q\<lparr>MULT_Z := C_T8 q\<rparr>;
          q = sb_sw_point_mult_add_apply_z q s;
          q = q\<lparr>C_T6 := sb_fe_mont_mult (MULT_Z q) (C_T5 q) p\<rparr>;
          q = q\<lparr>MULT_Z := C_T6 q\<rparr>;
          q = q\<lparr>C_X1 := C_X2 q\<rparr>
      in q\<lparr>C_Y1 := C_Y2 q\<rparr>)"

text \<open>
  The loop index counts down past zero: the decrement of zero wraps to a value that is not
  below \<open>SB_FE_BITS\<close>.
\<close>

definition mult_add_step :: "sb_size \<Rightarrow> sb_sw_context \<Rightarrow> sb_sw_curve \<Rightarrow> sb_sw_context" where
  "mult_add_step i q s =
     (let bp = sb_fe_test_bit (MULT_K q) i;
          bg = sb_fe_test_bit (MULT_ADD_KG q) i;
          q = sb_sw_point_mult_add_select bp bg q s;
          q = sb_sw_point_mult_add_z_update q s
      in if i < SB_FE_BITS - 1 then sb_sw_point_mult_add_z_update q s else q)"

fun mult_add_loop ::
  "nat \<Rightarrow> sb_size \<Rightarrow> sb_sw_context \<Rightarrow> sb_sw_curve \<Rightarrow> sb_size \<times> sb_sw_context" where
  "mult_add_loop 0 i q s = (i, q)"
| "mult_add_loop (Suc n) i q s =
     (if i < SB_FE_BITS then mult_add_loop n (i - 1) (mult_add_step i q s) s else (i, q))"

definition sb_sw_point_mult_add_z_continue :: "sb_sw_context \<Rightarrow> sb_sw_curve \<Rightarrow> bool \<times> sb_sw_context" where
  "sb_sw_point_mult_add_z_continue q s =
     (let state = MULT_STATE q in
      if st_stage state = SB_SW_VERIFY_OP_STAGE_INV_Z then
        let q = mult_add_inv_z q s;
            state = state\<lparr>st_i := SB_FE_BITS - 1\<rparr>;
            state = state\<lparr>st_stage := SB_SW_VERIFY_OP_STAGE_LADDER\<rparr>
        in (False, set_MULT_STATE q state)
      else if st_stage state = SB_SW_VERIFY_OP_STAGE_LADDER then
        let (i, q) = mult_add_loop SB_SW_POINT_ITERATIONS (st_i state) q s;
            state = state\<lparr>st_i := i\<rparr>
        in if SB_FE_BITS \<le> i then
             let q = q\<lparr>C_T6 := C_X1 q\<rparr>;
                 q = q\<lparr>C_X1 := sb_fe_mont_reduce (C_T6 q) (curve_p s)\<rparr>;
                 q = q\<lparr>C_T6 := C_Y1 q\<rparr>;
                 q = q\<lparr>C_Y1 := sb_fe_mont_reduce (C_T6 q) (curve_p s)\<rparr>;
                 state = state\<lparr>st_stage := SB_SW_VERIFY_OP_STAGE_TEST\<rparr>
             in (False, set_MULT_STATE q state)
           else (False, set_MULT_STATE q state)
      else (True, q))"

subsection \<open>Ladder steps\<close>

lemma ctswap_1_2_of_bool:
  "ctswap_1_2 (of_bool b) m =
     (if b then m\<lparr>C_X1 := C_X2 m, C_X2 := C_X1 m, C_Y1 := C_Y2 m, C_Y2 := C_Y1 m\<rparr> else m)"
  by (cases m) (simp add: ctswap_1_2_def sb_fe_ctswap_if)

lemma ctswap_1_2_frame [simp]:
  "MULT_K (ctswap_1_2 b m) = MULT_K m" "MULT_Z (ctswap_1_2 b m) = MULT_Z m"
  "MULT_POINT_X (ctswap_1_2 b m) = MULT_POINT_X m"
  "MULT_POINT_Y (ctswap_1_2 b m) = MULT_POINT_Y m" "use_0 (ctswap_1_2 b m) = use_0 m"
  "use_1 (ctswap_1_2 b m) = use_1 m" "use_2 (ctswap_1_2 b m) = use_2 m"
  "use_3 (ctswap_1_2 b m) = use_3 m"
  by (simp_all add: ctswap_1_2_def case_prod_unfold Let_def)

lemma ctswap_1_2_regs:
  "reg1 s (ctswap_1_2 (of_bool b) m) = (if b then reg2 s m else reg1 s m)"
  "reg2 s (ctswap_1_2 (of_bool b) m) = (if b then reg1 s m else reg2 s m)"
  "coords_qr s (ctswap_1_2 (of_bool b) m) = coords_qr s m"
  by (auto simp: ctswap_1_2_of_bool reg1_def reg2_def coords_qr_def)

lemma of_bool_xor: "(of_bool a :: sb_word) XOR of_bool b = of_bool (a \<noteq> b)"
  by (cases a; cases b) simp_all

lemma ladder_step_eq:
  "ladder_step st m s = (st\<lparr>st_swap := sb_fe_test_bit (MULT_K m) (st_i st)\<rparr>,
     sb_sw_point_co_z_add_update (sb_sw_point_co_z_conj_add
       (ctswap_1_2 (st_swap st XOR sb_fe_test_bit (MULT_K m) (st_i st)) m) s) s)"
  by (simp add: ladder_step_def Let_def)

lemma ladder_step_frame [simp]:
  "MULT_K (snd (ladder_step st m s)) = MULT_K m" "MULT_Z (snd (ladder_step st m s)) = MULT_Z m"
  "MULT_POINT_X (snd (ladder_step st m s)) = MULT_POINT_X m"
  "MULT_POINT_Y (snd (ladder_step st m s)) = MULT_POINT_Y m"
  "use_0 (snd (ladder_step st m s)) = use_0 m" "use_1 (snd (ladder_step st m s)) = use_1 m"
  "use_2 (snd (ladder_step st m s)) = use_2 m" "use_3 (snd (ladder_step st m s)) = use_3 m"
  by (simp_all add: ladder_step_eq)

lemma ladder_loop_Suc:
  "ladder_loop (Suc n) st m s =
     (if 0 < st_i st
      then ladder_loop n (st\<lparr>st_swap := sb_fe_test_bit (MULT_K m) (st_i st), st_i := st_i st - 1\<rparr>)
             (snd (ladder_step st m s)) s
      else (st, m))"
  by (simp add: case_prod_unfold) (simp add: ladder_step_eq)

lemma unat_minus_one_size: "0 < (w :: sb_size) \<Longrightarrow> unat (w - 1) = unat w - 1"
  by (simp add: unat_minus_one word_gt_0)

declare ladder_loop.simps(2) [simp del]

text \<open>The loop counts the index down by at most \<open>n\<close>; nothing else of the state changes but the swap bit.\<close>

lemma ladder_loop_index:
  "unat (st_i (fst (ladder_loop n st m s))) = unat (st_i st) - n"
proof (induction n arbitrary: st m)
  case (Suc n)
  show ?case
    by (cases "0 < st_i st") (simp_all add: ladder_loop_Suc Suc.IH unat_minus_one_size word_gt_0)
qed simp

lemma ladder_loop_state [simp]:
  "st_operation (fst (ladder_loop n st m s)) = st_operation st"
  "st_curve_id (fst (ladder_loop n st m s)) = st_curve_id st"
  "st_stage (fst (ladder_loop n st m s)) = st_stage st"
  "st_inv_k (fst (ladder_loop n st m s)) = st_inv_k st"
  "st_k_one (fst (ladder_loop n st m s)) = st_k_one st"
  by (induction n arbitrary: st m) (simp_all add: ladder_loop_Suc)

lemma ladder_loop_frame [simp]:
  "MULT_K (snd (ladder_loop n st m s)) = MULT_K m"
  "MULT_Z (snd (ladder_loop n st m s)) = MULT_Z m"
  "MULT_POINT_X (snd (ladder_loop n st m s)) = MULT_POINT_X m"
  "MULT_POINT_Y (snd (ladder_loop n st m s)) = MULT_POINT_Y m"
  "use_0 (snd (ladder_loop n st m s)) = use_0 m" "use_1 (snd (ladder_loop n st m s)) = use_1 m"
  "use_2 (snd (ladder_loop n st m s)) = use_2 m" "use_3 (snd (ladder_loop n st m s)) = use_3 m"
  by (induction n arbitrary: st m) (simp_all add: ladder_loop_Suc)

subsection \<open>Progress of the incremental multiplication\<close>

text \<open>
  The number of calls of \<open>sb_sw_point_mult_continue\<close> that an operation still needs: one per
  started chunk of the ladder, and one for the recovery of \<open>Z\<close>.
\<close>

definition ladder_chunks :: "nat \<Rightarrow> nat" where
  "ladder_chunks n = (n + (SB_SW_POINT_ITERATIONS - 1)) div SB_SW_POINT_ITERATIONS"

definition point_mult_left :: "sb_sw_saved_state \<Rightarrow> nat" where
  "point_mult_left st =
     (if st_stage st = SB_SW_POINT_MULT_OP_STAGE_LADDER then Suc (max 1 (ladder_chunks (unat (st_i st))))
      else if st_stage st = SB_SW_POINT_MULT_OP_STAGE_INV_Z then 1 else 0)"

lemma ladder_chunks_step:
  "ladder_chunks (n - SB_SW_POINT_ITERATIONS) = ladder_chunks n - 1"
  "n \<le> SB_SW_POINT_ITERATIONS \<Longrightarrow> ladder_chunks n \<le> 1" "0 < n \<Longrightarrow> 0 < ladder_chunks n"
  by (auto simp: ladder_chunks_def SB_SW_POINT_ITERATIONS_def)

lemma unat_zero_size: "unat (w :: sb_size) = 0 \<longleftrightarrow> w = 0"
  by (rule unat_eq_zero)

lemma sb_sw_point_mult_start_state [simp]:
  "st_operation (MULT_STATE (sb_sw_point_mult_start m s)) = st_operation (MULT_STATE m)"
  "st_curve_id (MULT_STATE (sb_sw_point_mult_start m s)) = st_curve_id (MULT_STATE m)"
  "st_stage (MULT_STATE (sb_sw_point_mult_start m s)) = SB_SW_POINT_MULT_OP_STAGE_LADDER"
  "st_i (MULT_STATE (sb_sw_point_mult_start m s)) = SB_FE_BITS - 1"
  "st_swap (MULT_STATE (sb_sw_point_mult_start m s)) = st_swap (MULT_STATE m)"
  by (simp_all add: sb_sw_point_mult_start_def Let_def split: prod.split)

text \<open>Sixteen chunks and the recovery: a started multiplication needs seventeen calls.\<close>

lemma point_mult_left_start: "point_mult_left (MULT_STATE (sb_sw_point_mult_start m s)) = 17"
  by (simp add: point_mult_left_def ladder_chunks_def SB_SW_POINT_ITERATIONS_def SB_FE_BITS_def)

lemma sb_sw_point_mult_continue_state:
  assumes "sb_sw_point_mult_continue m s = (done, m')"
  shows "st_operation (MULT_STATE m') = st_operation (MULT_STATE m)"
    and "st_curve_id (MULT_STATE m') = st_curve_id (MULT_STATE m)"
    and "0 < point_mult_left (MULT_STATE m) \<Longrightarrow>
      point_mult_left (MULT_STATE m) = Suc (point_mult_left (MULT_STATE m')) \<and>
      (done \<longleftrightarrow> point_mult_left (MULT_STATE m') = 0) \<and>
      (done \<longleftrightarrow> st_stage (MULT_STATE m') = SB_SW_POINT_MULT_OP_DONE)"
proof -
  let ?st = "MULT_STATE m"
  let ?l = "ladder_loop SB_SW_POINT_ITERATIONS ?st m s"
  have eq: "sb_sw_point_mult_continue m s =
    (if st_stage ?st = SB_SW_POINT_MULT_OP_STAGE_LADDER then
       (False, set_MULT_STATE (snd ?l) (if st_i (fst ?l) = 0
          then fst ?l\<lparr>st_stage := SB_SW_POINT_MULT_OP_STAGE_INV_Z\<rparr> else fst ?l))
     else if st_stage ?st = SB_SW_POINT_MULT_OP_STAGE_INV_Z then
       let r = point_mult_recover_z ?st m s in
       (True, set_MULT_STATE (point_mult_output (fst r) (snd r) s) (fst r\<lparr>st_stage := SB_SW_POINT_MULT_OP_DONE\<rparr>))
     else (st_stage ?st = SB_SW_POINT_MULT_OP_DONE, m))"
    by (simp add: sb_sw_point_mult_continue_def case_prod_unfold Let_def)
  have r: "st_operation (fst (point_mult_recover_z ?st m s)) = st_operation ?st"
    "st_curve_id (fst (point_mult_recover_z ?st m s)) = st_curve_id ?st"
    by (simp_all add: point_mult_recover_z_def case_prod_unfold Let_def)
  show "st_operation (MULT_STATE m') = st_operation ?st" "st_curve_id (MULT_STATE m') = st_curve_id ?st"
    using assms unfolding eq by (auto simp: Let_def r split: if_splits)
  assume l: "0 < point_mult_left ?st"
  show "point_mult_left ?st = Suc (point_mult_left (MULT_STATE m')) \<and>
      (done \<longleftrightarrow> point_mult_left (MULT_STATE m') = 0) \<and>
      (done \<longleftrightarrow> st_stage (MULT_STATE m') = SB_SW_POINT_MULT_OP_DONE)"
  proof (cases "st_stage ?st = SB_SW_POINT_MULT_OP_STAGE_LADDER")
    case True
    have i: "unat (st_i (fst ?l)) = unat (st_i ?st) - SB_SW_POINT_ITERATIONS"
      by (rule ladder_loop_index)
    have z: "st_i (fst ?l) = 0 \<longleftrightarrow> unat (st_i ?st) \<le> SB_SW_POINT_ITERATIONS"
      using i by (simp flip: unat_zero_size)
    from True assms show ?thesis
      unfolding eq using i z ladder_chunks_step [of "unat (st_i ?st)"]
        ladder_chunks_step(3) [of "unat (st_i (fst ?l))"]
      by (auto simp: point_mult_left_def mult_stage_defs max_def ladder_chunks_step split: if_splits)
  next
    case False
    with l have "st_stage ?st = SB_SW_POINT_MULT_OP_STAGE_INV_Z"
      by (auto simp: point_mult_left_def split: if_splits)
    with assms show ?thesis
      unfolding eq by (auto simp: point_mult_left_def mult_stage_defs Let_def)
  qed
qed

subsection \<open>The ladder on affine points\<close>

text \<open>
  A chord between points whose abscissae differ by an invertible residue: modulo a prime, by
  one that is not zero. One ladder step on \<open>(R\<^sub>0, R\<^sub>1)\<close> doubles
  \<open>R\<^sub>b\<close> as the sum of \<open>R\<^sub>b + R\<^sub>1\<^sub>-\<^sub>b\<close> and \<open>R\<^sub>b - R\<^sub>1\<^sub>-\<^sub>b\<close> and replaces the other point by the sum.
\<close>

definition proper_chord :: "int \<Rightarrow> affine \<Rightarrow> affine \<Rightarrow> affine \<Rightarrow> bool" where
  "proper_chord P a b r \<longleftrightarrow> fermat_at P (fst b - fst a) \<and> chord P a b r"

lemma proper_chord_prime:
  "prime_modulus P \<Longrightarrow> proper_chord P a b r \<longleftrightarrow> \<not> eqm P (fst a) (fst b) \<and> chord P a b r"
  by (metis eqm_def eqm_sym fermat_at_prime_iff proper_chord_def)

inductive ladder_affine :: "int \<Rightarrow> bool \<Rightarrow> affine \<times> affine \<Rightarrow> affine \<times> affine \<Rightarrow> bool" for P where
  zero: "proper_chord P R0 R1 S \<Longrightarrow> proper_chord P R0 (opposite R1) D \<Longrightarrow> proper_chord P S D T \<Longrightarrow>
    ladder_affine P False (R0, R1) (T, S)"
| one: "proper_chord P R1 R0 S \<Longrightarrow> proper_chord P R1 (opposite R0) D \<Longrightarrow> proper_chord P S D T \<Longrightarrow>
    ladder_affine P True (R0, R1) (S, T)"

inductive ladder_run :: "int \<Rightarrow> bool list \<Rightarrow> affine \<times> affine \<Rightarrow> affine \<times> affine \<Rightarrow> bool" for P where
  Nil: "ladder_run P [] R R"
| Cons: "ladder_affine P b R R' \<Longrightarrow> ladder_run P bs R' R'' \<Longrightarrow> ladder_run P (b # bs) R R''"

inductive_simps ladder_run_simps: "ladder_run P [] R R'" "ladder_run P (b # bs) R R'"

lemma ladder_run_append:
  "ladder_run P (bs @ cs) R R'' \<longleftrightarrow> (\<exists>R'. ladder_run P bs R R' \<and> ladder_run P cs R' R'')"
proof (induction bs arbitrary: R)
  case (Cons b bs)
  show ?case by (simp only: append_Cons ladder_run_simps Cons.IH) blast
qed (simp add: ladder_run_simps)

text \<open>The bits the loop visits, from index \<open>i\<close> downwards.\<close>

fun bits_down :: "int \<Rightarrow> nat \<Rightarrow> nat \<Rightarrow> bool list" where
  "bits_down k i 0 = []"
| "bits_down k i (Suc n) = bit k i # bits_down k (i - 1) n"

lemma bits_down_add: "bits_down k i (m + n) = bits_down k i m @ bits_down k (i - m) n"
  by (induction m arbitrary: i) auto

text \<open>
  The registers hold \<open>(R\<^sub>0, R\<^sub>1)\<close> under the coordinate \<open>z\<close>, in the order that the swap bit
  says: \<open>R\<^sub>0\<close> is in the first pair of registers when it is clear.
\<close>

definition ladder_rel ::
  "sb_sw_curve \<Rightarrow> int \<Rightarrow> sb_sw_saved_state \<Rightarrow> sb_sw_context \<Rightarrow> affine \<times> affine \<Rightarrow> bool" where
  "ladder_rel s z st m R \<longleftrightarrow>
     coords_qr s m \<and> fermat_at (modulus (curve_p s)) z \<and> (\<exists>w. st_swap st = of_bool w \<and>
       jacobian (modulus (curve_p s)) z (if w then snd R else fst R) (reg1 s m) \<and>
       jacobian (modulus (curve_p s)) z (if w then fst R else snd R) (reg2 s m))"

lemma z_factor_unit:
  assumes "P = modulus (curve_p s)" "coords_qr s m" "fermat_at P z"
    and "jacobian P z a (reg1 s m)" "jacobian P z b (reg2 s m)" "fermat_at P (fst b - fst a)"
  shows "fermat_at P (z_factor s m)" "fermat_at P (z * z_factor s m)"
proof -
  have "eqm P (z_factor s m) (fst (reg2 s m) - fst (reg1 s m))"
    using z_factor_eqm [OF assms(2)] assms(1) by simp
  also have "eqm P \<dots> (fst b * (z * z) - fst a * (z * z))"
    by (intro eqm_diff jacobianD assms)
  finally have "eqm P (z_factor s m) ((fst b - fst a) * (z * z))"
    by (simp add: left_diff_distrib)
  then show "fermat_at P (z_factor s m)" "fermat_at P (z * z_factor s m)"
    using assms(3,6) by (simp_all add: fermat_at_mult fermat_at_cong)
qed

text \<open>Simulation of one step, from points already swapped into place.\<close>

lemma conj_add_update_sim:
  assumes P: "P = modulus (curve_p s)" and ok: "mont_ok (curve_p s)"
    and q: "coords_qr s m" and z: "fermat_at P z"
    and a: "jacobian P z a (reg1 s m)" and b: "jacobian P z b (reg2 s m)"
    and S: "proper_chord P a b S" and D: "proper_chord P a (opposite b) D" and T: "proper_chord P S D T"
  defines "m' \<equiv> sb_sw_point_co_z_add_update (sb_sw_point_co_z_conj_add m s) s"
  shows "\<exists>z'. fermat_at P z' \<and> jacobian P z' T (reg1 s m') \<and> jacobian P z' S (reg2 s m')" "coords_qr s m'"
proof -
  let ?m = "sb_sw_point_co_z_conj_add m s"
  note S' = S [unfolded proper_chord_def] and D' = D [unfolded proper_chord_def]
    and T' = T [unfolded proper_chord_def]
  note c = co_z_conj_add_chords [OF ok q a [unfolded P] b [unfolded P], of S D, folded P,
      OF S' [THEN conjunct2] D' [THEN conjunct2]]
  note n1 = z_factor_unit(2) [OF P q z a b S' [THEN conjunct1]]
  note u = co_z_add_update_chord [OF ok c(3) c(1,2) [unfolded P] T' [THEN conjunct2, unfolded P],
      folded P, folded m'_def]
  note n2 = z_factor_unit(2) [OF P c(3) n1 c(1,2) T' [THEN conjunct1]]
  show "\<exists>z'. fermat_at P z' \<and> jacobian P z' T (reg1 s m') \<and> jacobian P z' S (reg2 s m')"
    using n2 u(1,2) by blast
  show "coords_qr s m'" by (rule u(4))
qed

lemma ladder_step_sim:
  assumes P: "P = modulus (curve_p s)" and ok: "mont_ok (curve_p s)"
    and rel: "ladder_rel s z st m R" and i: "unat (st_i st) < 256"
    and step: "ladder_affine P (bit (fe_val (MULT_K m)) (unat (st_i st))) R R'"
  shows "\<exists>z'. ladder_rel s z' (fst (ladder_step st m s)) (snd (ladder_step st m s)) R'"
proof -
  define b where "b = bit (fe_val (MULT_K m)) (unat (st_i st))"
  obtain R0 R1 where R: "R = (R0, R1)" by (rule prod.exhaust [of R])
  obtain w where w: "st_swap st = of_bool w"
    "jacobian P z (if w then R1 else R0) (reg1 s m)" "jacobian P z (if w then R0 else R1) (reg2 s m)"
    and q: "coords_qr s m" "fermat_at P z"
    using rel unfolding ladder_rel_def R P fst_conv snd_conv by blast
  have tb: "sb_fe_test_bit (MULT_K m) (st_i st) = of_bool b"
    by (simp add: sb_fe_test_bit_val i b_def)
  define m1 where "m1 = ctswap_1_2 (of_bool (w \<noteq> b)) m"
  have m1: "coords_qr s m1" "jacobian P z (if b then R1 else R0) (reg1 s m1)"
    "jacobian P z (if b then R0 else R1) (reg2 s m1)"
    using w q by (auto simp: m1_def ctswap_1_2_regs)
  have eq: "ladder_step st m s = (st\<lparr>st_swap := of_bool b\<rparr>,
      sb_sw_point_co_z_add_update (sb_sw_point_co_z_conj_add m1 s) s)"
    by (simp add: ladder_step_eq tb w(1) of_bool_xor m1_def)
  from step [folded b_def, unfolded R] show ?thesis
  proof (cases rule: ladder_affine.cases)
    case (zero S D T)
    with m1 have "jacobian P z R0 (reg1 s m1)" "jacobian P z R1 (reg2 s m1)" by simp_all
    from conj_add_update_sim [OF P ok m1(1) q(2) this zero(3-5)] zero(1,2) show ?thesis
      by (auto simp: ladder_rel_def eq P intro!: exI [of _ False])
  next
    case (one S D T)
    with m1 have "jacobian P z R1 (reg1 s m1)" "jacobian P z R0 (reg2 s m1)" by simp_all
    from conj_add_update_sim [OF P ok m1(1) q(2) this one(3-5)] one(1,2) show ?thesis
      by (auto simp: ladder_rel_def eq P intro!: exI [of _ True])
  qed
qed

lemma ladder_loop_sim:
  assumes "P = modulus (curve_p s)" "mont_ok (curve_p s)"
  shows "ladder_rel s z st m R \<Longrightarrow> unat (st_i st) < 256 \<Longrightarrow> n \<le> unat (st_i st) \<Longrightarrow>
    ladder_run P (bits_down (fe_val (MULT_K m)) (unat (st_i st)) n) R R' \<Longrightarrow>
    \<exists>z'. ladder_rel s z' (fst (ladder_loop n st m s)) (snd (ladder_loop n st m s)) R'"
proof (induction n arbitrary: z st m R)
  case 0
  then show ?case by (auto simp: ladder_run_simps)
next
  case (Suc n)
  have i: "0 < st_i st" using Suc.prems(3) by (simp add: word_gt_0 flip: unat_zero_size)
  from Suc.prems(4) obtain R1 where
    R1: "ladder_affine P (bit (fe_val (MULT_K m)) (unat (st_i st))) R R1"
    "ladder_run P (bits_down (fe_val (MULT_K m)) (unat (st_i st) - 1) n) R1 R'"
    unfolding bits_down.simps ladder_run_simps by blast
  from ladder_step_sim [OF assms Suc.prems(1,2) R1(1)] obtain z' where
    z': "ladder_rel s z' (fst (ladder_step st m s)) (snd (ladder_step st m s)) R1"
    by blast
  let ?st = "st\<lparr>st_swap := sb_fe_test_bit (MULT_K m) (st_i st), st_i := st_i st - 1\<rparr>"
  have "ladder_rel s z' ?st (snd (ladder_step st m s)) R1"
    using z' by (simp add: ladder_rel_def ladder_step_eq)
  from Suc.IH [OF this] Suc.prems(2,3) R1(2) i show ?case
    by (simp add: ladder_loop_Suc unat_minus_one_size)
qed

text \<open>Once the index is zero the loop does nothing, so a chunk is a shorter loop at the end.\<close>

lemma ladder_loop_min: "ladder_loop n st m s = ladder_loop (min n (unat (st_i st))) st m s"
proof (induction n arbitrary: st m)
  case (Suc n)
  show ?case
  proof (cases "0 < st_i st")
    case True
    then have "min (Suc n) (unat (st_i st)) = Suc (min n (unat (st_i st - 1)))"
      by (simp add: unat_minus_one_size word_gt_0 flip: unat_zero_size)
    with True show ?thesis by (simp add: ladder_loop_Suc Suc.IH)
  next
    case False
    then show ?thesis by (simp add: ladder_loop_Suc word_gt_0)
  qed
qed simp

subsection \<open>Progress of multiplication-addition\<close>

text \<open>
  The index of the second loop runs from 255 to 0 and one further decrement wraps it, so
  \<open>i + 1\<close> iterations remain while it is below \<open>SB_FE_BITS\<close>.
\<close>

lemma size_dec_wrap:
  assumes "(i :: sb_size) < SB_FE_BITS"
  shows "i - 1 < SB_FE_BITS \<longleftrightarrow> i \<noteq> 0" "i \<noteq> 0 \<Longrightarrow> unat (i - 1) = unat i - 1"
proof -
  show 1: "i \<noteq> 0 \<Longrightarrow> unat (i - 1) = unat i - 1"
    by (rule unat_minus_one)
  show "i - 1 < SB_FE_BITS \<longleftrightarrow> i \<noteq> 0"
  proof (cases "i = 0")
    case False
    with 1 assms show ?thesis by (simp add: word_less_nat_alt)
  qed (simp add: SB_FE_BITS_def)
qed

lemma mult_add_loop_index:
  assumes "i < SB_FE_BITS"
  shows "fst (mult_add_loop n i q s) < SB_FE_BITS \<longleftrightarrow> n \<le> unat i"
    and "n \<le> unat i \<Longrightarrow> unat (fst (mult_add_loop n i q s)) = unat i - n"
proof -
  have "(fst (mult_add_loop n i q s) < SB_FE_BITS \<longleftrightarrow> n \<le> unat i) \<and>
    (n \<le> unat i \<longrightarrow> unat (fst (mult_add_loop n i q s)) = unat i - n)"
    using assms
  proof (induction n arbitrary: i q)
    case (Suc n)
    show ?case
    proof (cases "i = 0")
      case True
      have "\<not> 0 - 1 < SB_FE_BITS" using size_dec_wrap(1) [of 0] by (simp add: SB_FE_BITS_def)
      with True Suc.prems have "fst (mult_add_loop (Suc n) i q s) = 0 - 1"
        by (cases n) simp_all
      with True \<open>\<not> 0 - 1 < SB_FE_BITS\<close> show ?thesis by simp
    next
      case False
      with size_dec_wrap [OF Suc.prems] have d: "i - 1 < SB_FE_BITS" "unat (i - 1) = unat i - 1" "0 < unat i"
        by (simp_all add: unat_gt_0)
      with Suc.IH [OF d(1), of "mult_add_step i q s"] Suc.prems show ?thesis
        by auto
    qed
  qed simp
  then show "fst (mult_add_loop n i q s) < SB_FE_BITS \<longleftrightarrow> n \<le> unat i"
    "n \<le> unat i \<Longrightarrow> unat (fst (mult_add_loop n i q s)) = unat i - n" by blast+
qed

lemma sb_sw_point_mult_add_z_continue_state:
  assumes "sb_sw_point_mult_add_z_continue q s = (fin, q')"
  shows "st_operation (MULT_STATE q') = st_operation (MULT_STATE q)"
    and "st_curve_id (MULT_STATE q') = st_curve_id (MULT_STATE q)"
    and "st_stage (MULT_STATE q) = SB_SW_VERIFY_OP_STAGE_INV_Z \<Longrightarrow>
      st_stage (MULT_STATE q') = SB_SW_VERIFY_OP_STAGE_LADDER \<and> st_i (MULT_STATE q') = SB_FE_BITS - 1"
    and "st_stage (MULT_STATE q) = SB_SW_VERIFY_OP_STAGE_LADDER \<Longrightarrow>
      st_i (MULT_STATE q) < SB_FE_BITS \<Longrightarrow> SB_SW_POINT_ITERATIONS \<le> unat (st_i (MULT_STATE q)) \<Longrightarrow>
      st_stage (MULT_STATE q') = SB_SW_VERIFY_OP_STAGE_LADDER \<and> st_i (MULT_STATE q') < SB_FE_BITS \<and>
      unat (st_i (MULT_STATE q')) = unat (st_i (MULT_STATE q)) - SB_SW_POINT_ITERATIONS"
    and "st_stage (MULT_STATE q) = SB_SW_VERIFY_OP_STAGE_LADDER \<Longrightarrow>
      \<not> (st_i (MULT_STATE q) < SB_FE_BITS \<and> SB_SW_POINT_ITERATIONS \<le> unat (st_i (MULT_STATE q))) \<Longrightarrow>
      st_stage (MULT_STATE q') = SB_SW_VERIFY_OP_STAGE_TEST"
    and "st_res (MULT_STATE q') = st_res (MULT_STATE q)"
proof -
  let ?st = "MULT_STATE q"
  obtain i m where l: "mult_add_loop SB_SW_POINT_ITERATIONS (st_i ?st) q s = (i, m)" by fastforce
  note eq = assms [unfolded sb_sw_point_mult_add_z_continue_def Let_def l prod.case]
  show "st_operation (MULT_STATE q') = st_operation ?st" "st_curve_id (MULT_STATE q') = st_curve_id ?st"
    "st_res (MULT_STATE q') = st_res ?st"
    using eq by (auto split: if_splits)
  show "st_stage ?st = SB_SW_VERIFY_OP_STAGE_INV_Z \<Longrightarrow>
      st_stage (MULT_STATE q') = SB_SW_VERIFY_OP_STAGE_LADDER \<and> st_i (MULT_STATE q') = SB_FE_BITS - 1"
    using eq by auto
  have ne: "SB_SW_VERIFY_OP_STAGE_LADDER \<noteq> SB_SW_VERIFY_OP_STAGE_INV_Z"
    by (simp add: verify_stage_defs)
  show "st_stage (MULT_STATE q') = SB_SW_VERIFY_OP_STAGE_LADDER \<and> st_i (MULT_STATE q') < SB_FE_BITS \<and>
      unat (st_i (MULT_STATE q')) = unat (st_i ?st) - SB_SW_POINT_ITERATIONS"
    if s: "st_stage ?st = SB_SW_VERIFY_OP_STAGE_LADDER" and b: "st_i ?st < SB_FE_BITS"
      and n: "SB_SW_POINT_ITERATIONS \<le> unat (st_i ?st)"
    using eq s n mult_add_loop_index [OF b, of SB_SW_POINT_ITERATIONS q s] l ne
    by (auto simp: not_le split: if_splits)
  show "st_stage (MULT_STATE q') = SB_SW_VERIFY_OP_STAGE_TEST"
    if s: "st_stage ?st = SB_SW_VERIFY_OP_STAGE_LADDER"
      and n: "\<not> (st_i ?st < SB_FE_BITS \<and> SB_SW_POINT_ITERATIONS \<le> unat (st_i ?st))"
  proof -
    have "\<not> i < SB_FE_BITS"
    proof (cases "st_i ?st < SB_FE_BITS")
      case True
      with n mult_add_loop_index(1) [OF True, of SB_SW_POINT_ITERATIONS q s] l show ?thesis by simp
    next
      case False
      with l show ?thesis by (auto simp: SB_SW_POINT_ITERATIONS_def numeral_eq_Suc)
    qed
    with eq s ne show ?thesis by (auto simp: not_le [symmetric])
  qed
qed

end
