(* ===== verification/Registers.thy ===== *)
theory Registers
  imports Point_Mult
begin

text \<open>
  The type invariant of the incremental point multiplication: all coordinates are quasi-reduced
  modulo \<open>p\<close>, the flags of the saved state are zero or one and the ladder index is a bit index.
  Starting a multiplication establishes it and every call preserves it.
\<close>

definition flags_ok :: "sb_sw_saved_state \<Rightarrow> bool" where
  "flags_ok st \<longleftrightarrow> st_swap st \<in> {0, 1} \<and> st_inv_k st \<in> {0, 1} \<and> st_k_one st \<in> {0, 1} \<and> unat (st_i st) < 256"

definition point_qr :: "sb_sw_curve \<Rightarrow> sb_sw_context \<Rightarrow> bool" where
  "point_qr s m \<longleftrightarrow> quasi_reduced (curve_p s) (MULT_POINT_X m) \<and> quasi_reduced (curve_p s) (MULT_POINT_Y m) \<and>
     quasi_reduced (curve_p s) (MULT_Z m)"

definition mult_typed :: "sb_sw_curve \<Rightarrow> sb_sw_context \<Rightarrow> bool" where
  "mult_typed s m \<longleftrightarrow> coords_qr s m \<and> point_qr s m \<and> flags_ok (MULT_STATE m)"

lemma ctswap_1_2_qr:
  "a \<in> {0, 1} \<Longrightarrow> coords_qr s m \<Longrightarrow> coords_qr s (ctswap_1_2 a m)"
  using ctswap_1_2_regs(3) [of s False m] ctswap_1_2_regs(3) [of s True m] by auto

lemma flag_xor: "(a :: sb_word) \<in> {0, 1} \<Longrightarrow> b \<in> {0, 1} \<Longrightarrow> a XOR b \<in> {0, 1}"
  by auto

lemma test_bit_flag: "unat i < 256 \<Longrightarrow> sb_fe_test_bit x i \<in> {0, 1}"
  by (simp add: sb_fe_test_bit_val)

lemma ladder_step_typed:
  assumes ok: "mont_ok (curve_p s)" and q: "coords_qr s m" and f: "flags_ok st"
  shows "coords_qr s (snd (ladder_step st m s))" "flags_ok (fst (ladder_step st m s))"
proof -
  have b: "sb_fe_test_bit (MULT_K m) (st_i st) \<in> {0, 1}"
    using f by (intro test_bit_flag) (simp add: flags_ok_def)
  then have x: "st_swap st XOR sb_fe_test_bit (MULT_K m) (st_i st) \<in> {0, 1}"
    using f by (intro flag_xor) (simp_all add: flags_ok_def)
  show "coords_qr s (snd (ladder_step st m s))"
    unfolding ladder_step_eq snd_conv
    by (intro co_z_add_update_qr(1) co_z_conj_add_qr ctswap_1_2_qr ok q x)
  show "flags_ok (fst (ladder_step st m s))"
    using f b by (simp add: ladder_step_eq flags_ok_def)
qed

lemma ladder_loop_typed:
  assumes ok: "mont_ok (curve_p s)"
  shows "coords_qr s m \<Longrightarrow> flags_ok st \<Longrightarrow>
    coords_qr s (snd (ladder_loop n st m s)) \<and> flags_ok (fst (ladder_loop n st m s))"
proof (induction n arbitrary: st m)
  case (Suc n)
  note step = ladder_step_typed [OF ok Suc.prems]
  have "flags_ok (st\<lparr>st_swap := sb_fe_test_bit (MULT_K m) (st_i st), st_i := st_i st - 1\<rparr>)"
    if "0 < st_i st"
    using step(2) unat_minus_one_size [OF that] Suc.prems(2)
    by (simp add: ladder_step_eq flags_ok_def less_imp_diff_less)
  with Suc.IH [OF step(1)] Suc.prems show ?case by (simp add: ladder_loop_Suc)
qed simp

text \<open>The stage that recovers the coordinate, and the affine output.\<close>

lemma point_mult_recover_z_typed:
  assumes ok: "prime_field_ok (curve_p s)" and q: "coords_qr s m" "point_qr s m" and f: "flags_ok st"
    and r: "point_mult_recover_z st m s = (st', m')"
  shows "coords_qr s m'" "point_qr s m'" "flags_ok st'" "quasi_reduced (curve_p s) (C_T8 m')"
proof -
  note mo = prime_field_okD(1) [OF ok]
  define b where "b = sb_fe_test_bit (MULT_K m) 0"
  have b: "b \<in> {0, 1}" "b XOR 1 \<in> {0, 1}" "st_swap st XOR b \<in> {0, 1}"
  proof -
    show "b \<in> {0, 1}" unfolding b_def by (rule test_bit_flag) simp
    then show "b XOR 1 \<in> {0, 1}" "st_swap st XOR b \<in> {0, 1}"
      using f flag_xor by (auto simp: flags_ok_def)
  qed
  define m1 where "m1 = sb_sw_point_co_z_conj_add (ctswap_1_2 (st_swap st XOR b) m) s"
  define m2 where "m2 = ctswap_1_2 b m1"
  define t8 where "t8 = sb_fe_mod_sub (C_X1 m2) (C_X2 m2) (curve_p s)"
  define m3 where "m3 = ctswap_1_2 b (m2\<lparr>C_T8 := t8\<rparr>)"
  define u where "u = sb_fe_mont_mult (sb_fe_mont_mult t8 (C_Y2 m3) (curve_p s)) (MULT_POINT_X m) (curve_p s)"
  have q1: "coords_qr s m1" "coords_qr s m2"
    unfolding m1_def m2_def by (intro co_z_conj_add_qr ctswap_1_2_qr mo b q)+
  have q8: "quasi_reduced (curve_p s) t8"
    using coords_qrD [OF q1(2)] by (simp add: t8_def qr_intros)
  have q3: "coords_qr s m3"
    unfolding m3_def by (intro ctswap_1_2_qr b) (simp add: q1)
  have P: "quasi_reduced (curve_p s) (MULT_POINT_X m)" "quasi_reduced (curve_p s) (MULT_POINT_Y m)"
    "quasi_reduced (curve_p s) (MULT_Z m)"
    using q(2) by (simp_all add: point_qr_def)
  have qu: "quasi_reduced (curve_p s) u"
    using coords_qrD [OF q3] q8 P mo by (simp add: u_def qr_intros)
  have fr3: "MULT_POINT_X m3 = MULT_POINT_X m" "MULT_POINT_Y m3 = MULT_POINT_Y m" "MULT_Z m3 = MULT_Z m"
    "C_T8 m3 = t8"
    by (simp_all add: m3_def m2_def m1_def) (simp add: ctswap_1_2_def Let_def split: prod.split)
  have "\<exists>i t5 t6. sb_fe_mod_inv_r u (curve_p s) (C_T6 m3) = (i, t5, t6)"
    by (metis prod_cases3)
  then obtain i t5 t6 where i: "sb_fe_mod_inv_r u (curve_p s) (C_T6 m3) = (i, t5, t6)" by blast
  have qi: "quasi_reduced (curve_p s) i"
    using sb_fe_mod_inv_r_val(2) [OF ok qu, of "C_T6 m3"] i by simp
  define w where "w = sb_fe_mont_mult (sb_fe_mont_mult i (MULT_POINT_Y m) (curve_p s)) (C_X2 m3) (curve_p s)"
  have qw: "quasi_reduced (curve_p s) w"
    using coords_qrD [OF q3] qi P mo by (simp add: w_def qr_intros)
  define m4 where "m4 = m3\<lparr>C_T6 := t6, C_T5 := sb_fe_mont_mult i (MULT_POINT_Y m) (curve_p s), C_T8 := w\<rparr>"
  have eq: "st' = st\<lparr>st_swap := st_swap st XOR b\<rparr>"
    "m' = ctswap_1_2 (b XOR 1) (sb_sw_point_co_z_add_update m4 s)"
    using r by (simp_all add: point_mult_recover_z_def Let_def i fr3 m4_def w_def
        flip: b_def m1_def m2_def t8_def m3_def u_def)
  show "flags_ok st'"
    using f b by (simp add: eq flags_ok_def)
  show "coords_qr s m'"
    unfolding eq by (intro ctswap_1_2_qr co_z_add_update_qr(1) mo b) (simp add: m4_def q3)
  show "point_qr s m'"
    using P by (simp add: eq point_qr_def m4_def fr3)
  show "quasi_reduced (curve_p s) (C_T8 m')"
    using qw by (simp add: eq m4_def) (simp add: ctswap_1_2_def Let_def split: prod.split)
qed

lemma ctswap_qr:
  assumes "f \<in> {0, 1}" "quasi_reduced F a" "quasi_reduced F b"
  shows "quasi_reduced F (fst (sb_fe_ctswap f a b))" "quasi_reduced F (snd (sb_fe_ctswap f a b))"
  using assms by auto

lemma point_mult_output_typed:
  assumes ok: "prime_field_ok (curve_p s)" and q: "coords_qr s m" "point_qr s m" "quasi_reduced (curve_p s) (C_T8 m)"
    and f: "flags_ok st"
  shows "coords_qr s (point_mult_output st m s)" "point_qr s (point_mult_output st m s)"
proof -
  let ?p = "curve_p s"
  note mo = prime_field_okD(1) [OF ok]
  have P: "quasi_reduced ?p (MULT_POINT_X m)" "quasi_reduced ?p (MULT_POINT_Y m)"
    using q(2) by (simp_all add: point_qr_def)
  have fl: "st_k_one st \<in> {0, 1}" "st_inv_k st \<in> {0, 1}"
    using f by (simp_all add: flags_ok_def)
  define t5 where "t5 = sb_fe_mont_square (C_T8 m) ?p"
  define t6 where "t6 = sb_fe_mont_mult t5 (C_T8 m) ?p"
  define x where "x = sb_fe_mont_mult t5 (C_X2 m) ?p"
  define y where "y = sb_fe_mont_mult t6 (C_Y2 m) ?p"
  define X where "X = sb_fe_ctswap (st_k_one st) x (sb_fe_mod_add x (MULT_POINT_X m) ?p)"
  define Y where "Y = sb_fe_ctswap (st_k_one st) y (sb_fe_mod_add y (MULT_POINT_Y m) ?p)"
  define y1 where "y1 = sb_fe_mont_reduce (fst Y) ?p"
  define Y1 where "Y1 = sb_fe_ctswap (st_inv_k st) y1 (sb_fe_mod_negate y1 ?p)"
  have q56: "quasi_reduced ?p t5" "quasi_reduced ?p t6" "quasi_reduced ?p x" "quasi_reduced ?p y"
  proof -
    show t5: "quasi_reduced ?p t5" unfolding t5_def by (intro qr_intros mo q)
    then show t6: "quasi_reduced ?p t6" unfolding t6_def by (intro qr_intros mo q)
    show "quasi_reduced ?p x" "quasi_reduced ?p y"
      unfolding x_def y_def by (intro qr_intros mo t5 t6 coords_qrD [OF q(1)])+
  qed
  have qX: "quasi_reduced ?p (fst X)" "quasi_reduced ?p (snd X)"
    "quasi_reduced ?p (fst Y)" "quasi_reduced ?p (snd Y)"
    unfolding X_def Y_def by (intro ctswap_qr fl qr_intros q56 P)+
  have qy1: "quasi_reduced ?p y1" "quasi_reduced ?p (sb_fe_mont_reduce (fst X) ?p)"
    using sb_fe_mont_reduce_val(2) [OF ok] qX by (simp_all add: y1_def)
  have qY1: "quasi_reduced ?p (fst Y1)"
    unfolding Y1_def by (intro ctswap_qr fl qr_intros qy1)
  have regs: "C_X1 (point_mult_output st m s) = sb_fe_mont_reduce (fst X) ?p"
    "C_Y1 (point_mult_output st m s) = fst Y1"
    "C_X2 (point_mult_output st m s) = snd X" "C_Y2 (point_mult_output st m s) = snd Y"
    "MULT_POINT_X (point_mult_output st m s) = MULT_POINT_X m"
    "MULT_POINT_Y (point_mult_output st m s) = MULT_POINT_Y m" "MULT_Z (point_mult_output st m s) = MULT_Z m"
    by (simp_all add: point_mult_output_def Let_def case_prod_unfold t5_def t6_def x_def y_def X_def Y_def
        y1_def Y1_def)
  show "coords_qr s (point_mult_output st m s)"
    by (simp add: coords_qr_def regs qX qy1 qY1)
  show "point_qr s (point_mult_output st m s)"
    using q(2) by (simp add: point_qr_def regs)
qed

subsection \<open>The invariant\<close>

lemma set_MULT_STATE_typed [simp]:
  "coords_qr s (set_MULT_STATE m st) = coords_qr s m" "point_qr s (set_MULT_STATE m st) = point_qr s m"
  by (simp_all add: coords_qr_def point_qr_def)

lemma sb_sw_point_mult_continue_typed:
  assumes ok: "curve_ok s" and t: "mult_typed s m"
  shows "mult_typed s (snd (sb_sw_point_mult_continue m s))"
proof -
  let ?st = "MULT_STATE m"
  note C = curve_okD [OF ok]
  have q: "coords_qr s m" "point_qr s m" "flags_ok ?st"
    using t by (simp_all add: mult_typed_def)
  obtain st1 m1 where l: "ladder_loop SB_SW_POINT_ITERATIONS ?st m s = (st1, m1)" by fastforce
  obtain st2 m2 where r: "point_mult_recover_z ?st m s = (st2, m2)" by fastforce
  have 1: "coords_qr s m1" "flags_ok st1" "point_qr s m1"
    using ladder_loop_typed [OF C(3) q(1,3), of SB_SW_POINT_ITERATIONS]
      ladder_loop_frame [of SB_SW_POINT_ITERATIONS ?st m s] q(2)
    by (simp_all add: l point_qr_def)
  note 2 = point_mult_recover_z_typed [OF C(1) q r]
  note 3 = point_mult_output_typed [OF C(1) 2(1,2,4,3)]
  show ?thesis
    using q 1 2 3 by (auto simp: sb_sw_point_mult_continue_def Let_def l r mult_typed_def flags_ok_def)
qed

lemma point_mult_apply_z_typed:
  assumes "mont_ok (curve_p s)" "coords_qr s m" "quasi_reduced (curve_p s) (MULT_Z m)"
  shows "coords_qr s (point_mult_apply_z m s)"
  using assms coords_qrD [OF assms(2)]
  by (simp add: coords_qr_def point_mult_apply_z_def Let_def qr_intros)

lemma point_mult_apply_z_frame [simp]:
  "MULT_POINT_X (point_mult_apply_z m s) = MULT_POINT_X m" "MULT_POINT_Y (point_mult_apply_z m s) = MULT_POINT_Y m"
  "MULT_Z (point_mult_apply_z m s) = MULT_Z m" "MULT_K (point_mult_apply_z m s) = MULT_K m"
  by (simp_all add: point_mult_apply_z_def Let_def)

lemma regularize_scalar_frame [simp]:
  "MULT_POINT_X (sb_sw_regularize_scalar m s) = MULT_POINT_X m"
  "MULT_POINT_Y (sb_sw_regularize_scalar m s) = MULT_POINT_Y m" "MULT_Z (sb_sw_regularize_scalar m s) = MULT_Z m"
  by (simp_all add: sb_sw_regularize_scalar_def Let_def split: prod.split)

lemma sb_sw_point_mult_start_typed:
  assumes ok: "curve_ok s" and q: "point_qr s m" and sw: "st_swap (MULT_STATE m) \<in> {0, 1}"
  shows "mult_typed s (sb_sw_point_mult_start m s)"
proof -
  let ?p = "curve_p s"
  note C = curve_okD [OF ok]
  have P: "quasi_reduced ?p (MULT_POINT_X m)" "quasi_reduced ?p (MULT_POINT_Y m)" "quasi_reduced ?p (MULT_Z m)"
    using q by (simp_all add: point_qr_def)
  have dz: "quasi_reduced ?p (pair_x (dz_r s))" "quasi_reduced ?p (pair_y (dz_r s))"
    using C(17) by (simp_all add: pair_qr_def)
  define z where "z = sb_fe_equal (MULT_POINT_X m) (prime_p ?p)"
  define g where "g = sb_fe_test_bit (sb_fe_mont_reduce (MULT_POINT_Y m) ?p) 0"
  have fl: "z \<in> {0, 1}" "g \<in> {0, 1}"
    unfolding z_def g_def by (simp add: sb_fe_equal_iff, rule test_bit_flag) simp
  define y where "y = fst (sb_fe_ctswap g (pair_y (dz_r s)) (sb_fe_mod_negate (pair_y (dz_r s)) ?p))"
  define m0 where "m0 = point_mult_zero_point m s"
  have qy: "quasi_reduced ?p y"
    unfolding y_def by (intro ctswap_qr fl qr_intros dz)
  have m0: "MULT_POINT_X m0 = fst (sb_fe_ctswap z (MULT_POINT_X m) (pair_x (dz_r s)))"
    "MULT_POINT_Y m0 = fst (sb_fe_ctswap z (MULT_POINT_Y m) y)" "MULT_Z m0 = MULT_Z m"
    by (simp_all add: m0_def point_mult_zero_point_def Let_def case_prod_unfold y_def z_def g_def)
  have qm0: "quasi_reduced ?p (MULT_POINT_X m0)" "quasi_reduced ?p (MULT_POINT_Y m0)"
    unfolding m0 by (intro ctswap_qr fl P dz qy)+
  define k where "k = sb_fe_ctswap (sb_fe_test_bit (MULT_K m0) (SB_FE_BITS - 1)) (sb_fe_mod_negate (MULT_K m0) (curve_n s)) (MULT_K m0)"
  define m1 where "m1 = sb_sw_regularize_scalar (m0\<lparr>C_T5 := fst k, MULT_K := snd k\<rparr>) s"
  define m2 where "m2 = m1\<lparr>C_X2 := MULT_POINT_X m1, C_Y2 := MULT_POINT_Y m1\<rparr>"
  define m3 where "m3 = sb_sw_point_initial_double m2 s"
  have fr: "MULT_POINT_X m3 = MULT_POINT_X m0" "MULT_POINT_Y m3 = MULT_POINT_Y m0" "MULT_Z m3 = MULT_Z m"
    "C_X2 m2 = MULT_POINT_X m0" "C_Y2 m2 = MULT_POINT_Y m0"
    by (simp_all add: m3_def m2_def m1_def m0(3))
  have q3: "coords_qr s m3"
    unfolding m3_def by (intro initial_double_qr(1) ok) (simp_all add: fr qm0)
  have qz: "coords_qr s (point_mult_apply_z m3 s)"
    by (rule point_mult_apply_z_typed [OF C(3) q3]) (simp add: fr P)
  have "sb_fe_test_bit (MULT_K m0) (SB_FE_BITS - 1) \<in> {0, 1}"
    by (rule test_bit_flag) (simp add: SB_FE_BITS_def)
  moreover have "sb_fe_equal a b \<in> {0, 1}" for a b
    by (simp add: sb_fe_equal_iff)
  moreover have "sb_sw_point_mult_start m s = set_MULT_STATE (point_mult_apply_z m3 s)
      (MULT_STATE m\<lparr>st_inv_k := sb_fe_test_bit (MULT_K m0) (SB_FE_BITS - 1),
        st_k_one := sb_fe_equal (snd k) SB_FE_ONE, st_i := SB_FE_BITS - 1,
        st_stage := SB_SW_POINT_MULT_OP_STAGE_LADDER\<rparr>)"
    by (simp add: sb_sw_point_mult_start_def Let_def case_prod_unfold m3_def m2_def m1_def k_def flip: m0_def)
  ultimately show ?thesis
    using qz sw by (simp add: mult_typed_def flags_ok_def point_qr_def fr qm0 P SB_FE_BITS_def)
qed

end
