(* ===== verification/Mult_Add.thy ===== *)
theory Mult_Add
  imports Point_Mult
begin

text \<open>
  The loop of multiplication-addition on affine points: each iteration adds the table entry
  that the two scalars' bits select and, except for the first bit, adds the accumulator
  again. The registers follow it, with \<open>MULT_Z\<close> as the coordinate, over any modulus.
\<close>

subsection \<open>The iteration on affine points\<close>

inductive shamir_affine :: "int \<Rightarrow> bool \<Rightarrow> affine \<Rightarrow> affine \<Rightarrow> affine \<Rightarrow> bool" for P where
  single: "chord P R S T \<Longrightarrow> shamir_affine P False S R T"
| doubled: "chord P R S T \<Longrightarrow> chord P T R R' \<Longrightarrow> shamir_affine P True S R R'"

inductive shamir_run :: "int \<Rightarrow> (bool \<times> affine) list \<Rightarrow> affine \<Rightarrow> affine \<Rightarrow> bool" for P where
  Nil: "shamir_run P [] R R"
| Cons: "shamir_affine P d S R R' \<Longrightarrow> shamir_run P ds R' R'' \<Longrightarrow> shamir_run P ((d, S) # ds) R R''"

inductive_simps shamir_run_simps: "shamir_run P [] R R'" "shamir_run P ((d, S) # ds) R R'"

text \<open>The table entry for two bits, and the iterations from index \<open>i\<close> downwards.\<close>

definition table_point :: "sb_sw_curve \<Rightarrow> sb_sw_context \<Rightarrow> bool \<Rightarrow> bool \<Rightarrow> affine" where
  "table_point s q bp bg =
     (mval (curve_p s) (pair_x (selected s q bp bg)), mval (curve_p s) (pair_y (selected s q bp bg)))"

fun shamir_steps :: "sb_sw_curve \<Rightarrow> sb_sw_context \<Rightarrow> nat \<Rightarrow> nat \<Rightarrow> (bool \<times> affine) list" where
  "shamir_steps s q i 0 = []"
| "shamir_steps s q i (Suc n) =
     (i < 255, table_point s q (bit (fe_val (MULT_K q)) i) (bit (fe_val (MULT_ADD_KG q)) i))
       # shamir_steps s q (i - 1) n"

definition table_qr :: "sb_sw_curve \<Rightarrow> sb_sw_context \<Rightarrow> bool" where
  "table_qr s q \<longleftrightarrow> pair_qr (curve_p s) (h_r s) \<and> pair_qr (curve_p s) (g_h_r s) \<and>
     quasi_reduced (curve_p s) (MULT_POINT_X q) \<and> quasi_reduced (curve_p s) (MULT_POINT_Y q) \<and>
     quasi_reduced (curve_p s) (MULT_ADD_PG_X q) \<and> quasi_reduced (curve_p s) (MULT_ADD_PG_Y q)"

lemma table_qr_selected: "table_qr s q \<Longrightarrow> pair_qr (curve_p s) (selected s q bp bg)"
  by (auto simp: table_qr_def selected_def pair_qr_def)

subsection \<open>Simulation\<close>

text \<open>The accumulator is in the first registers under the coordinate in \<open>MULT_Z\<close>.\<close>

definition accumulates :: "sb_sw_curve \<Rightarrow> sb_sw_context \<Rightarrow> affine \<Rightarrow> bool" where
  "accumulates s q R \<longleftrightarrow> coords_qr s q \<and> quasi_reduced (curve_p s) (MULT_Z q) \<and>
     jacobian (modulus (curve_p s)) (mval (curve_p s) (MULT_Z q)) R (reg1 s q)"

text \<open>What an iteration leaves alone: the scalars and the table.\<close>

definition same_inputs :: "sb_sw_context \<Rightarrow> sb_sw_context \<Rightarrow> bool" where
  "same_inputs q q' \<longleftrightarrow> MULT_K q' = MULT_K q \<and> MULT_POINT_X q' = MULT_POINT_X q \<and>
     MULT_POINT_Y q' = MULT_POINT_Y q \<and> use_0 q' = use_0 q \<and> use_1 q' = use_1 q \<and>
     use_2 q' = use_2 q \<and> use_3 q' = use_3 q"

lemma same_inputs_trans: "same_inputs q q' \<Longrightarrow> same_inputs q' q'' \<Longrightarrow> same_inputs q q''"
  by (simp add: same_inputs_def)

lemma same_inputs_table:
  "same_inputs q q' \<Longrightarrow> table_qr s q' = table_qr s q"
  "same_inputs q q' \<Longrightarrow> table_point s q' = table_point s q"
  "same_inputs q q' \<Longrightarrow> shamir_steps s q' i n = shamir_steps s q i n"
proof -
  assume same: "same_inputs q q'"
  then show "table_qr s q' = table_qr s q"
    by (simp add: same_inputs_def table_qr_def)
  show t: "table_point s q' = table_point s q"
    using same by (simp add: same_inputs_def table_point_def selected_def fun_eq_iff)
  show "shamir_steps s q' i n = shamir_steps s q i n"
    by (induction n arbitrary: i) (use same in \<open>simp_all add: t\<close>, simp_all add: same_inputs_def)
qed

lemma mult_add_select_regs:
  fixes q :: sb_sw_context and bp bg :: bool
  assumes ok: "mont_ok (curve_p s)" and qq: "coords_qr s q" "quasi_reduced (curve_p s) (MULT_Z q)"
    and t: "table_qr s q"
  defines "q' \<equiv> sb_sw_point_mult_add_select (of_bool bp) (of_bool bg) q s"
  shows "coords_qr s q'" "MULT_Z q' = MULT_Z q" "reg1 s q' = reg1 s q" "same_inputs q q'"
    and "jacobian (modulus (curve_p s)) (mval (curve_p s) (MULT_Z q')) (table_point s q bp bg) (reg2 s q')"
proof -
  let ?S = "selected s q bp bg"
  define d where "d = q\<lparr>C_X2 := pair_x ?S, C_Y2 := pair_y ?S,
     C_T5 := if bp \<and> bg then MULT_POINT_X q else MULT_ADD_PG_X q,
     C_T6 := if bp \<and> bg then MULT_POINT_Y q else MULT_ADD_PG_Y q\<rparr>"
  have q': "q' = sb_sw_point_mult_add_apply_z d s"
    by (simp add: q'_def mult_add_select_eq d_def)
  show Z: "MULT_Z q' = MULT_Z q"
    by (simp add: q' d_def)
  have qd: "coords_qr s d" "quasi_reduced (curve_p s) (MULT_Z d)"
    using qq table_qr_selected [OF t, of bp bg]
    by (simp_all add: d_def coords_qr_def pair_qr_def)
  note a = mult_add_apply_z_val [OF ok qd, folded q']
  show "coords_qr s q'" by (rule a(2))
  show "reg1 s q' = reg1 s q" "same_inputs q q'"
    by (simp_all add: reg1_def same_inputs_def q' d_def)
  have "jacobian (modulus (curve_p s)) 1 (table_point s q bp bg) (reg2 s d)"
    by (simp add: jacobian_def reg2_def d_def table_point_def)
  from a(1) [OF this] show
    "jacobian (modulus (curve_p s)) (mval (curve_p s) (MULT_Z q')) (table_point s q bp bg) (reg2 s q')"
    by (simp add: Z) (simp add: d_def)
qed

lemma mult_add_select_sim:
  fixes q :: sb_sw_context and bp bg :: bool
  assumes ok: "mont_ok (curve_p s)" and R: "accumulates s q R" and t: "table_qr s q"
  defines "q' \<equiv> sb_sw_point_mult_add_select (of_bool bp) (of_bool bg) q s"
  shows "accumulates s q' R" "same_inputs q q'"
    and "jacobian (modulus (curve_p s)) (mval (curve_p s) (MULT_Z q')) (table_point s q bp bg) (reg2 s q')"
  using mult_add_select_regs [OF ok _ _ t, of bp bg] R by (simp_all add: accumulates_def q'_def)

text \<open>An iteration is a selection, an update and, except for the first bit, another update.\<close>

lemma mult_add_step_eq:
  fixes q :: sb_sw_context and s :: sb_sw_curve
  assumes i: "unat i < 256"
  defines "q1 \<equiv> sb_sw_point_mult_add_select (of_bool (bit (fe_val (MULT_K q)) (unat i)))
    (of_bool (bit (fe_val (MULT_ADD_KG q)) (unat i))) q s"
  defines "q2 \<equiv> sb_sw_point_mult_add_z_update q1 s"
  shows "mult_add_step i q s = (if unat i < 255 then sb_sw_point_mult_add_z_update q2 s else q2)"
proof -
  have "i < SB_FE_BITS - 1 \<longleftrightarrow> unat i < 255"
    by (simp add: word_less_nat_alt SB_FE_BITS_def)
  then show ?thesis
    by (simp add: mult_add_step_def Let_def sb_fe_test_bit_val i q2_def q1_def)
qed

lemma mult_add_step_sim:
  assumes ok: "mont_ok (curve_p s)" and R: "accumulates s q R" and t: "table_qr s q"
    and i: "unat i < 256"
    and step: "shamir_affine (modulus (curve_p s)) (unat i < 255)
      (table_point s q (bit (fe_val (MULT_K q)) (unat i)) (bit (fe_val (MULT_ADD_KG q)) (unat i))) R R'"
  shows "accumulates s (mult_add_step i q s) R'" "same_inputs q (mult_add_step i q s)"
proof -
  let ?P = "modulus (curve_p s)"
  define bp bg where b: "bp = bit (fe_val (MULT_K q)) (unat i)" "bg = bit (fe_val (MULT_ADD_KG q)) (unat i)"
  define q1 where "q1 = sb_sw_point_mult_add_select (of_bool bp) (of_bool bg) q s"
  define q2 where "q2 = sb_sw_point_mult_add_z_update q1 s"
  note eq = mult_add_step_eq [OF i, of q s, folded b, folded q1_def, folded q2_def]
  note sel = mult_add_select_sim [OF ok R t, of bp bg, folded q1_def]
  have R1: "coords_qr s q1" "quasi_reduced (curve_p s) (MULT_Z q1)"
    "jacobian ?P (mval (curve_p s) (MULT_Z q1)) R (reg1 s q1)"
    using sel(1) by (simp_all add: accumulates_def)
  show "same_inputs q (mult_add_step i q s)"
    using sel(2) by (simp add: eq q2_def same_inputs_def)
  from step obtain T where T: "chord ?P R (table_point s q bp bg) T"
    and R': "if unat i < 255 then chord ?P T R R' else R' = T"
    by (auto simp: b elim: shamir_affine.cases)
  note u = mult_add_z_update_chord [OF ok R1 sel(3) T, folded q2_def]
  show "accumulates s (mult_add_step i q s) R'"
  proof (cases "unat i < 255")
    case True
    with R' mult_add_z_update_chord [OF ok u(3,4,1,2), of R'] show ?thesis
      by (simp add: eq accumulates_def)
  next
    case False
    with R' u show ?thesis by (simp add: eq accumulates_def)
  qed
qed

lemma mult_add_loop_sim:
  assumes ok: "mont_ok (curve_p s)"
  shows "accumulates s q R \<Longrightarrow> table_qr s q \<Longrightarrow> i < SB_FE_BITS \<Longrightarrow> n \<le> Suc (unat i) \<Longrightarrow>
    shamir_run (modulus (curve_p s)) (shamir_steps s q (unat i) n) R R' \<Longrightarrow>
    accumulates s (snd (mult_add_loop n i q s)) R'"
proof (induction n arbitrary: i q R)
  case 0
  then show ?case by (simp add: shamir_run_simps)
next
  case (Suc n)
  have i: "unat i < 256"
    using Suc.prems(3) by (simp add: word_less_nat_alt SB_FE_BITS_def)
  from Suc.prems(5) obtain R1 where
    R1: "shamir_affine (modulus (curve_p s)) (unat i < 255)
      (table_point s q (bit (fe_val (MULT_K q)) (unat i)) (bit (fe_val (MULT_ADD_KG q)) (unat i))) R R1"
    "shamir_run (modulus (curve_p s)) (shamir_steps s q (unat i - 1) n) R1 R'"
    unfolding shamir_steps.simps shamir_run_simps by blast
  note step = mult_add_step_sim [OF ok Suc.prems(1,2) i R1(1)]
  show ?case
  proof (cases "i = 0")
    case True
    with Suc.prems(4) have "n = 0" by simp
    with True Suc.prems(3) step(1) R1(2) show ?thesis by (simp add: shamir_run_simps)
  next
    case False
    with size_dec_wrap [OF Suc.prems(3)] have d: "i - 1 < SB_FE_BITS" "unat (i - 1) = unat i - 1"
      by simp_all
    have "shamir_run (modulus (curve_p s)) (shamir_steps s (mult_add_step i q s) (unat (i - 1)) n) R1 R'"
      using R1(2) by (simp add: d(2) same_inputs_table(3) [OF step(2)])
    with Suc.IH [OF step(1) _ d(1) _ this] Suc.prems(2,3,4) d(2) same_inputs_table(1) [OF step(2)]
    show ?thesis by (simp add: Suc_diff_le)
  qed
qed

end
