(* ===== verification/Validation.thy ===== *)
theory Validation
  imports Point_Arith
begin

text \<open>
  The validation and parameter generation routines of \<open>sb_sw_lib.c\<close>: the curve equation, full
  public key validation, decompression, scalar and Z validation, the selection of a scalar
  or Z among candidate values, the generation of the blinding coordinate and blinded
  inversion.
\<close>

subsection \<open>Points and scalars\<close>

text \<open>\<open>!x\<close> of C on a word.\<close>

definition word_not :: "sb_word \<Rightarrow> sb_word" where
  "word_not x = (if x = 0 then 1 else 0)"

definition sb_sw_curve_y2 :: "sb_sw_context \<Rightarrow> sb_sw_curve \<Rightarrow> sb_sw_context" where
  "sb_sw_curve_y2 c s =
     (let p = curve_p s;
          c = c\<lparr>C_T5 := sb_fe_mont_convert (C_X1 c) p\<rparr>;
          c = c\<lparr>C_T6 := sb_fe_mont_mult (C_T5 c) (C_X1 c) p\<rparr>;
          c = c\<lparr>C_T6 := sb_fe_mod_sub (C_T6 c) (minus_a s) p\<rparr>;
          c = c\<lparr>C_Y1 := sb_fe_mont_mult (C_T5 c) (C_T6 c) p\<rparr>;
          c = c\<lparr>C_Y1 := sb_fe_mod_add (C_Y1 c) (curve_b s) p\<rparr>
      in c)"

definition sb_sw_point_validate :: "sb_sw_context \<Rightarrow> sb_sw_curve \<Rightarrow> sb_word \<times> sb_sw_context" where
  "sb_sw_point_validate c s =
     (let p = curve_p s;
          r = 1;
          r = r AND word_not (sb_fe_equal (MULT_POINT_Y c) SB_FE_ZERO);
          r = r AND (sb_fe_lt (MULT_POINT_X c) (prime_p p) AND sb_fe_lt (MULT_POINT_Y c) (prime_p p));
          c = c\<lparr>MULT_POINT_Y := sb_fe_mod_reduce (MULT_POINT_Y c) p\<rparr>;
          c = c\<lparr>MULT_POINT_X := sb_fe_mod_reduce (MULT_POINT_X c) p\<rparr>;
          c = c\<lparr>C_T5 := sb_fe_mont_square (MULT_POINT_Y c) p\<rparr>;
          c = c\<lparr>C_Y2 := sb_fe_mont_convert (C_T5 c) p\<rparr>;
          c = c\<lparr>C_X1 := MULT_POINT_X c\<rparr>;
          c = sb_sw_curve_y2 c s;
          r = r AND sb_fe_equal (C_Y1 c) (C_Y2 c)
      in (r, c))"

definition sb_sw_point_decompress ::
  "sb_sw_context \<Rightarrow> sb_word \<Rightarrow> sb_sw_curve \<Rightarrow> sb_word \<times> sb_sw_context" where
  "sb_sw_point_decompress c sign s =
     (let p = curve_p s;
          r = 1;
          r = r AND sb_fe_lt (MULT_POINT_X c) (prime_p p);
          c = c\<lparr>MULT_POINT_X := sb_fe_mod_reduce (MULT_POINT_X c) p\<rparr>;
          c = c\<lparr>C_X1 := MULT_POINT_X c\<rparr>;
          c = sb_sw_curve_y2 c s;
          (rv, y1, t5, t6, t7, t8) = sb_fe_mod_sqrt (C_Y1 c) (C_T5 c) (C_T6 c) (C_T7 c) p;
          c = c\<lparr>C_Y1 := y1, C_T5 := t5, C_T6 := t6, C_T7 := t7, C_T8 := t8\<rparr>;
          r = r AND of_bool rv;
          sign_mismatch = sb_fe_test_bit (C_Y1 c) 0 XOR sign;
          c = c\<lparr>C_T5 := sb_fe_mod_negate (C_Y1 c) p\<rparr>;
          (y1, t5) = sb_fe_ctswap sign_mismatch (C_Y1 c) (C_T5 c);
          c = c\<lparr>C_Y1 := y1, C_T5 := t5\<rparr>;
          c = c\<lparr>MULT_POINT_Y := C_Y1 c\<rparr>
      in (r, c))"

definition sb_sw_scalar_validate :: "sb_fe \<Rightarrow> sb_sw_curve \<Rightarrow> sb_word \<times> sb_fe" where
  "sb_sw_scalar_validate k s =
     (let r = 1;
          r = r AND sb_fe_lt k (prime_p (curve_n s));
          k = sb_fe_mod_reduce k (curve_n s);
          r = r AND word_not (sb_fe_equal k (prime_p (curve_n s)))
      in (r, k))"

definition sb_sw_z_validate :: "sb_fe \<Rightarrow> sb_sw_curve \<Rightarrow> sb_word \<times> sb_fe" where
  "sb_sw_z_validate z s =
     (let r = 1;
          r = r AND sb_fe_lt z (prime_p (curve_p s));
          z = sb_fe_mod_reduce z (curve_p s);
          r = r AND word_not (sb_fe_equal z (prime_p (curve_p s)))
      in (r, z))"

subsection \<open>Candidates from the buffer\<close>

definition buf_elem :: "sb_byte list \<Rightarrow> nat \<Rightarrow> sb_byte list" where
  "buf_elem buf i = take SB_ELEM_BYTES (drop (i * SB_ELEM_BYTES) buf)"

text \<open>The loops over \<open>i = 1, \<dots>, SB_SW_FIPS186_4_CANDIDATES - 1\<close>.\<close>

definition z_candidate_step ::
  "sb_sw_curve \<Rightarrow> sb_data_endian \<Rightarrow> nat \<Rightarrow> sb_sw_context \<Rightarrow> sb_sw_context" where
  "z_candidate_step s e i ctx =
     (let (zv, z) = sb_sw_z_validate (MULT_Z ctx) s;
          ctx = ctx\<lparr>MULT_Z := z\<rparr>;
          ctx = ctx\<lparr>MULT_Z2 := sb_fe_from_bytes (buf_elem (gen_buf ctx) i) e\<rparr>;
          (z, z2) = sb_fe_ctswap (zv XOR 1) (MULT_Z ctx) (MULT_Z2 ctx)
      in ctx\<lparr>MULT_Z := z, MULT_Z2 := z2\<rparr>)"

definition sb_sw_z_from_buf ::
  "sb_sw_context \<Rightarrow> sb_sw_curve \<Rightarrow> sb_data_endian \<Rightarrow> sb_error \<times> sb_sw_context" where
  "sb_sw_z_from_buf ctx s e =
     (let err = SB_SUCCESS;
          ctx = ctx\<lparr>MULT_Z := sb_fe_from_bytes (buf_elem (gen_buf ctx) 0) e\<rparr>;
          ctx = fold (z_candidate_step s e) [1..<SB_SW_FIPS186_4_CANDIDATES] ctx;
          (zv, z) = sb_sw_z_validate (MULT_Z ctx) s;
          ctx = ctx\<lparr>MULT_Z := z\<rparr>;
          err = err OR sb_error_if SB_ERROR_DRBG_FAILURE (zv = 0)
      in (err, ctx))"

definition k_candidate :: "bool \<Rightarrow> sb_byte list \<Rightarrow> sb_data_endian \<Rightarrow> sb_fe" where
  "k_candidate fips186_4 bytes e =
     (let k = sb_fe_from_bytes bytes e
      in if fips186_4 then fst (sb_fe_add k SB_FE_ONE) else k)"

definition k_candidate_step ::
  "bool \<Rightarrow> sb_sw_curve \<Rightarrow> sb_data_endian \<Rightarrow> nat \<Rightarrow> sb_sw_context \<Rightarrow> sb_sw_context" where
  "k_candidate_step fips186_4 s e i ctx =
     (let (kv, k) = sb_sw_scalar_validate (MULT_K ctx) s;
          ctx = ctx\<lparr>MULT_K := k\<rparr>;
          ctx = ctx\<lparr>MULT_Z := k_candidate fips186_4 (buf_elem (gen_buf ctx) i) e\<rparr>;
          (k, z) = sb_fe_ctswap (kv XOR 1) (MULT_K ctx) (MULT_Z ctx)
      in ctx\<lparr>MULT_K := k, MULT_Z := z\<rparr>)"

definition sb_sw_k_from_buf ::
  "sb_sw_context \<Rightarrow> bool \<Rightarrow> sb_sw_curve \<Rightarrow> sb_data_endian \<Rightarrow> sb_error \<times> sb_sw_context" where
  "sb_sw_k_from_buf ctx fips186_4 s e =
     (let err = SB_SUCCESS;
          ctx = ctx\<lparr>MULT_K := k_candidate fips186_4 (buf_elem (gen_buf ctx) 0) e\<rparr>;
          ctx = fold (k_candidate_step fips186_4 s e) [1..<SB_SW_FIPS186_4_CANDIDATES] ctx;
          (kv, k) = sb_sw_scalar_validate (MULT_K ctx) s;
          ctx = ctx\<lparr>MULT_K := k\<rparr>;
          err = err OR sb_error_if SB_ERROR_DRBG_FAILURE (kv = 0)
      in (err, ctx))"

subsection \<open>Generation of Z and blinded inversion\<close>

text \<open>
  A generator is given as an option, \<open>None\<close> for \<open>NULL\<close>, and returned as it is left. An
  absent input is empty. When generation fails nothing is written to the buffer.
\<close>

definition SB_SW_GEN_BYTES :: nat where
  "SB_SW_GEN_BYTES = SB_SW_FIPS186_4_CANDIDATES * SB_ELEM_BYTES"

definition write_buf :: "nat \<Rightarrow> sb_byte list option \<Rightarrow> sb_sw_context \<Rightarrow> sb_sw_context" where
  "write_buf off out ctx =
     (case out of None \<Rightarrow> ctx | Some bs \<Rightarrow> ctx\<lparr>gen_buf := memcpy_at (gen_buf ctx) off bs\<rparr>)"

definition sb_sw_generate_z ::
  "sb_sw_context \<Rightarrow> sb_hmac_drbg_state option \<Rightarrow> sb_sw_curve \<Rightarrow> sb_data_endian \<Rightarrow>
     sb_byte list \<Rightarrow> sb_byte list \<Rightarrow> sb_byte list \<Rightarrow> sb_byte list \<Rightarrow>
     sb_error \<times> sb_sw_context \<times> sb_hmac_drbg_state option" where
  "sb_sw_generate_z c drbg s e d1 d2 d3 label =
     (let err = SB_SUCCESS;
          (err, c, drbg) =
            (case drbg of
               Some d \<Rightarrow>
                 let (e1, out, d') = sb_hmac_drbg_generate_additional_vec d SB_SW_GEN_BYTES [d1, d2, d3, label]
                 in (err OR e1, write_buf 0 out c, Some d')
             | None \<Rightarrow>
                 let h = sb_hkdf_extract_init [];
                     h = sb_hkdf_extract_update h d1;
                     h = sb_hkdf_extract_update h d2;
                     h = sb_hkdf_extract_update h d3;
                     h = sb_hkdf_extract_finish h;
                     (out, h) = sb_hkdf_expand h label SB_SW_GEN_BYTES
                 in (err, write_buf 0 (Some out) (c\<lparr>gen_hkdf := h\<rparr>), None));
          (e2, c) = sb_sw_z_from_buf c s e
      in (err OR e2, c, drbg))"

text \<open>The blinding factor is in \<open>MULT_K\<close>, the scalar in \<open>MULT_Z\<close>, the inverse goes to \<open>C_T6\<close>.\<close>

definition sb_sw_invert_field_element :: "sb_sw_context \<Rightarrow> sb_sw_curve \<Rightarrow> sb_sw_context" where
  "sb_sw_invert_field_element ctx s =
     (let n = curve_n s;
          ctx = ctx\<lparr>C_X1 := sb_fe_mont_convert (MULT_K ctx) n\<rparr>;
          ctx = ctx\<lparr>C_Y1 := sb_fe_mont_convert (MULT_Z ctx) n\<rparr>;
          ctx = ctx\<lparr>C_T5 := sb_fe_mont_mult (C_X1 ctx) (C_Y1 ctx) n\<rparr>;
          (t5, t6, t7) = sb_fe_mod_inv_r (C_T5 ctx) n (C_T7 ctx);
          ctx = ctx\<lparr>C_T5 := t5, C_T6 := t6, C_T7 := t7\<rparr>;
          ctx = ctx\<lparr>C_T6 := sb_fe_mont_mult (C_T5 ctx) (C_X1 ctx) n\<rparr>
      in ctx)"

subsection \<open>Correctness of validation\<close>

lemma flag_simps:
  "word_not (of_bool a) = of_bool (\<not> a)"
  "(1 :: sb_word) AND of_bool b = of_bool b"
  "(of_bool a :: sb_word) AND of_bool b = of_bool (a \<and> b)"
  "(of_bool a :: sb_word) XOR 1 = of_bool (\<not> a)"
  "(of_bool a :: sb_word) = 0 \<longleftrightarrow> \<not> a"
  by (cases a; cases b; simp add: word_not_def)+

lemma qrep_eq_modulus: "0 < P \<Longrightarrow> qrep P z = P \<longleftrightarrow> z mod P = 0"
  by (metis less_irrefl pos_mod_bound qrep_def)

lemma qrep_eq_iff: "qrep P x = qrep P y \<longleftrightarrow> x mod P = y mod P"
  using qrep_cong qrep_mod by metis

lemma sb_sw_scalar_validate_val:
  assumes "curve_ok s"
  shows "sb_sw_scalar_validate k s =
    (of_bool (0 < fe_val k \<and> fe_val k < modulus (curve_n s)), sb_fe_mod_reduce k (curve_n s))"
    and "fe_val (sb_fe_mod_reduce k (curve_n s)) = qrep (modulus (curve_n s)) (fe_val k)"
proof -
  have b: "fe_val k < 2 * modulus (curve_n s)"
    using fe_val_bound [of k] curve_okD(6) [OF assms] by simp
  show v: "fe_val (sb_fe_mod_reduce k (curve_n s)) = qrep (modulus (curve_n s)) (fe_val k)"
    by (rule sb_fe_mod_reduce_val [OF b])
  have "sb_fe_equal (sb_fe_mod_reduce k (curve_n s)) (prime_p (curve_n s)) =
      of_bool (fe_val k mod modulus (curve_n s) = 0)"
    using curve_okD(6) [OF assms] by (simp add: sb_fe_equal_val v qrep_eq_modulus)
  then show "sb_sw_scalar_validate k s =
    (of_bool (0 < fe_val k \<and> fe_val k < modulus (curve_n s)), sb_fe_mod_reduce k (curve_n s))"
    using fe_val_nonneg [of k]
    by (auto simp: sb_sw_scalar_validate_def Let_def sb_fe_lt_val flag_simps)
qed

lemma sb_sw_z_validate_val:
  assumes "curve_ok s"
  shows "sb_sw_z_validate z s =
    (of_bool (0 < fe_val z \<and> fe_val z < modulus (curve_p s)), sb_fe_mod_reduce z (curve_p s))"
    and "fe_val (sb_fe_mod_reduce z (curve_p s)) = qrep (modulus (curve_p s)) (fe_val z)"
proof -
  have b: "fe_val z < 2 * modulus (curve_p s)"
    using fe_val_bound [of z] curve_okD(5) [OF assms] by simp
  show v: "fe_val (sb_fe_mod_reduce z (curve_p s)) = qrep (modulus (curve_p s)) (fe_val z)"
    by (rule sb_fe_mod_reduce_val [OF b])
  have "sb_fe_equal (sb_fe_mod_reduce z (curve_p s)) (prime_p (curve_p s)) =
      of_bool (fe_val z mod modulus (curve_p s) = 0)"
    using curve_okD(5) [OF assms] by (simp add: sb_fe_equal_val v qrep_eq_modulus)
  then show "sb_sw_z_validate z s =
    (of_bool (0 < fe_val z \<and> fe_val z < modulus (curve_p s)), sb_fe_mod_reduce z (curve_p s))"
    using fe_val_nonneg [of z]
    by (auto simp: sb_sw_z_validate_def Let_def sb_fe_lt_val flag_simps)
qed

text \<open>The right-hand side of the curve equation.\<close>

definition curve_rhs :: "sb_sw_curve \<Rightarrow> int \<Rightarrow> int" where
  "curve_rhs s x = x * x * x - fe_val (minus_a s) * x + fe_val (curve_b s)"

lemma sb_sw_curve_y2_val:
  assumes ok: "curve_ok s" and x: "quasi_reduced (curve_p s) (C_X1 c)"
  shows "fe_val (C_Y1 (sb_sw_curve_y2 c s)) = qrep (modulus (curve_p s)) (curve_rhs s (fe_val (C_X1 c)))"
    and "quasi_reduced (curve_p s) (C_Y1 (sb_sw_curve_y2 c s))"
proof -
  let ?p = "curve_p s" and ?P = "modulus (curve_p s)" and ?x = "fe_val (C_X1 c)" and ?r = "rinv (modulus (curve_p s))"
  note C = curve_okD [OF ok]
  define t5 where "t5 = sb_fe_mont_convert (C_X1 c) ?p"
  define t6 where "t6 = sb_fe_mod_sub (sb_fe_mont_mult t5 (C_X1 c) ?p) (minus_a s) ?p"
  have y: "C_Y1 (sb_sw_curve_y2 c s) = sb_fe_mod_add (sb_fe_mont_mult t5 t6 ?p) (curve_b s) ?p"
    by (simp add: sb_sw_curve_y2_def Let_def t5_def t6_def)
  have q5: "quasi_reduced ?p t5" and v5: "(fe_val t5 * ?r) mod ?P = ?x mod ?P"
    using sb_fe_mont_convert_val [OF C(1) x] by (simp_all add: t5_def mval_def)
  have q6: "quasi_reduced ?p t6"
    unfolding t6_def by (intro qr_intros C q5 x)
  have m: "fe_val (sb_fe_mont_mult t5 u ?p) mod ?P = (?x * fe_val u) mod ?P" if u: "quasi_reduced ?p u" for u
  proof -
    have "fe_val (sb_fe_mont_mult t5 u ?p) mod ?P = (fe_val t5 * ?r * fe_val u) mod ?P"
      by (simp add: sb_fe_mont_mult_val [OF C(3) q5 u] ac_simps)
    also have "\<dots> = (?x * fe_val u) mod ?P"
      by (metis v5 mod_mult_left_eq)
    finally show ?thesis .
  qed
  have v6: "fe_val t6 mod ?P = (?x * ?x - fe_val (minus_a s)) mod ?P"
    unfolding t6_def using m [OF x]
    by (simp add: sb_fe_mod_sub_val mont_qr [OF C(3) q5 x] C(10)) (metis mod_diff_left_eq)
  have "fe_val (C_Y1 (sb_sw_curve_y2 c s)) = qrep ?P (fe_val (sb_fe_mont_mult t5 t6 ?p) + fe_val (curve_b s))"
    unfolding y by (rule sb_fe_mod_add_val [OF mont_qr [OF C(3) q5 q6] C(11)])
  also have "\<dots> = qrep ?P (curve_rhs s ?x)"
  proof (rule qrep_cong)
    have "(fe_val (sb_fe_mont_mult t5 t6 ?p) + fe_val (curve_b s)) mod ?P
        = ((?x * (?x * ?x - fe_val (minus_a s))) mod ?P + fe_val (curve_b s)) mod ?P"
      using m [OF q6] v6 by (metis mod_add_left_eq mod_mult_right_eq)
    also have "\<dots> = curve_rhs s ?x mod ?P"
      by (simp only: mod_add_left_eq curve_rhs_def) (simp add: algebra_simps)
    finally show "(fe_val (sb_fe_mont_mult t5 t6 ?p) + fe_val (curve_b s)) mod ?P = curve_rhs s ?x mod ?P" .
  qed
  finally show "fe_val (C_Y1 (sb_sw_curve_y2 c s)) = qrep ?P (curve_rhs s ?x)" .
  show "quasi_reduced ?p (C_Y1 (sb_sw_curve_y2 c s))"
    unfolding y by (intro qr_intros C q5 q6)
qed

text \<open>Full public key validation accepts exactly the reduced affine points of the curve with \<open>y \<noteq> 0\<close>.\<close>

definition valid_point :: "sb_sw_curve \<Rightarrow> int \<Rightarrow> int \<Rightarrow> bool" where
  "valid_point s x y \<longleftrightarrow> 0 \<le> x \<and> x < modulus (curve_p s) \<and> 0 < y \<and> y < modulus (curve_p s) \<and>
     curve_on s (x, y)"

lemma curve_on_rhs: "curve_on s (x, y) \<longleftrightarrow> (y * y) mod modulus (curve_p s) = curve_rhs s x mod modulus (curve_p s)"
  by (simp add: curve_on_def on_curve_def curve_rhs_def eqm_mod)

lemma curve_rhs_cong:
  "x mod modulus (curve_p s) = y mod modulus (curve_p s) \<Longrightarrow>
    curve_rhs s x mod modulus (curve_p s) = curve_rhs s y mod modulus (curve_p s)"
  unfolding curve_rhs_def eqm_mod [symmetric] by (intro eqm_add eqm_diff eqm_mult eqm_refl)

lemma sb_fe_mod_reduce_p:
  assumes "curve_ok s"
  shows "fe_val (sb_fe_mod_reduce x (curve_p s)) = qrep (modulus (curve_p s)) (fe_val x)"
    and "quasi_reduced (curve_p s) (sb_fe_mod_reduce x (curve_p s))"
  using sb_sw_z_validate_val(2) [OF assms, of x] curve_okD(5) [OF assms]
  by (auto intro: quasi_reduced_qrep)

lemma sb_sw_point_validate_val:
  fixes c :: sb_sw_context
  assumes ok: "curve_ok s"
  defines "r \<equiv> sb_sw_point_validate c s"
  shows "fst r = of_bool (valid_point s (fe_val (MULT_POINT_X c)) (fe_val (MULT_POINT_Y c)))"
    and "MULT_POINT_X (snd r) = sb_fe_mod_reduce (MULT_POINT_X c) (curve_p s)"
    and "MULT_POINT_Y (snd r) = sb_fe_mod_reduce (MULT_POINT_Y c) (curve_p s)"
    and "MULT_K (snd r) = MULT_K c" "MULT_Z (snd r) = MULT_Z c"
proof -
  let ?p = "curve_p s" and ?P = "modulus (curve_p s)"
  let ?X = "fe_val (MULT_POINT_X c)" and ?Y = "fe_val (MULT_POINT_Y c)"
  define x where "x = sb_fe_mod_reduce (MULT_POINT_X c) ?p"
  define y where "y = sb_fe_mod_reduce (MULT_POINT_Y c) ?p"
  note C = curve_okD [OF ok]
  have x: "fe_val x = qrep ?P ?X" "quasi_reduced ?p x" and y: "fe_val y = qrep ?P ?Y" "quasi_reduced ?p y"
    using sb_fe_mod_reduce_p [OF ok] by (simp_all add: x_def y_def)
  define d where "d = c\<lparr>MULT_POINT_Y := y, MULT_POINT_X := x, C_T5 := sb_fe_mont_square y ?p,
    C_Y2 := sb_fe_mont_convert (sb_fe_mont_square y ?p) ?p, C_X1 := x\<rparr>"
  have r: "r = (word_not (sb_fe_equal (MULT_POINT_Y c) SB_FE_ZERO) AND
      (sb_fe_lt (MULT_POINT_X c) (prime_p ?p) AND sb_fe_lt (MULT_POINT_Y c) (prime_p ?p)) AND
      sb_fe_equal (C_Y1 (sb_sw_curve_y2 d s)) (C_Y2 d), sb_sw_curve_y2 d s)"
    by (simp add: r_def sb_sw_point_validate_def Let_def d_def x_def y_def sb_sw_curve_y2_def
        sb_fe_equal_val sb_fe_lt_val flag_simps and.assoc)
  have "fe_val (C_Y2 d) = qrep ?P (fe_val (sb_fe_mont_square y ?p) * 2 ^ 256)"
    by (simp add: d_def sb_fe_mont_convert_val(1) [OF C(1) mont_square_qr [OF C(3) y(2)]])
  also have "\<dots> = qrep ?P (?Y * ?Y)"
  proof (rule qrep_cong)
    have "fe_val (sb_fe_mont_square y ?p) mod ?P = (fe_val y * fe_val y * rinv ?P) mod ?P"
      by (simp add: sb_fe_mont_square_def sb_fe_mont_mult_val [OF C(3) y(2) y(2)])
    then have "(fe_val (sb_fe_mont_square y ?p) * 2 ^ 256) mod ?P = (fe_val y * fe_val y * rinv ?P * 2 ^ 256) mod ?P"
      by (metis mod_mult_left_eq)
    also have "fe_val y * fe_val y * rinv ?P * 2 ^ 256 = fe_val y * fe_val y * (2 ^ 256 * rinv ?P)"
      by (simp only: ac_simps)
    also have "\<dots> mod ?P = (fe_val y * fe_val y * (2 ^ 256 * rinv ?P mod ?P)) mod ?P"
      by (rule mod_mult_right_eq [symmetric])
    also have "\<dots> = (fe_val y * fe_val y) mod ?P"
      unfolding rinv_inverse [OF prime_field_okD(2) [OF C(1)]] by (simp add: mod_simps)
    also have "\<dots> = (?Y * ?Y) mod ?P"
      unfolding y(1) by (metis mod_mult_eq qrep_mod)
    finally show "(fe_val (sb_fe_mont_square y ?p) * 2 ^ 256) mod ?P = (?Y * ?Y) mod ?P" .
  qed
  finally have y2: "fe_val (C_Y2 d) = qrep ?P (?Y * ?Y)" .
  have "fe_val (C_Y1 (sb_sw_curve_y2 d s)) = qrep ?P (curve_rhs s ?X)"
    using sb_sw_curve_y2_val(1) [OF ok, of d] x
    by (simp add: d_def) (metis curve_rhs_cong qrep_cong qrep_mod)
  then have "sb_fe_equal (C_Y1 (sb_sw_curve_y2 d s)) (C_Y2 d) = of_bool (curve_on s (?X, ?Y))"
    unfolding sb_fe_equal_val y2 curve_on_rhs by (auto simp: qrep_eq_iff)
  then show "fst r = of_bool (valid_point s ?X ?Y)"
    using fe_val_nonneg [of "MULT_POINT_X c"] fe_val_nonneg [of "MULT_POINT_Y c"]
    by (auto simp: r sb_fe_equal_val sb_fe_lt_val flag_simps valid_point_def)
  show "MULT_POINT_X (snd r) = sb_fe_mod_reduce (MULT_POINT_X c) ?p"
    "MULT_POINT_Y (snd r) = sb_fe_mod_reduce (MULT_POINT_Y c) ?p"
    "MULT_K (snd r) = MULT_K c" "MULT_Z (snd r) = MULT_Z c"
    by (simp_all add: r d_def x_def y_def sb_sw_curve_y2_def Let_def)
qed

subsection \<open>Decompression\<close>

lemma quasi_reduced_eqm:
  assumes "1 \<le> x" "x \<le> P" "1 \<le> y" "y \<le> P" "eqm P x y"
  shows "x = (y :: int)"
proof -
  have "qrep P x = qrep P y" by (rule qrep_cong) (use assms(5) in \<open>simp add: eqm_mod\<close>)
  then show ?thesis by (simp only: qrep_self [OF assms(1,2)] qrep_self [OF assms(3,4)])
qed

lemma sb_sw_point_decompress_val:
  fixes c :: sb_sw_context and sign :: bool
  assumes ok: "curve_ok s"
  defines "r \<equiv> sb_sw_point_decompress c (of_bool sign) s"
    and "x \<equiv> fe_val (MULT_POINT_X c)"
  shows "fst r = of_bool (x < modulus (curve_p s) \<and> curve_on s (x, fe_val (MULT_POINT_Y (snd r))))"
    and "euler_at (modulus (curve_p s)) y \<Longrightarrow> curve_on s (x, y) \<Longrightarrow>
      eqm (modulus (curve_p s)) (fe_val (MULT_POINT_Y (snd r))) y \<or>
      eqm (modulus (curve_p s)) (fe_val (MULT_POINT_Y (snd r))) (- y)"
    and "quasi_reduced (curve_p s) (MULT_POINT_Y (snd r))"
    and "fe_val (MULT_POINT_Y (snd r)) \<noteq> modulus (curve_p s) \<Longrightarrow> odd (fe_val (MULT_POINT_Y (snd r))) \<longleftrightarrow> sign"
    and "MULT_POINT_X (snd r) = sb_fe_mod_reduce (MULT_POINT_X c) (curve_p s)"
proof -
  let ?p = "curve_p s" and ?P = "modulus (curve_p s)"
  note C = curve_okD [OF ok]
  define xr where "xr = sb_fe_mod_reduce (MULT_POINT_X c) ?p"
  define d where "d = sb_sw_curve_y2 (c\<lparr>MULT_POINT_X := xr, C_X1 := xr\<rparr>) s"
  have xr: "fe_val xr = qrep ?P x" "quasi_reduced ?p xr"
    using sb_fe_mod_reduce_p [OF ok] by (simp_all add: xr_def x_def)
  have d: "fe_val (C_Y1 d) = qrep ?P (curve_rhs s x)" "quasi_reduced ?p (C_Y1 d)" "MULT_POINT_X d = xr"
    using sb_sw_curve_y2_val [OF ok, of "c\<lparr>MULT_POINT_X := xr, C_X1 := xr\<rparr>"] xr
      curve_rhs_cong [of "qrep ?P x" s x]
    by (simp_all add: d_def qrep_eq_iff) (simp add: sb_sw_curve_y2_def Let_def)
  obtain rv y1 t5 t6 t7 t8 where
    sq: "sb_fe_mod_sqrt (C_Y1 d) (C_T5 d) (C_T6 d) (C_T7 d) ?p = (rv, y1, t5, t6, t7, t8)"
    by (metis prod_cases6)
  note root = sb_fe_mod_sqrt_power [OF C(1) d(2) C(8,9) sq]
  define m where "m = (odd (fe_val y1) \<noteq> sign)"
  have tb: "sb_fe_test_bit y1 0 XOR of_bool sign = of_bool m"
    by (simp add: sb_fe_test_bit_val m_def bit_zero_odd)
  have r: "fst r = of_bool (x < ?P \<and> rv)"
    "MULT_POINT_Y (snd r) = (if m then sb_fe_mod_negate y1 ?p else y1)"
    "MULT_POINT_X (snd r) = xr"
    by (simp_all add: r_def sb_sw_point_decompress_def Let_def sq tb sb_fe_ctswap_if
        sb_fe_lt_val flag_simps x_def d(3) flip: xr_def d_def)
  show "MULT_POINT_X (snd r) = sb_fe_mod_reduce (MULT_POINT_X c) (curve_p s)"
    using r(3) by (simp add: xr_def)
  have on: "curve_on s (x, y) \<longleftrightarrow> (y * y) mod ?P = fe_val (C_Y1 d) mod ?P" for y
    by (simp add: curve_on_rhs d(1))
  show q: "quasi_reduced ?p (MULT_POINT_Y (snd r))"
    using root(2) by (simp add: r(2) quasi_reduced_ops)
  have neg: "fe_val (sb_fe_mod_negate y1 ?p) = qrep ?P (- fe_val y1)"
    by (rule sb_fe_mod_negate_val [OF root(2)])
  have pm: "eqm ?P (fe_val (MULT_POINT_Y (snd r))) (if m then - fe_val y1 else fe_val y1)"
    by (simp add: r(2) neg eqm_mod)
  then have "eqm ?P (fe_val (MULT_POINT_Y (snd r)) * fe_val (MULT_POINT_Y (snd r))) (fe_val y1 * fe_val y1)"
    using eqm_mult [OF pm pm] by (cases m) simp_all
  then show "fst r = of_bool (x < ?P \<and> curve_on s (x, fe_val (MULT_POINT_Y (snd r))))"
    using root(1) by (simp add: r(1) on eqm_mod)
  show "eqm ?P (fe_val (MULT_POINT_Y (snd r))) y \<or> eqm ?P (fe_val (MULT_POINT_Y (snd r))) (- y)"
    if e: "euler_at ?P y" and y: "curve_on s (x, y)"
  proof -
    have "fe_val (C_Y1 d) mod ?P = (y * y) mod ?P" using y on by simp
    from euler_sqrt [OF e C(8) this] have "eqm ?P (fe_val y1) y \<or> eqm ?P (fe_val y1) (- y)"
      by (simp add: eqm_mod root(3))
    then show ?thesis
      using pm eqm_trans eqm_minus [of ?P "fe_val y1" y] eqm_minus [of ?P "fe_val y1" "- y"]
      by (cases m) (simp_all, blast+)
  qed
  assume nP: "fe_val (MULT_POINT_Y (snd r)) \<noteq> ?P"
  have b: "1 \<le> fe_val y1" "fe_val y1 \<le> ?P" using root(2) by (simp_all add: quasi_reduced_def)
  show "odd (fe_val (MULT_POINT_Y (snd r))) \<longleftrightarrow> sign"
  proof (cases m)
    case True
    have "fe_val y1 \<noteq> ?P"
      using nP True neg by (auto simp: r(2) qrep_def)
    then have "qrep ?P (- fe_val y1) = ?P - fe_val y1"
      using b by (intro qrep_eqI [symmetric]) simp_all
    then show ?thesis
      using True prime_field_okD(2) [OF C(1)] by (simp add: r(2) neg m_def)
  next
    case False
    then show ?thesis by (simp add: r(2) m_def)
  qed
qed

text \<open>
  Decompressing the abscissa and the sign of a valid point gives the point back, as does
  every decompression that succeeds modulo a prime: there the congruence of Euler holds for
  the ordinate of every valid point.
\<close>

lemma decompress_valid_point:
  fixes c :: sb_sw_context
  assumes ok: "curve_ok s" and e: "euler_at (modulus (curve_p s)) y"
    and v: "valid_point s (fe_val (MULT_POINT_X c)) y"
  defines "r \<equiv> sb_sw_point_decompress c (of_bool (odd y)) s"
  shows "fst r = 1" "fe_val (MULT_POINT_Y (snd r)) = y"
proof -
  let ?P = "modulus (curve_p s)" and ?Y = "fe_val (MULT_POINT_Y (snd r))"
  note d = sb_sw_point_decompress_val [OF ok, where c = c and sign = "odd y", folded r_def]
  from v have y: "0 < y" "y < ?P" and on: "curve_on s (fe_val (MULT_POINT_X c), y)"
    and x: "fe_val (MULT_POINT_X c) < ?P"
    by (simp_all add: valid_point_def)
  have Y: "1 \<le> ?Y" "?Y \<le> ?P" using d(3) by (simp_all add: quasi_reduced_def)
  from d(2) [OF e on] show "?Y = y"
  proof
    assume "eqm ?P ?Y y"
    with Y y show ?thesis by (intro quasi_reduced_eqm) auto
  next
    assume "eqm ?P ?Y (- y)"
    moreover have "eqm ?P (- y) (?P - y)" by (simp add: eqm_def)
    ultimately have "?Y = ?P - y"
      using Y y by (intro quasi_reduced_eqm) (auto intro: eqm_trans)
    with d(4) y prime_field_okD(2) [OF curve_okD(1) [OF ok]] show ?thesis by simp
  qed
  with d(1) x on show "fst r = 1" by simp
qed

subsection \<open>Candidate selection\<close>

text \<open>The first valid element, or the last one when none is valid.\<close>

definition first_valid :: "('a \<Rightarrow> bool) \<Rightarrow> 'a list \<Rightarrow> 'a" where
  "first_valid v xs = (case find v xs of Some x \<Rightarrow> x | None \<Rightarrow> last xs)"

lemma foldl_first_valid:
  "foldl (\<lambda>z c. if v z then z else c) z cs = first_valid v (z # cs)"
  by (induction cs arbitrary: z) (auto simp: first_valid_def split: option.split)

lemma first_valid_iff: "xs \<noteq> [] \<Longrightarrow> v (first_valid v xs) \<longleftrightarrow> (\<exists>x \<in> set xs. v x)"
  by (auto simp: first_valid_def find_Some_iff find_None_iff split: option.splits)

definition scalar_valid :: "sb_sw_curve \<Rightarrow> sb_fe \<Rightarrow> bool" where
  "scalar_valid s k \<longleftrightarrow> 0 < fe_val k \<and> fe_val k < modulus (curve_n s)"

definition z_valid :: "sb_sw_curve \<Rightarrow> sb_fe \<Rightarrow> bool" where
  "z_valid s z \<longleftrightarrow> 0 < fe_val z \<and> fe_val z < modulus (curve_p s)"

lemma reduce_valid:
  "curve_ok s \<Longrightarrow> scalar_valid s k \<Longrightarrow> sb_fe_mod_reduce k (curve_n s) = k"
  "curve_ok s \<Longrightarrow> z_valid s z \<Longrightarrow> sb_fe_mod_reduce z (curve_p s) = z"
  using sb_sw_scalar_validate_val(2) [of s k] sb_sw_z_validate_val(2) [of s z]
  by (auto simp: scalar_valid_def z_valid_def qrep_self simp flip: fe_val_inject)

definition z_candidates :: "sb_sw_context \<Rightarrow> sb_data_endian \<Rightarrow> sb_fe list" where
  "z_candidates ctx e = map (\<lambda>i. sb_fe_from_bytes (buf_elem (gen_buf ctx) i) e) [0..<SB_SW_FIPS186_4_CANDIDATES]"

definition k_candidates :: "bool \<Rightarrow> sb_sw_context \<Rightarrow> sb_data_endian \<Rightarrow> sb_fe list" where
  "k_candidates fips ctx e = map (\<lambda>i. k_candidate fips (buf_elem (gen_buf ctx) i) e) [0..<SB_SW_FIPS186_4_CANDIDATES]"

lemma z_candidate_step_val:
  assumes "curve_ok s"
  shows "MULT_Z (z_candidate_step s e i ctx) =
      (if z_valid s (MULT_Z ctx) then MULT_Z ctx else sb_fe_from_bytes (buf_elem (gen_buf ctx) i) e)"
    and "gen_buf (z_candidate_step s e i ctx) = gen_buf ctx" "MULT_K (z_candidate_step s e i ctx) = MULT_K ctx"
  by (simp_all add: z_candidate_step_def sb_sw_z_validate_val [OF assms] Let_def flag_simps sb_fe_ctswap_if
      reduce_valid assms flip: z_valid_def)

lemma k_candidate_step_val:
  assumes "curve_ok s"
  shows "MULT_K (k_candidate_step f s e i ctx) =
      (if scalar_valid s (MULT_K ctx) then MULT_K ctx else k_candidate f (buf_elem (gen_buf ctx) i) e)"
    and "gen_buf (k_candidate_step f s e i ctx) = gen_buf ctx"
  by (simp_all add: k_candidate_step_def sb_sw_scalar_validate_val [OF assms] Let_def flag_simps sb_fe_ctswap_if
      reduce_valid assms flip: scalar_valid_def)

lemma fold_z_candidate_step:
  assumes "curve_ok s"
  shows "MULT_Z (fold (z_candidate_step s e) is ctx) =
      first_valid (z_valid s) (MULT_Z ctx # map (\<lambda>i. sb_fe_from_bytes (buf_elem (gen_buf ctx) i) e) is)"
    and "gen_buf (fold (z_candidate_step s e) is ctx) = gen_buf ctx"
    and "MULT_K (fold (z_candidate_step s e) is ctx) = MULT_K ctx"
  by (induction "is" arbitrary: ctx)
    (simp_all add: z_candidate_step_val [OF assms] flip: foldl_first_valid)

lemma fold_k_candidate_step:
  assumes "curve_ok s"
  shows "MULT_K (fold (k_candidate_step f s e) is ctx) =
      first_valid (scalar_valid s) (MULT_K ctx # map (\<lambda>i. k_candidate f (buf_elem (gen_buf ctx) i) e) is)"
    and "gen_buf (fold (k_candidate_step f s e) is ctx) = gen_buf ctx"
  by (induction "is" arbitrary: ctx)
    (simp_all add: k_candidate_step_val [OF assms] flip: foldl_first_valid)

lemma candidates_upt: "[0..<SB_SW_FIPS186_4_CANDIDATES] = 0 # [1..<SB_SW_FIPS186_4_CANDIDATES]"
  by (simp add: SB_SW_FIPS186_4_CANDIDATES_def SB_SW_CONTEXT_PARAM_BUF_ELEMS_def upt_conv_Cons)

text \<open>Both routines select the first valid candidate, and fail exactly when there is none.\<close>

lemma sb_sw_z_from_buf_val:
  assumes ok: "curve_ok s" and r: "sb_sw_z_from_buf ctx s e = (err, ctx')"
  shows "err = (if \<exists>z \<in> set (z_candidates ctx e). z_valid s z then SB_SUCCESS else SB_ERROR_DRBG_FAILURE)"
    and "err = SB_SUCCESS \<Longrightarrow> find (z_valid s) (z_candidates ctx e) = Some (MULT_Z ctx')"
    and "quasi_reduced (curve_p s) (MULT_Z ctx')" "MULT_K ctx' = MULT_K ctx"
proof -
  let ?z = "first_valid (z_valid s) (z_candidates ctx e)"
  have ne: "z_candidates ctx e \<noteq> []"
    by (simp add: z_candidates_def candidates_upt)
  have res: "err = (if z_valid s ?z then SB_SUCCESS else SB_ERROR_DRBG_FAILURE)"
    "MULT_Z ctx' = sb_fe_mod_reduce ?z (curve_p s)" "MULT_K ctx' = MULT_K ctx"
    using r by (auto simp: sb_sw_z_from_buf_def fold_z_candidate_step [OF ok] sb_sw_z_validate_val [OF ok]
        z_candidates_def candidates_upt Let_def sb_error_if_eq flag_simps SB_SUCCESS_def simp flip: z_valid_def)
  then show "err = (if \<exists>z \<in> set (z_candidates ctx e). z_valid s z then SB_SUCCESS else SB_ERROR_DRBG_FAILURE)"
    "MULT_K ctx' = MULT_K ctx"
    by (simp_all add: first_valid_iff [OF ne])
  show "quasi_reduced (curve_p s) (MULT_Z ctx')"
    unfolding res(2) by (rule sb_fe_mod_reduce_p(2) [OF ok])
  assume "err = SB_SUCCESS"
  then have "z_valid s ?z" using res(1) by (auto split: if_splits)
  then show "find (z_valid s) (z_candidates ctx e) = Some (MULT_Z ctx')"
    unfolding res(2) reduce_valid(2) [OF ok \<open>z_valid s ?z\<close>] using first_valid_iff [OF ne, of "z_valid s"]
    by (auto simp: first_valid_def find_None_iff split: option.splits)
qed

lemma sb_sw_k_from_buf_val:
  assumes ok: "curve_ok s" and r: "sb_sw_k_from_buf ctx f s e = (err, ctx')"
  shows "err = (if \<exists>k \<in> set (k_candidates f ctx e). scalar_valid s k then SB_SUCCESS else SB_ERROR_DRBG_FAILURE)"
    and "err = SB_SUCCESS \<Longrightarrow> find (scalar_valid s) (k_candidates f ctx e) = Some (MULT_K ctx')"
    and "err = SB_SUCCESS \<Longrightarrow> scalar_valid s (MULT_K ctx')"
    and "gen_buf ctx' = gen_buf ctx"
proof -
  let ?k = "first_valid (scalar_valid s) (k_candidates f ctx e)"
  have ne: "k_candidates f ctx e \<noteq> []"
    by (simp add: k_candidates_def candidates_upt)
  have res: "err = (if scalar_valid s ?k then SB_SUCCESS else SB_ERROR_DRBG_FAILURE)"
    "MULT_K ctx' = sb_fe_mod_reduce ?k (curve_n s)" "gen_buf ctx' = gen_buf ctx"
    using r by (auto simp: sb_sw_k_from_buf_def fold_k_candidate_step [OF ok] sb_sw_scalar_validate_val [OF ok]
        k_candidates_def candidates_upt Let_def sb_error_if_eq flag_simps SB_SUCCESS_def simp flip: scalar_valid_def)
  then show "err = (if \<exists>k \<in> set (k_candidates f ctx e). scalar_valid s k then SB_SUCCESS else SB_ERROR_DRBG_FAILURE)"
    "gen_buf ctx' = gen_buf ctx"
    by (simp_all add: first_valid_iff [OF ne])
  assume "err = SB_SUCCESS"
  then have v: "scalar_valid s ?k" using res(1) by (auto split: if_splits)
  then show "find (scalar_valid s) (k_candidates f ctx e) = Some (MULT_K ctx')"
    unfolding res(2) reduce_valid(1) [OF ok v] using first_valid_iff [OF ne, of "scalar_valid s"]
    by (auto simp: first_valid_def find_None_iff split: option.splits)
  show "scalar_valid s (MULT_K ctx')"
    unfolding res(2) reduce_valid(1) [OF ok v] by (rule v)
qed

subsection \<open>Blinded inversion\<close>

text \<open>
  \<open>C_T6\<close> receives the inverse of \<open>MULT_Z\<close> in the Montgomery domain: blinding cancels.
\<close>

lemma sb_sw_invert_field_element_val:
  fixes ctx :: sb_sw_context
  assumes ok: "curve_ok s" and k: "scalar_valid s (MULT_K ctx)" and z: "scalar_valid s (MULT_Z ctx)"
    and f: "fermat_at (modulus (curve_n s)) (fe_val (MULT_K ctx) * fe_val (MULT_Z ctx))"
  defines "ctx' \<equiv> sb_sw_invert_field_element ctx s"
  shows "(mval (curve_n s) (C_T6 ctx') * fe_val (MULT_Z ctx)) mod modulus (curve_n s) = 1"
    and "quasi_reduced (curve_n s) (C_T6 ctx')"
    and "MULT_Z ctx' = MULT_Z ctx" "use_0 ctx' = use_0 ctx" "use_2 ctx' = use_2 ctx"
proof -
  let ?n = "curve_n s" and ?N = "modulus (curve_n s)" and ?v = "mval (curve_n s)"
  note C = curve_okD [OF ok]
  let ?k = "fe_val (MULT_K ctx)" and ?z = "fe_val (MULT_Z ctx)"
  have q: "quasi_reduced ?n (MULT_K ctx)" "quasi_reduced ?n (MULT_Z ctx)"
    using k z by (simp_all add: scalar_valid_def quasi_reduced_def)
  define x where "x = sb_fe_mont_convert (MULT_K ctx) ?n"
  define y where "y = sb_fe_mont_convert (MULT_Z ctx) ?n"
  define w where "w = sb_fe_mont_mult x y ?n"
  have x: "?v x = ?k" "quasi_reduced ?n x" and y: "?v y = ?z" "quasi_reduced ?n y"
    using sb_fe_mont_convert_val [OF C(2) q(1)] sb_fe_mont_convert_val [OF C(2) q(2)] k z
    by (simp_all add: x_def y_def scalar_valid_def)
  have w: "?v w = (?k * ?z) mod ?N" "quasi_reduced ?n w"
    using x y by (auto simp: w_def mval_mont_mult C(4))
  obtain t3 i t2 t3' where inv: "sb_fe_mod_inv_r w ?n t3 = (i, t2, t3')" and
    t6: "C_T6 ctx' = sb_fe_mont_mult i x ?n" and
    fr: "MULT_Z ctx' = MULT_Z ctx" "use_0 ctx' = use_0 ctx" "use_2 ctx' = use_2 ctx"
  proof -
    obtain i t2 t3' where e: "sb_fe_mod_inv_r w ?n (C_T7 ctx) = (i, t2, t3')"
      by (metis prod_cases3)
    from that [OF e] show thesis
      by (simp add: ctx'_def sb_sw_invert_field_element_def Let_def e flip: x_def y_def w_def)
  qed
  have i: "(?v i * ?v w) mod ?N = 1" "quasi_reduced ?n i"
    using sb_fe_mod_inv_r_inverse [OF C(2) w(2), of t3] sb_fe_mod_inv_r_val(2) [OF C(2) w(2), of t3] f
    by (simp_all add: inv w(1) mult.commute)
  have "?v (C_T6 ctx') = (?v i * ?k) mod ?N"
    by (simp add: t6 mval_mont_mult C(4) i x)
  then have "(?v (C_T6 ctx') * ?z) mod ?N = (?v i * (?k * ?z mod ?N)) mod ?N"
    by (simp add: mod_mult_left_eq mod_mult_right_eq mult.assoc)
  also have "\<dots> = 1"
    using i(1) by (simp add: w(1))
  finally show "(?v (C_T6 ctx') * ?z) mod ?N = 1" .
  show "quasi_reduced ?n (C_T6 ctx')"
    unfolding t6 by (rule mont_qr [OF C(4) i(2) x(2)])
  show "MULT_Z ctx' = MULT_Z ctx" "use_0 ctx' = use_0 ctx" "use_2 ctx' = use_2 ctx"
    by (fact fr)+
qed

end
