(* ===== verification/Sign_Verify.thy ===== *)
theory Sign_Verify
  imports Point_Mult Validation
begin

text \<open>
  The signing and verification operations of \<open>sb_sw_lib.c\<close> below the public interface:
  starting them, their stages, and the ECDSA equations that the stages compute.
\<close>

subsection \<open>Signing\<close>

definition sb_sw_sign_start :: "sb_sw_context \<Rightarrow> sb_sw_curve \<Rightarrow> sb_sw_context" where
  "sb_sw_sign_start g s =
     (let g = g\<lparr>MULT_POINT_X := pair_x (g_r s), MULT_POINT_Y := pair_y (g_r s)\<rparr>;
          g = set_MULT_STATE g (saved_state_zero
                \<lparr>st_operation := SB_SW_INCREMENTAL_OPERATION_SIGN_MESSAGE_DIGEST,
                 st_curve_id := curve_id s\<rparr>)
      in sb_sw_point_mult_start g s)"

definition sb_sw_sign_is_finished :: "sb_sw_context \<Rightarrow> bool" where
  "sb_sw_sign_is_finished g \<longleftrightarrow> st_stage (MULT_STATE g) = SB_SW_SIGN_OP_STAGE_DONE"

text \<open>The inversion stage leaves \<open>(r, s)\<close> in \<open>C_X2\<close> and \<open>C_Y2\<close>.\<close>

definition sign_inv :: "sb_sw_context \<Rightarrow> sb_sw_curve \<Rightarrow> sb_error \<times> sb_sw_context" where
  "sign_inv g s =
     (let err = SB_SUCCESS; n = curve_n s;
          g = g\<lparr>C_X2 := C_X1 g\<rparr>;
          g = g\<lparr>C_X2 := sb_fe_mod_reduce (C_X2 g) n\<rparr>;
          err = err OR sb_error_if SB_ERROR_DRBG_FAILURE (sb_fe_equal (C_X2 g) (prime_p n) \<noteq> 0);
          g = g\<lparr>C_T7 := sb_fe_mont_convert (MULT_K g) n\<rparr>;
          (t7, t5, t6) = sb_fe_mod_inv_r (C_T7 g) n (C_T6 g);
          g = g\<lparr>C_T7 := t7, C_T5 := t5, C_T6 := t6\<rparr>;
          g = g\<lparr>C_T6 := sb_fe_mont_convert (SIGN_PRIVATE g) n\<rparr>;
          g = g\<lparr>C_T5 := sb_fe_mont_mult (C_X2 g) (C_T6 g) n\<rparr>;
          g = g\<lparr>C_T5 := sb_fe_mod_add (C_T5 g) (SIGN_MESSAGE g) n\<rparr>;
          g = g\<lparr>C_Y2 := sb_fe_mont_mult (C_T5 g) (C_T7 g) n\<rparr>;
          err = err OR sb_error_if SB_ERROR_DRBG_FAILURE (sb_fe_equal (C_Y2 g) (prime_p n) \<noteq> 0)
      in (err, g))"

definition sb_sw_sign_continue ::
  "sb_sw_context \<Rightarrow> sb_sw_curve \<Rightarrow> sb_error \<times> bool \<times> sb_sw_context" where
  "sb_sw_sign_continue g s =
     (let stage = st_stage (MULT_STATE g) in
      if stage = SB_SW_SIGN_OP_STAGE_DONE then (SB_SUCCESS, True, g)
      else if stage = SB_SW_SIGN_OP_STAGE_INV then
        let state = MULT_STATE g;
            (err, g) = sign_inv g s;
            state = state\<lparr>st_stage := SB_SW_SIGN_OP_STAGE_DONE\<rparr>
        in (err, True, set_MULT_STATE g state)
      else
        let (fin, g) = sb_sw_point_mult_continue g s
        in (SB_SUCCESS, False, g))"

subsection \<open>Verification\<close>

text \<open>
  C leaves the members of the inner union that \<open>res\<close> does not cover unspecified; they are
  zero here, and verification never reads them.
\<close>

definition sb_sw_verify_start :: "sb_sw_context \<Rightarrow> sb_sw_curve \<Rightarrow> sb_sw_context" where
  "sb_sw_verify_start v s =
     set_MULT_STATE v (saved_state_zero
       \<lparr>st_operation := SB_SW_INCREMENTAL_OPERATION_VERIFY_SIGNATURE,
        st_stage := SB_SW_VERIFY_OP_STAGE_INV_S, st_res := 1, st_curve_id := curve_id s\<rparr>)"

definition verify_inv_s :: "sb_word \<Rightarrow> sb_sw_context \<Rightarrow> sb_sw_curve \<Rightarrow> sb_word \<times> sb_sw_context" where
  "verify_inv_s res v s =
     (let n = curve_n s;
          (rv, qr) = sb_sw_scalar_validate (VERIFY_QR v) s;
          res = res AND rv;
          v = v\<lparr>VERIFY_QR := qr\<rparr>;
          (sv, qs) = sb_sw_scalar_validate (VERIFY_QS v) s;
          res = res AND sv;
          v = v\<lparr>VERIFY_QS := qs\<rparr>;
          v = v\<lparr>VERIFY_MESSAGE := sb_fe_mod_reduce (VERIFY_MESSAGE v) n\<rparr>;
          res = res AND word_not (sb_fe_equal (VERIFY_MESSAGE v) (prime_p n));
          v = v\<lparr>C_T5 := sb_fe_mont_convert (VERIFY_QS v) n\<rparr>;
          (t5, t6, t7) = sb_fe_mod_inv_r (C_T5 v) n (C_T7 v);
          v = v\<lparr>C_T5 := t5, C_T6 := t6, C_T7 := t7\<rparr>;
          v = v\<lparr>C_T6 := VERIFY_MESSAGE v\<rparr>;
          v = v\<lparr>MULT_ADD_KG := sb_fe_mont_mult (C_T6 v) (C_T5 v) n\<rparr>;
          v = v\<lparr>MULT_K := sb_fe_mont_mult (VERIFY_QR v) (C_T5 v) n\<rparr>
      in (res, v))"

definition verify_test :: "sb_word \<Rightarrow> sb_sw_context \<Rightarrow> sb_sw_curve \<Rightarrow> sb_word \<times> sb_sw_context" where
  "verify_test res v s =
     (let p = curve_p s;
          res = res AND word_not (sb_fe_equal (C_X1 v) (prime_p p) AND sb_fe_equal (C_Y1 v) (prime_p p));
          ver = 0;
          v = v\<lparr>C_T6 := sb_fe_mont_square (MULT_Z v) p\<rparr>;
          v = v\<lparr>C_T7 := sb_fe_mont_mult (VERIFY_QR v) (C_T6 v) p\<rparr>;
          ver = ver OR sb_fe_equal (C_T7 v) (C_X1 v);
          v = v\<lparr>C_T5 := sb_fe_mod_add (VERIFY_QR v) (prime_p (curve_n s)) p\<rparr>;
          v = v\<lparr>C_T7 := sb_fe_mont_mult (C_T5 v) (C_T6 v) p\<rparr>;
          v = v\<lparr>C_T5 := fst (sb_fe_sub (prime_p p) (prime_p (curve_n s)))\<rparr>;
          ver = ver OR (sb_fe_lt (VERIFY_QR v) (C_T5 v) AND sb_fe_equal (C_T7 v) (C_X1 v));
          res = res AND ver
      in (res, v))"

definition sb_sw_verify_continue :: "sb_sw_context \<Rightarrow> sb_sw_curve \<Rightarrow> bool \<times> sb_sw_context" where
  "sb_sw_verify_continue v s =
     (let state = MULT_STATE v in
      if st_stage state = SB_SW_VERIFY_OP_STAGE_INV_S then
        let (res, v) = verify_inv_s (st_res state) v s;
            state = state\<lparr>st_res := res, st_stage := SB_SW_VERIFY_OP_STAGE_INV_Z\<rparr>
        in (False, set_MULT_STATE v state)
      else if st_stage state = SB_SW_VERIFY_OP_STAGE_INV_Z \<or> st_stage state = SB_SW_VERIFY_OP_STAGE_LADDER then
        let (fin, v) = sb_sw_point_mult_add_z_continue v s
        in (False, v)
      else if st_stage state = SB_SW_VERIFY_OP_STAGE_TEST then
        let (res, v) = verify_test (st_res state) v s;
            state = state\<lparr>st_res := res, st_stage := SB_SW_VERIFY_OP_DONE\<rparr>
        in (True, set_MULT_STATE v state)
      else (st_stage state = SB_SW_VERIFY_OP_DONE, v))"

definition sb_sw_verify_is_finished :: "sb_sw_context \<Rightarrow> bool" where
  "sb_sw_verify_is_finished v \<longleftrightarrow> st_stage (MULT_STATE v) = SB_SW_VERIFY_OP_DONE"

subsection \<open>Progress\<close>

definition sign_left :: "sb_sw_saved_state \<Rightarrow> nat" where
  "sign_left st =
     (if st_stage st = SB_SW_SIGN_OP_STAGE_DONE then 0
      else if st_stage st = SB_SW_SIGN_OP_STAGE_INV then 1
      else Suc (point_mult_left st))"

definition sign_stage_ok :: "sb_sw_saved_state \<Rightarrow> bool" where
  "sign_stage_ok st \<longleftrightarrow> st_stage st \<in> {SB_SW_POINT_MULT_OP_STAGE_LADDER,
     SB_SW_POINT_MULT_OP_STAGE_INV_Z, SB_SW_SIGN_OP_STAGE_INV, SB_SW_SIGN_OP_STAGE_DONE}"

lemma sb_sw_sign_continue_state:
  assumes r: "sb_sw_sign_continue g s = (err, fin, g')"
  shows "st_operation (MULT_STATE g') = st_operation (MULT_STATE g)"
    and "st_curve_id (MULT_STATE g') = st_curve_id (MULT_STATE g)"
    and "sign_stage_ok (MULT_STATE g) \<Longrightarrow> sign_left (MULT_STATE g) = Suc n \<Longrightarrow>
      sign_left (MULT_STATE g') = n \<and> (fin \<longleftrightarrow> n = 0) \<and> sign_stage_ok (MULT_STATE g')"
proof -
  let ?st = "MULT_STATE g"
  obtain d m where c: "sb_sw_point_mult_continue g s = (d, m)" by fastforce
  obtain e h where i: "sign_inv g s = (e, h)" by fastforce
  have eq: "(err, fin, g') =
    (if st_stage ?st = SB_SW_SIGN_OP_STAGE_DONE then (SB_SUCCESS, True, g)
     else if st_stage ?st = SB_SW_SIGN_OP_STAGE_INV
     then (e, True, set_MULT_STATE h (?st\<lparr>st_stage := SB_SW_SIGN_OP_STAGE_DONE\<rparr>))
     else (SB_SUCCESS, False, m))"
    using r [symmetric] unfolding sb_sw_sign_continue_def Let_def c i prod.case .
  note m = sb_sw_point_mult_continue_state [OF c]
  show "st_operation (MULT_STATE g') = st_operation ?st" "st_curve_id (MULT_STATE g') = st_curve_id ?st"
    using eq m(1,2) by (auto split: if_splits)
  assume ok: "sign_stage_ok ?st" and n: "sign_left ?st = Suc n"
  show "sign_left (MULT_STATE g') = n \<and> (fin \<longleftrightarrow> n = 0) \<and> sign_stage_ok (MULT_STATE g')"
  proof (cases "st_stage ?st = SB_SW_SIGN_OP_STAGE_DONE \<or> st_stage ?st = SB_SW_SIGN_OP_STAGE_INV")
    case True
    with n eq show ?thesis
      by (auto simp: sign_left_def sign_stage_ok_def mult_stage_defs split: if_splits)
  next
    case False
    with ok n have l: "0 < point_mult_left ?st" "point_mult_left ?st = n"
      by (auto simp: sign_left_def sign_stage_ok_def point_mult_left_def)
    from m(3) [OF l(1)] l(2) False eq show ?thesis
      by (auto simp: sign_left_def sign_stage_ok_def mult_stage_defs point_mult_left_def split: if_splits)
  qed
qed

text \<open>The only error of a signing stage is the failure of the generator, found by the inversion stage.\<close>

lemma sb_sw_sign_continue_error:
  "fst (sb_sw_sign_continue g s) \<in> {SB_SUCCESS, SB_ERROR_DRBG_FAILURE}"
  by (simp add: sb_sw_sign_continue_def sign_inv_def Let_def case_prod_unfold sb_error_if_eq)
    (simp add: SB_SUCCESS_def)

definition verify_left :: "sb_sw_saved_state \<Rightarrow> nat" where
  "verify_left st =
     (if st_stage st = SB_SW_VERIFY_OP_DONE then 0
      else if st_stage st = SB_SW_VERIFY_OP_STAGE_TEST then 1
      else if st_stage st = SB_SW_VERIFY_OP_STAGE_LADDER
        then Suc (if st_i st < SB_FE_BITS then ladder_chunks (Suc (unat (st_i st))) else 1)
      else if st_stage st = SB_SW_VERIFY_OP_STAGE_INV_Z then 18 else 19)"

definition verify_stage_ok :: "sb_sw_saved_state \<Rightarrow> bool" where
  "verify_stage_ok st \<longleftrightarrow> st_stage st \<in> {SB_SW_VERIFY_OP_STAGE_INV_S, SB_SW_VERIFY_OP_STAGE_INV_Z,
     SB_SW_VERIFY_OP_STAGE_LADDER, SB_SW_VERIFY_OP_STAGE_TEST, SB_SW_VERIFY_OP_DONE}"

lemma sb_sw_verify_continue_state:
  assumes r: "sb_sw_verify_continue v s = (fin, v')"
  shows "st_operation (MULT_STATE v') = st_operation (MULT_STATE v)"
    and "st_curve_id (MULT_STATE v') = st_curve_id (MULT_STATE v)"
    and "verify_stage_ok (MULT_STATE v) \<Longrightarrow> verify_left (MULT_STATE v) = Suc n \<Longrightarrow>
      verify_left (MULT_STATE v') = n \<and> (fin \<longleftrightarrow> n = 0) \<and> verify_stage_ok (MULT_STATE v')"
proof -
  let ?st = "MULT_STATE v"
  obtain d m where c: "sb_sw_point_mult_add_z_continue v s = (d, m)" by fastforce
  obtain e h where i: "verify_inv_s (st_res ?st) v s = (e, h)" by fastforce
  obtain f k where t: "verify_test (st_res ?st) v s = (f, k)" by fastforce
  have eq: "(fin, v') =
    (if st_stage ?st = SB_SW_VERIFY_OP_STAGE_INV_S
     then (False, set_MULT_STATE h (?st\<lparr>st_res := e, st_stage := SB_SW_VERIFY_OP_STAGE_INV_Z\<rparr>))
     else if st_stage ?st = SB_SW_VERIFY_OP_STAGE_INV_Z \<or> st_stage ?st = SB_SW_VERIFY_OP_STAGE_LADDER
     then (False, m)
     else if st_stage ?st = SB_SW_VERIFY_OP_STAGE_TEST
     then (True, set_MULT_STATE k (?st\<lparr>st_res := f, st_stage := SB_SW_VERIFY_OP_DONE\<rparr>))
     else (st_stage ?st = SB_SW_VERIFY_OP_DONE, v))"
    using r [symmetric] unfolding sb_sw_verify_continue_def Let_def c i t prod.case .
  note m = sb_sw_point_mult_add_z_continue_state [OF c]
  show "st_operation (MULT_STATE v') = st_operation ?st" "st_curve_id (MULT_STATE v') = st_curve_id ?st"
    using eq m(1,2) by (auto split: if_splits)
  assume ok: "verify_stage_ok ?st" and n: "verify_left ?st = Suc n"
  show "verify_left (MULT_STATE v') = n \<and> (fin \<longleftrightarrow> n = 0) \<and> verify_stage_ok (MULT_STATE v')"
  proof (cases "st_stage ?st = SB_SW_VERIFY_OP_STAGE_LADDER")
    case False
    have "ladder_chunks 256 = 16" "SB_FE_BITS - 1 < SB_FE_BITS" "unat (SB_FE_BITS - 1) = 255"
      by (simp_all add: ladder_chunks_def SB_SW_POINT_ITERATIONS_def SB_FE_BITS_def)
    with False ok n eq m(3) show ?thesis
      by (auto simp: verify_left_def verify_stage_ok_def verify_stage_defs split: if_splits)
  next
    case L: True
    then have m': "v' = m" "\<not> fin"
      using eq by (auto simp: verify_stage_defs)
    show ?thesis
    proof (cases "st_i ?st < SB_FE_BITS \<and> SB_SW_POINT_ITERATIONS \<le> unat (st_i ?st)")
      case True
      then have s: "st_stage (MULT_STATE m) = SB_SW_VERIFY_OP_STAGE_LADDER" "st_i (MULT_STATE m) < SB_FE_BITS"
        "unat (st_i (MULT_STATE m)) = unat (st_i ?st) - SB_SW_POINT_ITERATIONS"
        using m(4) [OF L] by auto
      have "Suc (unat (st_i (MULT_STATE m))) = Suc (unat (st_i ?st)) - SB_SW_POINT_ITERATIONS"
        using True s(3) by (simp add: Suc_diff_le)
      with s(1,2) n True L m' show ?thesis
        using ladder_chunks_step(1) [of "Suc (unat (st_i ?st))"] ladder_chunks_step(3) [of "Suc (unat (st_i (MULT_STATE m)))"]
        by (auto simp: verify_left_def verify_stage_ok_def verify_stage_defs)
    next
      case False
      with m(5) [OF L] have "st_stage (MULT_STATE m) = SB_SW_VERIFY_OP_STAGE_TEST" by simp
      moreover have "st_i ?st < SB_FE_BITS \<Longrightarrow> ladder_chunks (Suc (unat (st_i ?st))) = 1"
        using False ladder_chunks_step(2,3) [of "Suc (unat (st_i ?st))"] by auto
      ultimately show ?thesis
        using n L m' by (auto simp: verify_left_def verify_stage_ok_def verify_stage_defs split: if_splits)
    qed
  qed
qed

subsection \<open>The ECDSA equations\<close>

text \<open>A product of a plain value and a Montgomery value is a plain value.\<close>

lemma mont_mult_fe_mval:
  assumes "mont_ok F" "quasi_reduced F x" "quasi_reduced F y"
  shows "fe_val (sb_fe_mont_mult x y F) mod modulus F = (fe_val x * mval F y) mod modulus F"
    and "fe_val (sb_fe_mont_mult x y F) mod modulus F = (mval F x * fe_val y) mod modulus F"
  by (simp_all add: sb_fe_mont_mult_val [OF assms] mval_def mod_mult_left_eq mod_mult_right_eq ac_simps)

text \<open>The inverse of a scalar, in the Montgomery domain.\<close>

lemma mont_inverse:
  assumes ok: "prime_field_ok F" and q: "quasi_reduced F k" and f: "fermat_at (modulus F) (fe_val k)"
    and i: "sb_fe_mod_inv_r (sb_fe_mont_convert k F) F t = (i, rest)"
  shows "(fe_val k * mval F i) mod modulus F = 1" "quasi_reduced F i"
proof -
  note c = sb_fe_mont_convert_val [OF ok q]
  show "quasi_reduced F i"
    using sb_fe_mod_inv_r_val(2) [OF ok c(3), of t] i by simp
  have "(mval F (sb_fe_mont_convert k F) * mval F i) mod modulus F = 1"
    using sb_fe_mod_inv_r_inverse [OF ok c(3), of t] f i by (simp add: c(2))
  then show "(fe_val k * mval F i) mod modulus F = 1"
    by (simp add: c(2) mod_mult_left_eq)
qed

lemma sign_inv_val:
  fixes g :: sb_sw_context
  assumes ok: "curve_ok s" and k: "scalar_valid s (MULT_K g)"
    and f: "fermat_at (modulus (curve_n s)) (fe_val (MULT_K g))"
    and d: "quasi_reduced (curve_n s) (SIGN_PRIVATE g)" and m: "quasi_reduced (curve_n s) (SIGN_MESSAGE g)"
    and r: "sign_inv g s = (err, g')"
  shows "fe_val (C_X2 g') = qrep (modulus (curve_n s)) (fe_val (C_X1 g))"
    and "(fe_val (MULT_K g) * fe_val (C_Y2 g')) mod modulus (curve_n s) =
      (fe_val (SIGN_MESSAGE g) + fe_val (C_X1 g) * fe_val (SIGN_PRIVATE g)) mod modulus (curve_n s)"
    and "err = (if scalar_valid s (C_X2 g') \<and> scalar_valid s (C_Y2 g') then SB_SUCCESS else SB_ERROR_DRBG_FAILURE)"
    and "quasi_reduced (curve_n s) (C_Y2 g')"
proof -
  let ?n = "curve_n s" and ?N = "modulus (curve_n s)" and ?v = "mval (curve_n s)"
  note C = curve_okD [OF ok]
  define x where "x = sb_fe_mod_reduce (C_X1 g) ?n"
  have x: "fe_val x = qrep ?N (fe_val (C_X1 g))" "quasi_reduced ?n x"
    using sb_sw_scalar_validate_val(2) [OF ok, of "C_X1 g"] C(6) by (auto simp: x_def intro: quasi_reduced_qrep)
  have qk: "quasi_reduced ?n (MULT_K g)"
    using k by (simp_all add: scalar_valid_def quasi_reduced_def)
  obtain i t5 t6 where inv: "sb_fe_mod_inv_r (sb_fe_mont_convert (MULT_K g) ?n) ?n (C_T6 g) = (i, t5, t6)"
    by (metis prod_cases3)
  note i = mont_inverse [OF C(2) qk f inv]
  define dr where "dr = sb_fe_mont_convert (SIGN_PRIVATE g) ?n"
  define u where "u = sb_fe_mod_add (sb_fe_mont_mult x dr ?n) (SIGN_MESSAGE g) ?n"
  define y where "y = sb_fe_mont_mult u i ?n"
  have dr: "?v dr = fe_val (SIGN_PRIVATE g) mod ?N" "quasi_reduced ?n dr"
    using sb_fe_mont_convert_val [OF C(2) d] by (simp_all add: dr_def)
  have qu: "quasi_reduced ?n u" "quasi_reduced ?n y"
    unfolding u_def y_def by (intro qr_intros C x dr m i)+
  have res: "C_X2 g' = x" "C_Y2 g' = y"
    "err = SB_SUCCESS OR sb_error_if SB_ERROR_DRBG_FAILURE (x = prime_p ?n) OR
      sb_error_if SB_ERROR_DRBG_FAILURE (y = prime_p ?n)"
    using r by (auto simp: sign_inv_def Let_def inv sb_fe_equal_iff or.assoc simp flip: x_def dr_def u_def y_def)
  show "fe_val (C_X2 g') = qrep ?N (fe_val (C_X1 g))" by (simp add: res x)
  have "fe_val u mod ?N = (fe_val (sb_fe_mont_mult x dr ?n) + fe_val (SIGN_MESSAGE g)) mod ?N"
    by (simp add: u_def sb_fe_mod_add_val mont_qr C x dr m)
  also have "\<dots> = (fe_val (SIGN_MESSAGE g) + fe_val (C_X1 g) * fe_val (SIGN_PRIVATE g)) mod ?N"
  proof -
    have "fe_val (sb_fe_mont_mult x dr ?n) mod ?N = (fe_val (C_X1 g) * fe_val (SIGN_PRIVATE g)) mod ?N"
      by (metis mont_mult_fe_mval(1) [OF C(4) x(2) dr(2)] dr(1) x(1) qrep_mod mod_mult_eq mod_mod_trivial)
    then show ?thesis by (metis add.commute mod_add_left_eq)
  qed
  finally have u: "fe_val u mod ?N = (fe_val (SIGN_MESSAGE g) + fe_val (C_X1 g) * fe_val (SIGN_PRIVATE g)) mod ?N" .
  have "fe_val y mod ?N = (fe_val u * ?v i) mod ?N"
    unfolding y_def by (rule mont_mult_fe_mval(1) [OF C(4) qu(1) i(2)])
  then have "(fe_val (MULT_K g) * fe_val y) mod ?N = (fe_val (MULT_K g) * (fe_val u * ?v i)) mod ?N"
    by (metis mod_mult_right_eq)
  also have "\<dots> = (fe_val u * ((fe_val (MULT_K g) * ?v i) mod ?N)) mod ?N"
    by (simp add: mod_mult_right_eq ac_simps)
  finally show "(fe_val (MULT_K g) * fe_val (C_Y2 g')) mod ?N =
      (fe_val (SIGN_MESSAGE g) + fe_val (C_X1 g) * fe_val (SIGN_PRIVATE g)) mod ?N"
    by (simp add: res i(1) u)
  have "scalar_valid s z \<longleftrightarrow> z \<noteq> prime_p ?n" if "quasi_reduced ?n z" for z
    using that by (auto simp: scalar_valid_def quasi_reduced_def simp flip: fe_val_inject)
  then show "err = (if scalar_valid s (C_X2 g') \<and> scalar_valid s (C_Y2 g') then SB_SUCCESS else SB_ERROR_DRBG_FAILURE)"
    using x(2) qu(2) by (auto simp: res sb_error_if_eq SB_SUCCESS_def)
  show "quasi_reduced ?n (C_Y2 g')" by (simp add: res qu(2))
qed

lemma verify_inv_s_val:
  fixes v :: sb_sw_context
  assumes ok: "curve_ok s" and r: "verify_inv_s res v s = (res', v')"
  shows "res' = res AND of_bool (scalar_valid s (VERIFY_QR v) \<and> scalar_valid s (VERIFY_QS v) \<and>
      fe_val (VERIFY_MESSAGE v) mod modulus (curve_n s) \<noteq> 0)"
    and "fermat_at (modulus (curve_n s)) (fe_val (VERIFY_QS v)) \<Longrightarrow>
      scalar_valid s (VERIFY_QR v) \<Longrightarrow> scalar_valid s (VERIFY_QS v) \<Longrightarrow>
      (fe_val (MULT_ADD_KG v') * fe_val (VERIFY_QS v)) mod modulus (curve_n s) =
        fe_val (VERIFY_MESSAGE v) mod modulus (curve_n s) \<and>
      (fe_val (MULT_K v') * fe_val (VERIFY_QS v)) mod modulus (curve_n s) = fe_val (VERIFY_QR v) \<and>
      VERIFY_QR v' = VERIFY_QR v"
proof -
  let ?n = "curve_n s" and ?N = "modulus (curve_n s)" and ?v = "mval (curve_n s)"
  note C = curve_okD [OF ok]
  define qr qs ms where "qr = sb_fe_mod_reduce (VERIFY_QR v) ?n" and "qs = sb_fe_mod_reduce (VERIFY_QS v) ?n"
    and "ms = sb_fe_mod_reduce (VERIFY_MESSAGE v) ?n"
  have vals: "fe_val qr = qrep ?N (fe_val (VERIFY_QR v))" "fe_val qs = qrep ?N (fe_val (VERIFY_QS v))"
    "fe_val ms = qrep ?N (fe_val (VERIFY_MESSAGE v))"
    using sb_sw_scalar_validate_val(2) [OF ok] by (simp_all add: qr_def qs_def ms_def)
  have N: "0 < ?N" using C(6) by simp
  then have q: "quasi_reduced ?n qr" "quasi_reduced ?n qs" "quasi_reduced ?n ms"
    using vals by (auto intro: quasi_reduced_qrep)
  obtain i t6 t7 where inv: "sb_fe_mod_inv_r (sb_fe_mont_convert qs ?n) ?n (C_T7 v) = (i, t6, t7)"
    by (metis prod_cases3)
  have res: "res' = res AND of_bool (scalar_valid s (VERIFY_QR v)) AND of_bool (scalar_valid s (VERIFY_QS v)) AND
      word_not (sb_fe_equal ms (prime_p ?n))"
    "MULT_ADD_KG v' = sb_fe_mont_mult ms i ?n" "MULT_K v' = sb_fe_mont_mult qr i ?n" "VERIFY_QR v' = qr"
    using r by (auto simp: verify_inv_s_def Let_def sb_sw_scalar_validate_val [OF ok] inv and.assoc
        simp flip: scalar_valid_def qr_def qs_def ms_def)
  have "sb_fe_equal ms (prime_p ?n) = of_bool (fe_val (VERIFY_MESSAGE v) mod ?N = 0)"
    by (simp add: sb_fe_equal_val vals qrep_eq_modulus N)
  then show "res' = res AND of_bool (scalar_valid s (VERIFY_QR v) \<and> scalar_valid s (VERIFY_QS v) \<and>
      fe_val (VERIFY_MESSAGE v) mod ?N \<noteq> 0)"
    by (simp add: res(1) flag_simps and.assoc)
  assume f: "fermat_at ?N (fe_val (VERIFY_QS v))" and vr: "scalar_valid s (VERIFY_QR v)" and vs: "scalar_valid s (VERIFY_QS v)"
  have eqs: "qr = VERIFY_QR v" "qs = VERIFY_QS v"
    by (simp_all add: qr_def qs_def reduce_valid(1) [OF ok] vr vs)
  note i = mont_inverse [OF C(2) q(2) f [folded eqs(2)] inv]
  have m: "(fe_val (sb_fe_mont_mult x i ?n) * fe_val qs) mod ?N = fe_val x mod ?N" if "quasi_reduced ?n x" for x
  proof -
    have "fe_val (sb_fe_mont_mult x i ?n) mod ?N = (fe_val x * ?v i) mod ?N"
      by (rule mont_mult_fe_mval(1) [OF C(4) that i(2)])
    then have "(fe_val (sb_fe_mont_mult x i ?n) * fe_val qs) mod ?N = (fe_val x * ?v i * fe_val qs) mod ?N"
      by (metis mod_mult_left_eq)
    also have "\<dots> = (fe_val x * ((fe_val qs * ?v i) mod ?N)) mod ?N"
      by (simp add: mod_mult_right_eq ac_simps)
    finally show ?thesis by (simp add: i(1))
  qed
  show "(fe_val (MULT_ADD_KG v') * fe_val (VERIFY_QS v)) mod ?N = fe_val (VERIFY_MESSAGE v) mod ?N \<and>
      (fe_val (MULT_K v') * fe_val (VERIFY_QS v)) mod ?N = fe_val (VERIFY_QR v) \<and> VERIFY_QR v' = VERIFY_QR v"
    using m [OF q(3)] m [OF q(1)] vr by (simp add: res eqs vals(3) scalar_valid_def)
qed

text \<open>
  The final comparison, for a computed point with abscissa \<open>x z\<^sup>2\<close>: it succeeds exactly when
  \<open>x mod N = r\<close>.
\<close>

lemma verify_test_val:
  fixes v :: sb_sw_context
  assumes ok: "curve_ok s" and r: "verify_test res v s = (res', v')"
    and qr: "scalar_valid s (VERIFY_QR v)" and q: "quasi_reduced (curve_p s) (C_X1 v)"
    and z: "quasi_reduced (curve_p s) (MULT_Z v)" "coprime (mval (curve_p s) (MULT_Z v)) (modulus (curve_p s))"
    and x: "0 \<le> x" "x < modulus (curve_p s)"
      "eqm (modulus (curve_p s)) (fe_val (C_X1 v)) (x * (mval (curve_p s) (MULT_Z v) * mval (curve_p s) (MULT_Z v)))"
  shows "res' = res AND of_bool (\<not> (C_X1 v = prime_p (curve_p s) \<and> C_Y1 v = prime_p (curve_p s)) \<and>
      x mod modulus (curve_n s) = fe_val (VERIFY_QR v))"
proof -
  let ?p = "curve_p s" and ?P = "modulus (curve_p s)" and ?N = "modulus (curve_n s)" and ?v = "mval (curve_p s)"
  let ?r = "fe_val (VERIFY_QR v)" and ?zz = "mval (curve_p s) (MULT_Z v) * mval (curve_p s) (MULT_Z v)"
  note C = curve_okD [OF ok]
  define t6 where "t6 = sb_fe_mont_square (MULT_Z v) ?p"
  define rN where "rN = sb_fe_mod_add (VERIFY_QR v) (prime_p (curve_n s)) ?p"
  have r0: "0 < ?r" "?r < ?N" using qr by (simp_all add: scalar_valid_def)
  have q0: "quasi_reduced ?p (VERIFY_QR v)" "quasi_reduced ?p (prime_p (curve_n s))"
    using r0 C(6,7) by (simp_all add: quasi_reduced_def)
  have t6: "?v t6 = ?zz mod ?P" "quasi_reduced ?p t6" and rN: "fe_val rN = qrep ?P (?r + ?N)" "quasi_reduced ?p rN"
    by (simp_all add: t6_def rN_def mval_mont_square C z mont_square_qr sb_fe_mod_add_val q0 qr_intros)
  have nz: "coprime ?P ?zz"
    using z(2) by (simp add: coprime_commute)
  have eqx: "sb_fe_mont_mult w t6 ?p = C_X1 v \<longleftrightarrow> eqm ?P (fe_val w) x"
    if w: "quasi_reduced ?p w" for w
  proof -
    have "fe_val (sb_fe_mont_mult w t6 ?p) mod ?P = (fe_val w * ?zz) mod ?P"
      by (metis mont_mult_fe_mval(1) [OF C(3) w t6(2)] t6(1) mod_mult_right_eq)
    then have "eqm ?P (fe_val (sb_fe_mont_mult w t6 ?p)) (fe_val (C_X1 v)) \<longleftrightarrow> eqm ?P (fe_val w * ?zz) (x * ?zz)"
      using x(3) by (simp add: eqm_mod)
    also have "\<dots> \<longleftrightarrow> eqm ?P (fe_val w) x"
      using nz by (simp add: eqm_def coprime_dvd_mult_left_iff flip: left_diff_distrib)
    finally have "eqm ?P (fe_val (sb_fe_mont_mult w t6 ?p)) (fe_val (C_X1 v)) \<longleftrightarrow> eqm ?P (fe_val w) x" .
    moreover have "sb_fe_mont_mult w t6 ?p = C_X1 v \<longleftrightarrow> eqm ?P (fe_val (sb_fe_mont_mult w t6 ?p)) (fe_val (C_X1 v))"
      using quasi_reduced_eqm mont_qr [OF C(3) w t6(2)] q
      by (auto simp: quasi_reduced_def simp flip: fe_val_inject)
    ultimately show ?thesis by blast
  qed
  have rNx: "eqm ?P (fe_val rN) x \<longleftrightarrow> eqm ?P (?r + ?N) x"
    by (simp add: eqm_mod rN(1))
  have PN: "fe_val (fst (sb_fe_sub (prime_p ?p) (prime_p (curve_n s)))) = ?P - ?N"
    using C(6,7) fe_val_bound [of "prime_p ?p"] by (simp add: sb_fe_sub_val mod_pos_pos_trivial)
  have "res' = res AND word_not (sb_fe_equal (C_X1 v) (prime_p ?p) AND sb_fe_equal (C_Y1 v) (prime_p ?p)) AND
      (0 OR sb_fe_equal (sb_fe_mont_mult (VERIFY_QR v) t6 ?p) (C_X1 v) OR
        (sb_fe_lt (VERIFY_QR v) (fst (sb_fe_sub (prime_p ?p) (prime_p (curve_n s)))) AND
         sb_fe_equal (sb_fe_mont_mult rN t6 ?p) (C_X1 v)))"
    using r by (auto simp: verify_test_def Let_def and.assoc simp flip: t6_def rN_def)
  also have "\<dots> = res AND of_bool (\<not> (C_X1 v = prime_p ?p \<and> C_Y1 v = prime_p ?p) \<and>
      (eqm ?P ?r x \<or> ?r < ?P - ?N \<and> eqm ?P (?r + ?N) x))"
    by (simp only: sb_fe_equal_iff eqx [OF q0(1)] eqx [OF rN(2)] rNx sb_fe_lt_val PN or.left_neutral
        flag_simps of_bool_or_word)
  also have "(eqm ?P ?r x \<or> ?r < ?P - ?N \<and> eqm ?P (?r + ?N) x) \<longleftrightarrow> x mod ?N = ?r"
  proof -
    have 1: "eqm ?P ?r x \<longleftrightarrow> x = ?r"
      using r0 C(7) x by (auto simp: eqm_mod)
    have 2: "?r < ?P - ?N \<Longrightarrow> eqm ?P (?r + ?N) x \<longleftrightarrow> x = ?r + ?N"
      using r0 x by (auto simp: eqm_mod)
    have "x mod ?N = (if x < ?N then x else x - ?N)"
      using x C(5,6) fe_val_bound [of "prime_p ?p"] by (auto intro!: mod_uniqueI [symmetric, where k = 1])
    then show ?thesis using 1 2 r0 x by auto
  qed
  finally show ?thesis .
qed

end
