(* ===== verification/SW_Claims.thy ===== *)
theory SW_Claims
  imports Registers Mult_Add Sign_Verify Curve_Points Field_Claims
begin

text \<open>
  The properties of the curve arithmetic, the ladders and the ECDSA stages of \<open>sb_sw_lib.c\<close>.
  Their concrete instances use the field of P-256 and the plane points \<open>(0, 0)\<close> and \<open>(1, 1)\<close>, or
  scalars equal to one.
\<close>

lemma P256_mont: "mont_ok (curve_p SB_CURVE_P256)"
  by (rule curve_okD(3) [OF SB_CURVE_P256_ok])

definition unit_fe :: sb_fe where "unit_fe = r_mod_p (curve_p SB_CURVE_P256)"

definition zero_fe :: sb_fe where "zero_fe = prime_p (curve_p SB_CURVE_P256)"

lemma unit_zero_fe:
  "mval (curve_p SB_CURVE_P256) unit_fe = 1" "mval (curve_p SB_CURVE_P256) zero_fe = 0"
  "quasi_reduced (curve_p SB_CURVE_P256) unit_fe" "quasi_reduced (curve_p SB_CURVE_P256) zero_fe"
proof -
  note ok = curve_okD(1) [OF SB_CURVE_P256_ok]
  show one: "mval (curve_p SB_CURVE_P256) unit_fe = 1"
    unfolding unit_fe_def by (rule mval_r_mod_p [OF ok])
  have P: "0 < modulus (curve_p SB_CURVE_P256)"
    using curve_okD(5) [OF SB_CURVE_P256_ok] by simp
  then show "quasi_reduced (curve_p SB_CURVE_P256) zero_fe"
    by (simp add: zero_fe_def quasi_reduced_def)
  have "fe_val unit_fe = 2 ^ 256 mod modulus (curve_p SB_CURVE_P256)"
    using ok unfolding prime_field_ok_def unit_fe_def by blast
  then have "fe_val unit_fe < modulus (curve_p SB_CURVE_P256)"
    using P by (simp only: pos_mod_bound)
  moreover have "fe_val unit_fe \<noteq> 0"
    using one by (auto simp: mval_def)
  ultimately show "quasi_reduced (curve_p SB_CURVE_P256) unit_fe"
    using fe_val_nonneg [of unit_fe] unfolding quasi_reduced_def by linarith
  show "mval (curve_p SB_CURVE_P256) zero_fe = 0"
    by (simp add: zero_fe_def mval_def)
qed

text \<open>The registers hold \<open>(0, 0)\<close> and \<open>(1, 1)\<close> with \<open>Z = 1\<close>; both chords end in the origin.\<close>

definition plane_context :: sb_sw_context where
  "plane_context = context_zero\<lparr>C_X1 := zero_fe, C_Y1 := zero_fe, C_X2 := unit_fe, C_Y2 := unit_fe,
     MULT_Z := unit_fe, MULT_POINT_X := unit_fe, MULT_POINT_Y := unit_fe,
     MULT_ADD_PG_X := unit_fe, MULT_ADD_PG_Y := unit_fe, MULT_K := FE 0 0 0 0x8000000000000000\<rparr>"

lemma plane_context_regs:
  "coords_qr SB_CURVE_P256 plane_context"
  "reg1 SB_CURVE_P256 plane_context = (0, 0)" "reg2 SB_CURVE_P256 plane_context = (1, 1)"
  "jacobian P 1 (0, 0) (0, 0)" "jacobian P 1 (1, 1) (1, 1)"
  "chord P (0, 0) (1, 1) (0, 0)" "chord P (0, 0) (opposite (1, 1)) (0, 0)"
proof -
  show "coords_qr SB_CURVE_P256 plane_context"
    by (simp add: coords_qr_def plane_context_def unit_zero_fe)
  show "reg1 SB_CURVE_P256 plane_context = (0, 0)" "reg2 SB_CURVE_P256 plane_context = (1, 1)"
    by (simp_all add: reg1_def reg2_def plane_context_def unit_zero_fe)
  show "jacobian P 1 (0, 0) (0, 0)" "jacobian P 1 (1, 1) (1, 1)"
    by (simp_all add: jacobian_def)
  show "chord P (0, 0) (1, 1) (0, 0)"
    by (rule chordI [where l = 1]) (simp_all add: slope_result_def)
  show "chord P (0, 0) (opposite (1, 1)) (0, 0)"
    by (rule chordI [where l = "- 1"]) (simp_all add: slope_result_def opposite_def)
qed

text \<open>
  C12: the co-Z formulas compute the chord construction: from two points under a common
  coordinate \<open>z\<close>, the addition returns the sum and the first point, and the conjugate addition
  the sum and the difference, all under the coordinate \<open>z (x\<^sub>2 - x\<^sub>1)\<close>.
\<close>

theorem co_z_formulas_compute_chords:
  fixes c :: sb_sw_context
  assumes "mont_ok (curve_p s)" "coords_qr s c"
    and "jacobian (modulus (curve_p s)) z a (reg1 s c)" "jacobian (modulus (curve_p s)) z b (reg2 s c)"
    and "chord (modulus (curve_p s)) a b r" "chord (modulus (curve_p s)) a (opposite b) d"
  shows "jacobian (modulus (curve_p s)) (z * z_factor s c) r (reg1 s (sb_sw_point_co_z_add_update c s))
    \<and> jacobian (modulus (curve_p s)) (z * z_factor s c) a (reg2 s (sb_sw_point_co_z_add_update c s))
    \<and> jacobian (modulus (curve_p s)) (z * z_factor s c) r (reg1 s (sb_sw_point_co_z_conj_add c s))
    \<and> jacobian (modulus (curve_p s)) (z * z_factor s c) d (reg2 s (sb_sw_point_co_z_conj_add c s))"
  using co_z_add_update_chord(1,2) [OF assms(1-5)] co_z_conj_add_chords(1,2) [OF assms] by blast

theorem co_z_formulas_compute_chords_witness:
  "jacobian (modulus (curve_p SB_CURVE_P256)) (1 * z_factor SB_CURVE_P256 plane_context) (0, 0)
    (reg2 SB_CURVE_P256 (sb_sw_point_co_z_conj_add plane_context SB_CURVE_P256))"
  using co_z_formulas_compute_chords [OF P256_mont plane_context_regs(1), of 1 "(0, 0)" "(1, 1)" "(0, 0)" "(0, 0)"]
    plane_context_regs(2-) by simp

text \<open>
  The initial doubling computes the tangent construction on the curve of the constants
  \<open>minus_a\<close> and \<open>minus_a_r_over_three\<close>: from an affine point it returns the point and its double
  under the coordinate \<open>2 y\<close>, which it leaves in \<open>C_T5\<close>.
\<close>

theorem initial_double_computes_tangent:
  fixes c :: sb_sw_context
  assumes "curve_ok s" "quasi_reduced (curve_p s) (C_X2 c)" "quasi_reduced (curve_p s) (C_Y2 c)"
    and "tangent (modulus (curve_p s)) (fe_val (minus_a s)) (reg2 s c) r"
  shows "jacobian (modulus (curve_p s)) (2 * snd (reg2 s c)) (reg2 s c) (reg1 s (sb_sw_point_initial_double c s))
    \<and> jacobian (modulus (curve_p s)) (2 * snd (reg2 s c)) r (reg2 s (sb_sw_point_initial_double c s))
    \<and> eqm (modulus (curve_p s)) (mval (curve_p s) (C_T5 (sb_sw_point_initial_double c s))) (2 * snd (reg2 s c))
    \<and> coords_qr s (sb_sw_point_initial_double c s)"
  using initial_double_tangent [OF curve_okD(3) [OF assms(1)] assms(2,3)
      curve_okD(12,13) [OF assms(1)] assms(4)] by blast

text \<open>On P-256 the tangent at the plane point \<open>(1, 1)\<close> is horizontal and ends in \<open>(-2, -1)\<close>.\<close>

theorem initial_double_computes_tangent_witness:
  "jacobian (modulus (curve_p SB_CURVE_P256)) (2 * 1) (- 2, - 1)
    (reg2 SB_CURVE_P256 (sb_sw_point_initial_double plane_context SB_CURVE_P256))"
proof -
  have "tangent P 3 (1, 1) (- 2, - 1)" for P
    by (rule tangentI [where l = 0]) (simp_all add: slope_result_def)
  moreover have "fe_val (minus_a SB_CURVE_P256) = 3"
    by (simp add: SB_CURVE_P256_coeffs)
  ultimately show ?thesis
    using initial_double_computes_tangent [OF SB_CURVE_P256_ok, of plane_context "(- 2, - 1)"]
      plane_context_regs(1,3) by (simp add: coords_qr_def)
qed

text \<open>
  C16: the type invariant of the incremental multiplication, quasi-reduced coordinates, flags that
  are zero or one and an index below the bit count, is established by starting with a quasi-reduced point and
  coordinate, and preserved by every call, in every stage.
\<close>

theorem multiplication_invariant:
  assumes "curve_ok s"
  shows "(point_qr s m \<and> st_swap (MULT_STATE m) \<in> {0, 1} \<longrightarrow> mult_typed s (sb_sw_point_mult_start m s))
    \<and> (mult_typed s m \<longrightarrow> mult_typed s (snd (sb_sw_point_mult_continue m s)))"
  using sb_sw_point_mult_start_typed [OF assms] sb_sw_point_mult_continue_typed [OF assms] by blast

theorem multiplication_invariant_witness:
  "mult_typed SB_CURVE_P256 (snd (sb_sw_point_mult_continue
     (sb_sw_point_mult_start (set_MULT_STATE plane_context saved_state_zero) SB_CURVE_P256) SB_CURVE_P256))"
proof -
  have "point_qr SB_CURVE_P256 (set_MULT_STATE plane_context saved_state_zero)"
    "st_swap (MULT_STATE (set_MULT_STATE plane_context saved_state_zero)) \<in> {0, 1}"
    by (simp_all add: point_qr_def plane_context_def unit_zero_fe saved_state_zero_def)
  then show ?thesis
    using multiplication_invariant [OF SB_CURVE_P256_ok] by blast
qed

text \<open>
  C13: the regularised scalar: the 257-bit number with the stored value in its low bits is
  congruent to the scalar modulo the order, at least \<open>2 ^ 256\<close> and below
  \<open>2 ^ 256 + N\<close>, and it is the sum with the order or, when that does not overflow, with its double.
\<close>

theorem regularized_scalar:
  assumes "2 ^ 255 < modulus (curve_n s)" "fe_val (MULT_K c) < modulus (curve_n s)"
  shows "(2 ^ 256 + fe_val (MULT_K (sb_sw_regularize_scalar c s))) mod modulus (curve_n s)
      = fe_val (MULT_K c) mod modulus (curve_n s)
    \<and> 2 ^ 256 + fe_val (MULT_K (sb_sw_regularize_scalar c s))
      = fe_val (MULT_K c) + (if 2 ^ 256 \<le> fe_val (MULT_K c) + modulus (curve_n s) then 1 else 2) * modulus (curve_n s)
    \<and> fe_val (MULT_K (sb_sw_regularize_scalar c s)) < modulus (curve_n s)"
proof -
  let ?N = "modulus (curve_n s)" and ?k = "fe_val (MULT_K c)"
  let ?K = "fe_val (MULT_K (sb_sw_regularize_scalar c s))"
  note v = sb_sw_regularize_scalar_val [OF assms]
  have "?K < ?N"
    using v assms fe_val_bound [of "prime_p (curve_n s)"] by (auto split: if_splits)
  with v show ?thesis by (auto simp: mult.commute)
qed

theorem regularized_scalar_witness:
  "(2 ^ 256 + fe_val (MULT_K (sb_sw_regularize_scalar (context_zero\<lparr>MULT_K := SB_FE_ONE\<rparr>) SB_CURVE_P256)))
     mod modulus (curve_n SB_CURVE_P256) = 1 mod modulus (curve_n SB_CURVE_P256)"
  using regularized_scalar [of SB_CURVE_P256 "context_zero\<lparr>MULT_K := SB_FE_ONE\<rparr>"]
    curve_okD(6) [OF SB_CURVE_P256_ok] by simp

text \<open>
  C11: the loop of multiplication-addition follows the doubling-and-adding of table entries
  on affine points: from any index it leaves the accumulator in the first registers, under
  the coordinate in \<open>MULT_Z\<close>, for every number of iterations up to the last bit.
\<close>

theorem mult_add_loop_simulates:
  assumes "mont_ok (curve_p s)" "accumulates s q R" "table_qr s q" "i < SB_FE_BITS" "n \<le> Suc (unat i)"
    and "shamir_run (modulus (curve_p s)) (shamir_steps s q (unat i) n) R R'"
  shows "accumulates s (snd (mult_add_loop n i q s)) R'"
  by (rule mult_add_loop_sim [OF assms])

theorem mult_add_loop_simulates_witness:
  "accumulates SB_CURVE_P256 (snd (mult_add_loop 1 255 plane_context SB_CURVE_P256)) (0, 0)"
proof -
  have K: "bit (fe_val (MULT_K plane_context)) 255" "\<not> bit (fe_val (MULT_ADD_KG plane_context)) 255"
    by (simp_all add: plane_context_def context_zero_def fe_val_FE)
  have acc: "accumulates SB_CURVE_P256 plane_context (0, 0)"
    using plane_context_regs(1,2)
    by (simp add: accumulates_def jacobian_def) (simp add: plane_context_def unit_zero_fe)
  have tab: "table_qr SB_CURVE_P256 plane_context"
    using curve_okD(15,16) [OF SB_CURVE_P256_ok]
    by (simp add: table_qr_def plane_context_def unit_zero_fe)
  have S: "table_point SB_CURVE_P256 plane_context True False = (1, 1)"
    by (simp add: table_point_def selected_def plane_context_def unit_zero_fe)
  have "shamir_run (modulus (curve_p SB_CURVE_P256)) (shamir_steps SB_CURVE_P256 plane_context 255 1) (0, 0) (0, 0)"
    using K plane_context_regs(6) by (auto simp: S shamir_run_simps intro!: shamir_affine.single)
  then show ?thesis
    using mult_add_loop_simulates [OF P256_mont acc tab, of 255 1 "(0, 0)"]
    by (simp add: SB_FE_BITS_def word_less_nat_alt)
qed

text \<open>
  C10: the Montgomery ladder on registers refines the ladder on affine points: while no
  exceptional addition occurs, any number of iterations of the loop, from either order of the
  registers, ends with the registers, in the order the swap bit says, holding what the affine
  ladder reaches over the same bits, under an invertible coordinate.
\<close>

theorem ladder_loop_simulates:
  assumes "mont_ok (curve_p s)"
    and "ladder_rel s z st m R" "unat (st_i st) < 256" "n \<le> unat (st_i st)"
    and "ladder_run (modulus (curve_p s)) (bits_down (fe_val (MULT_K m)) (unat (st_i st)) n) R R'"
  shows "\<exists>z'. ladder_rel s z' (fst (ladder_loop n st m s)) (snd (ladder_loop n st m s)) R'"
  by (rule ladder_loop_sim [OF refl assms])

definition tiny_curve :: sb_sw_curve where "tiny_curve = SB_CURVE_P256\<lparr>curve_p := tiny_field\<rparr>"

text \<open>The registers hold \<open>(1, 1)\<close> and \<open>(2, 1)\<close> modulo seven.\<close>

definition tiny_context :: sb_sw_context where
  "tiny_context = context_zero\<lparr>C_X1 := sb_fe_const 0 0 0 2, C_Y1 := sb_fe_const 0 0 0 2,
     C_X2 := sb_fe_const 0 0 0 4, C_Y2 := sb_fe_const 0 0 0 2\<rparr>"

lemma tiny_mval:
  "mval tiny_field (sb_fe_const 0 0 0 2) = 1" "mval tiny_field (sb_fe_const 0 0 0 4) = 2"
  "quasi_reduced tiny_field (sb_fe_const 0 0 0 4)"
proof -
  show 1: "mval tiny_field (sb_fe_const 0 0 0 2) = 1"
    using mval_r_mod_p [OF tiny_field_ok] by (simp add: tiny_field_def)
  have "fe_val (sb_fe_const 0 0 0 2) = 2" "fe_val (sb_fe_const 0 0 0 4) = 4"
    by (simp_all add: sb_fe_const_def fe_val_FE)
  moreover have "(4 * r) mod 7 = (2 * ((2 * r) mod 7)) mod (7 :: int)" for r
    by (simp add: mod_mult_right_eq)
  ultimately have "mval tiny_field (sb_fe_const 0 0 0 4) = (2 * mval tiny_field (sb_fe_const 0 0 0 2)) mod 7"
    by (simp only: mval_def tiny_field_val)
  then show "mval tiny_field (sb_fe_const 0 0 0 4) = 2" by (simp add: 1)
  show "quasi_reduced tiny_field (sb_fe_const 0 0 0 4)"
    by (simp add: quasi_reduced_def tiny_field_val sb_fe_const_def fe_val_FE)
qed

theorem ladder_loop_simulates_witness:
  "\<exists>z'. ladder_rel tiny_curve z' (fst (ladder_loop 1 (saved_state_zero\<lparr>st_i := 1\<rparr>) tiny_context tiny_curve))
     (snd (ladder_loop 1 (saved_state_zero\<lparr>st_i := 1\<rparr>) tiny_context tiny_curve)) ((2, 1), (4, 6))"
proof -
  let ?st = "saved_state_zero\<lparr>st_i := 1\<rparr>"
  have P: "curve_p tiny_curve = tiny_field" by (simp add: tiny_curve_def)
  have rel: "ladder_rel tiny_curve 1 ?st tiny_context ((1, 1), (2, 1))"
    by (auto simp: ladder_rel_def P tiny_field_val coords_qr_def tiny_context_def tiny_quasi_reduced tiny_mval
        saved_state_zero_def jacobian_def reg1_def reg2_def intro: exI [of _ False])
  have S: "proper_chord 7 (1, 1) (2, 1) (4, 6)" "proper_chord 7 (1, 1) (opposite (2, 1)) (1, 6)"
    "proper_chord 7 (4, 6) (1, 6) (2, 1)"
    unfolding proper_chord_prime [OF prime_modulus_7]
    by (auto simp: eqm_def opposite_def slope_result_def intro: chordI [where l = 0])
      (auto simp: eqm_def opposite_def slope_result_def intro!: chordI [where l = 5])
  have "ladder_run 7 (bits_down (fe_val (MULT_K tiny_context)) 1 1) ((1, 1), (2, 1)) ((2, 1), (4, 6))"
    using ladder_affine.zero [OF S] by (simp add: ladder_run_simps tiny_context_def context_zero_def)
  then show ?thesis
    using ladder_loop_simulates [of tiny_curve 1 ?st tiny_context "((1, 1), (2, 1))" 1 "((2, 1), (4, 6))"] rel
      prime_modulus_7 prime_field_okD(1) [OF tiny_field_ok]
    by (simp add: P tiny_field_val saved_state_zero_def)
qed

end
