(* ===== verification/Incremental.thy ===== *)
theory Incremental
  imports SB_Types
begin

text \<open>
  The contract of the incremental operations of \<open>sb_sw_lib.c\<close>: a \<open>continue\<close> function that
  returns an error, the \<open>done\<close> flag and the new context, and the loop that the one-call
  operations run over it. The locale states what a \<open>continue\<close> function promises: while calls
  are outstanding, each successful call consumes exactly one and \<open>done\<close> is reported by
  the last. Its lemmas give termination of the loop and the exact number of calls.
\<close>

type_synonym 'c continue = "'c \<Rightarrow> sb_error \<times> bool \<times> 'c"

text \<open>\<open>do { err |= continue(ctx, &done); SB_RETURN_ERRORS(err, ctx); } while (!done);\<close>\<close>

partial_function (option) do_continue :: "'c continue \<Rightarrow> 'c \<Rightarrow> (sb_error \<times> 'c) option" where
  "do_continue continue c =
     (case continue c of (err, fin, c') \<Rightarrow>
        if err \<noteq> SB_SUCCESS then Some (err, c')
        else if fin then Some (SB_SUCCESS, c')
        else do_continue continue c')"

lemmas do_continue_unfold = do_continue.simps

text \<open>\<open>n\<close> successful calls in a row, none of which but possibly the last reports \<open>done\<close>.\<close>

inductive calls :: "'c continue \<Rightarrow> nat \<Rightarrow> 'c \<Rightarrow> bool \<Rightarrow> 'c \<Rightarrow> bool" for continue where
  none: "calls continue 0 c False c"
| more: "calls continue n c False c' \<Longrightarrow> continue c' = (SB_SUCCESS, fin, c'') \<Longrightarrow>
    calls continue (Suc n) c fin c''"

inductive_cases calls_SucE: "calls continue (Suc n) c fin c''"
inductive_simps calls_0: "calls continue 0 c fin c'"

lemma calls_step:
  "calls continue n c' fin c'' \<Longrightarrow> continue c = (SB_SUCCESS, False, c') \<Longrightarrow> calls continue (Suc n) c fin c''"
  by (induction rule: calls.induct) (auto intro: calls.intros)

text \<open>The same loop with at most \<open>n\<close> calls; \<open>None\<close> when they are not enough.\<close>

primrec continue_within :: "nat \<Rightarrow> 'c continue \<Rightarrow> 'c \<Rightarrow> (sb_error \<times> 'c) option" where
  "continue_within 0 continue c = None"
| "continue_within (Suc n) continue c =
     (case continue c of (err, fin, c') \<Rightarrow>
        if err \<noteq> SB_SUCCESS then Some (err, c')
        else if fin then Some (SB_SUCCESS, c')
        else continue_within n continue c')"

locale incremental =
  fixes continue :: "'c continue"
    and valid :: "'c \<Rightarrow> bool"
    and left :: "'c \<Rightarrow> nat"
  assumes step: "valid c \<Longrightarrow> left c = Suc n \<Longrightarrow> continue c = (SB_SUCCESS, fin, c') \<Longrightarrow>
      valid c' \<and> left c' = n \<and> (fin \<longleftrightarrow> n = 0)"
begin

lemma loop_returns:
  "valid c \<Longrightarrow> 0 < left c \<Longrightarrow> \<exists>err c'. do_continue continue c = Some (err, c')"
proof (induction "left c" arbitrary: c)
  case (Suc n)
  obtain err fin c' where e: "continue c = (err, fin, c')" by (metis surj_pair)
  show ?case
  proof (cases "err \<noteq> SB_SUCCESS \<or> fin")
    case True
    then show ?thesis by (auto simp: do_continue.simps [of continue c] e)
  next
    case False
    with step [OF Suc.prems(1) Suc.hyps(2) [symmetric]] e have "valid c'" "left c' = n" "0 < n"
      by auto
    with Suc.hyps(1) [of c'] False show ?thesis
      by (simp add: do_continue.simps [of continue c] e)
  qed
qed simp

text \<open>Whatever its outcome, the loop makes at most as many calls as are outstanding.\<close>

lemma loop_within:
  "valid c \<Longrightarrow> 0 < left c \<Longrightarrow>
    \<exists>r. do_continue continue c = Some r \<and> continue_within (left c) continue c = Some r"
proof (induction "left c" arbitrary: c)
  case (Suc n)
  obtain err fin c' where e: "continue c = (err, fin, c')" by (metis surj_pair)
  note l = Suc.hyps(2) [symmetric]
  show ?case
  proof (cases "err \<noteq> SB_SUCCESS \<or> fin")
    case True
    then show ?thesis by (auto simp: do_continue.simps [of continue c] e l)
  next
    case False
    with step [OF Suc.prems(1) l] e have "valid c'" "left c' = n" "0 < n"
      by auto
    with Suc.hyps(1) [of c'] False show ?thesis
      by (simp add: do_continue.simps [of continue c] e l)
  qed
qed simp

text \<open>When the loop succeeds it has made as many calls as were outstanding.\<close>

lemma loop_calls:
  "valid c \<Longrightarrow> 0 < left c \<Longrightarrow> do_continue continue c = Some (SB_SUCCESS, c') \<Longrightarrow>
    calls continue (left c) c True c' \<and> valid c' \<and> left c' = 0"
proof (induction "left c" arbitrary: c)
  case (Suc n)
  obtain err fin d where e: "continue c = (err, fin, d)" by (metis surj_pair)
  with Suc.prems(3) have "err = SB_SUCCESS"
    by (auto simp: do_continue.simps [of continue c] split: if_splits)
  with e have e: "continue c = (SB_SUCCESS, fin, d)" by simp
  note s = step [OF Suc.prems(1) Suc.hyps(2) [symmetric] e]
  show ?case
  proof (cases fin)
    case True
    with Suc.prems(3) e have "c' = d" by (simp add: do_continue.simps [of continue c])
    with True s e have "calls continue (Suc 0) c True c'"
      by (auto intro: calls.intros)
    with True s Suc.hyps(2) \<open>c' = d\<close> show ?thesis by auto
  next
    case False
    with s e Suc.prems(3) Suc.hyps(1) [of d] have "calls continue n d True c' \<and> valid c' \<and> left c' = 0"
      by (simp add: do_continue.simps [of continue c])
    with calls_step [of continue n d True c' c] False e Suc.hyps(2) show ?thesis
      by simp
  qed
qed simp

lemma calls_left:
  "calls continue n c fin c' \<Longrightarrow> valid c \<Longrightarrow> n \<le> left c \<Longrightarrow>
    valid c' \<and> left c = n + left c' \<and> (fin \<longleftrightarrow> 0 < n \<and> left c' = 0)"
proof (induction rule: calls.induct)
  case (more n c c' fin c'')
  then have c': "valid c'" "left c = n + left c'" "0 < left c'" by auto
  then obtain k where "left c' = Suc k" by (metis gr0_conv_Suc)
  with step [OF c'(1) this more.hyps(2)] c'(2) show ?case by auto
qed simp

text \<open>The loop's error is an error of one of its calls.\<close>

lemma loop_error:
  "(\<And>d. valid d \<Longrightarrow> 0 < left d \<Longrightarrow> Q (fst (continue d))) \<Longrightarrow> Q SB_SUCCESS \<Longrightarrow>
    valid c \<Longrightarrow> 0 < left c \<Longrightarrow> do_continue continue c = Some (err, c') \<Longrightarrow> Q err"
proof (induction "left c" arbitrary: c)
  case (Suc n)
  obtain e fin c1 where e: "continue c = (e, fin, c1)" by (metis surj_pair)
  with Suc.prems(1) [OF Suc.prems(3,4)] have Q: "Q e" by simp
  show ?case
  proof (cases "e \<noteq> SB_SUCCESS \<or> fin")
    case True
    with Q Suc.prems(2,5) e show ?thesis
      by (auto simp: do_continue.simps [of continue c] split: if_splits)
  next
    case False
    with step [OF Suc.prems(3) Suc.hyps(2) [symmetric]] e have "valid c1" "left c1 = n" "0 < n"
      by auto
    with Suc.hyps(1) [of c1] Suc.prems(1,2,5) False e show ?thesis
      by (simp add: do_continue.simps [of continue c])
  qed
qed simp

text \<open>No call before the last outstanding one reports \<open>done\<close>.\<close>

lemma not_done_early:
  "calls continue n c fin c' \<Longrightarrow> valid c \<Longrightarrow> n < left c \<Longrightarrow> \<not> fin"
  using calls_left by fastforce

end

text \<open>A \<open>continue\<close> function that does not fail while calls are outstanding.\<close>

locale incremental_total = incremental +
  assumes succeeds: "valid c \<Longrightarrow> 0 < left c \<Longrightarrow> fst (continue c) = SB_SUCCESS"
begin

lemma loop_succeeds:
  "valid c \<Longrightarrow> 0 < left c \<Longrightarrow>
    \<exists>c'. do_continue continue c = Some (SB_SUCCESS, c') \<and> calls continue (left c) c True c' \<and>
      valid c' \<and> left c' = 0"
proof -
  assume c: "valid c" "0 < left c"
  from loop_error [of "\<lambda>err. err = SB_SUCCESS" c] succeeds c
  have "do_continue continue c = Some (err, c') \<Longrightarrow> err = SB_SUCCESS" for err c'
    by blast
  then show ?thesis
    using loop_returns [OF c] loop_calls [OF c] c by blast
qed

end

end
