(* ===== verification/SW_Keys.thy ===== *)
theory SW_Keys
  imports Sign_Verify Incremental
begin

text \<open>
  The public functions of \<open>sb_sw_lib.c\<close> on private keys and the derivation of public keys.
  Keys, digests and signatures are byte lists. An operation that nullifies the context first does not take it as an argument; the context
  it leaves is part of its result, as is a generator, which is an option (\<open>None\<close> for
  \<open>NULL\<close>). Outputs are byte lists, or options where an error return leaves the caller's
  buffer untouched. \<open>sb_poison_input\<close> has no effect outside the test build.
\<close>

type_synonym drbg_opt = "sb_hmac_drbg_state option"

definition SB_KEY_PAIR_BYTES :: nat where "SB_KEY_PAIR_BYTES = 2 * SB_ELEM_BYTES"

definition low_half :: "sb_byte list \<Rightarrow> sb_byte list" where
  "low_half bs = take SB_ELEM_BYTES bs"

definition high_half :: "sb_byte list \<Rightarrow> sb_byte list" where
  "high_half bs = take SB_ELEM_BYTES (drop SB_ELEM_BYTES bs)"

text \<open>\<open>static const sb_byte_t label[] = "..."\<close> includes the terminating zero.\<close>

definition c_string :: "string \<Rightarrow> sb_byte list" where
  "c_string cs = map (\<lambda>c. of_nat (of_char c)) cs @ [0]"

text \<open>\<open>sb_hmac_drbg_reseed_required\<close> on a generator that may be absent.\<close>

definition drbg_opt_reseed :: "drbg_opt \<Rightarrow> 64 word \<Rightarrow> sb_error" where
  "drbg_opt_reseed drbg count =
     (case drbg of None \<Rightarrow> SB_SUCCESS | Some d \<Rightarrow> sb_hmac_drbg_reseed_required d count)"

text \<open>
  The loop over the candidates: each request's output goes to its element of the buffer,
  the errors accumulate.
\<close>

definition drbg_fill ::
  "(sb_hmac_drbg_state \<Rightarrow> nat \<Rightarrow> sb_error \<times> sb_byte list option \<times> sb_hmac_drbg_state) \<Rightarrow> nat list \<Rightarrow>
     sb_error \<times> sb_sw_context \<times> sb_hmac_drbg_state \<Rightarrow> sb_error \<times> sb_sw_context \<times> sb_hmac_drbg_state" where
  "drbg_fill gen is = fold (\<lambda>i (err, ctx, d).
     let (e1, out, d) = gen d SB_ELEM_BYTES
     in (err OR e1, write_buf (i * SB_ELEM_BYTES) out ctx, d)) is"

subsection \<open>Private keys\<close>

definition sb_sw_generate_private_key ::
  "sb_hmac_drbg_state \<Rightarrow> sb_sw_curve_id \<Rightarrow> sb_data_endian \<Rightarrow>
     sb_error \<times> sb_byte list \<times> sb_sw_context \<times> sb_hmac_drbg_state" where
  "sb_sw_generate_private_key drbg curve e =
     (let err = SB_SUCCESS;
          ctx = context_zero;
          private = replicate SB_ELEM_BYTES 0;
          (e1, s) = sb_sw_curve_from_id curve;
          err = err OR e1;
          err = err OR sb_hmac_drbg_reseed_required drbg (of_nat SB_SW_FIPS186_4_CANDIDATES)
      in if err \<noteq> SB_SUCCESS then (err, private, context_zero, drbg)
         else
           let (err, ctx, drbg) = drbg_fill sb_hmac_drbg_generate_additional_dummy
                 [0..<SB_SW_FIPS186_4_CANDIDATES] (err, ctx, drbg)
           in if err \<noteq> SB_SUCCESS then (err, private, context_zero, drbg)
              else
                let (e2, ctx) = sb_sw_k_from_buf ctx True (the s) e;
                    err = err OR e2;
                    private = sb_fe_to_bytes (MULT_K ctx) e
                in (err, private, context_zero, drbg))"

definition sb_sw_hkdf_expand_private_key ::
  "sb_hkdf_state \<Rightarrow> sb_byte list \<Rightarrow> sb_sw_curve_id \<Rightarrow> sb_data_endian \<Rightarrow>
     sb_error \<times> sb_byte list \<times> sb_sw_context \<times> sb_hkdf_state" where
  "sb_sw_hkdf_expand_private_key hkdf info curve e =
     (let err = SB_SUCCESS;
          ctx = context_zero;
          private = replicate SB_ELEM_BYTES 0;
          (e1, s) = sb_sw_curve_from_id curve;
          err = err OR e1
      in if err \<noteq> SB_SUCCESS then (err, private, context_zero, hkdf)
         else
           let (out, hkdf) = sb_hkdf_expand hkdf info SB_SW_GEN_BYTES;
               ctx = write_buf 0 (Some out) ctx;
               (e2, ctx) = sb_sw_k_from_buf ctx True (the s) e;
               err = err OR e2;
               private = sb_fe_to_bytes (MULT_K ctx) e
           in (err, private, context_zero, hkdf))"

definition sb_sw_valid_private_key ::
  "sb_byte list \<Rightarrow> sb_sw_curve_id \<Rightarrow> sb_data_endian \<Rightarrow> sb_error \<times> sb_sw_context" where
  "sb_sw_valid_private_key private curve e =
     (let err = SB_SUCCESS;
          ctx = context_zero;
          (e1, s) = sb_sw_curve_from_id curve;
          err = err OR e1
      in if err \<noteq> SB_SUCCESS then (err, context_zero)
         else
           let ctx = ctx\<lparr>MULT_K := sb_fe_from_bytes private e\<rparr>;
               (kv, k) = sb_sw_scalar_validate (MULT_K ctx) (the s);
               ctx = ctx\<lparr>MULT_K := k\<rparr>;
               err = err OR sb_error_if SB_ERROR_PRIVATE_KEY_INVALID (kv = 0)
           in (err, context_zero))"

text \<open>
  The blinding scalar of inversion and message wrapping: one request of the generator with
  additional input, or an HKDF of the same inputs.
\<close>

definition blinding_to_buf ::
  "sb_error \<Rightarrow> sb_sw_context \<Rightarrow> drbg_opt \<Rightarrow> sb_byte list list \<Rightarrow> sb_byte list \<Rightarrow>
     sb_error \<times> sb_sw_context \<times> drbg_opt" where
  "blinding_to_buf err ctx drbg inputs label =
     (case drbg of
        Some d \<Rightarrow>
          let (e1, out, d) = sb_hmac_drbg_generate_additional_vec d SB_SW_GEN_BYTES inputs
          in (err OR e1, write_buf 0 out ctx, Some d)
      | None \<Rightarrow>
          let h = sb_hkdf_extract_init [];
              h = foldl sb_hkdf_extract_update h inputs;
              h = sb_hkdf_extract_finish h;
              (out, h) = sb_hkdf_expand h label SB_SW_GEN_BYTES
          in (err, write_buf 0 (Some out) (ctx\<lparr>gen_hkdf := h\<rparr>), None))"

definition sb_sw_invert_private_key ::
  "sb_byte list \<Rightarrow> drbg_opt \<Rightarrow> sb_sw_curve_id \<Rightarrow> sb_data_endian \<Rightarrow>
     sb_error \<times> sb_byte list \<times> sb_sw_context \<times> drbg_opt" where
  "sb_sw_invert_private_key private drbg curve e =
     (let err = SB_SUCCESS;
          ctx = context_zero;
          output = replicate SB_ELEM_BYTES 0;
          (e1, s) = sb_sw_curve_from_id curve;
          err = err OR e1;
          err = err OR drbg_opt_reseed drbg 1
      in if err \<noteq> SB_SUCCESS then (err, output, context_zero, drbg)
         else
           let (err, ctx, drbg) = blinding_to_buf err ctx drbg [private] (c_string ''sb_sw_invert_private_key'');
               (e2, ctx) = sb_sw_k_from_buf ctx True (the s) e;
               err = err OR e2;
               ctx = ctx\<lparr>MULT_Z := sb_fe_from_bytes private e\<rparr>;
               (zv, z) = sb_sw_scalar_validate (MULT_Z ctx) (the s);
               ctx = ctx\<lparr>MULT_Z := z\<rparr>;
               err = err OR sb_error_if SB_ERROR_PRIVATE_KEY_INVALID (zv = 0)
           in if err \<noteq> SB_SUCCESS then (err, output, context_zero, drbg)
              else
                let ctx = sb_sw_invert_field_element ctx (the s);
                    ctx = ctx\<lparr>C_T5 := sb_fe_mont_reduce (C_T6 ctx) (curve_n (the s))\<rparr>;
                    output = sb_fe_to_bytes (C_T5 ctx) e
                in (err, output, context_zero, drbg))"

subsection \<open>Public keys\<close>

definition sb_sw_compute_public_key_start ::
  "sb_byte list \<Rightarrow> drbg_opt \<Rightarrow> sb_sw_curve_id \<Rightarrow> sb_data_endian \<Rightarrow>
     sb_error \<times> sb_sw_context \<times> drbg_opt" where
  "sb_sw_compute_public_key_start private drbg curve e =
     (let err = SB_SUCCESS;
          ctx = context_zero;
          (e1, s) = sb_sw_curve_from_id curve;
          err = err OR e1;
          err = err OR drbg_opt_reseed drbg 1
      in if err \<noteq> SB_SUCCESS then (err, context_zero, drbg)
         else
           let (e2, ctx, drbg) = sb_sw_generate_z ctx drbg (the s) e private [] []
                 (c_string ''sb_sw_compute_public_key'');
               err = err OR e2;
               ctx = ctx\<lparr>MULT_K := sb_fe_from_bytes private e\<rparr>;
               (kv, k) = sb_sw_scalar_validate (MULT_K ctx) (the s);
               ctx = ctx\<lparr>MULT_K := k\<rparr>;
               err = err OR sb_error_if SB_ERROR_PRIVATE_KEY_INVALID (kv = 0)
           in if err \<noteq> SB_SUCCESS then (err, context_zero, drbg)
              else
                let ctx = ctx\<lparr>MULT_POINT_X := pair_x (g_r (the s)), MULT_POINT_Y := pair_y (g_r (the s))\<rparr>;
                    ctx = set_MULT_STATE ctx (saved_state_zero
                      \<lparr>st_operation := SB_SW_INCREMENTAL_OPERATION_COMPUTE_PUBLIC_KEY,
                       st_curve_id := curve_id (the s)\<rparr>);
                    ctx = sb_sw_point_mult_start ctx (the s)
                in (err, ctx, drbg))"

text \<open>On an error the flag \<open>*done\<close> is not written; it is \<open>False\<close> here.\<close>

definition sb_sw_compute_public_key_continue ::
  "sb_sw_context \<Rightarrow> sb_error \<times> bool \<times> sb_sw_context" where
  "sb_sw_compute_public_key_continue ctx =
     (let err = SB_SUCCESS;
          err = err OR sb_error_if SB_ERROR_INCORRECT_OPERATION
            (st_operation (MULT_STATE ctx) \<noteq> SB_SW_INCREMENTAL_OPERATION_COMPUTE_PUBLIC_KEY)
      in if err \<noteq> SB_SUCCESS then (err, False, context_zero)
         else
           let (e1, curve) = sb_sw_curve_from_id (st_curve_id (MULT_STATE ctx));
               err = err OR e1
           in if err \<noteq> SB_SUCCESS then (err, False, context_zero)
              else
                let (fin, ctx) = sb_sw_point_mult_continue ctx (the curve)
                in (err, fin, ctx))"

definition sb_sw_compute_public_key_finish ::
  "sb_sw_context \<Rightarrow> sb_data_endian \<Rightarrow> sb_error \<times> sb_byte list \<times> sb_sw_context" where
  "sb_sw_compute_public_key_finish ctx e =
     (let err = SB_SUCCESS;
          public = replicate SB_KEY_PAIR_BYTES 0;
          err = err OR sb_error_if SB_ERROR_INCORRECT_OPERATION
            (st_operation (MULT_STATE ctx) \<noteq> SB_SW_INCREMENTAL_OPERATION_COMPUTE_PUBLIC_KEY)
      in if err \<noteq> SB_SUCCESS then (err, public, context_zero)
         else
           let err = err OR sb_error_if SB_ERROR_NOT_FINISHED (\<not> sb_sw_point_mult_is_finished ctx)
           in if err \<noteq> SB_SUCCESS then (err, public, context_zero)
              else
                let (e1, s) = sb_sw_curve_from_id (st_curve_id (MULT_STATE ctx));
                    err = err OR e1
                in if err \<noteq> SB_SUCCESS then (err, public, context_zero)
                   else
                     let err = err OR sb_error_if SB_ERROR_PRIVATE_KEY_INVALID
                           (sb_fe_equal (C_X1 ctx) (prime_p (curve_p (the s))) AND
                            sb_fe_equal (C_Y1 ctx) (prime_p (curve_p (the s))) \<noteq> 0);
                         public = sb_fe_to_bytes (C_X1 ctx) e @ sb_fe_to_bytes (C_Y1 ctx) e
                     in (err, public, context_zero))"

definition sb_sw_compute_public_key ::
  "sb_byte list \<Rightarrow> drbg_opt \<Rightarrow> sb_sw_curve_id \<Rightarrow> sb_data_endian \<Rightarrow>
     (sb_error \<times> sb_byte list option \<times> sb_sw_context \<times> drbg_opt) option" where
  "sb_sw_compute_public_key private drbg curve e =
     (let (err, ctx, drbg) = sb_sw_compute_public_key_start private drbg curve e
      in if err \<noteq> SB_SUCCESS then Some (err, None, context_zero, drbg)
         else
           case do_continue sb_sw_compute_public_key_continue ctx of
             None \<Rightarrow> None
           | Some (err, ctx) \<Rightarrow>
               if err \<noteq> SB_SUCCESS then Some (err, None, context_zero, drbg)
               else
                 let (e1, public, ctx) = sb_sw_compute_public_key_finish ctx e
                 in Some (err OR e1, Some public, context_zero, drbg))"

subsection \<open>Validation of private keys\<close>

lemma success_or [simp]: "SB_SUCCESS OR err = err" "err OR SB_SUCCESS = err"
  by (simp_all add: SB_SUCCESS_def)

lemmas err_simps = sb_error_if_eq sb_error_or_success

text \<open>An operation whose curve lookup succeeds goes on with a curve that the arithmetic accepts.\<close>

lemma curve_lookup:
  obtains (unknown) "sb_sw_curve_from_id curve = (SB_ERROR_CURVE_INVALID, None)"
  | (known) s where "sb_sw_curve_from_id curve = (SB_SUCCESS, Some s)" "curve_ok s"
  using SB_CURVE_P256_ok SB_CURVE_SECP256K1_ok
  by (cases rule: sb_sw_curve_from_id_cases [of curve]) auto

lemma sb_sw_valid_private_key_val:
  "sb_sw_valid_private_key private curve e =
    (case snd (sb_sw_curve_from_id curve) of
       None \<Rightarrow> SB_ERROR_CURVE_INVALID
     | Some s \<Rightarrow> if scalar_valid s (sb_fe_from_bytes private e) then SB_SUCCESS else SB_ERROR_PRIVATE_KEY_INVALID,
     context_zero)"
  by (cases curve rule: curve_lookup)
    (simp_all add: sb_sw_valid_private_key_def Let_def err_simps sb_sw_scalar_validate_val flag_simps
      scalar_valid_def)

subsection \<open>Progress of the derivation of a public key\<close>

text \<open>
  A context in which an operation is in progress: its operation code and the identifier of
  a curve of the library are in the saved state.
\<close>

definition running :: "sb_sw_incremental_operation \<Rightarrow> sb_sw_context \<Rightarrow> bool" where
  "running op c \<longleftrightarrow> st_operation (MULT_STATE c) = op \<and>
     st_curve_id (MULT_STATE c) \<in> {SB_SW_CURVE_P256, SB_SW_CURVE_SECP256K1}"

definition running_curve :: "sb_sw_context \<Rightarrow> sb_sw_curve" where
  "running_curve c = the (snd (sb_sw_curve_from_id (st_curve_id (MULT_STATE c))))"

lemma running_from_id:
  "running op c \<Longrightarrow> sb_sw_curve_from_id (st_curve_id (MULT_STATE c)) = (SB_SUCCESS, Some (running_curve c))"
  by (rule sb_sw_curve_from_id_cases [of "st_curve_id (MULT_STATE c)"])
    (auto simp: running_def running_curve_def)

lemma running_keep:
  "running op c \<Longrightarrow> st_operation (MULT_STATE c') = st_operation (MULT_STATE c) \<Longrightarrow>
    st_curve_id (MULT_STATE c') = st_curve_id (MULT_STATE c) \<Longrightarrow> running op c'"
  by (simp add: running_def)

lemma curve_from_id_curve_id:
  "sb_sw_curve_from_id curve = (SB_SUCCESS, s) \<Longrightarrow>
    curve_id (the s) \<in> {SB_SW_CURVE_P256, SB_SW_CURVE_SECP256K1}"
  by (rule sb_sw_curve_from_id_cases [of curve])
    (auto simp: SB_CURVE_P256_def SB_CURVE_SECP256K1_def)

text \<open>
  An operation that is a point multiplication: the calls it has left, and the contexts it
  goes through. When none is left it has finished.
\<close>

abbreviation mult_left :: "sb_sw_context \<Rightarrow> nat" where
  "mult_left c \<equiv> point_mult_left (MULT_STATE c)"

definition multiplying :: "sb_sw_incremental_operation \<Rightarrow> sb_sw_context \<Rightarrow> bool" where
  "multiplying op c \<longleftrightarrow> running op c \<and> (mult_left c = 0 \<longrightarrow> sb_sw_point_mult_is_finished c)"

lemma mult_continue_step:
  assumes "multiplying op c" "mult_left c = Suc n" "sb_sw_point_mult_continue c s = (fin, c')"
  shows "multiplying op c' \<and> mult_left c' = n \<and> (fin \<longleftrightarrow> n = 0)"
  using sb_sw_point_mult_continue_state [OF assms(3)] running_keep [of op c c'] assms(1,2)
  by (auto simp: multiplying_def sb_sw_point_mult_is_finished_def)

lemma mult_started:
  "running op c \<Longrightarrow> multiplying op (sb_sw_point_mult_start c s)"
  using running_keep [of op c "sb_sw_point_mult_start c s"]
  by (simp add: multiplying_def point_mult_left_start)

lemma mult_finished:
  "multiplying op c \<Longrightarrow> mult_left c = 0 \<Longrightarrow> running op c \<and> sb_sw_point_mult_is_finished c"
  by (simp add: multiplying_def)

lemma set_state_running:
  "st_operation st = op \<Longrightarrow> st_curve_id st \<in> {SB_SW_CURVE_P256, SB_SW_CURVE_SECP256K1} \<Longrightarrow>
    running op (set_MULT_STATE c st)"
  by (simp add: running_def)

lemma sb_sw_compute_public_key_continue_running:
  "multiplying SB_SW_INCREMENTAL_OPERATION_COMPUTE_PUBLIC_KEY c \<Longrightarrow>
    sb_sw_compute_public_key_continue c =
      (SB_SUCCESS, fst (sb_sw_point_mult_continue c (running_curve c)),
        snd (sb_sw_point_mult_continue c (running_curve c)))"
  using running_from_id [of _ c]
  by (simp add: sb_sw_compute_public_key_continue_def Let_def multiplying_def running_def err_simps
      split: prod.split)

interpretation pk: incremental_total sb_sw_compute_public_key_continue
  "multiplying SB_SW_INCREMENTAL_OPERATION_COMPUTE_PUBLIC_KEY" mult_left
  by unfold_locales
    (auto simp: sb_sw_compute_public_key_continue_running intro: mult_continue_step dest: mult_continue_step)

lemma sb_sw_compute_public_key_start_running:
  assumes "sb_sw_compute_public_key_start private drbg curve e = (SB_SUCCESS, c, drbg')"
  shows "multiplying SB_SW_INCREMENTAL_OPERATION_COMPUTE_PUBLIC_KEY c" "mult_left c = 17"
  using assms curve_from_id_curve_id [of curve]
  by (auto simp: sb_sw_compute_public_key_start_def Let_def point_mult_left_start err_simps
      split: prod.splits if_splits intro!: mult_started set_state_running)

text \<open>
  The result of the one-call operation: the loop makes seventeen calls, none of which fails,
  and the finish function finds the operation finished.
\<close>

lemma sb_sw_compute_public_key_finish_running:
  assumes "running SB_SW_INCREMENTAL_OPERATION_COMPUTE_PUBLIC_KEY c" "sb_sw_point_mult_is_finished c"
  shows "\<exists>out. sb_sw_compute_public_key_finish c e =
      (sb_error_if SB_ERROR_PRIVATE_KEY_INVALID
        (C_X1 c = prime_p (curve_p (running_curve c)) \<and> C_Y1 c = prime_p (curve_p (running_curve c))),
       out, context_zero)"
  using assms running_from_id [OF assms(1)]
  by (simp add: sb_sw_compute_public_key_finish_def Let_def running_def err_simps sb_fe_equal_iff
      flag_simps)

lemma sb_sw_compute_public_key_loop:
  assumes "sb_sw_compute_public_key_start private drbg curve e = (SB_SUCCESS, c, drbg')"
  shows "\<exists>c' out. do_continue sb_sw_compute_public_key_continue c = Some (SB_SUCCESS, c') \<and>
    calls sb_sw_compute_public_key_continue 17 c True c' \<and>
    sb_sw_compute_public_key_finish c' e =
      (sb_error_if SB_ERROR_PRIVATE_KEY_INVALID
        (C_X1 c' = prime_p (curve_p (running_curve c')) \<and> C_Y1 c' = prime_p (curve_p (running_curve c'))),
       out, context_zero)"
  using pk.loop_succeeds [of c] sb_sw_compute_public_key_start_running [OF assms]
    sb_sw_compute_public_key_finish_running mult_finished by fastforce

lemma sb_sw_compute_public_key_within:
  assumes "sb_sw_compute_public_key_start private drbg curve e = (SB_SUCCESS, c, d)"
  shows "\<exists>r. do_continue sb_sw_compute_public_key_continue c = Some r \<and> continue_within 17 sb_sw_compute_public_key_continue c = Some r"
  using pk.loop_within [of c] sb_sw_compute_public_key_start_running [OF assms] by simp

lemma sb_sw_compute_public_key_returns:
  "\<exists>err out drbg'. sb_sw_compute_public_key private drbg curve e = Some (err, out, context_zero, drbg')"
proof -
  obtain err c d where s: "sb_sw_compute_public_key_start private drbg curve e = (err, c, d)"
    by (metis prod_cases3)
  show ?thesis
  proof (cases "err = SB_SUCCESS")
    case True
    with sb_sw_compute_public_key_loop s show ?thesis
      by (fastforce simp: sb_sw_compute_public_key_def)
  qed (simp add: sb_sw_compute_public_key_def s)
qed

end
