(* ===== verification/SW_Points.thy ===== *)
theory SW_Points
  imports SW_Keys
begin

text \<open>
  The public functions of \<open>sb_sw_lib.c\<close> on public keys: validation, compression and
  decompression, and the two multiplications of a public key by a private scalar, shared
  secret and point multiplication, with their incremental forms.
\<close>

subsection \<open>Validation and compression\<close>

definition sb_sw_valid_public_key ::
  "sb_byte list \<Rightarrow> sb_sw_curve_id \<Rightarrow> sb_data_endian \<Rightarrow> sb_error \<times> sb_sw_context" where
  "sb_sw_valid_public_key public curve e =
     (let err = SB_SUCCESS;
          ctx = context_zero;
          (e1, s) = sb_sw_curve_from_id curve;
          err = err OR e1
      in if err \<noteq> SB_SUCCESS then (err, context_zero)
         else
           let ctx = ctx\<lparr>MULT_POINT_X := sb_fe_from_bytes (low_half public) e\<rparr>;
               ctx = ctx\<lparr>MULT_POINT_Y := sb_fe_from_bytes (high_half public) e\<rparr>;
               (pv, ctx) = sb_sw_point_validate ctx (the s);
               err = err OR sb_error_if SB_ERROR_PUBLIC_KEY_INVALID (pv = 0)
           in (err, context_zero))"

definition sb_sw_compress_public_key ::
  "sb_byte list \<Rightarrow> sb_sw_curve_id \<Rightarrow> sb_data_endian \<Rightarrow>
     sb_error \<times> sb_byte list \<times> bool \<times> sb_sw_context" where
  "sb_sw_compress_public_key public curve e =
     (let err = SB_SUCCESS;
          ctx = context_zero;
          compressed = replicate SB_ELEM_BYTES 0;
          sign = False;
          (e1, s) = sb_sw_curve_from_id curve;
          err = err OR e1
      in if err \<noteq> SB_SUCCESS then (err, compressed, sign, context_zero)
         else
           let ctx = ctx\<lparr>MULT_POINT_X := sb_fe_from_bytes (low_half public) e\<rparr>;
               ctx = ctx\<lparr>MULT_POINT_Y := sb_fe_from_bytes (high_half public) e\<rparr>;
               (pv, ctx) = sb_sw_point_validate ctx (the s);
               err = err OR sb_error_if SB_ERROR_PUBLIC_KEY_INVALID (pv = 0)
           in if err \<noteq> SB_SUCCESS then (err, compressed, sign, context_zero)
              else
                let compressed = low_half public;
                    sign_w = sb_fe_test_bit (MULT_POINT_Y ctx) 0;
                    sign = (sign_w \<noteq> 0)
                in (err, compressed, sign, context_zero))"

definition sb_sw_decompress_public_key ::
  "sb_byte list \<Rightarrow> bool \<Rightarrow> sb_sw_curve_id \<Rightarrow> sb_data_endian \<Rightarrow>
     sb_error \<times> sb_byte list \<times> sb_sw_context" where
  "sb_sw_decompress_public_key compressed sign curve e =
     (let err = SB_SUCCESS;
          ctx = context_zero;
          public = replicate SB_KEY_PAIR_BYTES 0;
          (e1, s) = sb_sw_curve_from_id curve;
          err = err OR e1
      in if err \<noteq> SB_SUCCESS then (err, public, context_zero)
         else
           let ctx = ctx\<lparr>MULT_POINT_X := sb_fe_from_bytes compressed e\<rparr>;
               (pv, ctx) = sb_sw_point_decompress ctx (of_bool sign) (the s);
               err = err OR sb_error_if SB_ERROR_PUBLIC_KEY_INVALID (pv = 0)
           in if err \<noteq> SB_SUCCESS then (err, public, context_zero)
              else
                let ctx = ctx\<lparr>MULT_POINT_X := sb_fe_mod_reduce_full (MULT_POINT_X ctx) (curve_p (the s))\<rparr>;
                    public = sb_fe_to_bytes (MULT_POINT_X ctx) e @ sb_fe_to_bytes (MULT_POINT_Y ctx) e
                in (err, public, context_zero))"

subsection \<open>Multiplication of a public key\<close>

text \<open>The callers nullify the context.\<close>

definition sb_sw_multiply_shared_start ::
  "sb_sw_context \<Rightarrow> sb_byte list \<Rightarrow> sb_byte list \<Rightarrow> drbg_opt \<Rightarrow> sb_sw_curve_id \<Rightarrow> sb_data_endian \<Rightarrow>
     sb_sw_incremental_operation \<Rightarrow> sb_error \<times> sb_sw_context \<times> drbg_opt" where
  "sb_sw_multiply_shared_start ctx private public drbg curve e op =
     (let err = SB_SUCCESS;
          (e1, s) = sb_sw_curve_from_id curve;
          err = err OR e1;
          err = err OR drbg_opt_reseed drbg 1
      in if err \<noteq> SB_SUCCESS then (err, context_zero, drbg)
         else
           let (e2, ctx, drbg) = sb_sw_generate_z ctx drbg (the s) e private (low_half public) []
                 (c_string ''sb_sw_multiply_shared'');
               err = err OR e2;
               ctx = ctx\<lparr>MULT_K := sb_fe_from_bytes private e\<rparr>;
               ctx = ctx\<lparr>MULT_POINT_X := sb_fe_from_bytes (low_half public) e\<rparr>;
               ctx = ctx\<lparr>MULT_POINT_Y := sb_fe_from_bytes (high_half public) e\<rparr>;
               (kv, k) = sb_sw_scalar_validate (MULT_K ctx) (the s);
               ctx = ctx\<lparr>MULT_K := k\<rparr>;
               err = err OR sb_error_if SB_ERROR_PRIVATE_KEY_INVALID (kv = 0);
               (pv, ctx) = sb_sw_point_validate ctx (the s);
               err = err OR sb_error_if SB_ERROR_PUBLIC_KEY_INVALID (pv = 0)
           in if err \<noteq> SB_SUCCESS then (err, context_zero, drbg)
              else
                let ctx = ctx\<lparr>C_X1 := MULT_POINT_X ctx\<rparr>;
                    ctx = ctx\<lparr>C_Y1 := MULT_POINT_Y ctx\<rparr>;
                    ctx = ctx\<lparr>MULT_POINT_X := sb_fe_mont_convert (C_X1 ctx) (curve_p (the s))\<rparr>;
                    ctx = ctx\<lparr>MULT_POINT_Y := sb_fe_mont_convert (C_Y1 ctx) (curve_p (the s))\<rparr>;
                    ctx = set_MULT_STATE ctx (saved_state_zero
                      \<lparr>st_operation := op, st_curve_id := curve_id (the s)\<rparr>);
                    ctx = sb_sw_point_mult_start ctx (the s)
                in (err, ctx, drbg))"

definition sb_sw_shared_secret_start ::
  "sb_byte list \<Rightarrow> sb_byte list \<Rightarrow> drbg_opt \<Rightarrow> sb_sw_curve_id \<Rightarrow> sb_data_endian \<Rightarrow>
     sb_error \<times> sb_sw_context \<times> drbg_opt" where
  "sb_sw_shared_secret_start private public drbg curve e =
     sb_sw_multiply_shared_start context_zero private public drbg curve e
       SB_SW_INCREMENTAL_OPERATION_SHARED_SECRET"

definition sb_sw_shared_secret_continue ::
  "sb_sw_context \<Rightarrow> sb_error \<times> bool \<times> sb_sw_context" where
  "sb_sw_shared_secret_continue ctx =
     (let err = SB_SUCCESS;
          err = err OR sb_error_if SB_ERROR_INCORRECT_OPERATION
            (st_operation (MULT_STATE ctx) \<noteq> SB_SW_INCREMENTAL_OPERATION_SHARED_SECRET);
          (e1, curve) = sb_sw_curve_from_id (st_curve_id (MULT_STATE ctx));
          err = err OR e1
      in if err \<noteq> SB_SUCCESS then (err, False, context_zero)
         else
           let (fin, ctx) = sb_sw_point_mult_continue ctx (the curve)
           in (err, fin, ctx))"

definition sb_sw_shared_secret_finish ::
  "sb_sw_context \<Rightarrow> sb_data_endian \<Rightarrow> sb_error \<times> sb_byte list \<times> sb_sw_context" where
  "sb_sw_shared_secret_finish ctx e =
     (let err = SB_SUCCESS;
          secret = replicate SB_ELEM_BYTES 0;
          err = err OR sb_error_if SB_ERROR_INCORRECT_OPERATION
            (st_operation (MULT_STATE ctx) \<noteq> SB_SW_INCREMENTAL_OPERATION_SHARED_SECRET);
          (e1, s) = sb_sw_curve_from_id (st_curve_id (MULT_STATE ctx));
          err = err OR e1
      in if err \<noteq> SB_SUCCESS then (err, secret, context_zero)
         else
           let err = err OR sb_error_if SB_ERROR_NOT_FINISHED (\<not> sb_sw_point_mult_is_finished ctx)
           in if err \<noteq> SB_SUCCESS then (err, secret, context_zero)
              else
                let p = curve_p (the s);
                    err = err OR sb_error_if SB_ERROR_PRIVATE_KEY_INVALID
                      (sb_fe_equal (C_X1 ctx) (prime_p p) AND sb_fe_equal (C_Y1 ctx) (prime_p p) \<noteq> 0)
                in if err \<noteq> SB_SUCCESS then (err, secret, context_zero)
                   else
                     let ctx = ctx\<lparr>C_X1 := sb_fe_mod_reduce_full (C_X1 ctx) p\<rparr>;
                         secret = sb_fe_to_bytes (C_X1 ctx) e
                     in (err, secret, context_zero))"

definition sb_sw_shared_secret ::
  "sb_byte list \<Rightarrow> sb_byte list \<Rightarrow> drbg_opt \<Rightarrow> sb_sw_curve_id \<Rightarrow> sb_data_endian \<Rightarrow>
     (sb_error \<times> sb_byte list option \<times> sb_sw_context \<times> drbg_opt) option" where
  "sb_sw_shared_secret private public drbg curve e =
     (let (err, ctx, drbg) = sb_sw_shared_secret_start private public drbg curve e
      in if err \<noteq> SB_SUCCESS then Some (err, None, context_zero, drbg)
         else
           case do_continue sb_sw_shared_secret_continue ctx of
             None \<Rightarrow> None
           | Some (err, ctx) \<Rightarrow>
               if err \<noteq> SB_SUCCESS then Some (err, None, context_zero, drbg)
               else
                 let (e1, secret, ctx) = sb_sw_shared_secret_finish ctx e
                 in Some (err OR e1, Some secret, context_zero, drbg))"

definition sb_sw_point_multiply_start ::
  "sb_byte list \<Rightarrow> sb_byte list \<Rightarrow> drbg_opt \<Rightarrow> sb_sw_curve_id \<Rightarrow> sb_data_endian \<Rightarrow>
     sb_error \<times> sb_sw_context \<times> drbg_opt" where
  "sb_sw_point_multiply_start private public drbg curve e =
     sb_sw_multiply_shared_start context_zero private public drbg curve e
       SB_SW_INCREMENTAL_OPERATION_POINT_MULTIPLY"

definition sb_sw_point_multiply_continue ::
  "sb_sw_context \<Rightarrow> sb_error \<times> bool \<times> sb_sw_context" where
  "sb_sw_point_multiply_continue ctx =
     (let err = SB_SUCCESS;
          err = err OR sb_error_if SB_ERROR_INCORRECT_OPERATION
            (st_operation (MULT_STATE ctx) \<noteq> SB_SW_INCREMENTAL_OPERATION_POINT_MULTIPLY);
          (e1, s) = sb_sw_curve_from_id (st_curve_id (MULT_STATE ctx));
          err = err OR e1
      in if err \<noteq> SB_SUCCESS then (err, False, context_zero)
         else
           let (fin, ctx) = sb_sw_point_mult_continue ctx (the s)
           in (err, fin, ctx))"

definition sb_sw_point_multiply_finish ::
  "sb_sw_context \<Rightarrow> sb_data_endian \<Rightarrow> sb_error \<times> sb_byte list \<times> sb_sw_context" where
  "sb_sw_point_multiply_finish ctx e =
     (let err = SB_SUCCESS;
          output = replicate SB_KEY_PAIR_BYTES 0;
          err = err OR sb_error_if SB_ERROR_INCORRECT_OPERATION
            (st_operation (MULT_STATE ctx) \<noteq> SB_SW_INCREMENTAL_OPERATION_POINT_MULTIPLY);
          (e1, s) = sb_sw_curve_from_id (st_curve_id (MULT_STATE ctx));
          err = err OR e1
      in if err \<noteq> SB_SUCCESS then (err, output, context_zero)
         else
           let err = err OR sb_error_if SB_ERROR_NOT_FINISHED (\<not> sb_sw_point_mult_is_finished ctx)
           in if err \<noteq> SB_SUCCESS then (err, output, context_zero)
              else
                let p = curve_p (the s);
                    err = err OR sb_error_if SB_ERROR_PRIVATE_KEY_INVALID
                      (sb_fe_equal (C_X1 ctx) (prime_p p) AND sb_fe_equal (C_Y1 ctx) (prime_p p) \<noteq> 0)
                in if err \<noteq> SB_SUCCESS then (err, output, context_zero)
                   else
                     let ctx = ctx\<lparr>C_X1 := sb_fe_mod_reduce_full (C_X1 ctx) p\<rparr>;
                         output = sb_fe_to_bytes (C_X1 ctx) e @ sb_fe_to_bytes (C_Y1 ctx) e
                     in (err, output, context_zero))"

definition sb_sw_point_multiply ::
  "sb_byte list \<Rightarrow> sb_byte list \<Rightarrow> drbg_opt \<Rightarrow> sb_sw_curve_id \<Rightarrow> sb_data_endian \<Rightarrow>
     (sb_error \<times> sb_byte list option \<times> sb_sw_context \<times> drbg_opt) option" where
  "sb_sw_point_multiply private public drbg curve e =
     (let (err, ctx, drbg) = sb_sw_point_multiply_start private public drbg curve e
      in if err \<noteq> SB_SUCCESS then Some (err, None, context_zero, drbg)
         else
           case do_continue sb_sw_point_multiply_continue ctx of
             None \<Rightarrow> None
           | Some (err, ctx) \<Rightarrow>
               if err \<noteq> SB_SUCCESS then Some (err, None, context_zero, drbg)
               else
                 let (e1, output, ctx) = sb_sw_point_multiply_finish ctx e
                 in Some (err OR e1, Some output, context_zero, drbg))"

subsection \<open>Validation and compression of public keys\<close>

text \<open>The coordinates that a public key encodes.\<close>

definition key_x :: "sb_byte list \<Rightarrow> sb_data_endian \<Rightarrow> int" where
  "key_x public e = fe_val (sb_fe_from_bytes (low_half public) e)"

definition key_y :: "sb_byte list \<Rightarrow> sb_data_endian \<Rightarrow> int" where
  "key_y public e = fe_val (sb_fe_from_bytes (high_half public) e)"

definition valid_key :: "sb_sw_curve \<Rightarrow> sb_byte list \<Rightarrow> sb_data_endian \<Rightarrow> bool" where
  "valid_key s public e \<longleftrightarrow> valid_point s (key_x public e) (key_y public e)"

lemma sb_sw_valid_public_key_val:
  "sb_sw_valid_public_key public curve e =
    (case snd (sb_sw_curve_from_id curve) of
       None \<Rightarrow> SB_ERROR_CURVE_INVALID
     | Some s \<Rightarrow> if valid_key s public e then SB_SUCCESS else SB_ERROR_PUBLIC_KEY_INVALID,
     context_zero)"
proof (cases curve rule: curve_lookup)
  case (known s)
  then show ?thesis
    by (simp add: sb_sw_valid_public_key_def Let_def err_simps case_prod_unfold sb_sw_point_validate_val
        flag_simps valid_key_def key_x_def key_y_def)
qed (simp add: sb_sw_valid_public_key_def Let_def err_simps)

lemma sb_sw_compress_public_key_val:
  "sb_sw_compress_public_key public curve e =
    (case snd (sb_sw_curve_from_id curve) of
       None \<Rightarrow> (SB_ERROR_CURVE_INVALID, replicate SB_ELEM_BYTES 0, False, context_zero)
     | Some s \<Rightarrow>
         if valid_key s public e then (SB_SUCCESS, low_half public, odd (key_y public e), context_zero)
         else (SB_ERROR_PUBLIC_KEY_INVALID, replicate SB_ELEM_BYTES 0, False, context_zero))"
proof (cases curve rule: curve_lookup)
  case (known s)
  have "sb_fe_test_bit (sb_fe_mod_reduce (sb_fe_from_bytes (high_half public) e) (curve_p s)) 0 \<noteq> 0 \<longleftrightarrow>
      odd (key_y public e)" if "valid_key s public e"
  proof -
    have "sb_fe_mod_reduce (sb_fe_from_bytes (high_half public) e) (curve_p s) = sb_fe_from_bytes (high_half public) e"
      using that by (intro reduce_valid(2) [OF known(2)])
        (simp add: valid_key_def valid_point_def z_valid_def key_y_def)
    then show ?thesis by (simp add: sb_fe_test_bit_val bit_zero_odd key_y_def)
  qed
  with known show ?thesis
    by (simp add: sb_sw_compress_public_key_def Let_def err_simps case_prod_unfold sb_sw_point_validate_val
        flag_simps) (simp add: valid_key_def key_x_def key_y_def)
qed (simp add: sb_sw_compress_public_key_def Let_def err_simps)

lemma halves_append:
  "length public = SB_KEY_PAIR_BYTES \<Longrightarrow> low_half public @ high_half public = public"
  "length public = SB_KEY_PAIR_BYTES \<Longrightarrow> length (low_half public) = 32 \<and> length (high_half public) = 32"
  by (simp_all add: low_half_def high_half_def SB_KEY_PAIR_BYTES_def SB_ELEM_BYTES_def)

lemma decompress_compressed:
  assumes s: "sb_sw_curve_from_id curve = (SB_SUCCESS, Some s)" and v: "valid_key s public e"
    and e: "euler_at (modulus (curve_p s)) (key_y public e)" and l: "length public = SB_KEY_PAIR_BYTES"
  shows "sb_sw_decompress_public_key (low_half public) (odd (key_y public e)) curve e =
    (SB_SUCCESS, public, context_zero)"
proof -
  have ok: "curve_ok s"
    using s by (cases curve rule: curve_lookup) auto
  let ?c = "context_zero\<lparr>MULT_POINT_X := sb_fe_from_bytes (low_half public) e\<rparr>"
  let ?r = "sb_sw_point_decompress ?c (of_bool (odd (key_y public e))) s"
  have c: "fe_val (MULT_POINT_X ?c) = key_x public e" by (simp add: key_x_def)
  note d = decompress_valid_point [OF ok e, where c = ?c, unfolded c, OF v [unfolded valid_key_def]]
  have Y: "MULT_POINT_Y (snd ?r) = sb_fe_from_bytes (high_half public) e"
    using d(2) by (simp add: key_y_def fe_val_inject)
  have "fe_val (sb_fe_mod_reduce_full (MULT_POINT_X (snd ?r)) (curve_p s)) = key_x public e"
    using v sb_fe_mod_reduce_p [OF ok, of "sb_fe_from_bytes (low_half public) e"] 
    by (simp add: sb_sw_point_decompress_val(5) [OF ok] sb_fe_mod_reduce_full_val valid_key_def valid_point_def key_x_def)
  then have X: "sb_fe_mod_reduce_full (MULT_POINT_X (snd ?r)) (curve_p s) = sb_fe_from_bytes (low_half public) e"
    by (simp add: key_x_def fe_val_inject)
  show ?thesis
    using d(1) halves_append [OF l]
    by (simp add: sb_sw_decompress_public_key_def Let_def s err_simps case_prod_unfold X Y sb_fe_to_from_bytes
        SB_ELEM_BYTES_def)
qed

subsection \<open>Progress of the multiplications\<close>

lemma sb_sw_multiply_shared_start_running:
  assumes "sb_sw_multiply_shared_start ctx private public drbg curve e op = (SB_SUCCESS, c, drbg')"
  shows "multiplying op c" "mult_left c = 17"
  using assms curve_from_id_curve_id [of curve]
  by (auto simp: sb_sw_multiply_shared_start_def Let_def point_mult_left_start err_simps
      split: prod.splits if_splits intro!: mult_started set_state_running)

lemma sb_sw_shared_secret_continue_running:
  "multiplying SB_SW_INCREMENTAL_OPERATION_SHARED_SECRET c \<Longrightarrow>
    sb_sw_shared_secret_continue c =
      (SB_SUCCESS, fst (sb_sw_point_mult_continue c (running_curve c)),
        snd (sb_sw_point_mult_continue c (running_curve c)))"
  using running_from_id [of _ c]
  by (simp add: sb_sw_shared_secret_continue_def Let_def multiplying_def running_def err_simps
      split: prod.split)

interpretation ss: incremental_total sb_sw_shared_secret_continue
  "multiplying SB_SW_INCREMENTAL_OPERATION_SHARED_SECRET" mult_left
  by unfold_locales
    (auto simp: sb_sw_shared_secret_continue_running intro: mult_continue_step dest: mult_continue_step)

lemma sb_sw_shared_secret_finish_running:
  assumes "running SB_SW_INCREMENTAL_OPERATION_SHARED_SECRET c" "sb_sw_point_mult_is_finished c"
  shows "\<exists>out. sb_sw_shared_secret_finish c e =
      (sb_error_if SB_ERROR_PRIVATE_KEY_INVALID
        (C_X1 c = prime_p (curve_p (running_curve c)) \<and> C_Y1 c = prime_p (curve_p (running_curve c))),
       out, context_zero)"
  using assms running_from_id [OF assms(1)]
  by (simp add: sb_sw_shared_secret_finish_def Let_def running_def err_simps sb_fe_equal_iff flag_simps)

lemma sb_sw_shared_secret_loop:
  assumes "sb_sw_shared_secret_start private public drbg curve e = (SB_SUCCESS, c, drbg')"
  shows "\<exists>c' out. do_continue sb_sw_shared_secret_continue c = Some (SB_SUCCESS, c') \<and>
    calls sb_sw_shared_secret_continue 17 c True c' \<and>
    sb_sw_shared_secret_finish c' e =
      (sb_error_if SB_ERROR_PRIVATE_KEY_INVALID
        (C_X1 c' = prime_p (curve_p (running_curve c')) \<and> C_Y1 c' = prime_p (curve_p (running_curve c'))),
       out, context_zero)"
  using ss.loop_succeeds [of c] assms sb_sw_multiply_shared_start_running
    sb_sw_shared_secret_finish_running mult_finished
  unfolding sb_sw_shared_secret_start_def by fastforce

lemma sb_sw_shared_secret_within:
  assumes "sb_sw_shared_secret_start private public drbg curve e = (SB_SUCCESS, c, d)"
  shows "\<exists>r. do_continue sb_sw_shared_secret_continue c = Some r \<and> continue_within 17 sb_sw_shared_secret_continue c = Some r"
  using ss.loop_within [of c] sb_sw_multiply_shared_start_running [OF assms [unfolded sb_sw_shared_secret_start_def]] by simp

lemma sb_sw_shared_secret_returns:
  "\<exists>err out drbg'. sb_sw_shared_secret private public drbg curve e = Some (err, out, context_zero, drbg')"
proof -
  obtain err c d where s: "sb_sw_shared_secret_start private public drbg curve e = (err, c, d)"
    by (metis prod_cases3)
  show ?thesis
  proof (cases "err = SB_SUCCESS")
    case True
    with sb_sw_shared_secret_loop s show ?thesis
      by (fastforce simp: sb_sw_shared_secret_def)
  qed (simp add: sb_sw_shared_secret_def s)
qed

lemma sb_sw_point_multiply_continue_running:
  "multiplying SB_SW_INCREMENTAL_OPERATION_POINT_MULTIPLY c \<Longrightarrow>
    sb_sw_point_multiply_continue c =
      (SB_SUCCESS, fst (sb_sw_point_mult_continue c (running_curve c)),
        snd (sb_sw_point_mult_continue c (running_curve c)))"
  using running_from_id [of _ c]
  by (simp add: sb_sw_point_multiply_continue_def Let_def multiplying_def running_def err_simps
      split: prod.split)

interpretation pm: incremental_total sb_sw_point_multiply_continue
  "multiplying SB_SW_INCREMENTAL_OPERATION_POINT_MULTIPLY" mult_left
  by unfold_locales
    (auto simp: sb_sw_point_multiply_continue_running intro: mult_continue_step dest: mult_continue_step)

lemma sb_sw_point_multiply_finish_running:
  assumes "running SB_SW_INCREMENTAL_OPERATION_POINT_MULTIPLY c" "sb_sw_point_mult_is_finished c"
  shows "\<exists>out. sb_sw_point_multiply_finish c e =
      (sb_error_if SB_ERROR_PRIVATE_KEY_INVALID
        (C_X1 c = prime_p (curve_p (running_curve c)) \<and> C_Y1 c = prime_p (curve_p (running_curve c))),
       out, context_zero)"
  using assms running_from_id [OF assms(1)]
  by (simp add: sb_sw_point_multiply_finish_def Let_def running_def err_simps sb_fe_equal_iff flag_simps)

lemma sb_sw_point_multiply_loop:
  assumes "sb_sw_point_multiply_start private public drbg curve e = (SB_SUCCESS, c, drbg')"
  shows "\<exists>c' out. do_continue sb_sw_point_multiply_continue c = Some (SB_SUCCESS, c') \<and>
    calls sb_sw_point_multiply_continue 17 c True c' \<and>
    sb_sw_point_multiply_finish c' e =
      (sb_error_if SB_ERROR_PRIVATE_KEY_INVALID
        (C_X1 c' = prime_p (curve_p (running_curve c')) \<and> C_Y1 c' = prime_p (curve_p (running_curve c'))),
       out, context_zero)"
  using pm.loop_succeeds [of c] assms sb_sw_multiply_shared_start_running
    sb_sw_point_multiply_finish_running mult_finished
  unfolding sb_sw_point_multiply_start_def by fastforce

lemma sb_sw_point_multiply_within:
  assumes "sb_sw_point_multiply_start private public drbg curve e = (SB_SUCCESS, c, d)"
  shows "\<exists>r. do_continue sb_sw_point_multiply_continue c = Some r \<and> continue_within 17 sb_sw_point_multiply_continue c = Some r"
  using pm.loop_within [of c] sb_sw_multiply_shared_start_running [OF assms [unfolded sb_sw_point_multiply_start_def]] by simp

lemma sb_sw_point_multiply_returns:
  "\<exists>err out drbg'. sb_sw_point_multiply private public drbg curve e = Some (err, out, context_zero, drbg')"
proof -
  obtain err c d where s: "sb_sw_point_multiply_start private public drbg curve e = (err, c, d)"
    by (metis prod_cases3)
  show ?thesis
  proof (cases "err = SB_SUCCESS")
    case True
    with sb_sw_point_multiply_loop s show ?thesis
      by (fastforce simp: sb_sw_point_multiply_def)
  qed (simp add: sb_sw_point_multiply_def s)
qed

subsection \<open>A valid key\<close>

text \<open>A point of P-256 with ordinate one.\<close>

definition unit_key :: "sb_data_endian \<Rightarrow> sb_byte list" where
  "unit_key e = sb_fe_to_bytes (FE 0x875d877f0069d2c7 0x6375e8a97b70f611 0x10db6dd095dbac0d 0x8d0177ebab9c6e9e) e @
     sb_fe_to_bytes SB_FE_ONE e"

lemma unit_key_val:
  "key_x (unit_key e) e = 63778706158780828310898430985794019439130643576586724611912473313315675296455"
  "key_y (unit_key e) e = 1" "length (unit_key e) = SB_KEY_PAIR_BYTES"
  by (simp_all add: unit_key_def key_x_def key_y_def low_half_def high_half_def SB_ELEM_BYTES_def fe_val_FE
      SB_KEY_PAIR_BYTES_def)

lemma unit_key_valid: "valid_key SB_CURVE_P256 (unit_key e) e"
proof -
  have "curve_on SB_CURVE_P256 (key_x (unit_key e) e, 1)"
    unfolding curve_on_def on_curve_def unit_key_val SB_CURVE_P256_coeffs SB_CURVE_P256_P_val
    by (rule eqmI [where k = "-2240516900907956977213009705707189722025023030576214031565113366830839013456043473220018506809446881352681412093948815550130245102201093090792364409373300"]) simp
  then show ?thesis
    by (simp add: valid_key_def valid_point_def unit_key_val SB_CURVE_P256_coeffs SB_CURVE_P256_P_val)
qed

end
