(* ===== verification/SW_Signature.thy ===== *)
theory SW_Signature
  imports SW_Keys
begin

text \<open>
  The public signing and verification functions of \<open>sb_sw_lib.c\<close>, incremental and in one
  call, on digests and on messages, and the wrapping of digests for composite signing.
\<close>

subsection \<open>Signing\<close>

definition sb_sw_sign_message_digest_shared_start ::
  "sb_sw_context \<Rightarrow> sb_byte list \<Rightarrow> sb_byte list \<Rightarrow> sb_sw_curve \<Rightarrow> sb_data_endian \<Rightarrow>
     sb_error \<times> sb_sw_context" where
  "sb_sw_sign_message_digest_shared_start ctx private message s e =
     (let err = SB_SUCCESS;
          ctx = ctx\<lparr>SIGN_PRIVATE := sb_fe_from_bytes private e\<rparr>;
          ctx = ctx\<lparr>SIGN_MESSAGE := sb_fe_from_bytes message e\<rparr>;
          (dv, d) = sb_sw_scalar_validate (SIGN_PRIVATE ctx) s;
          ctx = ctx\<lparr>SIGN_PRIVATE := d\<rparr>;
          err = err OR sb_error_if SB_ERROR_PRIVATE_KEY_INVALID (dv = 0);
          ctx = ctx\<lparr>SIGN_MESSAGE := sb_fe_mod_reduce (SIGN_MESSAGE ctx) (curve_n s)\<rparr>
      in if err \<noteq> SB_SUCCESS then (err, context_zero)
         else (err, sb_sw_sign_start ctx s))"

text \<open>
  The candidates for the per-message secret: from the caller's generator with the key and
  digest as additional input, or (RFC 6979) from a generator in the context seeded with
  the key and the reduced digest, both big-endian. Returns the generator to go on with.
\<close>

definition sign_candidates ::
  "sb_sw_context \<Rightarrow> sb_byte list \<Rightarrow> sb_byte list \<Rightarrow> drbg_opt \<Rightarrow> sb_sw_curve \<Rightarrow> sb_data_endian \<Rightarrow>
     sb_error \<times> sb_sw_context \<times> sb_hmac_drbg_state" where
  "sign_candidates ctx private message provided_drbg s e =
     (case provided_drbg of
        Some drbg \<Rightarrow>
          let (e1, out, drbg) = sb_hmac_drbg_generate_additional_vec drbg SB_ELEM_BYTES [private, message];
              ctx = write_buf 0 out ctx
          in drbg_fill sb_hmac_drbg_generate_additional_dummy [1..<SB_SW_FIPS186_4_CANDIDATES] (e1, ctx, drbg)
      | None \<Rightarrow>
          let ctx = ctx\<lparr>MULT_K := sb_fe_from_bytes private e\<rparr>;
              ctx = ctx\<lparr>MULT_Z := sb_fe_from_bytes message e\<rparr>;
              ctx = ctx\<lparr>MULT_Z := sb_fe_mod_reduce (MULT_Z ctx) (curve_n s)\<rparr>;
              ctx = write_buf 0 (Some (sb_fe_to_bytes (MULT_K ctx) SB_DATA_ENDIAN_BIG)) ctx;
              ctx = write_buf SB_ELEM_BYTES (Some (sb_fe_to_bytes (MULT_Z ctx) SB_DATA_ENDIAN_BIG)) ctx;
              (e1, drbg) = sb_hmac_drbg_init (buf_elem (gen_buf ctx) 0) (buf_elem (gen_buf ctx) 1) []
          in drbg_fill sb_hmac_drbg_generate [0..<SB_SW_FIPS186_4_CANDIDATES] (e1, ctx, drbg))"

definition sb_sw_sign_message_digest_start ::
  "sb_byte list \<Rightarrow> sb_byte list \<Rightarrow> drbg_opt \<Rightarrow> sb_sw_curve_id \<Rightarrow> sb_data_endian \<Rightarrow>
     sb_error \<times> sb_sw_context \<times> drbg_opt" where
  "sb_sw_sign_message_digest_start private message provided_drbg curve e =
     (let err = SB_SUCCESS;
          ctx = context_zero;
          (e1, s) = sb_sw_curve_from_id curve;
          err = err OR e1;
          err = err OR drbg_opt_reseed provided_drbg (of_nat (SB_SW_FIPS186_4_CANDIDATES + 1))
      in if err \<noteq> SB_SUCCESS then (err, context_zero, provided_drbg)
         else
           let fips186_4 = (provided_drbg \<noteq> None);
               provided = (\<lambda>drbg. if fips186_4 then Some drbg else None);
               (e2, ctx, drbg) = sign_candidates ctx private message provided_drbg (the s) e;
               err = err OR e2;
               (e3, ctx) = sb_sw_k_from_buf ctx fips186_4 (the s) e;
               err = err OR e3
           in if err \<noteq> SB_SUCCESS then (err, context_zero, provided drbg)
              else
                let (e4, out, drbg) = sb_hmac_drbg_generate_additional_dummy drbg (4 * SB_ELEM_BYTES);
                    err = err OR e4;
                    ctx = write_buf 0 out ctx;
                    ctx = (if \<not> fips186_4 then ctx\<lparr>gen_drbg := drbg_zero\<rparr> else ctx);
                    (e5, ctx) = sb_sw_z_from_buf ctx (the s) e;
                    err = err OR e5
                in if err \<noteq> SB_SUCCESS then (err, context_zero, provided drbg)
                   else
                     let (err, ctx) = sb_sw_sign_message_digest_shared_start ctx private message (the s) e
                     in (err, ctx, provided drbg))"

definition sb_sw_sign_message_sha256_start ::
  "sb_sha256_state \<Rightarrow> sb_byte list \<Rightarrow> drbg_opt \<Rightarrow> sb_sw_curve_id \<Rightarrow> sb_data_endian \<Rightarrow>
     sb_error \<times> sb_sw_context \<times> drbg_opt \<times> sb_sha256_state" where
  "sb_sw_sign_message_sha256_start sha private provided_drbg curve e =
     (let sha = sb_sha256_finish_to_buffer sha;
          digest = take SB_SHA256_SIZE (sha_buffer sha);
          (err, ctx, drbg) = sb_sw_sign_message_digest_start private digest provided_drbg curve e
      in (err, ctx, drbg, sha))"

definition sb_sw_sign_message_digest_continue ::
  "sb_sw_context \<Rightarrow> sb_error \<times> bool \<times> sb_sw_context" where
  "sb_sw_sign_message_digest_continue ctx =
     (let err = SB_SUCCESS;
          err = err OR sb_error_if SB_ERROR_INCORRECT_OPERATION
            (st_operation (MULT_STATE ctx) \<noteq> SB_SW_INCREMENTAL_OPERATION_SIGN_MESSAGE_DIGEST);
          (e1, curve) = sb_sw_curve_from_id (st_curve_id (MULT_STATE ctx));
          err = err OR e1
      in if err \<noteq> SB_SUCCESS then (err, False, context_zero)
         else
           let (e2, fin, ctx) = sb_sw_sign_continue ctx (the curve);
               err = err OR e2
           in if err \<noteq> SB_SUCCESS then (err, fin, context_zero)
              else (err, fin, ctx))"

definition sb_sw_sign_message_digest_finish ::
  "sb_sw_context \<Rightarrow> sb_data_endian \<Rightarrow> sb_error \<times> sb_byte list \<times> sb_sw_context" where
  "sb_sw_sign_message_digest_finish ctx e =
     (let err = SB_SUCCESS;
          signature = replicate SB_KEY_PAIR_BYTES 0;
          err = err OR sb_error_if SB_ERROR_INCORRECT_OPERATION
            (st_operation (MULT_STATE ctx) \<noteq> SB_SW_INCREMENTAL_OPERATION_SIGN_MESSAGE_DIGEST)
      in if err \<noteq> SB_SUCCESS then (err, signature, context_zero)
         else
           let err = err OR sb_error_if SB_ERROR_NOT_FINISHED (\<not> sb_sw_sign_is_finished ctx)
           in if err \<noteq> SB_SUCCESS then (err, signature, context_zero)
              else
                let signature = sb_fe_to_bytes (C_X2 ctx) e @ sb_fe_to_bytes (C_Y2 ctx) e
                in (err, signature, context_zero))"

definition sb_sw_sign_message_digest ::
  "sb_byte list \<Rightarrow> sb_byte list \<Rightarrow> drbg_opt \<Rightarrow> sb_sw_curve_id \<Rightarrow> sb_data_endian \<Rightarrow>
     (sb_error \<times> sb_byte list option \<times> sb_sw_context \<times> drbg_opt) option" where
  "sb_sw_sign_message_digest private message provided_drbg curve e =
     (let (err, ctx, drbg) = sb_sw_sign_message_digest_start private message provided_drbg curve e
      in if err \<noteq> SB_SUCCESS then Some (err, None, context_zero, drbg)
         else
           case do_continue sb_sw_sign_message_digest_continue ctx of
             None \<Rightarrow> None
           | Some (err, ctx) \<Rightarrow>
               if err \<noteq> SB_SUCCESS then Some (err, None, context_zero, drbg)
               else
                 let (e1, signature, ctx) = sb_sw_sign_message_digest_finish ctx e
                 in Some (err OR e1, Some signature, context_zero, drbg))"

text \<open>The digest is an output too.\<close>

definition sb_sw_sign_message_sha256 ::
  "sb_byte list \<Rightarrow> sb_byte list \<Rightarrow> drbg_opt \<Rightarrow> sb_sw_curve_id \<Rightarrow> sb_data_endian \<Rightarrow>
     sb_byte list \<times> (sb_error \<times> sb_byte list option \<times> sb_sw_context \<times> drbg_opt) option" where
  "sb_sw_sign_message_sha256 private input provided_drbg curve e =
     (let (digest, sha) = sb_sha256_message input
      in (digest, sb_sw_sign_message_digest private digest provided_drbg curve e))"

subsection \<open>Composite signing\<close>

definition sb_sw_composite_sign_wrap_message_digest ::
  "sb_byte list \<Rightarrow> sb_byte list \<Rightarrow> drbg_opt \<Rightarrow> sb_sw_curve_id \<Rightarrow> sb_data_endian \<Rightarrow>
     sb_error \<times> sb_byte list \<times> sb_sw_context \<times> drbg_opt" where
  "sb_sw_composite_sign_wrap_message_digest message private drbg curve e =
     (let err = SB_SUCCESS;
          ctx = context_zero;
          wrapped = replicate SB_SHA256_SIZE 0;
          (e1, s) = sb_sw_curve_from_id curve;
          err = err OR e1;
          err = err OR drbg_opt_reseed drbg 1
      in if err \<noteq> SB_SUCCESS then (err, wrapped, context_zero, drbg)
         else
           let (err, ctx, drbg) = blinding_to_buf err ctx drbg [private, message]
                 (c_string ''sb_sw_composite_sign_wrap_message_digest'');
               (e2, ctx) = sb_sw_k_from_buf ctx True (the s) e;
               err = err OR e2;
               ctx = ctx\<lparr>MULT_Z := sb_fe_from_bytes private e\<rparr>;
               (zv, z) = sb_sw_scalar_validate (MULT_Z ctx) (the s);
               ctx = ctx\<lparr>MULT_Z := z\<rparr>;
               err = err OR sb_error_if SB_ERROR_PRIVATE_KEY_INVALID (zv = 0)
           in if err \<noteq> SB_SUCCESS then (err, wrapped, context_zero, drbg)
              else
                let n = curve_n (the s);
                    ctx = sb_sw_invert_field_element ctx (the s);
                    ctx = ctx\<lparr>C_T5 := sb_fe_from_bytes message e\<rparr>;
                    ctx = ctx\<lparr>C_T5 := sb_fe_mod_reduce (C_T5 ctx) n\<rparr>;
                    ctx = ctx\<lparr>C_T7 := sb_fe_mont_mult (C_T6 ctx) (C_T5 ctx) n\<rparr>;
                    wrapped = sb_fe_to_bytes (C_T7 ctx) e
                in (err, wrapped, context_zero, drbg))"

definition sb_sw_composite_sign_unwrap_signature ::
  "sb_byte list \<Rightarrow> sb_byte list \<Rightarrow> sb_sw_curve_id \<Rightarrow> sb_data_endian \<Rightarrow>
     sb_error \<times> sb_byte list \<times> sb_sw_context" where
  "sb_sw_composite_sign_unwrap_signature signature private curve e =
     (let err = SB_SUCCESS;
          ctx = context_zero;
          unwrapped = replicate SB_KEY_PAIR_BYTES 0;
          (e1, s) = sb_sw_curve_from_id curve;
          err = err OR e1
      in if err \<noteq> SB_SUCCESS then (err, unwrapped, context_zero)
         else
           let n = curve_n (the s);
               ctx = ctx\<lparr>MULT_Z := sb_fe_from_bytes private e\<rparr>;
               (zv, z) = sb_sw_scalar_validate (MULT_Z ctx) (the s);
               ctx = ctx\<lparr>MULT_Z := z\<rparr>;
               err = err OR sb_error_if SB_ERROR_PRIVATE_KEY_INVALID (zv = 0);
               ctx = ctx\<lparr>VERIFY_QR := sb_fe_from_bytes (low_half signature) e\<rparr>;
               ctx = ctx\<lparr>VERIFY_QS := sb_fe_from_bytes (high_half signature) e\<rparr>;
               ctx = ctx\<lparr>C_T6 := sb_fe_mod_reduce (C_T6 ctx) n\<rparr>;
               (rv, qr) = sb_sw_scalar_validate (VERIFY_QR ctx) (the s);
               ctx = ctx\<lparr>VERIFY_QR := qr\<rparr>;
               err = err OR sb_error_if SB_ERROR_SIGNATURE_INVALID (rv = 0);
               (sv, qs) = sb_sw_scalar_validate (VERIFY_QS ctx) (the s);
               ctx = ctx\<lparr>VERIFY_QS := qs\<rparr>;
               err = err OR sb_error_if SB_ERROR_SIGNATURE_INVALID (sv = 0)
           in if err \<noteq> SB_SUCCESS then (err, unwrapped, context_zero)
              else
                let ctx = ctx\<lparr>C_Y1 := sb_fe_mont_convert (MULT_Z ctx) n\<rparr>;
                    ctx = ctx\<lparr>C_T5 := sb_fe_mont_mult (C_Y1 ctx) (VERIFY_QS ctx) n\<rparr>;
                    unwrapped = sb_fe_to_bytes (VERIFY_QR ctx) e @ sb_fe_to_bytes (C_T5 ctx) e
                in (err, unwrapped, context_zero))"

subsection \<open>Verification\<close>

definition sb_sw_verify_signature_start ::
  "sb_byte list \<Rightarrow> sb_byte list \<Rightarrow> sb_byte list \<Rightarrow> drbg_opt \<Rightarrow> sb_sw_curve_id \<Rightarrow> sb_data_endian \<Rightarrow>
     sb_error \<times> sb_sw_context \<times> drbg_opt" where
  "sb_sw_verify_signature_start signature public message drbg curve e =
     (let err = SB_SUCCESS;
          ctx = context_zero;
          (e1, s) = sb_sw_curve_from_id curve;
          err = err OR e1;
          err = err OR drbg_opt_reseed drbg 1
      in if err \<noteq> SB_SUCCESS then (err, context_zero, drbg)
         else
           let (e2, ctx, drbg) = sb_sw_generate_z ctx drbg (the s) e (low_half public) signature message
                 (c_string ''sb_sw_verify_signature'');
               err = err OR e2;
               ctx = ctx\<lparr>MULT_POINT_X := sb_fe_from_bytes (low_half public) e\<rparr>;
               ctx = ctx\<lparr>MULT_POINT_Y := sb_fe_from_bytes (high_half public) e\<rparr>;
               (pv, ctx) = sb_sw_point_validate ctx (the s);
               err = err OR sb_error_if SB_ERROR_PUBLIC_KEY_INVALID (pv = 0);
               ctx = ctx\<lparr>VERIFY_QR := sb_fe_from_bytes (low_half signature) e\<rparr>;
               ctx = ctx\<lparr>VERIFY_QS := sb_fe_from_bytes (high_half signature) e\<rparr>;
               ctx = ctx\<lparr>VERIFY_MESSAGE := sb_fe_from_bytes message e\<rparr>
           in if err \<noteq> SB_SUCCESS then (err, context_zero, drbg)
              else (err, sb_sw_verify_start ctx (the s), drbg))"

definition sb_sw_verify_signature_sha256_start ::
  "sb_sha256_state \<Rightarrow> sb_byte list \<Rightarrow> sb_byte list \<Rightarrow> drbg_opt \<Rightarrow> sb_sw_curve_id \<Rightarrow> sb_data_endian \<Rightarrow>
     sb_error \<times> sb_sw_context \<times> drbg_opt \<times> sb_sha256_state" where
  "sb_sw_verify_signature_sha256_start sha signature public drbg curve e =
     (let sha = sb_sha256_finish_to_buffer sha;
          digest = take SB_SHA256_SIZE (sha_buffer sha);
          (err, ctx, drbg) = sb_sw_verify_signature_start signature public digest drbg curve e
      in (err, ctx, drbg, sha))"

definition sb_sw_verify_signature_continue ::
  "sb_sw_context \<Rightarrow> sb_error \<times> bool \<times> sb_sw_context" where
  "sb_sw_verify_signature_continue ctx =
     (let err = SB_SUCCESS;
          err = err OR sb_error_if SB_ERROR_INCORRECT_OPERATION
            (st_operation (MULT_STATE ctx) \<noteq> SB_SW_INCREMENTAL_OPERATION_VERIFY_SIGNATURE);
          (e1, curve) = sb_sw_curve_from_id (st_curve_id (MULT_STATE ctx));
          err = err OR e1
      in if err \<noteq> SB_SUCCESS then (err, False, context_zero)
         else
           let (fin, ctx) = sb_sw_verify_continue ctx (the curve)
           in (err, fin, ctx))"

definition sb_sw_verify_signature_finish :: "sb_sw_context \<Rightarrow> sb_error \<times> sb_sw_context" where
  "sb_sw_verify_signature_finish ctx =
     (let err = SB_SUCCESS;
          err = err OR sb_error_if SB_ERROR_INCORRECT_OPERATION
            (st_operation (MULT_STATE ctx) \<noteq> SB_SW_INCREMENTAL_OPERATION_VERIFY_SIGNATURE)
      in if err \<noteq> SB_SUCCESS then (err, context_zero)
         else
           let err = err OR sb_error_if SB_ERROR_NOT_FINISHED (\<not> sb_sw_verify_is_finished ctx)
           in if err \<noteq> SB_SUCCESS then (err, context_zero)
              else
                let err = err OR sb_error_if SB_ERROR_SIGNATURE_INVALID (st_res (MULT_STATE ctx) = 0)
                in (err, context_zero))"

definition sb_sw_verify_signature ::
  "sb_byte list \<Rightarrow> sb_byte list \<Rightarrow> sb_byte list \<Rightarrow> drbg_opt \<Rightarrow> sb_sw_curve_id \<Rightarrow> sb_data_endian \<Rightarrow>
     (sb_error \<times> sb_sw_context \<times> drbg_opt) option" where
  "sb_sw_verify_signature signature public message drbg curve e =
     (let (err, ctx, drbg) = sb_sw_verify_signature_start signature public message drbg curve e
      in if err \<noteq> SB_SUCCESS then Some (err, context_zero, drbg)
         else
           case do_continue sb_sw_verify_signature_continue ctx of
             None \<Rightarrow> None
           | Some (err, ctx) \<Rightarrow>
               if err \<noteq> SB_SUCCESS then Some (err, context_zero, drbg)
               else
                 let (e1, ctx) = sb_sw_verify_signature_finish ctx
                 in Some (err OR e1, context_zero, drbg))"

definition sb_sw_verify_signature_sha256 ::
  "sb_byte list \<Rightarrow> sb_byte list \<Rightarrow> sb_byte list \<Rightarrow> drbg_opt \<Rightarrow> sb_sw_curve_id \<Rightarrow> sb_data_endian \<Rightarrow>
     sb_byte list \<times> (sb_error \<times> sb_sw_context \<times> drbg_opt) option" where
  "sb_sw_verify_signature_sha256 signature public input drbg curve e =
     (let (digest, sha) = sb_sha256_message input
      in (digest, sb_sw_verify_signature signature public digest drbg curve e))"

subsection \<open>Unwrapping of composite signatures\<close>

lemma halves_of_append:
  "length a = SB_ELEM_BYTES \<Longrightarrow> length b = SB_ELEM_BYTES \<Longrightarrow> low_half (a @ b) = a \<and> high_half (a @ b) = b"
  by (simp add: low_half_def high_half_def)

lemma sb_sw_composite_sign_unwrap_signature_val:
  assumes s: "sb_sw_curve_from_id curve = (SB_SUCCESS, Some s)" "curve_ok s"
    and "sb_fe_from_bytes private e = d" "sb_fe_from_bytes (low_half signature) e = r"
      "sb_fe_from_bytes (high_half signature) e = t"
  shows "sb_sw_composite_sign_unwrap_signature signature private curve e =
    (if scalar_valid s d \<and> scalar_valid s r \<and> scalar_valid s t
     then (SB_SUCCESS, sb_fe_to_bytes r e @ sb_fe_to_bytes (sb_fe_mont_mult (sb_fe_mont_convert d (curve_n s)) t (curve_n s)) e,
       context_zero)
     else (sb_error_if SB_ERROR_PRIVATE_KEY_INVALID (\<not> scalar_valid s d) OR
       sb_error_if SB_ERROR_SIGNATURE_INVALID (\<not> (scalar_valid s r \<and> scalar_valid s t)),
       replicate SB_KEY_PAIR_BYTES 0, context_zero))"
  using assms(3-5)
  by (simp add: sb_sw_composite_sign_unwrap_signature_def Let_def s sb_sw_scalar_validate_val flag_simps
      reduce_valid err_simps flip: scalar_valid_def)

subsection \<open>Progress of signing\<close>

definition signing :: "sb_sw_context \<Rightarrow> bool" where
  "signing c \<longleftrightarrow> running SB_SW_INCREMENTAL_OPERATION_SIGN_MESSAGE_DIGEST c \<and> sign_stage_ok (MULT_STATE c)"

abbreviation signing_left :: "sb_sw_context \<Rightarrow> nat" where
  "signing_left c \<equiv> sign_left (MULT_STATE c)"

lemma sb_sw_sign_message_digest_continue_running:
  assumes "running SB_SW_INCREMENTAL_OPERATION_SIGN_MESSAGE_DIGEST c"
  shows "sb_sw_sign_message_digest_continue c =
    (let (err, fin, c') = sb_sw_sign_continue c (running_curve c)
     in (err, fin, if err = SB_SUCCESS then c' else context_zero))"
  using assms running_from_id [OF assms]
  by (simp add: sb_sw_sign_message_digest_continue_def Let_def running_def err_simps split: prod.split)

lemma sign_continue_step:
  assumes "signing c" "signing_left c = Suc n" "sb_sw_sign_continue c s = (err, fin, c')"
  shows "signing c' \<and> signing_left c' = n \<and> (fin \<longleftrightarrow> n = 0)"
  using sb_sw_sign_continue_state [OF assms(3)] running_keep [of _ c c'] assms(1,2)
  by (auto simp: signing_def)

interpretation sg: incremental sb_sw_sign_message_digest_continue signing signing_left
  by unfold_locales
    (auto simp: sb_sw_sign_message_digest_continue_running signing_def [THEN iffD1] Let_def
      dest: sign_continue_step split: prod.splits if_splits)

lemma sb_sw_sign_message_digest_start_running:
  assumes "sb_sw_sign_message_digest_start private message provided_drbg curve e = (SB_SUCCESS, c, drbg')"
  shows "signing c" "signing_left c = 18"
proof -
  obtain t m where "sb_sw_sign_message_digest_shared_start m private message (the t) e = (SB_SUCCESS, c)"
    and t: "sb_sw_curve_from_id curve = (SB_SUCCESS, t)"
    using assms by (auto simp: sb_sw_sign_message_digest_start_def Let_def err_simps split: prod.splits if_splits)
  then obtain m' where c: "c = sb_sw_sign_start m' (the t)"
    by (auto simp: sb_sw_sign_message_digest_shared_start_def Let_def split: prod.splits if_splits)
  show "signing c" "signing_left c = 18"
    using curve_from_id_curve_id [OF t] running_keep
    by (auto simp: c signing_def running_def sb_sw_sign_start_def Let_def sign_stage_ok_def sign_left_def
        mult_stage_defs point_mult_left_start)
qed

subsection \<open>Progress of verification\<close>

definition verifying :: "sb_sw_context \<Rightarrow> bool" where
  "verifying c \<longleftrightarrow> running SB_SW_INCREMENTAL_OPERATION_VERIFY_SIGNATURE c \<and> verify_stage_ok (MULT_STATE c)"

abbreviation verifying_left :: "sb_sw_context \<Rightarrow> nat" where
  "verifying_left c \<equiv> verify_left (MULT_STATE c)"

lemma sb_sw_verify_signature_continue_running:
  assumes "running SB_SW_INCREMENTAL_OPERATION_VERIFY_SIGNATURE c"
  shows "sb_sw_verify_signature_continue c =
    (SB_SUCCESS, fst (sb_sw_verify_continue c (running_curve c)), snd (sb_sw_verify_continue c (running_curve c)))"
  using assms running_from_id [OF assms]
  by (simp add: sb_sw_verify_signature_continue_def Let_def running_def err_simps split: prod.split)

lemma verify_continue_step:
  assumes "verifying c" "verifying_left c = Suc n" "sb_sw_verify_continue c s = (fin, c')"
  shows "verifying c' \<and> verifying_left c' = n \<and> (fin \<longleftrightarrow> n = 0)"
  using sb_sw_verify_continue_state [OF assms(3)] running_keep [of _ c c'] assms(1,2)
  by (auto simp: verifying_def)

interpretation vf: incremental_total sb_sw_verify_signature_continue verifying verifying_left
  by unfold_locales
    (auto simp: sb_sw_verify_signature_continue_running verifying_def [THEN iffD1] intro: verify_continue_step
      dest: verify_continue_step)

lemma sb_sw_verify_signature_start_running:
  assumes "sb_sw_verify_signature_start signature public message drbg curve e = (SB_SUCCESS, c, drbg')"
  shows "verifying c" "verifying_left c = 19"
  using assms curve_from_id_curve_id [of curve]
  by (auto simp: sb_sw_verify_signature_start_def sb_sw_verify_start_def Let_def err_simps verifying_def
      running_def verify_stage_ok_def verify_left_def verify_stage_defs split: prod.splits if_splits)

subsection \<open>Outcome of the one-call operations\<close>

lemma sb_sw_sign_message_digest_finish_done:
  "signing c \<Longrightarrow> signing_left c = 0 \<Longrightarrow>
    sb_sw_sign_message_digest_finish c e =
      (SB_SUCCESS, sb_fe_to_bytes (C_X2 c) e @ sb_fe_to_bytes (C_Y2 c) e, context_zero)"
  by (auto simp: sb_sw_sign_message_digest_finish_def Let_def signing_def running_def err_simps
      sb_sw_sign_is_finished_def sign_left_def split: if_splits)

lemma sb_sw_sign_message_digest_loop:
  assumes "sb_sw_sign_message_digest_start private message provided_drbg curve e = (SB_SUCCESS, c, drbg')"
  shows "\<exists>err c'. do_continue sb_sw_sign_message_digest_continue c = Some (err, c')"
    and "do_continue sb_sw_sign_message_digest_continue c = Some (SB_SUCCESS, c') \<Longrightarrow>
      calls sb_sw_sign_message_digest_continue 18 c True c' \<and>
      sb_sw_sign_message_digest_finish c' e =
        (SB_SUCCESS, sb_fe_to_bytes (C_X2 c') e @ sb_fe_to_bytes (C_Y2 c') e, context_zero)"
  using sg.loop_returns [of c] sg.loop_calls [of c c'] sb_sw_sign_message_digest_start_running [OF assms]
    sb_sw_sign_message_digest_finish_done [of c' e]
  by auto

lemma sb_sw_sign_message_digest_loop_error:
  assumes "sb_sw_sign_message_digest_start private message provided_drbg curve e = (SB_SUCCESS, c, drbg')"
    and "do_continue sb_sw_sign_message_digest_continue c = Some (err, c')"
  shows "err \<in> {SB_SUCCESS, SB_ERROR_DRBG_FAILURE}"
proof (rule sg.loop_error [OF _ _ _ _ assms(2)])
  show "fst (sb_sw_sign_message_digest_continue d) \<in> {SB_SUCCESS, SB_ERROR_DRBG_FAILURE}"
    if "signing d" for d
    using that sb_sw_sign_continue_error [of d "running_curve d"]
    by (simp add: sb_sw_sign_message_digest_continue_running signing_def case_prod_unfold Let_def)
qed (use sb_sw_sign_message_digest_start_running [OF assms(1)] in auto)

lemma sb_sw_sign_message_digest_within:
  assumes "sb_sw_sign_message_digest_start private message provided_drbg curve e = (SB_SUCCESS, c, d)"
  shows "\<exists>r. do_continue sb_sw_sign_message_digest_continue c = Some r \<and> continue_within 18 sb_sw_sign_message_digest_continue c = Some r"
  using sg.loop_within [of c] sb_sw_sign_message_digest_start_running [OF assms] by simp

lemma sb_sw_sign_message_digest_returns:
  "\<exists>err out drbg'. sb_sw_sign_message_digest private message provided_drbg curve e =
    Some (err, out, context_zero, drbg')"
proof -
  obtain err c d where s: "sb_sw_sign_message_digest_start private message provided_drbg curve e = (err, c, d)"
    by (metis prod_cases3)
  show ?thesis
  proof (cases "err = SB_SUCCESS")
    case True
    with s obtain err' c' where "do_continue sb_sw_sign_message_digest_continue c = Some (err', c')"
      using sb_sw_sign_message_digest_loop(1) by blast
    with True s show ?thesis
      by (simp add: sb_sw_sign_message_digest_def split: prod.split)
  qed (simp add: sb_sw_sign_message_digest_def s)
qed

text \<open>Verification reports an invalid signature exactly when the accumulator has become zero.\<close>

lemma sb_sw_verify_signature_finish_done:
  "verifying c \<Longrightarrow> verifying_left c = 0 \<Longrightarrow>
    sb_sw_verify_signature_finish c =
      (sb_error_if SB_ERROR_SIGNATURE_INVALID (st_res (MULT_STATE c) = 0), context_zero)"
  by (auto simp: sb_sw_verify_signature_finish_def Let_def verifying_def running_def err_simps
      sb_sw_verify_is_finished_def verify_left_def split: if_splits)

lemma sb_sw_verify_signature_loop:
  assumes "sb_sw_verify_signature_start signature public message drbg curve e = (SB_SUCCESS, c, drbg')"
  shows "\<exists>c'. do_continue sb_sw_verify_signature_continue c = Some (SB_SUCCESS, c') \<and>
    calls sb_sw_verify_signature_continue 19 c True c' \<and>
    sb_sw_verify_signature_finish c' =
      (sb_error_if SB_ERROR_SIGNATURE_INVALID (st_res (MULT_STATE c') = 0), context_zero)"
  using vf.loop_succeeds [of c] sb_sw_verify_signature_start_running [OF assms]
    sb_sw_verify_signature_finish_done by fastforce

lemma sb_sw_verify_signature_within:
  assumes "sb_sw_verify_signature_start signature public message drbg curve e = (SB_SUCCESS, c, d)"
  shows "\<exists>r. do_continue sb_sw_verify_signature_continue c = Some r \<and> continue_within 19 sb_sw_verify_signature_continue c = Some r"
  using vf.loop_within [of c] sb_sw_verify_signature_start_running [OF assms] by simp

lemma sb_sw_verify_signature_returns:
  "\<exists>err drbg'. sb_sw_verify_signature signature public message drbg curve e = Some (err, context_zero, drbg')"
proof -
  obtain err c d where s: "sb_sw_verify_signature_start signature public message drbg curve e = (err, c, d)"
    by (metis prod_cases3)
  show ?thesis
  proof (cases "err = SB_SUCCESS")
    case True
    with sb_sw_verify_signature_loop s show ?thesis
      by (fastforce simp: sb_sw_verify_signature_def)
  qed (simp add: sb_sw_verify_signature_def s)
qed

end
