(* ===== verification/API_Claims.thy ===== *)
theory API_Claims
  imports SW_Points SW_Signature
begin

text \<open>
  The properties of the public functions of \<open>sb_sw_lib.c\<close>: termination and the number of
  calls of the incremental operations, their error behaviour, key validation, compression
  and composite signing.
\<close>

text \<open>The two outcomes of a start function.\<close>

lemma start_cases:
  "(\<And>c d. st = (SB_SUCCESS, c, d) \<Longrightarrow> A c d) \<Longrightarrow> (\<And>err c d. st = (err, c, d) \<Longrightarrow> err \<noteq> SB_SUCCESS \<Longrightarrow> B err d) \<Longrightarrow>
    case st of (err, c, d) \<Rightarrow> if err = SB_SUCCESS then A c d else B err d"
  by (cases st) auto

text \<open>
  C14: every one-call operation returns, with a bound on its work: once its start has succeeded, the loop over its \<open>continue\<close>
  function ends after at most seventeen calls for a multiplication, eighteen for signing and nineteen for
  verification, whatever the inputs and also when a call fails; when the start fails its error is
  returned without any call. In every case the context is nullified afterwards.
\<close>

theorem one_call_operations_return:
  "(case sb_sw_compute_public_key_start private drbg curve e of (err, c, d) \<Rightarrow>
      if err = SB_SUCCESS
      then (\<exists>r. do_continue sb_sw_compute_public_key_continue c = Some r \<and> continue_within 17 sb_sw_compute_public_key_continue c = Some r) \<and>
        (\<exists>err' out. sb_sw_compute_public_key private drbg curve e = Some (err', out, context_zero, d))
      else sb_sw_compute_public_key private drbg curve e = Some (err, None, context_zero, d)) \<and>
   (case sb_sw_shared_secret_start private public drbg curve e of (err, c, d) \<Rightarrow>
      if err = SB_SUCCESS
      then (\<exists>r. do_continue sb_sw_shared_secret_continue c = Some r \<and> continue_within 17 sb_sw_shared_secret_continue c = Some r) \<and>
        (\<exists>err' out. sb_sw_shared_secret private public drbg curve e = Some (err', out, context_zero, d))
      else sb_sw_shared_secret private public drbg curve e = Some (err, None, context_zero, d)) \<and>
   (case sb_sw_point_multiply_start private public drbg curve e of (err, c, d) \<Rightarrow>
      if err = SB_SUCCESS
      then (\<exists>r. do_continue sb_sw_point_multiply_continue c = Some r \<and> continue_within 17 sb_sw_point_multiply_continue c = Some r) \<and>
        (\<exists>err' out. sb_sw_point_multiply private public drbg curve e = Some (err', out, context_zero, d))
      else sb_sw_point_multiply private public drbg curve e = Some (err, None, context_zero, d)) \<and>
   (case sb_sw_sign_message_digest_start private message drbg curve e of (err, c, d) \<Rightarrow>
      if err = SB_SUCCESS
      then (\<exists>r. do_continue sb_sw_sign_message_digest_continue c = Some r \<and> continue_within 18 sb_sw_sign_message_digest_continue c = Some r) \<and>
        (\<exists>err' out. sb_sw_sign_message_digest private message drbg curve e = Some (err', out, context_zero, d))
      else sb_sw_sign_message_digest private message drbg curve e = Some (err, None, context_zero, d)) \<and>
   (case sb_sw_verify_signature_start signature public message drbg curve e of (err, c, d) \<Rightarrow>
      if err = SB_SUCCESS
      then (\<exists>r. do_continue sb_sw_verify_signature_continue c = Some r \<and> continue_within 19 sb_sw_verify_signature_continue c = Some r) \<and>
        (\<exists>err'. sb_sw_verify_signature signature public message drbg curve e = Some (err', context_zero, d))
      else sb_sw_verify_signature signature public message drbg curve e = Some (err, context_zero, d))"
proof ((intro conjI; rule start_cases), goal_cases)
  case (1 c d)
  then show ?case
    using sb_sw_compute_public_key_within [of "private" drbg curve e c d] by (auto simp: sb_sw_compute_public_key_def split: prod.split)
next
  case (3 c d)
  then show ?case
    using sb_sw_shared_secret_within [of "private" "public" drbg curve e c d] by (auto simp: sb_sw_shared_secret_def split: prod.split)
next
  case (5 c d)
  then show ?case
    using sb_sw_point_multiply_within [of "private" "public" drbg curve e c d] by (auto simp: sb_sw_point_multiply_def split: prod.split)
next
  case (7 c d)
  then show ?case
    using sb_sw_sign_message_digest_within [of "private" message drbg curve e c d] by (auto simp: sb_sw_sign_message_digest_def split: prod.split)
next
  case (9 c d)
  then show ?case
    using sb_sw_verify_signature_within [of "signature" "public" message drbg curve e c d] by (auto simp: sb_sw_verify_signature_def split: prod.split)
qed (simp_all add: sb_sw_compute_public_key_def sb_sw_shared_secret_def sb_sw_point_multiply_def
    sb_sw_sign_message_digest_def sb_sw_verify_signature_def)

text \<open>
  C15: the incremental operations finish after a fixed number of calls of their \<open>continue\<close>
  function: seventeen for a multiplication, eighteen for signing, nineteen for verification.
  Only the last call reports \<open>done\<close>, none of a multiplication or verification fails, and the
  one-call loop makes exactly these calls.
\<close>

theorem continue_call_counts:
  "(case sb_sw_compute_public_key_start private drbg curve e of (err, c, d) \<Rightarrow>
      if err = SB_SUCCESS
      then \<exists>c'. calls sb_sw_compute_public_key_continue 17 c True c' \<and>
        do_continue sb_sw_compute_public_key_continue c = Some (SB_SUCCESS, c')
      else sb_sw_compute_public_key private drbg curve e = Some (err, None, context_zero, d)) \<and>
   (case sb_sw_shared_secret_start private public drbg curve e of (err, c, d) \<Rightarrow>
      if err = SB_SUCCESS
      then \<exists>c'. calls sb_sw_shared_secret_continue 17 c True c' \<and>
        do_continue sb_sw_shared_secret_continue c = Some (SB_SUCCESS, c')
      else sb_sw_shared_secret private public drbg curve e = Some (err, None, context_zero, d)) \<and>
   (case sb_sw_point_multiply_start private public drbg curve e of (err, c, d) \<Rightarrow>
      if err = SB_SUCCESS
      then \<exists>c'. calls sb_sw_point_multiply_continue 17 c True c' \<and>
        do_continue sb_sw_point_multiply_continue c = Some (SB_SUCCESS, c')
      else sb_sw_point_multiply private public drbg curve e = Some (err, None, context_zero, d)) \<and>
   (case sb_sw_sign_message_digest_start private message drbg curve e of (err, c, d) \<Rightarrow>
      if err = SB_SUCCESS
      then \<exists>err' c'. do_continue sb_sw_sign_message_digest_continue c = Some (err', c') \<and>
        (if err' = SB_SUCCESS then calls sb_sw_sign_message_digest_continue 18 c True c'
         else err' = SB_ERROR_DRBG_FAILURE)
      else sb_sw_sign_message_digest private message drbg curve e = Some (err, None, context_zero, d)) \<and>
   (case sb_sw_verify_signature_start signature public message drbg curve e of (err, c, d) \<Rightarrow>
      if err = SB_SUCCESS
      then \<exists>c'. calls sb_sw_verify_signature_continue 19 c True c' \<and>
        do_continue sb_sw_verify_signature_continue c = Some (SB_SUCCESS, c')
      else sb_sw_verify_signature signature public message drbg curve e = Some (err, context_zero, d))"
proof (intro conjI)
  show "case sb_sw_compute_public_key_start private drbg curve e of (err, c, d) \<Rightarrow>
      if err = SB_SUCCESS
      then \<exists>c'. calls sb_sw_compute_public_key_continue 17 c True c' \<and>
        do_continue sb_sw_compute_public_key_continue c = Some (SB_SUCCESS, c')
      else sb_sw_compute_public_key private drbg curve e = Some (err, None, context_zero, d)"
    using sb_sw_compute_public_key_loop [of "private" drbg curve e]
    by (fastforce simp: sb_sw_compute_public_key_def split: prod.split)
  show "case sb_sw_shared_secret_start private public drbg curve e of (err, c, d) \<Rightarrow>
      if err = SB_SUCCESS
      then \<exists>c'. calls sb_sw_shared_secret_continue 17 c True c' \<and>
        do_continue sb_sw_shared_secret_continue c = Some (SB_SUCCESS, c')
      else sb_sw_shared_secret private public drbg curve e = Some (err, None, context_zero, d)"
    using sb_sw_shared_secret_loop [of "private" "public" drbg curve e]
    by (fastforce simp: sb_sw_shared_secret_def split: prod.split)
  show "case sb_sw_point_multiply_start private public drbg curve e of (err, c, d) \<Rightarrow>
      if err = SB_SUCCESS
      then \<exists>c'. calls sb_sw_point_multiply_continue 17 c True c' \<and>
        do_continue sb_sw_point_multiply_continue c = Some (SB_SUCCESS, c')
      else sb_sw_point_multiply private public drbg curve e = Some (err, None, context_zero, d)"
    using sb_sw_point_multiply_loop [of "private" "public" drbg curve e]
    by (fastforce simp: sb_sw_point_multiply_def split: prod.split)
  show "case sb_sw_sign_message_digest_start private message drbg curve e of (err, c, d) \<Rightarrow>
      if err = SB_SUCCESS
      then \<exists>err' c'. do_continue sb_sw_sign_message_digest_continue c = Some (err', c') \<and>
        (if err' = SB_SUCCESS then calls sb_sw_sign_message_digest_continue 18 c True c'
         else err' = SB_ERROR_DRBG_FAILURE)
      else sb_sw_sign_message_digest private message drbg curve e = Some (err, None, context_zero, d)"
    using sb_sw_sign_message_digest_loop [of "private" message drbg curve e]
      sb_sw_sign_message_digest_loop_error [of "private" message drbg curve e]
    by (fastforce simp: sb_sw_sign_message_digest_def split: prod.split)
  show "case sb_sw_verify_signature_start signature public message drbg curve e of (err, c, d) \<Rightarrow>
      if err = SB_SUCCESS
      then \<exists>c'. calls sb_sw_verify_signature_continue 19 c True c' \<and>
        do_continue sb_sw_verify_signature_continue c = Some (SB_SUCCESS, c')
      else sb_sw_verify_signature signature public message drbg curve e = Some (err, context_zero, d)"
    using sb_sw_verify_signature_loop [of "signature" "public" message drbg curve e]
    by (fastforce simp: sb_sw_verify_signature_def split: prod.split)
qed

text \<open>
  C17: public and private keys are accepted exactly when they are valid: a private key is
  between one and the order minus one, a public key is a point of the curve with reduced
  coordinates and a nonzero ordinate. Otherwise the error names the kind of key, and an unknown
  curve identifier is reported as such.
\<close>

theorem key_validation:
  "sb_sw_valid_private_key private curve e =
    (case snd (sb_sw_curve_from_id curve) of
       None \<Rightarrow> SB_ERROR_CURVE_INVALID
     | Some s \<Rightarrow> if scalar_valid s (sb_fe_from_bytes private e) then SB_SUCCESS else SB_ERROR_PRIVATE_KEY_INVALID,
     context_zero)
   \<and> sb_sw_valid_public_key public curve e =
    (case snd (sb_sw_curve_from_id curve) of
       None \<Rightarrow> SB_ERROR_CURVE_INVALID
     | Some s \<Rightarrow> if valid_key s public e then SB_SUCCESS else SB_ERROR_PUBLIC_KEY_INVALID,
     context_zero)"
  by (intro conjI sb_sw_valid_private_key_val sb_sw_valid_public_key_val)

text \<open>
  C18: misuse of the incremental interface is reported and loses the context: continuing or
  finishing an operation other than the one in progress is an incorrect operation, finishing
  it early is reported as not finished, and in both cases no output is revealed.
\<close>

theorem misuse_reported:
  assumes "st_curve_id (MULT_STATE c) \<in> {SB_SW_CURVE_P256, SB_SW_CURVE_SECP256K1}"
  shows "(st_operation (MULT_STATE c) \<noteq> SB_SW_INCREMENTAL_OPERATION_COMPUTE_PUBLIC_KEY \<longrightarrow>
      sb_sw_compute_public_key_continue c = (SB_ERROR_INCORRECT_OPERATION, False, context_zero) \<and>
      sb_sw_compute_public_key_finish c e = (SB_ERROR_INCORRECT_OPERATION, replicate SB_KEY_PAIR_BYTES 0, context_zero)) \<and>
    (st_operation (MULT_STATE c) = SB_SW_INCREMENTAL_OPERATION_COMPUTE_PUBLIC_KEY \<and> \<not> sb_sw_point_mult_is_finished c \<longrightarrow>
      sb_sw_compute_public_key_finish c e = (SB_ERROR_NOT_FINISHED, replicate SB_KEY_PAIR_BYTES 0, context_zero)) \<and>
    (st_operation (MULT_STATE c) \<noteq> SB_SW_INCREMENTAL_OPERATION_SHARED_SECRET \<longrightarrow>
      sb_sw_shared_secret_continue c = (SB_ERROR_INCORRECT_OPERATION, False, context_zero) \<and>
      sb_sw_shared_secret_finish c e = (SB_ERROR_INCORRECT_OPERATION, replicate SB_ELEM_BYTES 0, context_zero)) \<and>
    (st_operation (MULT_STATE c) = SB_SW_INCREMENTAL_OPERATION_SHARED_SECRET \<and> \<not> sb_sw_point_mult_is_finished c \<longrightarrow>
      sb_sw_shared_secret_finish c e = (SB_ERROR_NOT_FINISHED, replicate SB_ELEM_BYTES 0, context_zero)) \<and>
    (st_operation (MULT_STATE c) \<noteq> SB_SW_INCREMENTAL_OPERATION_POINT_MULTIPLY \<longrightarrow>
      sb_sw_point_multiply_continue c = (SB_ERROR_INCORRECT_OPERATION, False, context_zero) \<and>
      sb_sw_point_multiply_finish c e = (SB_ERROR_INCORRECT_OPERATION, replicate SB_KEY_PAIR_BYTES 0, context_zero)) \<and>
    (st_operation (MULT_STATE c) = SB_SW_INCREMENTAL_OPERATION_POINT_MULTIPLY \<and> \<not> sb_sw_point_mult_is_finished c \<longrightarrow>
      sb_sw_point_multiply_finish c e = (SB_ERROR_NOT_FINISHED, replicate SB_KEY_PAIR_BYTES 0, context_zero)) \<and>
    (st_operation (MULT_STATE c) \<noteq> SB_SW_INCREMENTAL_OPERATION_SIGN_MESSAGE_DIGEST \<longrightarrow>
      sb_sw_sign_message_digest_continue c = (SB_ERROR_INCORRECT_OPERATION, False, context_zero) \<and>
      sb_sw_sign_message_digest_finish c e = (SB_ERROR_INCORRECT_OPERATION, replicate SB_KEY_PAIR_BYTES 0, context_zero)) \<and>
    (st_operation (MULT_STATE c) = SB_SW_INCREMENTAL_OPERATION_SIGN_MESSAGE_DIGEST \<and> \<not> sb_sw_sign_is_finished c \<longrightarrow>
      sb_sw_sign_message_digest_finish c e = (SB_ERROR_NOT_FINISHED, replicate SB_KEY_PAIR_BYTES 0, context_zero)) \<and>
    (st_operation (MULT_STATE c) \<noteq> SB_SW_INCREMENTAL_OPERATION_VERIFY_SIGNATURE \<longrightarrow>
      sb_sw_verify_signature_continue c = (SB_ERROR_INCORRECT_OPERATION, False, context_zero) \<and>
      sb_sw_verify_signature_finish c = (SB_ERROR_INCORRECT_OPERATION, context_zero)) \<and>
    (st_operation (MULT_STATE c) = SB_SW_INCREMENTAL_OPERATION_VERIFY_SIGNATURE \<and> \<not> sb_sw_verify_is_finished c \<longrightarrow>
      sb_sw_verify_signature_finish c = (SB_ERROR_NOT_FINISHED, context_zero))"
proof -
  obtain s where s: "sb_sw_curve_from_id (st_curve_id (MULT_STATE c)) = (SB_SUCCESS, Some s)"
    using assms by (rule_tac sb_sw_curve_from_id_cases [of "st_curve_id (MULT_STATE c)"]) auto
  show ?thesis
    by (intro conjI impI)
      (simp_all add: s Let_def err_simps sb_sw_compute_public_key_continue_def sb_sw_compute_public_key_finish_def
        sb_sw_shared_secret_continue_def sb_sw_shared_secret_finish_def
        sb_sw_point_multiply_continue_def sb_sw_point_multiply_finish_def
        sb_sw_sign_message_digest_continue_def sb_sw_sign_message_digest_finish_def
        sb_sw_verify_signature_continue_def sb_sw_verify_signature_finish_def)
qed

theorem misuse_reported_witness:
  "sb_sw_verify_signature_finish context_zero = (SB_ERROR_INCORRECT_OPERATION, context_zero) \<and>
   sb_sw_verify_signature_finish (set_MULT_STATE context_zero
     (saved_state_zero\<lparr>st_operation := SB_SW_INCREMENTAL_OPERATION_VERIFY_SIGNATURE\<rparr>)) =
     (SB_ERROR_NOT_FINISHED, context_zero)"
proof -
  let ?c = "set_MULT_STATE context_zero (saved_state_zero\<lparr>st_operation := SB_SW_INCREMENTAL_OPERATION_VERIFY_SIGNATURE\<rparr>)"
  have z: "st_operation (MULT_STATE context_zero) = 0" "st_curve_id (MULT_STATE context_zero) = 0"
    by (simp_all add: MULT_STATE_def context_zero_def SB_FE_ZERO_def)
  have "\<not> sb_sw_verify_is_finished ?c"
    by (simp add: sb_sw_verify_is_finished_def saved_state_zero_def verify_stage_defs)
  then show ?thesis
    using misuse_reported [of context_zero] misuse_reported [of ?c] z
    by (simp add: saved_state_zero_def SB_SW_CURVE_P256_def SB_SW_INCREMENTAL_OPERATION_VERIFY_SIGNATURE_def)
qed

text \<open>
  C19: compressing a valid public key and decompressing the result gives the key back, bytes
  and all, in either byte order. The last hypothesis but one, Euler's congruence for the ordinate,
  holds for every ordinate that is not zero since the modulus is prime.
\<close>

theorem compression_roundtrip:
  assumes "sb_sw_curve_from_id curve = (SB_SUCCESS, Some s)" "valid_key s public e"
    and "euler_at (modulus (curve_p s)) (key_y public e)" "length public = SB_KEY_PAIR_BYTES"
  shows "sb_sw_compress_public_key public curve e =
      (SB_SUCCESS, low_half public, odd (key_y public e), context_zero)
    \<and> sb_sw_decompress_public_key (low_half public) (odd (key_y public e)) curve e =
      (SB_SUCCESS, public, context_zero)"
  using decompress_compressed [OF assms] assms(1,2) by (simp add: sb_sw_compress_public_key_val)

theorem compression_roundtrip_witness:
  "sb_sw_decompress_public_key (low_half (unit_key SB_DATA_ENDIAN_BIG)) True SB_SW_CURVE_P256 SB_DATA_ENDIAN_BIG =
    (SB_SUCCESS, unit_key SB_DATA_ENDIAN_BIG, context_zero)"
  using compression_roundtrip [of SB_SW_CURVE_P256 SB_CURVE_P256, OF _ unit_key_valid _ unit_key_val(3)]
  by (simp add: sb_sw_curve_from_id_def unit_key_val SB_SUCCESS_def SB_CURVE_P256_coeffs SB_CURVE_P256_P_val)

end
