(* ===== verification/ECDSA_Claims.thy ===== *)
theory ECDSA_Claims
  imports SW_Signature SW_Points
begin

text \<open>
  The properties of the signing and verification stages, of blinded inversion, candidate
  selection and composite signing. \<open>fermat_at N k\<close> is Fermat's congruence at one scalar; it
  holds for every scalar from one to \<open>N - 1\<close> since the orders are prime.
\<close>

text \<open>
  The last stage of signing computes an ECDSA signature: \<open>r\<close> is the abscissa that
  the ladder left, reduced modulo the order, and \<open>s\<close> satisfies the signing equation
  \<open>k s = m + r d\<close>. The stage reports \<open>done\<close>, and the only error is a generator failure, exactly
  when one of the two is zero.
\<close>

theorem signing_equation:
  assumes "curve_ok s" "st_stage (MULT_STATE g) = SB_SW_SIGN_OP_STAGE_INV"
    and "scalar_valid s (MULT_K g)" "fermat_at (modulus (curve_n s)) (fe_val (MULT_K g))"
    and "quasi_reduced (curve_n s) (SIGN_PRIVATE g)" "quasi_reduced (curve_n s) (SIGN_MESSAGE g)"
  shows "case sb_sw_sign_continue g s of (err, fin, g') \<Rightarrow>
    fin \<and> sb_sw_sign_is_finished g' \<and>
    fe_val (C_X2 g') = qrep (modulus (curve_n s)) (fe_val (C_X1 g)) \<and>
    (fe_val (MULT_K g) * fe_val (C_Y2 g')) mod modulus (curve_n s) =
      (fe_val (SIGN_MESSAGE g) + fe_val (C_X1 g) * fe_val (SIGN_PRIVATE g)) mod modulus (curve_n s) \<and>
    err = (if scalar_valid s (C_X2 g') \<and> scalar_valid s (C_Y2 g') then SB_SUCCESS else SB_ERROR_DRBG_FAILURE)"
proof -
  obtain err g' where i: "sign_inv g s = (err, g')" by fastforce
  have "sb_sw_sign_continue g s = (err, True, set_MULT_STATE g' (MULT_STATE g\<lparr>st_stage := SB_SW_SIGN_OP_STAGE_DONE\<rparr>))"
    using assms(2) by (simp add: sb_sw_sign_continue_def Let_def i mult_stage_defs)
  with sign_inv_val [OF assms(1,3-6) i] show ?thesis
    by (simp add: sb_sw_sign_is_finished_def)
qed

definition unit_signing :: sb_sw_context where
  "unit_signing = set_MULT_STATE (context_zero\<lparr>MULT_K := SB_FE_ONE, C_X1 := SB_FE_ONE,
     SIGN_PRIVATE := SB_FE_ONE, SIGN_MESSAGE := SB_FE_ONE\<rparr>)
     (saved_state_zero\<lparr>st_stage := SB_SW_SIGN_OP_STAGE_INV\<rparr>)"

lemma unit_P256:
  "scalar_valid SB_CURVE_P256 SB_FE_ONE" "quasi_reduced (curve_n SB_CURVE_P256) SB_FE_ONE"
  "quasi_reduced (curve_p SB_CURVE_P256) SB_FE_ONE" "1 < modulus (curve_n SB_CURVE_P256)"
  using curve_okD(5,6) [OF SB_CURVE_P256_ok] by (simp_all add: scalar_valid_def quasi_reduced_def)

theorem signing_equation_witness:
  "fe_val (C_Y2 (snd (snd (sb_sw_sign_continue unit_signing SB_CURVE_P256)))) mod modulus (curve_n SB_CURVE_P256) =
     2 mod modulus (curve_n SB_CURVE_P256)"
  using signing_equation [OF SB_CURVE_P256_ok, of unit_signing] unit_P256
  by (simp add: unit_signing_def case_prod_unfold)

text \<open>
  The first stage of verification accepts \<open>r\<close> and \<open>s\<close> from one to the order minus one and a digest
  that is not a multiple of the order, into the result word, and replaces the scalars by
  \<open>u\<^sub>1 = m / s\<close> and \<open>u\<^sub>2 = r / s\<close>; \<open>r\<close> is kept for the comparison.
\<close>

theorem verification_scalars:
  assumes "curve_ok s" "st_stage (MULT_STATE v) = SB_SW_VERIFY_OP_STAGE_INV_S"
    and "fermat_at (modulus (curve_n s)) (fe_val (VERIFY_QS v))"
  shows "case sb_sw_verify_continue v s of (fin, v') \<Rightarrow>
    \<not> fin \<and> st_stage (MULT_STATE v') = SB_SW_VERIFY_OP_STAGE_INV_Z \<and>
    st_res (MULT_STATE v') = st_res (MULT_STATE v) AND of_bool (scalar_valid s (VERIFY_QR v) \<and>
      scalar_valid s (VERIFY_QS v) \<and> fe_val (VERIFY_MESSAGE v) mod modulus (curve_n s) \<noteq> 0) \<and>
    (scalar_valid s (VERIFY_QR v) \<and> scalar_valid s (VERIFY_QS v) \<longrightarrow>
      (fe_val (MULT_ADD_KG v') * fe_val (VERIFY_QS v)) mod modulus (curve_n s) =
        fe_val (VERIFY_MESSAGE v) mod modulus (curve_n s) \<and>
      (fe_val (MULT_K v') * fe_val (VERIFY_QS v)) mod modulus (curve_n s) = fe_val (VERIFY_QR v) \<and>
      VERIFY_QR v' = VERIFY_QR v)"
proof -
  obtain res w where i: "verify_inv_s (st_res (MULT_STATE v)) v s = (res, w)" by fastforce
  have "sb_sw_verify_continue v s = (False, set_MULT_STATE w
      (MULT_STATE v\<lparr>st_res := res, st_stage := SB_SW_VERIFY_OP_STAGE_INV_Z\<rparr>))"
    using assms(2) by (simp add: sb_sw_verify_continue_def Let_def i)
  with verify_inv_s_val [OF assms(1) i] assms(3) show ?thesis by simp
qed

definition unit_verification :: "sb_sw_op_stage \<Rightarrow> sb_sw_context" where
  "unit_verification stage = set_MULT_STATE (context_zero\<lparr>VERIFY_QR := SB_FE_ONE, VERIFY_QS := SB_FE_ONE,
     VERIFY_MESSAGE := SB_FE_ONE, C_X1 := SB_FE_ONE, MULT_Z := r_mod_p (curve_p SB_CURVE_P256)\<rparr>)
     (saved_state_zero\<lparr>st_stage := stage, st_res := 1\<rparr>)"

theorem verification_scalars_witness:
  "st_res (MULT_STATE (snd (sb_sw_verify_continue (unit_verification SB_SW_VERIFY_OP_STAGE_INV_S) SB_CURVE_P256))) = 1"
  using verification_scalars [OF SB_CURVE_P256_ok, of "unit_verification SB_SW_VERIFY_OP_STAGE_INV_S"] unit_P256
  by (simp add: unit_verification_def case_prod_unfold)

text \<open>
  C9: the last stage of verification compares without leaving projective coordinates: with
  the ladder's result at abscissa \<open>x z\<^sup>2\<close>, for a coordinate \<open>z\<close> prime to the modulus, the result word keeps its
  value exactly when the result is not the point at infinity and \<open>x mod N = r\<close>.
\<close>

theorem verification_test:
  assumes "curve_ok s" "st_stage (MULT_STATE v) = SB_SW_VERIFY_OP_STAGE_TEST"
    and "scalar_valid s (VERIFY_QR v)" "quasi_reduced (curve_p s) (C_X1 v)" "quasi_reduced (curve_p s) (MULT_Z v)"
    and "coprime (mval (curve_p s) (MULT_Z v)) (modulus (curve_p s))" "0 \<le> x" "x < modulus (curve_p s)"
    and "eqm (modulus (curve_p s)) (fe_val (C_X1 v)) (x * (mval (curve_p s) (MULT_Z v) * mval (curve_p s) (MULT_Z v)))"
  shows "case sb_sw_verify_continue v s of (fin, v') \<Rightarrow>
    fin \<and> sb_sw_verify_is_finished v' \<and>
    st_res (MULT_STATE v') = st_res (MULT_STATE v) AND
      of_bool (\<not> (C_X1 v = prime_p (curve_p s) \<and> C_Y1 v = prime_p (curve_p s)) \<and>
        x mod modulus (curve_n s) = fe_val (VERIFY_QR v))"
proof -
  obtain res w where t: "verify_test (st_res (MULT_STATE v)) v s = (res, w)" by fastforce
  have "sb_sw_verify_continue v s = (True, set_MULT_STATE w
      (MULT_STATE v\<lparr>st_res := res, st_stage := SB_SW_VERIFY_OP_DONE\<rparr>))"
    using assms(2) by (simp add: sb_sw_verify_continue_def Let_def t verify_stage_defs)
  with verify_test_val [OF assms(1) t assms(3-9)] show ?thesis
    by (simp add: sb_sw_verify_is_finished_def)
qed

theorem verification_test_witness:
  "st_res (MULT_STATE (snd (sb_sw_verify_continue (unit_verification SB_SW_VERIFY_OP_STAGE_TEST) SB_CURVE_P256))) = 1"
proof -
  let ?v = "unit_verification SB_SW_VERIFY_OP_STAGE_TEST" and ?p = "curve_p SB_CURVE_P256"
  note C = curve_okD [OF SB_CURVE_P256_ok]
  have z: "mval ?p (MULT_Z ?v) = 1"
    using mval_r_mod_p [OF C(1)] by (simp add: unit_verification_def)
  have P: "fe_val (r_mod_p ?p) = 2 ^ 256 mod modulus ?p"
    using C(1) unfolding prime_field_ok_def by blast
  have "fe_val (r_mod_p ?p) \<noteq> 0"
    using z by (auto simp: mval_def unit_verification_def)
  moreover have "fe_val (r_mod_p ?p) < modulus ?p"
    unfolding P using C(5) by (intro pos_mod_bound) simp
  ultimately have q: "quasi_reduced ?p (MULT_Z ?v)"
    using fe_val_nonneg [of "r_mod_p ?p"] by (simp add: quasi_reduced_def unit_verification_def)
  have "C_X1 ?v \<noteq> prime_p ?p"
    using C(5) by (auto simp: unit_verification_def simp flip: fe_val_inject)
  then show ?thesis
    using verification_test [OF SB_CURVE_P256_ok, of ?v 1] unit_P256 z q C(5)
    by (simp add: unit_verification_def case_prod_unfold mod_pos_pos_trivial)
qed

text \<open>
  C21: blinded inversion: whatever the valid blinding factor \<open>k\<close>, the result in the Montgomery
  domain is the inverse of the scalar alone, and the operand is kept.
\<close>

theorem blinded_inversion:
  assumes "curve_ok s" "scalar_valid s (MULT_K ctx)" "scalar_valid s (MULT_Z ctx)"
    and "fermat_at (modulus (curve_n s)) (fe_val (MULT_K ctx) * fe_val (MULT_Z ctx))"
  shows "(mval (curve_n s) (C_T6 (sb_sw_invert_field_element ctx s)) * fe_val (MULT_Z ctx)) mod modulus (curve_n s) = 1
    \<and> quasi_reduced (curve_n s) (C_T6 (sb_sw_invert_field_element ctx s))
    \<and> MULT_Z (sb_sw_invert_field_element ctx s) = MULT_Z ctx"
  using sb_sw_invert_field_element_val [OF assms] by blast

theorem blinded_inversion_witness:
  "mval (curve_n SB_CURVE_P256) (C_T6 (sb_sw_invert_field_element
     (context_zero\<lparr>MULT_K := SB_FE_ONE, MULT_Z := SB_FE_ONE\<rparr>) SB_CURVE_P256)) mod modulus (curve_n SB_CURVE_P256) = 1"
  using blinded_inversion [OF SB_CURVE_P256_ok, of "context_zero\<lparr>MULT_K := SB_FE_ONE, MULT_Z := SB_FE_ONE\<rparr>"]
    unit_P256 by simp

lemma find_error:
  assumes "err = (if \<exists>x \<in> set xs. P x then ok else fail)" "err = ok \<Longrightarrow> find P xs = Some v"
  shows "case find P xs of None \<Rightarrow> err = fail | Some x \<Rightarrow> err = ok \<and> v = x"
  using assms find_None_iff [of P xs]
  by (cases "\<exists>x \<in> set xs. P x") (auto split: option.split)

text \<open>
  C24: candidate selection takes the first valid candidate of the four in the buffer, for
  scalars (with one added in the FIPS 186-4 mode) and for blinding coordinates, and reports a
  generator failure exactly when none is valid.
\<close>

theorem candidate_selection:
  assumes "curve_ok s"
  shows "(case sb_sw_k_from_buf ctx fips s e of (err, ctx') \<Rightarrow>
      (case find (scalar_valid s) (k_candidates fips ctx e) of
        None \<Rightarrow> err = SB_ERROR_DRBG_FAILURE
      | Some k \<Rightarrow> err = SB_SUCCESS \<and> MULT_K ctx' = k)) \<and>
    (case sb_sw_z_from_buf ctx s e of (err, ctx') \<Rightarrow>
      (case find (z_valid s) (z_candidates ctx e) of
        None \<Rightarrow> err = SB_ERROR_DRBG_FAILURE
      | Some z \<Rightarrow> err = SB_SUCCESS \<and> MULT_Z ctx' = z))"
proof
  obtain e1 c1 where k: "sb_sw_k_from_buf ctx fips s e = (e1, c1)" by fastforce
  show "case sb_sw_k_from_buf ctx fips s e of (err, ctx') \<Rightarrow>
      (case find (scalar_valid s) (k_candidates fips ctx e) of
        None \<Rightarrow> err = SB_ERROR_DRBG_FAILURE
      | Some k \<Rightarrow> err = SB_SUCCESS \<and> MULT_K ctx' = k)"
    using find_error [OF sb_sw_k_from_buf_val(1,2) [OF assms k]] by (simp add: k)
  obtain e2 c2 where z: "sb_sw_z_from_buf ctx s e = (e2, c2)" by fastforce
  show "case sb_sw_z_from_buf ctx s e of (err, ctx') \<Rightarrow>
      (case find (z_valid s) (z_candidates ctx e) of
        None \<Rightarrow> err = SB_ERROR_DRBG_FAILURE
      | Some z \<Rightarrow> err = SB_SUCCESS \<and> MULT_Z ctx' = z)"
    using find_error [OF sb_sw_z_from_buf_val(1,2) [OF assms z]] by (simp add: z)
qed

text \<open>An all-zero buffer gives the scalar one in the FIPS 186-4 mode.\<close>

lemma k_candidate_zero: "k_candidate True (buf_elem (gen_buf context_zero) 0) SB_DATA_ENDIAN_BIG = SB_FE_ONE"
  by code_simp

theorem candidate_selection_witness:
  "MULT_K (snd (sb_sw_k_from_buf context_zero True SB_CURVE_P256 SB_DATA_ENDIAN_BIG)) = SB_FE_ONE"
proof -
  have "find (scalar_valid SB_CURVE_P256) (k_candidates True context_zero SB_DATA_ENDIAN_BIG) = Some SB_FE_ONE"
    using unit_P256(1) by (simp add: k_candidates_def candidates_upt k_candidate_zero)
  then show ?thesis
    using candidate_selection [OF SB_CURVE_P256_ok,
        where ctx = context_zero and fips = True and e = SB_DATA_ENDIAN_BIG]
    by (simp add: case_prod_unfold)
qed

text \<open>
  C20: composite signing: if \<open>(r, t)\<close> signs the wrapped digest \<open>w\<close> under the private key one, with
  \<open>w d = m\<close>, then unwrapping it with the private key \<open>d\<close> gives \<open>(r, d t)\<close>, which signs
  the digest \<open>m\<close> under the key \<open>d\<close> with the same per-message secret.
\<close>

theorem composite_unwrap_signs:
  assumes "sb_sw_curve_from_id curve = (SB_SUCCESS, Some s)" "curve_ok s"
    and "scalar_valid s (sb_fe_from_bytes private e)" "scalar_valid s (sb_fe_from_bytes (low_half signature) e)"
    and "scalar_valid s (sb_fe_from_bytes (high_half signature) e)" "length signature = SB_KEY_PAIR_BYTES"
    and "(k * fe_val (sb_fe_from_bytes (high_half signature) e)) mod modulus (curve_n s) =
      (w + fe_val (sb_fe_from_bytes (low_half signature) e)) mod modulus (curve_n s)"
    and "(w * fe_val (sb_fe_from_bytes private e)) mod modulus (curve_n s) = m mod modulus (curve_n s)"
  shows "case sb_sw_composite_sign_unwrap_signature signature private curve e of (err, out, ctx) \<Rightarrow>
    err = SB_SUCCESS \<and> ctx = context_zero \<and> low_half out = low_half signature \<and>
    (k * fe_val (sb_fe_from_bytes (high_half out) e)) mod modulus (curve_n s) =
      (m + fe_val (sb_fe_from_bytes (low_half signature) e) * fe_val (sb_fe_from_bytes private e))
        mod modulus (curve_n s)"
proof -
  let ?n = "curve_n s" and ?N = "modulus (curve_n s)"
  let ?d = "sb_fe_from_bytes private e" and ?r = "sb_fe_from_bytes (low_half signature) e"
    and ?t = "sb_fe_from_bytes (high_half signature) e"
  note C = curve_okD [OF assms(2)]
  have q: "quasi_reduced ?n ?d" "quasi_reduced ?n ?t"
    using assms(3,5) by (simp_all add: scalar_valid_def quasi_reduced_def)
  define u where "u = sb_fe_mont_mult (sb_fe_mont_convert ?d ?n) ?t ?n"
  note dr = sb_fe_mont_convert_val [OF C(2) q(1)]
  have "fe_val u mod ?N = (fe_val ?d * fe_val ?t) mod ?N"
    using mont_mult_fe_mval(2) [OF C(4) dr(3) q(2)] by (simp add: u_def dr(2) mod_mult_left_eq)
  then have "(k * fe_val u) mod ?N = (k * (fe_val ?d * fe_val ?t)) mod ?N"
    by (metis mod_mult_right_eq)
  also have "k * (fe_val ?d * fe_val ?t) = (k * fe_val ?t) * fe_val ?d"
    by (simp add: ac_simps)
  also have "\<dots> mod ?N = ((w + fe_val ?r) * fe_val ?d) mod ?N"
    using assms(7) by (rule mod_mult_cong) simp
  also have "\<dots> = (m + fe_val ?r * fe_val ?d) mod ?N"
    unfolding distrib_right by (rule mod_add_cong [OF assms(8) refl])
  finally have v: "(k * fe_val u) mod ?N = (m + fe_val ?r * fe_val ?d) mod ?N" .
  have l: "length (low_half signature) = 32"
    using halves_append(2) [OF assms(6)] by simp
  have "sb_sw_composite_sign_unwrap_signature signature private curve e =
      (SB_SUCCESS, low_half signature @ sb_fe_to_bytes u e, context_zero)"
    using sb_sw_composite_sign_unwrap_signature_val [OF assms(1,2) refl refl refl] assms(3-5) l
    by (simp add: u_def sb_fe_to_from_bytes)
  then show ?thesis
    using v halves_of_append [of "low_half signature" "sb_fe_to_bytes u e"] l
    by (simp add: SB_ELEM_BYTES_def)
qed

theorem composite_unwrap_signs_witness:
  "fst (sb_sw_composite_sign_unwrap_signature
     (sb_fe_to_bytes SB_FE_ONE SB_DATA_ENDIAN_BIG @ sb_fe_to_bytes SB_FE_ONE SB_DATA_ENDIAN_BIG)
     (sb_fe_to_bytes SB_FE_ONE SB_DATA_ENDIAN_BIG) SB_SW_CURVE_P256 SB_DATA_ENDIAN_BIG) = SB_SUCCESS"
proof -
  let ?one = "sb_fe_to_bytes SB_FE_ONE SB_DATA_ENDIAN_BIG"
  have l: "length ?one = 32" by (simp add: SB_ELEM_BYTES_def)
  have "sb_sw_curve_from_id SB_SW_CURVE_P256 = (SB_SUCCESS, Some SB_CURVE_P256)"
    by (simp add: sb_sw_curve_from_id_def SB_SUCCESS_def)
  then show ?thesis
    using composite_unwrap_signs [of SB_SW_CURVE_P256 SB_CURVE_P256 ?one SB_DATA_ENDIAN_BIG "?one @ ?one" 2 1 1]
      SB_CURVE_P256_ok unit_P256(1) halves_of_append [of ?one ?one] l
    by (simp add: sb_fe_from_to_bytes SB_KEY_PAIR_BYTES_def SB_ELEM_BYTES_def SB_SUCCESS_def case_prod_unfold)
qed

end
