(* ===== verification/Exceptional.thy ===== *)
theory Exceptional
  imports Registers
begin

text \<open>
  The co-Z formulas on any registers, and what they leave when an addition is exceptional. A ladder
  that has added a point and its opposite keeps zeros and a point of the cuspidal cubic in its
  registers, and the recovery of the coordinate then yields zero.
\<close>

subsection \<open>Updates of pairs\<close>

text \<open>
  \<open>z_update P a b u v\<close> says that \<open>u\<close> and \<open>v\<close> are what the update makes of \<open>a\<close> and \<open>b\<close>.
\<close>

definition z_update :: "int \<Rightarrow> affine \<Rightarrow> affine \<Rightarrow> affine \<Rightarrow> affine \<Rightarrow> bool" where
  "z_update P a b u v \<longleftrightarrow>
     eqm P (fst v) (fst a * ((fst b - fst a) * (fst b - fst a))) \<and>
     eqm P (snd v) (snd a * ((fst b - fst a) * ((fst b - fst a) * (fst b - fst a)))) \<and>
     eqm P (fst u) ((snd b - snd a) * (snd b - snd a) - (fst a + fst b) * ((fst b - fst a) * (fst b - fst a))) \<and>
     eqm P (snd u) ((snd b - snd a) * (fst v - fst u) - snd v)"

lemma z_updateD:
  assumes "z_update P a b u v"
  shows "eqm P (fst v) (fst a * ((fst b - fst a) * (fst b - fst a)))"
    "eqm P (snd v) (snd a * ((fst b - fst a) * ((fst b - fst a) * (fst b - fst a))))"
    "eqm P (fst u) ((snd b - snd a) * (snd b - snd a) - (fst a + fst b) * ((fst b - fst a) * (fst b - fst a)))"
    "eqm P (snd u) ((snd b - snd a) * (fst v - fst u) - snd v)"
  using assms by (simp_all add: z_update_def)

text \<open>The update in the registers, for a difference of the abscissae in \<open>C_T6\<close>.\<close>

lemma zup_pairs:
  fixes c :: sb_sw_context and s :: sb_sw_curve
  assumes ok: "mont_ok (curve_p s)" and q: "coords_qr s c" "quasi_reduced (curve_p s) (C_T6 c)"
    and P: "P = modulus (curve_p s)"
    and e: "eqm P (mval (curve_p s) (C_T6 c)) (fst (reg2 s c) - fst (reg1 s c))"
  defines "c' \<equiv> sb_sw_point_co_z_add_update_zup c s" and "d \<equiv> fst (reg2 s c) - fst (reg1 s c)"
  shows "z_update P (reg1 s c) (reg2 s c) (reg1 s c') (reg2 s c')"
    and "eqm P (mval (curve_p s) (C_T5 c')) ((fst (reg1 s c) + fst (reg2 s c)) * (d * d))"
proof -
  let ?v = "mval (curve_p s)"
  let ?t = "C_T6 c" and ?y = "snd (reg2 s c) - snd (reg1 s c)"
  note r = co_z_add_update_zup_regs [OF ok q, folded P c'_def]
  have e: "eqm P (?v ?t) d" using e by (simp add: d_def)
  have "eqm P (?v (C_X1 c) * (?v ?t * ?v ?t)) (?v (C_X1 c) * (d * d))"
    by (intro eqm_mult eqm_refl e)
  with r(3) have X2: "eqm P (fst (reg2 s c')) (fst (reg1 s c) * (d * d))"
    unfolding reg1_def reg2_def fst_conv by (rule eqm_trans)
  have b: "eqm P (?v (C_X2 c) * (?v ?t * ?v ?t)) (?v (C_X2 c) * (d * d))"
    by (intro eqm_mult eqm_refl e)
  have "eqm P (?v (C_Y1 c) * (?v (C_X2 c) * (?v ?t * ?v ?t) - ?v (C_X2 c')))
      (?v (C_Y1 c) * (?v (C_X2 c) * (d * d) - fst (reg1 s c) * (d * d)))"
    using X2 by (intro eqm_cong b) (simp add: reg2_def)
  also have "?v (C_Y1 c) * (?v (C_X2 c) * (d * d) - fst (reg1 s c) * (d * d)) = snd (reg1 s c) * (d * (d * d))"
    by (simp add: reg1_def d_def reg2_def algebra_simps)
  finally have Y2: "eqm P (snd (reg2 s c')) (snd (reg1 s c) * (d * (d * d)))"
    using r(5) unfolding reg2_def snd_conv by (rule eqm_trans [rotated])
  have "eqm P (?v (C_X2 c') + ?v (C_X2 c) * (?v ?t * ?v ?t)) ((fst (reg1 s c) + fst (reg2 s c)) * (d * d))"
    using eqm_add [OF X2 b] by (simp add: reg2_def distrib_right)
  with r(4) show T5: "eqm P (?v (C_T5 c')) ((fst (reg1 s c) + fst (reg2 s c)) * (d * d))"
    by (rule eqm_trans)
  have "eqm P (?y * ?y - ?v (C_T5 c')) (?y * ?y - (fst (reg1 s c) + fst (reg2 s c)) * (d * d))"
    by (intro eqm_diff eqm_refl T5)
  moreover have "eqm P (fst (reg1 s c')) (?y * ?y - ?v (C_T5 c'))"
    using r(6) by (simp add: reg1_def reg2_def)
  ultimately have "eqm P (fst (reg1 s c')) (?y * ?y - (fst (reg1 s c) + fst (reg2 s c)) * (d * d))"
    by (rule eqm_trans [rotated])
  moreover have "eqm P (snd (reg1 s c')) (?y * (fst (reg2 s c') - fst (reg1 s c')) - snd (reg2 s c'))"
    using r(7) by (simp add: reg1_def reg2_def)
  ultimately show "z_update P (reg1 s c) (reg2 s c) (reg1 s c') (reg2 s c')"
    using X2 Y2 by (simp add: z_update_def d_def)
qed

subsection \<open>Exceptional additions\<close>

text \<open>
  The exceptional cases. The addition of equal points leaves zeros; that of opposite points
  a point of the cuspidal cubic \<open>y\<^sup>2 = x\<^sup>3\<close>. Adding the zeros to a point of that cubic leaves zeros
  in the first registers, and the other way round.
\<close>

definition cuspidal :: "int \<Rightarrow> affine \<Rightarrow> bool" where
  "cuspidal P a \<longleftrightarrow> eqm P (snd a * snd a) (fst a * (fst a * fst a))"

definition zero_point :: "int \<Rightarrow> affine \<Rightarrow> bool" where
  "zero_point P a \<longleftrightarrow> eqm P (fst a) 0 \<and> eqm P (snd a) 0"

lemma zero_point_cuspidal: "zero_point P a \<Longrightarrow> cuspidal P a"
proof -
  assume "zero_point P a"
  then have "eqm P (snd a * snd a) (0 * 0)" "eqm P (fst a * (fst a * fst a)) (0 * (0 * 0))"
    unfolding zero_point_def by (intro eqm_mult; blast)+
  then show ?thesis
    unfolding cuspidal_def by (metis eqm_sym eqm_trans mult_zero_left)
qed

lemma zero_pointD: "zero_point P a \<Longrightarrow> eqm P (fst a) 0" "zero_point P a \<Longrightarrow> eqm P (snd a) 0"
  by (simp_all add: zero_point_def)

lemma z_update_equal:
  assumes u: "z_update P a b u v" and x: "eqm P (fst b - fst a) 0"
  shows "zero_point P v" "eqm P (fst u) ((snd b - snd a) * (snd b - snd a))"
    and "eqm P (snd u) (- ((snd b - snd a) * fst u))"
proof -
  note U = z_updateD [OF u]
  have "eqm P (fst a * ((fst b - fst a) * (fst b - fst a))) (fst a * (0 * 0))"
    "eqm P (snd a * ((fst b - fst a) * ((fst b - fst a) * (fst b - fst a)))) (snd a * (0 * (0 * 0)))"
    by (intro eqm_mult eqm_refl x)+
  from eqm_trans [OF U(1) this(1)] eqm_trans [OF U(2) this(2)] show v: "zero_point P v"
    by (simp add: zero_point_def)
  have "eqm P ((snd b - snd a) * (snd b - snd a) - (fst a + fst b) * ((fst b - fst a) * (fst b - fst a)))
      ((snd b - snd a) * (snd b - snd a) - (fst a + fst b) * (0 * 0))"
    by (intro eqm_cong x)
  from eqm_trans [OF U(3) this] show "eqm P (fst u) ((snd b - snd a) * (snd b - snd a))"
    by simp
  have "eqm P ((snd b - snd a) * (fst v - fst u) - snd v) ((snd b - snd a) * (0 - fst u) - 0)"
    by (intro eqm_cong zero_pointD v)
  from eqm_trans [OF U(4) this] show "eqm P (snd u) (- ((snd b - snd a) * fst u))"
    by simp
qed

lemma z_update_same:
  assumes "z_update P a b u v" "eqm P (fst b - fst a) 0" "eqm P (snd b - snd a) 0"
  shows "zero_point P u" "zero_point P v"
proof -
  note E = z_update_equal [OF assms(1,2)]
  show "zero_point P v" by (rule E(1))
  have "eqm P ((snd b - snd a) * (snd b - snd a)) (0 * 0)" "eqm P (- ((snd b - snd a) * fst u)) (- (0 * fst u))"
    by (intro eqm_cong assms)+
  with E(2,3) show "zero_point P u"
    unfolding zero_point_def by (metis eqm_trans minus_zero mult_zero_left)
qed

lemma z_update_opposite:
  assumes "z_update P a b u v" "eqm P (fst b - fst a) 0"
  shows "cuspidal P u"
  unfolding cuspidal_def
proof -
  note E = z_update_equal [OF assms]
  let ?t = "snd b - snd a"
  have "eqm P (snd u * snd u) (- (?t * fst u) * - (?t * fst u))"
    by (intro eqm_mult E)
  also have "- (?t * fst u) * - (?t * fst u) = ?t * ?t * (fst u * fst u)"
    by (simp add: ac_simps)
  also have "eqm P \<dots> (fst u * (fst u * fst u))"
    by (intro eqm_mult eqm_refl eqm_sym [OF E(2)])
  finally show "eqm P (snd u * snd u) (fst u * (fst u * fst u))" .
qed

lemma z_update_cusp_zero:
  assumes u: "z_update P a b u v" and a: "cuspidal P a" and b: "zero_point P b"
  shows "zero_point P u" "cuspidal P v"
proof -
  note U = z_updateD [OF u] and B = zero_pointD [OF b]
  let ?x = "fst a" and ?y = "snd a"
  have d: "eqm P (fst b - ?x) (0 - ?x)" "eqm P (snd b - ?y) (0 - ?y)"
    by (intro eqm_cong B)+
  have v: "eqm P (fst v) (?x * (?x * ?x))" "eqm P (snd v) (- (?y * (?x * (?x * ?x))))"
  proof -
    have "eqm P (?x * ((fst b - ?x) * (fst b - ?x))) (?x * ((0 - ?x) * (0 - ?x)))"
      "eqm P (?y * ((fst b - ?x) * ((fst b - ?x) * (fst b - ?x)))) (?y * ((0 - ?x) * ((0 - ?x) * (0 - ?x))))"
      by (intro eqm_mult eqm_refl d)+
    with U(1,2) show "eqm P (fst v) (?x * (?x * ?x))" "eqm P (snd v) (- (?y * (?x * (?x * ?x))))"
      by (auto intro: eqm_trans)
  qed
  have "eqm P ((snd b - ?y) * (snd b - ?y) - (?x + fst b) * ((fst b - ?x) * (fst b - ?x)))
      ((0 - ?y) * (0 - ?y) - (?x + 0) * ((0 - ?x) * (0 - ?x)))"
    by (intro eqm_cong d B)
  also have "(0 - ?y) * (0 - ?y) - (?x + 0) * ((0 - ?x) * (0 - ?x)) = ?y * ?y - ?x * (?x * ?x)"
    by simp
  also have "eqm P \<dots> 0"
    using a by (simp add: cuspidal_def eqm_def)
  finally have x: "eqm P (fst u) 0"
    using U(3) by (rule eqm_trans [rotated])
  have "eqm P ((snd b - ?y) * (fst v - fst u) - snd v) ((0 - ?y) * (?x * (?x * ?x) - 0) - - (?y * (?x * (?x * ?x))))"
    by (intro eqm_cong d v x)
  from eqm_trans [OF U(4) this] have "eqm P (snd u) 0"
    by simp
  with x show "zero_point P u" by (simp add: zero_point_def)
  have "eqm P (snd v * snd v) (- (?y * (?x * (?x * ?x))) * - (?y * (?x * (?x * ?x))))"
    by (intro eqm_mult v)
  also have "- (?y * (?x * (?x * ?x))) * - (?y * (?x * (?x * ?x))) = ?y * ?y * (?x * (?x * ?x) * (?x * (?x * ?x)))"
    by (simp add: ac_simps)
  also have "eqm P \<dots> (?x * (?x * ?x) * (?x * (?x * ?x) * (?x * (?x * ?x))))"
    by (rule eqm_mult [OF a [unfolded cuspidal_def] eqm_refl])
  also have "eqm P \<dots> (fst v * (fst v * fst v))"
    by (intro eqm_mult eqm_sym [OF v(1)])
  finally show "cuspidal P v" by (simp add: cuspidal_def)
qed

lemma z_update_zero_cusp:
  assumes u: "z_update P a b u v" and a: "zero_point P a" and b: "cuspidal P b"
  shows "zero_point P u"
proof -
  note U = z_updateD [OF u] and A = zero_pointD [OF a]
  let ?x = "fst b" and ?y = "snd b"
  have d: "eqm P (?x - fst a) (?x - 0)" "eqm P (?y - snd a) (?y - 0)"
    by (intro eqm_cong A)+
  have "eqm P (fst a * ((?x - fst a) * (?x - fst a))) (0 * ((?x - fst a) * (?x - fst a)))"
    "eqm P (snd a * ((?x - fst a) * ((?x - fst a) * (?x - fst a)))) (0 * ((?x - fst a) * ((?x - fst a) * (?x - fst a))))"
    by (intro eqm_mult eqm_refl A)+
  with U(1,2) have v: "eqm P (fst v) 0" "eqm P (snd v) 0"
    by (auto intro: eqm_trans)
  have "eqm P ((?y - snd a) * (?y - snd a) - (fst a + ?x) * ((?x - fst a) * (?x - fst a)))
      ((?y - 0) * (?y - 0) - (0 + ?x) * ((?x - 0) * (?x - 0)))"
    by (intro eqm_cong d A)
  also have "(?y - 0) * (?y - 0) - (0 + ?x) * ((?x - 0) * (?x - 0)) = ?y * ?y - ?x * (?x * ?x)"
    by simp
  also have "eqm P \<dots> 0"
    using b by (simp add: cuspidal_def eqm_def)
  finally have x: "eqm P (fst u) 0"
    using U(3) by (rule eqm_trans [rotated])
  have "eqm P ((?y - snd a) * (fst v - fst u) - snd v) ((?y - 0) * (0 - 0) - 0)"
    by (intro eqm_cong d v x)
  with U(4) have "eqm P (snd u) 0"
    by (auto intro: eqm_trans)
  with x show ?thesis by (simp add: zero_point_def)
qed

subsection \<open>The two additions of a ladder step\<close>

lemma co_z_add_update_pairs:
  fixes c :: sb_sw_context and s :: sb_sw_curve
  assumes ok: "mont_ok (curve_p s)" and q: "coords_qr s c" and P: "P = modulus (curve_p s)"
  defines "c' \<equiv> sb_sw_point_co_z_add_update c s" and "d \<equiv> fst (reg2 s c) - fst (reg1 s c)"
  shows "z_update P (reg1 s c) (reg2 s c) (reg1 s c') (reg2 s c')"
    and "eqm P (mval (curve_p s) (C_T5 c')) ((fst (reg1 s c) + fst (reg2 s c)) * (d * d))"
    and "coords_qr s c'" "quasi_reduced (curve_p s) (C_T5 c')"
proof -
  let ?d = "c\<lparr>C_T6 := sb_fe_mod_sub (C_X2 c) (C_X1 c) (curve_p s)\<rparr>"
  have qd: "coords_qr s ?d" "quasi_reduced (curve_p s) (C_T6 ?d)"
    using q coords_qrD [OF q] by (simp_all add: quasi_reduced_ops)
  have e: "eqm P (mval (curve_p s) (C_T6 ?d)) (fst (reg2 s ?d) - fst (reg1 s ?d))"
    using z_factor_eqm [OF q] by (simp add: z_factor_def P)
  note c' = c'_def [unfolded sb_sw_point_co_z_add_update_def Let_def]
  show "z_update P (reg1 s c) (reg2 s c) (reg1 s c') (reg2 s c')"
    "eqm P (mval (curve_p s) (C_T5 c')) ((fst (reg1 s c) + fst (reg2 s c)) * (d * d))"
    using zup_pairs [OF ok qd P e] by (simp_all add: c' d_def)
  show "coords_qr s c'" "quasi_reduced (curve_p s) (C_T5 c')"
    using co_z_add_update_zup_regs(1,2) [OF ok qd] by (simp_all add: c')
qed

text \<open>The conjugate addition updates with the second point and with its opposite.\<close>

lemma co_z_conj_add_pairs:
  fixes c :: sb_sw_context and s :: sb_sw_curve
  assumes ok: "mont_ok (curve_p s)" and q: "coords_qr s c" and P: "P = modulus (curve_p s)"
  defines "c' \<equiv> sb_sw_point_co_z_conj_add c s"
  shows "\<exists>v. z_update P (reg1 s c) (reg2 s c) (reg1 s c') v \<and>
    z_update P (reg1 s c) (opposite (reg2 s c)) (reg2 s c') v"
proof -
  let ?v = "mval (curve_p s)" and ?c = "c\<lparr>C_T8 := sb_fe_mod_add (C_Y1 c) (C_Y2 c) (curve_p s)\<rparr>"
  define c1 where "c1 = sb_sw_point_co_z_add_update ?c s"
  define t where "t = snd (reg1 s c) + snd (reg2 s c)"
  note T = co_z_conj_add_terms [of c s, folded c1_def c'_def]
  have qc: "coords_qr s ?c" using q by simp
  note u = co_z_add_update_pairs [OF ok qc P, folded c1_def, simplified]
  note q0 = coords_qrD [OF q] and q1 = coords_qrD [OF u(3)]
  have q8: "quasi_reduced (curve_p s) (C_T8 c1)"
    by (simp add: T(5) q0 qr_intros)
  have qX: "quasi_reduced (curve_p s) (C_X2 c')"
    unfolding T(7) by (simp add: q8 u(4) ok qr_intros)
  have t8: "eqm P (?v (C_T8 c1)) t"
    by (simp add: eqm_mod T(5) P t_def reg1_def reg2_def mval_simps q0)
  have "eqm P (?v (C_X2 c')) (?v (C_T8 c1) * ?v (C_T8 c1) - ?v (C_T5 c1))"
    by (simp add: eqm_mod T(7) P mval_simps mod_simps q8 u(4) ok qr_intros)
  also have "eqm P \<dots> (t * t - (fst (reg1 s c) + fst (reg2 s c)) *
      ((fst (reg2 s c) - fst (reg1 s c)) * (fst (reg2 s c) - fst (reg1 s c))))"
    by (intro eqm_diff eqm_mult t8 u(2))
  finally have X: "eqm P (fst (reg2 s c')) (t * t - (fst (reg1 s c) + fst (reg2 s c)) *
      ((fst (reg2 s c) - fst (reg1 s c)) * (fst (reg2 s c) - fst (reg1 s c))))"
    by (simp add: reg2_def)
  have "eqm P (?v (C_Y2 c')) (?v (C_T8 c1) * (?v (C_X2 c') - ?v (C_X2 c1)) - ?v (C_Y2 c1))"
    by (simp add: eqm_mod T(8) P mval_simps mod_simps q8 qX q1 ok qr_intros)
  also have "eqm P \<dots> (t * (?v (C_X2 c') - ?v (C_X2 c1)) - ?v (C_Y2 c1))"
    by (intro eqm_diff eqm_mult t8 eqm_refl)
  finally have Y: "eqm P (snd (reg2 s c')) (t * (fst (reg2 s c') - fst (reg2 s c1)) - snd (reg2 s c1))"
    by (simp add: reg2_def)
  have r1: "reg1 s c' = reg1 s c1" by (simp add: reg1_def T)
  have "z_update P (reg1 s c) (opposite (reg2 s c)) (reg2 s c') (reg2 s c1)"
    using z_updateD [OF u(1)] X Y by (simp add: z_update_def t_def opposite_def algebra_simps)
  with u(1) show ?thesis unfolding r1 by blast
qed

text \<open>Zeros beside a point of the cubic stay so.\<close>

definition vanished :: "int \<Rightarrow> affine \<Rightarrow> affine \<Rightarrow> bool" where
  "vanished P a b \<longleftrightarrow> cuspidal P a \<and> zero_point P b \<or> zero_point P a \<and> cuspidal P b"

lemma vanished_sym: "vanished P a b \<longleftrightarrow> vanished P b a"
  by (auto simp: vanished_def)

lemma opposite_cusp:
  "cuspidal P a \<Longrightarrow> cuspidal P (opposite a)" "zero_point P a \<Longrightarrow> zero_point P (opposite a)"
  using eqm_minus [of P "snd a" 0] by (simp_all add: cuspidal_def zero_point_def opposite_def)

lemma z_update_vanished:
  assumes "z_update P a b u v" "vanished P a b"
  shows "zero_point P u" "vanished P u v"
proof -
  show u: "zero_point P u"
    using assms z_update_cusp_zero(1) z_update_zero_cusp unfolding vanished_def by blast
  have "cuspidal P v" if "zero_point P a"
  proof -
    note U = z_updateD [OF assms(1)] and A = zero_pointD [OF that]
    have "eqm P (fst v) 0" "eqm P (snd v) 0"
      using eqm_trans [OF U(1) eqm_mult [OF A(1) eqm_refl]] eqm_trans [OF U(2) eqm_mult [OF A(2) eqm_refl]]
      by simp_all
    then show ?thesis by (simp add: zero_point_cuspidal zero_point_def)
  qed
  with u show "vanished P u v"
    using assms z_update_cusp_zero(2) unfolding vanished_def by blast
qed

lemma conj_add_vanished:
  fixes c :: sb_sw_context and s :: sb_sw_curve
  assumes "mont_ok (curve_p s)" "coords_qr s c" "P = modulus (curve_p s)" "vanished P (reg1 s c) (reg2 s c)"
  shows "zero_point P (reg1 s (sb_sw_point_co_z_conj_add c s))" "zero_point P (reg2 s (sb_sw_point_co_z_conj_add c s))"
proof -
  have "vanished P (reg1 s c) (opposite (reg2 s c))"
    using assms(4) opposite_cusp unfolding vanished_def by blast
  with co_z_conj_add_pairs [OF assms(1-3)] assms(4)
  show "zero_point P (reg1 s (sb_sw_point_co_z_conj_add c s))" "zero_point P (reg2 s (sb_sw_point_co_z_conj_add c s))"
    using z_update_vanished(1) by blast+
qed

text \<open>The sum of a point and its opposite is the first exceptional addition.\<close>

lemma conj_add_opposite:
  fixes c :: sb_sw_context and s :: sb_sw_curve
  assumes "mont_ok (curve_p s)" "coords_qr s c" and P: "P = modulus (curve_p s)"
    and a: "jacobian P z a (reg1 s c)" and b: "jacobian P z (opposite a) (reg2 s c)"
  defines "c' \<equiv> sb_sw_point_co_z_conj_add c s"
  shows "cuspidal P (reg1 s c')" "zero_point P (reg2 s c')"
proof -
  note A = jacobianD [OF a] and B = jacobianD [OF b]
  have x: "eqm P (fst (reg2 s c) - fst (reg1 s c)) 0"
    using eqm_diff [OF B(1) A(1)] by (simp add: opposite_def)
  have "eqm P (- snd (reg2 s c)) (snd (reg1 s c))"
    using eqm_minus [OF B(2)] eqm_sym [OF A(2)] by (simp add: opposite_def) (rule eqm_trans)
  then have y: "eqm P (- snd (reg2 s c) - snd (reg1 s c)) 0"
    by (simp add: eqm_def)
  obtain v where v: "z_update P (reg1 s c) (reg2 s c) (reg1 s c') v"
    "z_update P (reg1 s c) (opposite (reg2 s c)) (reg2 s c') v"
    using co_z_conj_add_pairs [OF assms(1,2) P] unfolding c'_def by blast
  show "cuspidal P (reg1 s c')"
    by (rule z_update_opposite [OF v(1) x])
  show "zero_point P (reg2 s c')"
    by (rule z_update_same(1) [OF v(2)]) (use x y in \<open>simp_all add: opposite_def\<close>)
qed

text \<open>What a step makes of the registers from there on.\<close>

definition dead_ladder :: "sb_sw_curve \<Rightarrow> sb_sw_context \<Rightarrow> bool" where
  "dead_ladder s c \<longleftrightarrow> coords_qr s c \<and> vanished (modulus (curve_p s)) (reg1 s c) (reg2 s c)"

lemma ctswap_dead: "dead_ladder s (ctswap_1_2 (of_bool w) c) \<longleftrightarrow> dead_ladder s c"
  by (simp add: dead_ladder_def ctswap_1_2_regs vanished_sym)

lemma conj_add_dead:
  fixes c :: sb_sw_context and s :: sb_sw_curve
  assumes "mont_ok (curve_p s)" "dead_ladder s c"
  shows "dead_ladder s (sb_sw_point_co_z_conj_add c s)"
  using assms conj_add_vanished [OF assms(1) _ refl, of c] co_z_conj_add_qr [OF assms(1), of c]
  by (simp add: dead_ladder_def vanished_def zero_point_cuspidal)

lemma add_update_dead:
  fixes c :: sb_sw_context and s :: sb_sw_curve
  assumes "mont_ok (curve_p s)" "dead_ladder s c"
  shows "dead_ladder s (sb_sw_point_co_z_add_update c s)"
  using assms co_z_add_update_pairs [OF assms(1) _ refl, of c] z_update_vanished(2)
  unfolding dead_ladder_def by blast

end
