(* ===== verification/Scalar_Mult.thy ===== *)
theory Scalar_Mult
  imports Exceptional
begin

text \<open>
  The incremental point multiplication as a whole: from the start through the chunks of the
  ladder to the affine output it computes the multiple of the point by the scalar. The multiples of the
  point are given by a map from the integers into affine points on which chords and tangents
  act as addition.
\<close>

subsection \<open>Multiples of a point\<close>

text \<open>
  \<open>M i\<close> is the \<open>i\<close>-th multiple of a point of odd order \<open>m\<close>: multiples that are neither equal
  nor opposite lie on a proper chord with their sum, a point and its double on a tangent.
  Nothing is said of the multiples of \<open>m\<close>, which stand for the point at infinity.
\<close>

definition multiples :: "int \<Rightarrow> int \<Rightarrow> int \<Rightarrow> (int \<Rightarrow> affine) \<Rightarrow> bool" where
  "multiples P A m M \<longleftrightarrow> 1 < m \<and> odd m \<and> (\<forall>i j. m dvd i - j \<longrightarrow> M i = M j) \<and> (\<forall>i. M (- i) = opposite (M i)) \<and>
     (\<forall>i j. \<not> m dvd i \<and> \<not> m dvd j \<and> \<not> m dvd i - j \<and> \<not> m dvd i + j \<longrightarrow>
        proper_chord P (M i) (M j) (M (i + j))) \<and>
     (\<forall>i. \<not> m dvd i \<longrightarrow> fermat_at P (snd (M i)) \<and> tangent P A (M i) (M (2 * i)))"

lemma multiplesD:
  assumes "multiples P A m M"
  shows "1 < m" "odd m" "m dvd i - j \<Longrightarrow> M i = M j" "M (- i) = opposite (M i)"
    and "\<not> m dvd i \<Longrightarrow> \<not> m dvd j \<Longrightarrow> \<not> m dvd i - j \<Longrightarrow> \<not> m dvd i + j \<Longrightarrow> i + j = k \<Longrightarrow>
      proper_chord P (M i) (M j) (M k)"
    and "\<not> m dvd i \<Longrightarrow> fermat_at P (snd (M i))" "\<not> m dvd i \<Longrightarrow> tangent P A (M i) (M (2 * i))"
  using assms unfolding multiples_def by blast+

text \<open>The multiples at which a ladder step on \<open>(c, c + 1)\<close> meets no exceptional addition.\<close>

definition regular :: "int \<Rightarrow> int \<Rightarrow> bool" where
  "regular m c \<longleftrightarrow> \<not> m dvd c \<and> \<not> m dvd c + 1 \<and> \<not> m dvd 2 * c + 1"

lemma odd_dvd_double: "odd (m :: int) \<Longrightarrow> m dvd 2 * x \<longleftrightarrow> m dvd x"
  by (metis coprime_commute coprime_dvd_mult_right_iff coprime_right_2_iff_odd dvd_mult)

lemma ladder_chords:
  assumes M: "multiples P A m M" and c: "regular m c"
  shows "proper_chord P (M c) (M (c + 1)) (M (2 * c + 1))" "proper_chord P (M (c + 1)) (M c) (M (2 * c + 1))"
    and "proper_chord P (M c) (opposite (M (c + 1))) (M (- 1))"
    and "proper_chord P (M (c + 1)) (opposite (M c)) (M 1)"
    and "proper_chord P (M (2 * c + 1)) (M (- 1)) (M (2 * c))"
    and "proper_chord P (M (2 * c + 1)) (M 1) (M (2 * c + 2))"
proof -
  note D = multiplesD [OF M]
  have one: "\<not> m dvd 1" using D(1) by simp
  have c': "\<not> m dvd c" "\<not> m dvd c + 1" "\<not> m dvd 2 * c + 1" "\<not> m dvd 2 * c" "\<not> m dvd 2 * c + 2"
    using c odd_dvd_double [OF D(2), of c] odd_dvd_double [OF D(2), of "c + 1"]
    by (simp_all add: regular_def)
  show "proper_chord P (M c) (M (c + 1)) (M (2 * c + 1))" "proper_chord P (M (c + 1)) (M c) (M (2 * c + 1))"
    using one c' by (auto intro!: D(5) simp: dvd_minus_iff)
  have "\<not> m dvd - (c + 1)" "\<not> m dvd - c" using c' by (simp_all only: dvd_minus_iff not_False_eq_True)
  with one c' show "proper_chord P (M c) (opposite (M (c + 1))) (M (- 1))"
    "proper_chord P (M (c + 1)) (opposite (M c)) (M 1)"
    unfolding D(4) [symmetric] by (auto intro!: D(5) simp: algebra_simps)
  show "proper_chord P (M (2 * c + 1)) (M (- 1)) (M (2 * c))"
    "proper_chord P (M (2 * c + 1)) (M 1) (M (2 * c + 2))"
    using one c' by (auto intro!: D(5) simp: algebra_simps)
qed

lemma ladder_affine_multiples:
  assumes "multiples P A m M" "regular m c"
  shows "ladder_affine P b (M c, M (c + 1)) (M (2 * c + of_bool b), M (2 * c + of_bool b + 1))"
  using ladder_chords [OF assms] by (cases b) (auto intro: ladder_affine.intros simp: algebra_simps)

text \<open>The prefixes of the 257-bit scalar that the ladder passes through.\<close>

definition regular_above :: "int \<Rightarrow> int \<Rightarrow> nat \<Rightarrow> bool" where
  "regular_above m K j \<longleftrightarrow> (\<forall>i \<in> {j..256 :: nat}. regular m (K div 2 ^ i))"

definition non_exceptional :: "int \<Rightarrow> int \<Rightarrow> bool" where
  "non_exceptional m K \<longleftrightarrow> (\<forall>i \<in> {1..256 :: nat}. regular m (K div 2 ^ i))"

lemma non_exceptional_iff: "non_exceptional m K \<longleftrightarrow> regular_above m K 2 \<and> regular m (K div 2)"
proof -
  have "{1..256 :: nat} = insert 1 {2..256}" by auto
  then show ?thesis by (auto simp: non_exceptional_def regular_above_def)
qed

lemma regular_above_Suc:
  "i \<le> 256 \<Longrightarrow> regular_above m K i \<longleftrightarrow> regular_above m K (Suc i) \<and> regular m (K div 2 ^ i)"
  unfolding regular_above_def by (subst atLeastAtMost_insertL [symmetric]) auto

lemma div_pow2_bit: "(K :: int) div 2 ^ i = 2 * (K div 2 ^ Suc i) + of_bool (bit K i)"
  by (simp add: bit_iff_odd flip: div_mult2_eq' [of K "2 ^ i" 2] mod_2_eq_odd)
    (metis add.commute div_mod_decomp_int mult.commute zdiv_zmult2_eq zero_le_numeral)

text \<open>
  The first exceptional prefix is one whose pair of points is opposite, \<open>2 c + 1\<close> being a
  multiple of the order: neither point is the point at infinity.
\<close>

lemma first_exceptional:
  assumes M: "multiples P A m M" and K: "K div 2 ^ 256 = 1" and i: "i \<le> 256" and r: "regular_above m K (Suc i)"
    and ex: "\<not> regular m (K div 2 ^ i)"
  shows "M (K div 2 ^ i + 1) = opposite (M (K div 2 ^ i))"
proof -
  note D = multiplesD [OF M]
  have "\<not> m dvd K div 2 ^ i \<and> \<not> m dvd K div 2 ^ i + 1"
  proof (cases "i = 256")
    case True
    have "\<not> m dvd 2"
      using D(1,2) odd_dvd_double [of m 1] zdvd_imp_le [of m 1] by auto
    with True D(1) K zdvd_imp_le [of m 1] show ?thesis by auto
  next
    case False
    define c where "c = K div 2 ^ Suc i"
    have "regular m c"
      using r i False by (auto simp: regular_above_def c_def simp del: power_Suc)
    then have "\<not> m dvd 2 * c" "\<not> m dvd 2 * c + 1" "\<not> m dvd 2 * (c + 1)"
      using odd_dvd_double [OF D(2), of c] odd_dvd_double [OF D(2), of "c + 1"]
      by (simp_all add: regular_def del: distrib_left_numeral mult_Suc_right)
    then show ?thesis
      unfolding div_pow2_bit [of K i] c_def [symmetric] by (cases "bit K i") (simp_all add: algebra_simps)
  qed
  with ex have "m dvd 2 * (K div 2 ^ i) + 1" by (simp add: regular_def)
  moreover have "2 * (K div 2 ^ i) + 1 = K div 2 ^ i + 1 - - (K div 2 ^ i)" by simp
  ultimately have "m dvd K div 2 ^ i + 1 - - (K div 2 ^ i)" by (simp only:)
  from D(3) [OF this] show ?thesis by (simp only: D(4))
qed

subsection \<open>The chunks of the ladder\<close>

text \<open>
  At index \<open>j\<close> the registers hold the multiples by the prefix of the scalar down to
  bit \<open>j + 1\<close> and by its successor, unless a longer prefix was exceptional.
\<close>

definition ladder_holds ::
  "sb_sw_curve \<Rightarrow> int \<Rightarrow> (int \<Rightarrow> affine) \<Rightarrow> int \<Rightarrow> nat \<Rightarrow> sb_sw_saved_state \<Rightarrow> sb_sw_context \<Rightarrow> bool" where
  "ladder_holds s m M K j st c \<longleftrightarrow> (\<exists>w. st_swap st = of_bool w) \<and>
     (if regular_above m K (j + 2) then \<exists>z. ladder_rel s z st c (M (K div 2 ^ Suc j), M (K div 2 ^ Suc j + 1))
      else dead_ladder s c)"

lemma ladder_holds_0:
  "ladder_holds s m M K 0 st c \<longleftrightarrow> (\<exists>w. st_swap st = of_bool w) \<and>
     (if regular_above m K 2 then \<exists>z. ladder_rel s z st c (M (K div 2), M (K div 2 + 1)) else dead_ladder s c)"
  by (simp add: ladder_holds_def del: add_2_eq_Suc')

text \<open>Between two calls the stage is the ladder until the index is zero.\<close>

definition ladder_at :: "sb_sw_curve \<Rightarrow> int \<Rightarrow> (int \<Rightarrow> affine) \<Rightarrow> int \<Rightarrow> nat \<Rightarrow> sb_sw_context \<Rightarrow> bool" where
  "ladder_at s m M K j c \<longleftrightarrow> ladder_holds s m M K j (MULT_STATE c) c \<and> unat (st_i (MULT_STATE c)) = j \<and>
     st_stage (MULT_STATE c) = (if j = 0 then SB_SW_POINT_MULT_OP_STAGE_INV_Z else SB_SW_POINT_MULT_OP_STAGE_LADDER)"

text \<open>The inputs of the multiplication that the ladder keeps, with the flags of the state.\<close>

definition same_mult :: "sb_sw_context \<Rightarrow> sb_sw_context \<Rightarrow> bool" where
  "same_mult m m' \<longleftrightarrow> MULT_K m' = MULT_K m \<and> MULT_POINT_X m' = MULT_POINT_X m \<and>
     MULT_POINT_Y m' = MULT_POINT_Y m \<and> st_inv_k (MULT_STATE m') = st_inv_k (MULT_STATE m) \<and>
     st_k_one (MULT_STATE m') = st_k_one (MULT_STATE m)"

lemma same_mult_trans: "same_mult m m' \<Longrightarrow> same_mult m' m'' \<Longrightarrow> same_mult m m''"
  by (simp add: same_mult_def)

lemma set_MULT_STATE_regs [simp]:
  "reg1 s (set_MULT_STATE m st) = reg1 s m" "reg2 s (set_MULT_STATE m st) = reg2 s m"
  "ladder_rel s z st' (set_MULT_STATE m st) R = ladder_rel s z st' m R"
  by (simp_all add: reg1_def reg2_def ladder_rel_def)

lemma ladder_rel_swap: "st_swap st = st_swap st' \<Longrightarrow> ladder_rel s z st m R = ladder_rel s z st' m R"
  by (simp add: ladder_rel_def)

lemma ladder_holds_cong:
  "st_swap st = st_swap st' \<Longrightarrow> ladder_holds s m M K j st c = ladder_holds s m M K j st' c"
  "ladder_holds s m M K j st (set_MULT_STATE c st'') = ladder_holds s m M K j st c"
  using ladder_rel_swap [of st st' s] by (simp_all add: ladder_holds_def dead_ladder_def)

lemma low_bits_same:
  assumes "j < 256" "K = 2 ^ 256 + k"
  shows "bit K j = bit (k :: int) j"
proof -
  have "take_bit 256 (2 ^ 256 + k) = take_bit 256 k"
    by (simp add: take_bit_eq_mod)
  then show ?thesis
    using assms by (metis bit_take_bit_iff)
qed

lemma implicit_top_bit: "(2 ^ 256 + fe_val k) div 2 ^ 256 = 1"
  using fe_val_bound [of k] fe_val_nonneg [of k] by (simp add: div_pos_pos_trivial)

text \<open>A step on a pair of opposite points.\<close>

lemma swapped_opposite:
  fixes c :: sb_sw_context and v :: bool
  assumes "ladder_rel s z st c (R, opposite R)"
  defines "c0 \<equiv> ctswap_1_2 (of_bool v) c"
  shows "\<exists>a. coords_qr s c0 \<and> jacobian (modulus (curve_p s)) z a (reg1 s c0) \<and>
    jacobian (modulus (curve_p s)) z (opposite a) (reg2 s c0)"
proof -
  obtain w where "coords_qr s c"
    "jacobian (modulus (curve_p s)) z (if w then opposite R else R) (reg1 s c)"
    "jacobian (modulus (curve_p s)) z (if w then R else opposite R) (reg2 s c)"
    using assms(1) unfolding ladder_rel_def fst_conv snd_conv by blast
  then show ?thesis
    by (intro exI [of _ "if w = v then R else opposite R"]) (auto simp: c0_def ctswap_1_2_regs opposite_def)
qed

lemma ladder_step_opposite:
  fixes c :: sb_sw_context and s :: sb_sw_curve and w b :: bool
  assumes ok: "mont_ok (curve_p s)" and rel: "ladder_rel s z st c (R, opposite R)"
    and w: "st_swap st = of_bool w" and b: "sb_fe_test_bit (MULT_K c) (st_i st) = of_bool b"
  shows "dead_ladder s (snd (ladder_step st c s))"
proof -
  define c0 where "c0 = ctswap_1_2 (of_bool (w \<noteq> b)) c"
  obtain a where c0: "coords_qr s c0" "jacobian (modulus (curve_p s)) z a (reg1 s c0)"
    "jacobian (modulus (curve_p s)) z (opposite a) (reg2 s c0)"
    using swapped_opposite [OF rel] unfolding c0_def by blast
  have "dead_ladder s (sb_sw_point_co_z_conj_add c0 s)"
    using conj_add_opposite [OF ok c0(1) refl c0(2,3)] co_z_conj_add_qr [OF ok c0(1)]
    by (simp add: dead_ladder_def vanished_def)
  from add_update_dead [OF ok this] show ?thesis
    by (simp add: ladder_step_eq b w of_bool_xor c0_def)
qed

lemma ladder_step_dead:
  fixes c :: sb_sw_context and s :: sb_sw_curve and w b :: bool
  assumes "mont_ok (curve_p s)" "dead_ladder s c" "st_swap st = of_bool w"
    and "sb_fe_test_bit (MULT_K c) (st_i st) = of_bool b"
  shows "dead_ladder s (snd (ladder_step st c s))"
  using assms by (simp add: ladder_step_eq of_bool_xor add_update_dead conj_add_dead ctswap_dead)

lemma ladder_step_holds:
  fixes c :: sb_sw_context and s :: sb_sw_curve
  assumes ok: "mont_ok (curve_p s)" and M: "multiples (modulus (curve_p s)) A m M"
    and K: "K = 2 ^ 256 + fe_val (MULT_K c)" and j: "unat (st_i st) = Suc j" "Suc j < 256"
    and h: "ladder_holds s m M K (Suc j) st c"
  shows "ladder_holds s m M K j (fst (ladder_step st c s)) (snd (ladder_step st c s))"
proof -
  let ?c = "K div 2 ^ Suc (Suc j)" and ?b = "bit K (Suc j)"
  note D = multiplesD [OF M]
  have b: "sb_fe_test_bit (MULT_K c) (st_i st) = of_bool ?b"
    using low_bits_same [OF j(2) K] j by (simp add: sb_fe_test_bit_val)
  obtain w where w: "st_swap st = of_bool w" using h by (auto simp: ladder_holds_def)
  have sw: "\<exists>v. st_swap (fst (ladder_step st c s)) = of_bool v"
    by (rule exI [of _ ?b]) (simp add: ladder_step_eq b)
  have ra: "regular_above m K (j + 2) \<longleftrightarrow> regular_above m K (Suc j + 2) \<and> regular m ?c"
    using regular_above_Suc [of "j + 2" m K] j by simp
  show ?thesis
  proof (cases "regular_above m K (Suc j + 2)")
    case True
    then obtain z where z: "ladder_rel s z st c (M ?c, M (?c + 1))"
      using h by (auto simp: ladder_holds_def)
    show ?thesis
    proof (cases "regular m ?c")
      case reg: True
      have "ladder_affine (modulus (curve_p s)) (bit (fe_val (MULT_K c)) (unat (st_i st))) (M ?c, M (?c + 1))
          (M (K div 2 ^ Suc j), M (K div 2 ^ Suc j + 1))"
        unfolding j(1) low_bits_same [OF j(2) K, symmetric] div_pow2_bit [of K "Suc j"]
        by (rule ladder_affine_multiples [OF M reg])
      from ladder_step_sim [OF refl ok z _ this] j True reg ra sw show ?thesis
        by (simp add: ladder_holds_def)
    next
      case False
      have "K div 2 ^ 256 = 1" unfolding K by (rule implicit_top_bit)
      from first_exceptional [OF M this _ _ False] j True have "M (?c + 1) = opposite (M ?c)"
        by (simp del: power_Suc)
      with ladder_step_opposite [OF ok _ w b] z False ra sw show ?thesis
        by (simp add: ladder_holds_def)
    qed
  next
    case False
    then have "dead_ladder s c" using h by (simp add: ladder_holds_def)
    from ladder_step_dead [OF ok this w b] False ra sw show ?thesis
      by (simp add: ladder_holds_def)
  qed
qed

lemma ladder_loop_holds:
  fixes c :: sb_sw_context and s :: sb_sw_curve
  assumes ok: "mont_ok (curve_p s)" and M: "multiples (modulus (curve_p s)) A m M"
  shows "K = 2 ^ 256 + fe_val (MULT_K c) \<Longrightarrow> unat (st_i st) = j \<Longrightarrow> j < 256 \<Longrightarrow> ladder_holds s m M K j st c \<Longrightarrow>
    ladder_holds s m M K (j - n) (fst (ladder_loop n st c s)) (snd (ladder_loop n st c s))"
proof (induction n arbitrary: st c j)
  case (Suc n)
  show ?case
  proof (cases j)
    case 0
    then have "\<not> 0 < st_i st" using Suc.prems(2) by (simp add: word_gt_0 unat_eq_0)
    with 0 Suc.prems show ?thesis by (simp add: ladder_loop_Suc)
  next
    case (Suc i)
    then have pos: "0 < st_i st" using Suc.prems(2) by (simp add: word_gt_0 flip: unat_zero_size)
    let ?st = "st\<lparr>st_swap := sb_fe_test_bit (MULT_K c) (st_i st), st_i := st_i st - 1\<rparr>"
    have "ladder_holds s m M K i ?st (snd (ladder_step st c s))"
      using ladder_step_holds [OF ok M Suc.prems(1) _ _ Suc.prems(4) [unfolded Suc]] Suc Suc.prems(2,3)
        ladder_holds_cong(1) [of ?st "fst (ladder_step st c s)" s]
      by (simp add: ladder_step_eq)
    from Suc.IH [OF _ _ _ this] Suc Suc.prems(1-3) pos show ?thesis
      by (simp add: ladder_loop_Suc unat_minus_one_size)
  qed
qed simp

lemma sb_sw_point_mult_continue_ladder:
  assumes ok: "mont_ok (curve_p s)" and M: "multiples (modulus (curve_p s)) A m M"
    and K: "K = 2 ^ 256 + fe_val (MULT_K c)"
    and at: "ladder_at s m M K j c" and j: "0 < j" "j < 256"
  defines "c' \<equiv> snd (sb_sw_point_mult_continue c s)"
  shows "ladder_at s m M K (j - SB_SW_POINT_ITERATIONS) c'" "same_mult c c'"
proof -
  let ?st = "MULT_STATE c"
  obtain st m1 where l: "ladder_loop SB_SW_POINT_ITERATIONS ?st c s = (st, m1)" by fastforce
  have at': "unat (st_i ?st) = j" "st_stage ?st = SB_SW_POINT_MULT_OP_STAGE_LADDER" "ladder_holds s m M K j ?st c"
    using at j by (simp_all add: ladder_at_def)
  have c': "c' = set_MULT_STATE m1 (if st_i st = 0 then st\<lparr>st_stage := SB_SW_POINT_MULT_OP_STAGE_INV_Z\<rparr> else st)"
    by (simp add: c'_def sb_sw_point_mult_continue_def Let_def l at'(2))
  have i: "unat (st_i st) = j - SB_SW_POINT_ITERATIONS"
    using ladder_loop_index [of SB_SW_POINT_ITERATIONS ?st c s] by (simp add: l at'(1))
  have h: "ladder_holds s m M K (j - SB_SW_POINT_ITERATIONS) st m1"
    using ladder_loop_holds [OF ok M K at'(1) j(2) at'(3), of SB_SW_POINT_ITERATIONS] by (simp add: l)
  have st: "st_stage st = SB_SW_POINT_MULT_OP_STAGE_LADDER" "st_inv_k st = st_inv_k ?st" "st_k_one st = st_k_one ?st"
    using ladder_loop_state [of SB_SW_POINT_ITERATIONS ?st c s] by (simp_all add: l at'(2))
  have "st_i st = 0 \<longleftrightarrow> j - SB_SW_POINT_ITERATIONS = 0"
    unfolding i [symmetric] by (rule unat_zero_size [symmetric])
  with h st(1) i show "ladder_at s m M K (j - SB_SW_POINT_ITERATIONS) c'"
    using ladder_holds_cong(1) [of st "st\<lparr>st_stage := SB_SW_POINT_MULT_OP_STAGE_INV_Z\<rparr>" s]
    by (auto simp: ladder_at_def c' ladder_holds_cong(2))
  show "same_mult c c'"
    using ladder_loop_frame [of SB_SW_POINT_ITERATIONS ?st c s] st
    by (simp add: same_mult_def c' l)
qed

definition mult_calls :: "sb_sw_curve \<Rightarrow> nat \<Rightarrow> sb_sw_context \<Rightarrow> sb_sw_context" where
  "mult_calls s n c = ((\<lambda>m. snd (sb_sw_point_mult_continue m s)) ^^ n) c"

lemma mult_calls_ladder:
  assumes "mont_ok (curve_p s)"
    and "multiples (modulus (curve_p s)) A m M" "K = 2 ^ 256 + fe_val (MULT_K c)" "ladder_at s m M K 255 c"
  shows "n \<le> 16 \<Longrightarrow> ladder_at s m M K (255 - n * SB_SW_POINT_ITERATIONS) (mult_calls s n c) \<and>
    same_mult c (mult_calls s n c)"
proof (induction n)
  case 0
  show ?case using assms(4) by (simp add: mult_calls_def same_mult_def)
next
  case (Suc n)
  then have IH: "ladder_at s m M K (255 - n * SB_SW_POINT_ITERATIONS) (mult_calls s n c)" "same_mult c (mult_calls s n c)"
    by simp_all
  have K: "K = 2 ^ 256 + fe_val (MULT_K (mult_calls s n c))"
    using assms(3) IH(2) by (simp add: same_mult_def)
  have eq: "mult_calls s (Suc n) c = snd (sb_sw_point_mult_continue (mult_calls s n c) s)"
    by (simp add: mult_calls_def)
  have j: "0 < 255 - n * SB_SW_POINT_ITERATIONS" "255 - n * SB_SW_POINT_ITERATIONS < 256"
    "255 - n * SB_SW_POINT_ITERATIONS - SB_SW_POINT_ITERATIONS = 255 - Suc n * SB_SW_POINT_ITERATIONS"
    using Suc.prems by (simp_all add: SB_SW_POINT_ITERATIONS_def)
  note step = sb_sw_point_mult_continue_ladder [OF assms(1,2) K IH(1) j(1,2), folded eq]
  show ?case
    using step(1) same_mult_trans [OF IH(2) step(2)] by (simp only: j(3))
qed

subsection \<open>Recovery of the coordinate\<close>

text \<open>The terms of the stage, for a given last bit \<open>b\<close> of the scalar and swap bit \<open>w\<close>.\<close>

lemma point_mult_recover_z_terms:
  fixes c :: sb_sw_context and b :: bool and s :: sb_sw_curve
  assumes "sb_fe_test_bit (MULT_K c) 0 = of_bool b" "st_swap st = of_bool w"
  defines "p \<equiv> curve_p s" and "c1 \<equiv> sb_sw_point_co_z_conj_add (ctswap_1_2 (of_bool (w \<noteq> b)) c) s"
  defines "d \<equiv> (if b then sb_fe_mod_sub (C_X2 c1) (C_X1 c1) p else sb_fe_mod_sub (C_X1 c1) (C_X2 c1) p)"
  defines "u \<equiv> sb_fe_mont_mult (sb_fe_mont_mult d (C_Y2 c1) p) (MULT_POINT_X c) p"
  defines "t8 \<equiv> sb_fe_mont_mult (sb_fe_mont_mult (fst (sb_fe_mod_inv_r u p (C_T6 c1))) (MULT_POINT_Y c) p) (C_X2 c1) p"
  shows "\<exists>c2. snd (point_mult_recover_z st c s) = ctswap_1_2 (of_bool (\<not> b)) (sb_sw_point_co_z_add_update c2 s) \<and>
    reg1 s c2 = reg1 s c1 \<and> reg2 s c2 = reg2 s c1 \<and> coords_qr s c2 = coords_qr s c1 \<and>
    z_factor s c2 = z_factor s c1 \<and> C_T8 c2 = t8 \<and> MULT_K c2 = MULT_K c \<and>
    MULT_POINT_X c2 = MULT_POINT_X c \<and> MULT_POINT_Y c2 = MULT_POINT_Y c"
    and "fst (point_mult_recover_z st c s) = st\<lparr>st_swap := of_bool (w \<noteq> b)\<rparr>"
proof -
  have fr: "MULT_K c1 = MULT_K c" "MULT_POINT_X c1 = MULT_POINT_X c" "MULT_POINT_Y c1 = MULT_POINT_Y c"
    by (simp_all add: c1_def)
  obtain i t5 t6 where i: "sb_fe_mod_inv_r u p (C_T6 c1) = (i, t5, t6)"
    by (metis prod_cases3)
  have x: "of_bool b XOR 1 = (of_bool (\<not> b) :: sb_word)" by (cases b) simp_all
  let ?c2 = "c1\<lparr>C_T6 := t6, C_T5 := sb_fe_mont_mult i (MULT_POINT_Y c) p, C_T8 := t8\<rparr>"
  have c1: "sb_sw_point_co_z_conj_add (ctswap_1_2 (st_swap st XOR of_bool b) c) s = c1"
    by (simp only: c1_def assms(2) of_bool_xor)
  have sw: "C_X1 (ctswap_1_2 (of_bool b) c1) = (if b then C_X2 c1 else C_X1 c1)"
    "C_X2 (ctswap_1_2 (of_bool b) c1) = (if b then C_X1 c1 else C_X2 c1)"
    "ctswap_1_2 (of_bool b) (ctswap_1_2 (of_bool b) c1\<lparr>C_T8 := d\<rparr>) = c1\<lparr>C_T8 := d\<rparr>"
    by (simp_all add: ctswap_1_2_of_bool)
  have d: "sb_fe_mod_sub (if b then C_X2 c1 else C_X1 c1) (if b then C_X1 c1 else C_X2 c1) (curve_p s) = d"
    by (simp add: d_def p_def)
  have "point_mult_recover_z st c s = (st\<lparr>st_swap := st_swap st XOR of_bool b\<rparr>,
      ctswap_1_2 (of_bool (\<not> b)) (sb_sw_point_co_z_add_update ?c2 s))"
    using i [unfolded u_def p_def]
    by (simp add: point_mult_recover_z_def Let_def assms(1) c1 sw d fr x t8_def u_def p_def)
  then have "point_mult_recover_z st c s = (st\<lparr>st_swap := of_bool (w \<noteq> b)\<rparr>,
      ctswap_1_2 (of_bool (\<not> b)) (sb_sw_point_co_z_add_update ?c2 s))"
    by (simp only: assms(2) of_bool_xor)
  moreover have "z_factor s ?c2 = z_factor s c1" by (simp add: z_factor_def)
  ultimately show "\<exists>c2. snd (point_mult_recover_z st c s) = ctswap_1_2 (of_bool (\<not> b)) (sb_sw_point_co_z_add_update c2 s) \<and>
    reg1 s c2 = reg1 s c1 \<and> reg2 s c2 = reg2 s c1 \<and> coords_qr s c2 = coords_qr s c1 \<and>
    z_factor s c2 = z_factor s c1 \<and> C_T8 c2 = t8 \<and> MULT_K c2 = MULT_K c \<and>
    MULT_POINT_X c2 = MULT_POINT_X c \<and> MULT_POINT_Y c2 = MULT_POINT_Y c"
    "fst (point_mult_recover_z st c s) = st\<lparr>st_swap := of_bool (w \<noteq> b)\<rparr>"
    using fr by (auto intro!: exI [of _ ?c2])
qed

text \<open>
  The recovered value is the inverse of the coordinate of the result: the last step leaves
  \<open>P\<close> or \<open>- P\<close> as the difference, whose affine coordinates are known.
\<close>

lemma recovered_coordinate:
  assumes i: "eqm P (i * (zf * (y * (z * (z * z)) * x))) 1" and w: "eqm P w (i * y * (x * (z * z)))"
  shows "eqm P (w * (z * zf)) 1"
proof -
  have "eqm P (w * (z * zf)) (i * y * (x * (z * z)) * (z * zf))"
    by (intro eqm_mult w eqm_refl)
  also have "i * y * (x * (z * z)) * (z * zf) = i * (zf * (y * (z * (z * z)) * x))"
    by (simp add: ac_simps)
  finally show ?thesis using i by (rule eqm_trans)
qed

lemma recovered_t8:
  fixes b :: bool and t :: sb_fe
  assumes ok: "prime_field_ok p"
    and q: "quasi_reduced p x1" "quasi_reduced p x2" "quasi_reduced p y2" "quasi_reduced p px" "quasi_reduced p py"
    and pt: "eqm (modulus p) (mval p px) x" "eqm (modulus p) (mval p py) y"
    and x2: "eqm (modulus p) (mval p x2) (x * (z * z))"
    and y2: "eqm (modulus p) (mval p y2) ((if b then 1 else - 1) * y * (z * (z * z)))"
    and zf: "eqm (modulus p) zf (mval p x2 - mval p x1)"
    and nz: "fermat_at (modulus p) x" "fermat_at (modulus p) y" "fermat_at (modulus p) z" "fermat_at (modulus p) zf"
  defines "d \<equiv> (if b then sb_fe_mod_sub x2 x1 p else sb_fe_mod_sub x1 x2 p)"
  defines "u \<equiv> sb_fe_mont_mult (sb_fe_mont_mult d y2 p) px p"
  defines "t8 \<equiv> sb_fe_mont_mult (sb_fe_mont_mult (fst (sb_fe_mod_inv_r u p t)) py p) x2 p"
  shows "eqm (modulus p) (mval p t8 * (z * zf)) 1" "quasi_reduced p t8"
proof -
  let ?P = "modulus p" and ?v = "mval p"
  define \<sigma> :: int where "\<sigma> = (if b then 1 else - 1)"
  define i where "i = fst (sb_fe_mod_inv_r u p t)"
  note mo = prime_field_okD(1) [OF ok]
  have qd: "quasi_reduced p d" by (simp add: d_def q qr_intros)
  have qu: "quasi_reduced p u" unfolding u_def by (intro qr_intros mo qd q)
  have qi: "quasi_reduced p i" unfolding i_def by (rule sb_fe_mod_inv_r_val(2) [OF ok qu])
  show "quasi_reduced p t8"
    unfolding t8_def i_def [symmetric] by (intro qr_intros mo qi q)
  have "?v d = (\<sigma> * (?v x2 - ?v x1)) mod ?P"
    by (simp add: d_def \<sigma>_def mval_simps q)
  with zf have d: "eqm ?P (?v d) (\<sigma> * zf)"
    by (simp add: eqm_mod) (metis mod_mult_right_eq)
  have "eqm ?P (?v u) (?v d * ?v y2 * ?v px)"
    by (simp add: eqm_mod u_def mval_simps q qd mo qr_intros mod_simps)
  also have "eqm ?P \<dots> (\<sigma> * zf * (\<sigma> * y * (z * (z * z))) * x)"
    by (intro eqm_mult d pt) (use y2 in \<open>simp add: \<sigma>_def\<close>)
  also have "\<sigma> * zf * (\<sigma> * y * (z * (z * z))) * x = zf * (y * (z * (z * z)) * x)"
    by (simp add: \<sigma>_def)
  finally have u: "eqm ?P (?v u) (zf * (y * (z * (z * z)) * x))" .
  moreover have "fermat_at ?P (zf * (y * (z * (z * z)) * x))"
    using nz by (simp add: fermat_at_mult)
  ultimately have "fermat_at ?P (?v u)"
    by (simp add: fermat_at_cong)
  then have "eqm ?P (?v i * ?v u) 1"
    using sb_fe_mod_inv_r_inverse [OF ok qu, of t] fermat_at_one [of ?P] nz(1)
    by (simp add: eqm_mod i_def mult.commute fermat_at_def)
  then have iu: "eqm ?P (?v i * (zf * (y * (z * (z * z)) * x))) 1"
    using eqm_mult [OF eqm_refl u] by (metis eqm_sym eqm_trans)
  have "eqm ?P (?v t8) (?v i * ?v py * ?v x2)"
    by (simp add: eqm_mod t8_def mval_simps q qi mo qr_intros mod_simps flip: i_def)
  also have "eqm ?P \<dots> (?v i * y * (x * (z * z)))"
    by (intro eqm_mult eqm_refl pt x2)
  finally show "eqm ?P (?v t8 * (z * zf)) 1"
    by (rule recovered_coordinate [OF iu])
qed

lemma point_mult_recover_z_val:
  fixes c :: sb_sw_context
  assumes P: "P = modulus (curve_p s)" and ok: "prime_field_ok (curve_p s)"
    and M: "multiples P A m M" and k: "regular m k" and rel: "ladder_rel s z st c (M k, M (k + 1))"
    and b: "sb_fe_test_bit (MULT_K c) 0 = of_bool b"
    and q: "quasi_reduced (curve_p s) (MULT_POINT_X c)" "quasi_reduced (curve_p s) (MULT_POINT_Y c)"
    and pt: "eqm P (mval (curve_p s) (MULT_POINT_X c)) (fst (M 1))"
      "eqm P (mval (curve_p s) (MULT_POINT_Y c)) (snd (M 1))" "fermat_at P (fst (M 1))"
    and r: "point_mult_recover_z st c s = (st', c')"
  shows "\<exists>z'. jacobian P z' (M (2 * k + of_bool b)) (reg2 s c') \<and> eqm P (mval (curve_p s) (C_T8 c') * z') 1"
    and "coords_qr s c'" "quasi_reduced (curve_p s) (C_T8 c')"
    and "MULT_K c' = MULT_K c" "MULT_POINT_X c' = MULT_POINT_X c" "MULT_POINT_Y c' = MULT_POINT_Y c"
    and "st_inv_k st' = st_inv_k st" "st_k_one st' = st_k_one st"
proof -
  let ?p = "curve_p s"
  note mo = prime_field_okD(1) [OF ok] and D = multiplesD [OF M] and ch = ladder_chords [OF M k]
  obtain w where w: "st_swap st = of_bool w" "coords_qr s c" "fermat_at P z"
    "jacobian P z (if w then M (k + 1) else M k) (reg1 s c)" "jacobian P z (if w then M k else M (k + 1)) (reg2 s c)"
    using rel unfolding ladder_rel_def P fst_conv snd_conv by blast
  define c0 where "c0 = ctswap_1_2 (of_bool (w \<noteq> b)) c"
  define c1 where "c1 = sb_sw_point_co_z_conj_add c0 s"
  have c0: "coords_qr s c0" "jacobian P z (if b then M (k + 1) else M k) (reg1 s c0)"
    "jacobian P z (if b then M k else M (k + 1)) (reg2 s c0)"
    using w(2,4,5) by (auto simp: c0_def ctswap_1_2_regs)
  define \<sigma> :: int where "\<sigma> = (if b then 1 else - 1)"
  define z1 where "z1 = z * z_factor s c0"
  have conj: "coords_qr s c1" "jacobian P z1 (M (2 * k + 1)) (reg1 s c1)" "jacobian P z1 (M \<sigma>) (reg2 s c1)"
    "fermat_at P z1"
  proof -
    have S: "proper_chord P (if b then M (k + 1) else M k) (if b then M k else M (k + 1)) (M (2 * k + 1))"
      "proper_chord P (if b then M (k + 1) else M k) (opposite (if b then M k else M (k + 1))) (M \<sigma>)"
      using ch by (simp_all add: \<sigma>_def)
    note cv = co_z_conj_add_chords [OF mo c0(1) c0(2,3) [unfolded P] S [unfolded proper_chord_def, THEN conjunct2, unfolded P],
        folded P z1_def c1_def]
    then show "coords_qr s c1" "jacobian P z1 (M (2 * k + 1)) (reg1 s c1)" "jacobian P z1 (M \<sigma>) (reg2 s c1)"
      by blast+
    show "fermat_at P z1"
      unfolding z1_def using S(1) by (intro z_factor_unit(2) [OF P c0(1) w(3) c0(2,3)]) (simp add: proper_chord_def)
  qed
  define zf where "zf = z_factor s c1"
  define t8 where "t8 = (let d = (if b then sb_fe_mod_sub (C_X2 c1) (C_X1 c1) ?p else sb_fe_mod_sub (C_X1 c1) (C_X2 c1) ?p);
      u = sb_fe_mont_mult (sb_fe_mont_mult d (C_Y2 c1) ?p) (MULT_POINT_X c) ?p
    in sb_fe_mont_mult (sb_fe_mont_mult (fst (sb_fe_mod_inv_r u ?p (C_T6 c1))) (MULT_POINT_Y c) ?p) (C_X2 c1) ?p)"
  obtain c2 where c2: "c' = ctswap_1_2 (of_bool (\<not> b)) (sb_sw_point_co_z_add_update c2 s)"
    "reg1 s c2 = reg1 s c1" "reg2 s c2 = reg2 s c1" "coords_qr s c2" "z_factor s c2 = zf" "C_T8 c2 = t8"
    "MULT_K c2 = MULT_K c" "MULT_POINT_X c2 = MULT_POINT_X c" "MULT_POINT_Y c2 = MULT_POINT_Y c"
    using point_mult_recover_z_terms(1) [OF b w(1), of s] conj(1)
    unfolding r snd_conv c0_def [symmetric] c1_def [symmetric] t8_def [unfolded Let_def, symmetric]
      zf_def [symmetric] by blast
  show "st_inv_k st' = st_inv_k st" "st_k_one st' = st_k_one st"
    using point_mult_recover_z_terms(2) [OF b w(1), of s] by (simp_all add: r)
  show "MULT_K c' = MULT_K c" "MULT_POINT_X c' = MULT_POINT_X c" "MULT_POINT_Y c' = MULT_POINT_Y c"
    by (simp_all add: c2)
  have T: "proper_chord P (M (2 * k + 1)) (M \<sigma>) (M (2 * k + (if b then 2 else 0)))"
    using ch(5,6) by (simp add: \<sigma>_def)
  note up = co_z_add_update_chord [OF mo c2(4) conj(2,3) [unfolded P, folded c2(2,3)]
      T [unfolded proper_chord_def, THEN conjunct2, unfolded P], folded P, unfolded c2(5)]
  have zf: "fermat_at P zf"
    unfolding zf_def using T by (intro z_factor_unit(1) [OF P conj(1,4,2,3)]) (simp add: proper_chord_def)
  show qc': "coords_qr s c'"
    unfolding c2(1) by (simp only: ctswap_1_2_regs(3) up(4))
  have res: "jacobian P (z1 * zf) (M (2 * k + of_bool b)) (reg2 s c')"
    unfolding c2(1) using up(1,2) by (auto simp: ctswap_1_2_regs split: if_splits)
  have Ms: "M \<sigma> = (fst (M 1), \<sigma> * snd (M 1))"
    using D(4) [of 1] by (simp add: \<sigma>_def opposite_def)
  have y: "fermat_at P (snd (M 1))"
    using D(6) [of 1] D(1) by auto
  have "eqm P (mval ?p (C_X2 c1)) (fst (M 1) * (z1 * z1))"
    "eqm P (mval ?p (C_Y2 c1)) ((if b then 1 else - 1) * snd (M 1) * (z1 * (z1 * z1)))"
    "eqm P zf (mval ?p (C_X2 c1) - mval ?p (C_X1 c1))"
    using jacobianD [OF conj(3), unfolded Ms fst_conv snd_conv, unfolded \<sigma>_def] z_factor_eqm [OF conj(1)]
    by (simp_all add: reg1_def reg2_def P zf_def)
  note t8 = recovered_t8 [OF ok coords_qrD(1,3,4) [OF conj(1)] q pt(1,2) [unfolded P] this [unfolded P]
      pt(3) [unfolded P] y [unfolded P] conj(4) [unfolded P] zf [unfolded P], of "C_T6 c1", folded P]
  have C8: "C_T8 c' = t8"
    unfolding c2(1) by (simp add: ctswap_1_2_of_bool c2(6))
  then show "quasi_reduced ?p (C_T8 c')"
    using t8(2) by (simp add: t8_def Let_def)
  show "\<exists>z'. jacobian P z' (M (2 * k + of_bool b)) (reg2 s c') \<and> eqm P (mval ?p (C_T8 c') * z') 1"
    using res t8(1) by (auto simp: C8 t8_def Let_def)
qed

text \<open>
  After an exceptional addition the second point of the last conjugate addition is zero, and with
  it the recovered value.
\<close>

lemma last_conj_add_exceptional:
  fixes c :: sb_sw_context and v :: bool
  assumes ok: "mont_ok (curve_p s)" and M: "multiples (modulus (curve_p s)) A m M"
    and K: "K div 2 ^ 256 = 1" and h: "ladder_holds s m M K 0 st c" and ex: "\<not> non_exceptional m K"
  defines "c1 \<equiv> sb_sw_point_co_z_conj_add (ctswap_1_2 (of_bool v) c) s"
  shows "coords_qr s c" "zero_point (modulus (curve_p s)) (reg2 s c1)"
proof -
  let ?c = "ctswap_1_2 (of_bool v) c"
  have "coords_qr s c \<and> zero_point (modulus (curve_p s)) (reg2 s c1)"
  proof (cases "regular_above m K 2")
    case True
    with h obtain z where z: "ladder_rel s z st c (M (K div 2), M (K div 2 + 1))"
      by (auto simp: ladder_holds_0)
    have "M (K div 2 + 1) = opposite (M (K div 2))"
      using first_exceptional [OF M K, of 1] True ex by (simp add: non_exceptional_iff numeral_2_eq_2)
    with swapped_opposite [of s z st c "M (K div 2)" v] z obtain a where
      "coords_qr s ?c" "jacobian (modulus (curve_p s)) z a (reg1 s ?c)"
      "jacobian (modulus (curve_p s)) z (opposite a) (reg2 s ?c)" by auto
    from conj_add_opposite(2) [OF ok this(1) refl this(2,3)] this(1) show ?thesis
      by (simp add: c1_def ctswap_1_2_regs)
  next
    case False
    then have "dead_ladder s ?c"
      using h by (simp add: ladder_holds_0 ctswap_dead)
    then have "coords_qr s ?c" "vanished (modulus (curve_p s)) (reg1 s ?c) (reg2 s ?c)"
      by (simp_all add: dead_ladder_def)
    from conj_add_vanished(2) [OF ok this(1) refl this(2)] this(1) show ?thesis
      by (simp add: c1_def ctswap_1_2_regs)
  qed
  then show "coords_qr s c" "zero_point (modulus (curve_p s)) (reg2 s c1)" by blast+
qed

lemma point_mult_recover_z_dead:
  fixes c :: sb_sw_context
  assumes P: "P = modulus (curve_p s)" and ok: "prime_field_ok (curve_p s)"
    and w: "st_swap st = of_bool w" and b: "sb_fe_test_bit (MULT_K c) 0 = of_bool b" and qc: "coords_qr s c"
    and zero: "zero_point P (reg2 s (sb_sw_point_co_z_conj_add (ctswap_1_2 (of_bool (w \<noteq> b)) c) s))"
    and q: "quasi_reduced (curve_p s) (MULT_POINT_X c)" "quasi_reduced (curve_p s) (MULT_POINT_Y c)"
    and r: "point_mult_recover_z st c s = (st', c')"
  shows "eqm P (mval (curve_p s) (C_T8 c')) 0" "coords_qr s c'" "quasi_reduced (curve_p s) (C_T8 c')"
    and "MULT_K c' = MULT_K c" "MULT_POINT_X c' = MULT_POINT_X c" "MULT_POINT_Y c' = MULT_POINT_Y c"
    and "st_inv_k st' = st_inv_k st" "st_k_one st' = st_k_one st"
proof -
  let ?p = "curve_p s"
  note mo = prime_field_okD(1) [OF ok]
  define c0 where "c0 = ctswap_1_2 (of_bool (w \<noteq> b)) c"
  define c1 where "c1 = sb_sw_point_co_z_conj_add c0 s"
  have c1: "coords_qr s c1" "zero_point P (reg2 s c1)"
    using co_z_conj_add_qr [OF mo, of c0] qc zero by (simp_all add: c1_def c0_def ctswap_1_2_regs)
  note q1 = coords_qrD [OF c1(1)]
  define d where "d = (if b then sb_fe_mod_sub (C_X2 c1) (C_X1 c1) ?p else sb_fe_mod_sub (C_X1 c1) (C_X2 c1) ?p)"
  define u where "u = sb_fe_mont_mult (sb_fe_mont_mult d (C_Y2 c1) ?p) (MULT_POINT_X c) ?p"
  define i where "i = fst (sb_fe_mod_inv_r u ?p (C_T6 c1))"
  define t8 where "t8 = sb_fe_mont_mult (sb_fe_mont_mult i (MULT_POINT_Y c) ?p) (C_X2 c1) ?p"
  have qd: "quasi_reduced ?p d" by (simp add: d_def q1 qr_intros)
  have "quasi_reduced ?p u" unfolding u_def by (intro qr_intros mo qd q q1)
  then have qi: "quasi_reduced ?p i" unfolding i_def by (rule sb_fe_mod_inv_r_val(2) [OF ok])
  obtain c2 where c2: "c' = ctswap_1_2 (of_bool (\<not> b)) (sb_sw_point_co_z_add_update c2 s)" "coords_qr s c2"
    "C_T8 c2 = t8" "MULT_K c2 = MULT_K c" "MULT_POINT_X c2 = MULT_POINT_X c" "MULT_POINT_Y c2 = MULT_POINT_Y c"
    using point_mult_recover_z_terms(1) [OF b w, of s] c1(1)
    unfolding r snd_conv c0_def [symmetric] c1_def [symmetric] d_def [symmetric] u_def [symmetric]
      i_def [symmetric] t8_def [symmetric] by blast
  show "st_inv_k st' = st_inv_k st" "st_k_one st' = st_k_one st"
    using point_mult_recover_z_terms(2) [OF b w, of s] by (simp_all add: r)
  show "MULT_K c' = MULT_K c" "MULT_POINT_X c' = MULT_POINT_X c" "MULT_POINT_Y c' = MULT_POINT_Y c"
    by (simp_all add: c2)
  have C8: "C_T8 c' = t8"
    unfolding c2(1) by (simp add: ctswap_1_2_of_bool c2(3))
  show "coords_qr s c'"
    unfolding c2(1) by (simp only: ctswap_1_2_regs(3) co_z_add_update_pairs(3) [OF mo c2(2) refl])
  show "quasi_reduced ?p (C_T8 c')"
    unfolding C8 t8_def by (intro qr_intros mo qi q q1)
  have "eqm P (mval ?p t8) (mval ?p i * mval ?p (MULT_POINT_Y c) * mval ?p (C_X2 c1))"
    by (simp add: eqm_mod t8_def P mval_simps mod_simps q1 q qi mo qr_intros)
  also have "eqm P \<dots> (mval ?p i * mval ?p (MULT_POINT_Y c) * 0)"
    using zero_pointD(1) [OF c1(2)] by (intro eqm_mult eqm_refl) (simp add: reg2_def)
  finally show "eqm P (mval ?p (C_T8 c')) 0" by (simp add: C8)
qed

subsection \<open>The affine output\<close>

text \<open>The registers of the output: the input point is added when the scalar is one.\<close>

lemma point_mult_output_terms:
  fixes c :: sb_sw_context and s :: sb_sw_curve
  assumes "st_k_one st = of_bool one" "st_inv_k st = of_bool neg"
  defines "p \<equiv> curve_p s" and "n \<equiv> curve_n s" and "c' \<equiv> point_mult_output st c s"
  defines "t5 \<equiv> sb_fe_mont_square (C_T8 c) p"
  defines "x \<equiv> sb_fe_mont_mult t5 (C_X2 c) p" and "y \<equiv> sb_fe_mont_mult (sb_fe_mont_mult t5 (C_T8 c) p) (C_Y2 c) p"
  defines "y1 \<equiv> sb_fe_mont_reduce (if one then sb_fe_mod_add y (MULT_POINT_Y c) p else y) p"
    and "k \<equiv> sb_fe_mod_reduce (fst (sb_fe_sub (MULT_K c) (prime_p n))) n"
  shows "C_X1 c' = sb_fe_mont_reduce (if one then sb_fe_mod_add x (MULT_POINT_X c) p else x) p"
    and "C_Y1 c' = (if neg then sb_fe_mod_negate y1 p else y1)"
    and "MULT_K c' = (if neg then sb_fe_mod_negate k n else k)"
  using assms(1,2)
  by (cases one; cases neg; simp add: c'_def point_mult_output_def Let_def case_prod_unfold sb_fe_ctswap_if [of True]
      sb_fe_ctswap_if [of False] t5_def x_def y_def y1_def k_def p_def n_def)+

lemma point_mult_output_values:
  fixes c :: sb_sw_context and s :: sb_sw_curve
  assumes ok: "prime_field_ok (curve_p s)" and q: "coords_qr s c" "quasi_reduced (curve_p s) (C_T8 c)"
    and qp: "quasi_reduced (curve_p s) (MULT_POINT_X c)" "quasi_reduced (curve_p s) (MULT_POINT_Y c)"
    and st: "st_k_one st = of_bool one" "st_inv_k st = of_bool neg"
    and P: "P = modulus (curve_p s)"
  defines "w \<equiv> mval (curve_p s) (C_T8 c)"
  assumes x: "eqm P (w * w * fst (reg2 s c) + of_bool one * mval (curve_p s) (MULT_POINT_X c)) x"
    and y: "eqm P (w * w * w * snd (reg2 s c) + of_bool one * mval (curve_p s) (MULT_POINT_Y c)) y"
  shows "fe_val (C_X1 (point_mult_output st c s)) = qrep P x"
    and "fe_val (C_Y1 (point_mult_output st c s)) = qrep P (if neg then - y else y)"
proof -
  let ?p = "curve_p s" and ?v = "mval (curve_p s)"
  note mo = prime_field_okD(1) [OF ok] and t = point_mult_output_terms [OF st, of c s]
  define t5 where "t5 = sb_fe_mont_square (C_T8 c) ?p"
  define x0 where "x0 = sb_fe_mont_mult t5 (C_X2 c) ?p"
  define y0 where "y0 = sb_fe_mont_mult (sb_fe_mont_mult t5 (C_T8 c) ?p) (C_Y2 c) ?p"
  define x1 where "x1 = (if one then sb_fe_mod_add x0 (MULT_POINT_X c) ?p else x0)"
  define y1 where "y1 = (if one then sb_fe_mod_add y0 (MULT_POINT_Y c) ?p else y0)"
  note q1 = coords_qrD [OF q(1)]
  have q5: "quasi_reduced ?p t5" unfolding t5_def by (intro qr_intros mo q)
  have q0: "quasi_reduced ?p x0" "quasi_reduced ?p y0"
    unfolding x0_def y0_def by (intro qr_intros mo q q1 q5)+
  have qxy: "quasi_reduced ?p x1" "quasi_reduced ?p y1"
    by (simp_all add: x1_def y1_def q0 qp qr_intros)
  have v0: "?v x0 = w * w * ?v (C_X2 c) mod P" "?v y0 = w * w * w * ?v (C_Y2 c) mod P"
    by (simp_all add: x0_def y0_def t5_def mval_simps q1 q mo qr_intros P w_def mod_simps)
  have "eqm P (?v x1) (w * w * ?v (C_X2 c) + of_bool one * ?v (MULT_POINT_X c))"
    using v0(1) by (simp add: x1_def eqm_mod mval_simps q0 qp P mod_simps)
  with x have x1: "?v x1 mod P = x mod P"
    by (simp add: reg2_def eqm_mod)
  have "eqm P (?v y1) (w * w * w * ?v (C_Y2 c) + of_bool one * ?v (MULT_POINT_Y c))"
    using v0(2) by (simp add: y1_def eqm_mod mval_simps q0 qp P mod_simps)
  with y have y1: "?v y1 mod P = y mod P"
    by (simp add: reg2_def eqm_mod)
  show "fe_val (C_X1 (point_mult_output st c s)) = qrep P x"
    unfolding t(1) t5_def [symmetric] x0_def [symmetric] x1_def [symmetric]
    using sb_fe_mont_reduce_val(1) [OF ok qxy(1)] qrep_cong [OF x1] by (simp add: P)
  have "fe_val (sb_fe_mont_reduce y1 ?p) = qrep P y"
    using sb_fe_mont_reduce_val(1) [OF ok qxy(2)] qrep_cong [OF y1] by (simp add: P)
  moreover have "qrep P (- qrep P y) = qrep P (- y)"
    using eqm_minus [of P "qrep P y" y] by (intro qrep_cong) (simp add: eqm_mod)
  ultimately show "fe_val (C_Y1 (point_mult_output st c s)) = qrep P (if neg then - y else y)"
    unfolding t(2) t5_def [symmetric] y0_def [symmetric] y1_def [symmetric]
    using sb_fe_mod_negate_val [OF sb_fe_mont_reduce_val(2) [OF ok qxy(2)]] by (simp add: P)
qed

lemma point_mult_output_point:
  fixes c :: sb_sw_context and s :: sb_sw_curve
  assumes "prime_field_ok (curve_p s)" "coords_qr s c" "quasi_reduced (curve_p s) (C_T8 c)"
    and "quasi_reduced (curve_p s) (MULT_POINT_X c)" "quasi_reduced (curve_p s) (MULT_POINT_Y c)"
    and st: "st_k_one st = 0" "st_inv_k st = of_bool neg"
    and P: "P = modulus (curve_p s)" and r: "jacobian P z r (reg2 s c)" "eqm P (mval (curve_p s) (C_T8 c) * z) 1"
  shows "fe_val (C_X1 (point_mult_output st c s)) = qrep P (fst r)"
    and "fe_val (C_Y1 (point_mult_output st c s)) = qrep P (if neg then - snd r else snd r)"
proof -
  define w where "w = mval (curve_p s) (C_T8 c)"
  have one: "st_k_one st = of_bool False" using st by simp
  have wz: "eqm P (w * z * (w * z)) 1" "eqm P (w * z * (w * z * (w * z))) 1"
    using eqm_mult [OF r(2) r(2)] eqm_mult [OF r(2) eqm_mult [OF r(2) r(2)]] by (simp_all add: w_def)
  have "eqm P (w * w * fst (reg2 s c)) (w * w * (fst r * (z * z)))"
    by (intro eqm_mult eqm_refl jacobianD(1) [OF r(1)])
  also have "w * w * (fst r * (z * z)) = fst r * (w * z * (w * z))" by (simp add: ac_simps)
  also have "eqm P \<dots> (fst r * 1)" by (intro eqm_mult eqm_refl wz)
  finally have x: "eqm P (w * w * fst (reg2 s c)) (fst r)" by simp
  have "eqm P (w * w * w * snd (reg2 s c)) (w * w * w * (snd r * (z * (z * z))))"
    by (intro eqm_mult eqm_refl jacobianD(2) [OF r(1)])
  also have "w * w * w * (snd r * (z * (z * z))) = snd r * (w * z * (w * z * (w * z)))" by (simp add: ac_simps)
  also have "eqm P \<dots> (snd r * 1)" by (intro eqm_mult eqm_refl wz)
  finally have y: "eqm P (w * w * w * snd (reg2 s c)) (snd r)" by simp
  show "fe_val (C_X1 (point_mult_output st c s)) = qrep P (fst r)"
    "fe_val (C_Y1 (point_mult_output st c s)) = qrep P (if neg then - snd r else snd r)"
    using point_mult_output_values [OF assms(1-5) one st(2) P] x y by (simp_all add: w_def)
qed

text \<open>Without a coordinate only the input point remains, and zeros when it is not added.\<close>

lemma point_mult_output_dead:
  fixes c :: sb_sw_context and s :: sb_sw_curve
  assumes "prime_field_ok (curve_p s)" "coords_qr s c" "quasi_reduced (curve_p s) (C_T8 c)"
    and "quasi_reduced (curve_p s) (MULT_POINT_X c)" "quasi_reduced (curve_p s) (MULT_POINT_Y c)"
    and "st_k_one st = of_bool one" "st_inv_k st = of_bool neg"
    and P: "P = modulus (curve_p s)" and z: "eqm P (mval (curve_p s) (C_T8 c)) 0"
    and r: "r = (mval (curve_p s) (MULT_POINT_X c), mval (curve_p s) (MULT_POINT_Y c))"
  defines "r' \<equiv> (if one then r else (0, 0))"
  shows "fe_val (C_X1 (point_mult_output st c s)) = qrep P (fst r')"
    and "fe_val (C_Y1 (point_mult_output st c s)) = qrep P (if neg then - snd r' else snd r')"
proof -
  define w where "w = mval (curve_p s) (C_T8 c)"
  have "eqm P (w * w) 0" "eqm P (w * w * w) 0"
    using eqm_mult [OF z z] eqm_mult [OF eqm_mult [OF z z] z] by (simp_all add: w_def)
  from eqm_mult [OF this(1) eqm_refl] eqm_mult [OF this(2) eqm_refl]
  have "eqm P (w * w * fst (reg2 s c) + of_bool one * fst r) (0 * fst (reg2 s c) + of_bool one * fst r)"
    "eqm P (w * w * w * snd (reg2 s c) + of_bool one * snd r) (0 * snd (reg2 s c) + of_bool one * snd r)"
    by (intro eqm_add eqm_refl; blast)+
  moreover have "0 * fst (reg2 s c) + of_bool one * fst r = fst r'" "0 * snd (reg2 s c) + of_bool one * snd r = snd r'"
    by (simp_all add: r'_def)
  ultimately show "fe_val (C_X1 (point_mult_output st c s)) = qrep P (fst r')"
    "fe_val (C_Y1 (point_mult_output st c s)) = qrep P (if neg then - snd r' else snd r')"
    using point_mult_output_values [OF assms(1-8)] by (simp_all add: w_def r)
qed

text \<open>The scalar is restored: the overflow is subtracted off, and the negation undone.\<close>

lemma point_mult_output_scalar:
  fixes c :: sb_sw_context and s :: sb_sw_curve
  assumes st: "st_k_one st = of_bool one" "st_inv_k st = of_bool neg" and N: "N = modulus (curve_n s)" "2 ^ 255 < N"
    and k: "0 < k" "k < N" "2 ^ 256 + fe_val (MULT_K c) = k + N * (if 2 ^ 256 \<le> k + N then 1 else 2)"
  shows "fe_val (MULT_K (point_mult_output st c s)) = (if neg then N - k else k)"
proof -
  let ?d = "fst (sb_fe_sub (MULT_K c) (prime_p (curve_n s)))"
  have b: "N < 2 ^ 256" using fe_val_bound [of "prime_p (curve_n s)"] by (simp add: N)
  have "fe_val ?d = (if 2 ^ 256 \<le> k + N then k else k + N)"
  proof -
    have d: "fe_val ?d = (fe_val (MULT_K c) - N) mod 2 ^ 256"
      by (simp add: sb_fe_sub_val N)
    show ?thesis
      unfolding d using k b N(2) fe_val_nonneg [of "MULT_K c"]
      by (cases "2 ^ 256 \<le> k + N") (auto intro!: mod_uniqueI [symmetric, where k = "- 1"])
  qed
  then have "fe_val (sb_fe_mod_reduce ?d (curve_n s)) = k"
    using sb_fe_mod_reduce_val [of ?d "curve_n s"] k(1,2)
    by (auto simp: N qrep_def split: if_splits)
  moreover from this have "quasi_reduced (curve_n s) (sb_fe_mod_reduce ?d (curve_n s))"
    using k(1,2) by (simp add: quasi_reduced_def N)
  moreover have "qrep N (- k) = N - k"
    using k(1,2) by (intro qrep_eqI [symmetric]) (auto simp: mod_simps)
  ultimately show ?thesis
    by (simp add: point_mult_output_terms(3) [OF st] sb_fe_mod_negate_val N)
qed

subsection \<open>The start\<close>

lemma point_mult_apply_z_val:
  assumes mo: "mont_ok (curve_p s)" and q: "coords_qr s m" "quasi_reduced (curve_p s) (MULT_Z m)"
    and P: "P = modulus (curve_p s)"
  defines "v \<equiv> mval (curve_p s) (MULT_Z m)"
  shows "jacobian P z a (reg1 s m) \<Longrightarrow> jacobian P (z * v) a (reg1 s (point_mult_apply_z m s))"
    and "jacobian P z b (reg2 s m) \<Longrightarrow> jacobian P (z * v) b (reg2 s (point_mult_apply_z m s))"
proof -
  have scale: "jacobian P (z * v) r (X', Y')"
    if "jacobian P z r (X, Y)" "eqm P X' (X * (v * v))" "eqm P Y' (Y * (v * (v * v)))" for r X Y X' Y'
  proof -
    have r: "eqm P X (fst r * (z * z))" "eqm P Y (snd r * (z * (z * z)))"
      using jacobianD [OF that(1)] by simp_all
    have "eqm P X' (fst r * (z * z) * (v * v))" "eqm P Y' (snd r * (z * (z * z)) * (v * (v * v)))"
      by (rule eqm_trans [OF that(2) eqm_mult [OF r(1) eqm_refl]], rule eqm_trans [OF that(3) eqm_mult [OF r(2) eqm_refl]])
    then show ?thesis by (simp add: jacobian_def ac_simps)
  qed
  note q1 = coords_qrD [OF q(1)]
  have regs: "reg1 s (point_mult_apply_z m s) =
      ((mval (curve_p s) (C_X1 m) * (v * v)) mod P, (mval (curve_p s) (C_Y1 m) * (v * (v * v))) mod P)"
    "reg2 s (point_mult_apply_z m s) =
      ((mval (curve_p s) (C_X2 m) * (v * v)) mod P, (mval (curve_p s) (C_Y2 m) * (v * (v * v))) mod P)"
    by (simp_all add: reg1_def reg2_def point_mult_apply_z_def Let_def mval_simps mo q q1 qr_intros v_def P mod_simps)
  show "jacobian P z a (reg1 s m) \<Longrightarrow> jacobian P (z * v) a (reg1 s (point_mult_apply_z m s))"
    unfolding regs unfolding reg1_def by (rule scale) auto
  show "jacobian P z b (reg2 s m) \<Longrightarrow> jacobian P (z * v) b (reg2 s (point_mult_apply_z m s))"
    unfolding regs unfolding reg2_def by (rule scale) auto
qed

text \<open>The scalar the ladder runs on: the smaller in size of the scalar and its negation.\<close>

definition ladder_scalar :: "int \<Rightarrow> int \<Rightarrow> int" where
  "ladder_scalar N k = (if bit k 255 then N - k else k)"

definition regularized :: "int \<Rightarrow> int \<Rightarrow> int" where
  "regularized N k = k + N * (if 2 ^ 256 \<le> k + N then 1 else 2)"

text \<open>The inputs of the multiplication that \<open>point_mult_zero_point\<close> leaves, for other points and for \<open>(0, y)\<close>.\<close>

lemma point_mult_zero_point_frame [simp]:
  "MULT_Z (point_mult_zero_point c s) = MULT_Z c"
  by (simp add: point_mult_zero_point_def Let_def case_prod_unfold)

lemma point_mult_zero_point_other:
  assumes "MULT_POINT_X c \<noteq> prime_p (curve_p s)"
  shows "MULT_K (point_mult_zero_point c s) = MULT_K c"
    "MULT_POINT_X (point_mult_zero_point c s) = MULT_POINT_X c" "MULT_POINT_Y (point_mult_zero_point c s) = MULT_POINT_Y c"
  using assms by (simp_all add: point_mult_zero_point_def Let_def case_prod_unfold sb_fe_equal_iff)

definition zero_double :: "sb_sw_curve \<Rightarrow> sb_fe \<Rightarrow> sb_fe" where
  "zero_double s y = (if bit (fe_val (sb_fe_mont_reduce y (curve_p s))) 0 then sb_fe_mod_negate (pair_y (dz_r s)) (curve_p s)
     else pair_y (dz_r s))"

lemma point_mult_zero_point_zero:
  assumes "MULT_POINT_X c = prime_p (curve_p s)"
  shows "MULT_K (point_mult_zero_point c s) = fst (sb_fe_mod_halve (MULT_K c) (curve_n s))"
    "MULT_POINT_X (point_mult_zero_point c s) = pair_x (dz_r s)"
    "MULT_POINT_Y (point_mult_zero_point c s) = zero_double s (MULT_POINT_Y c)"
proof -
  have b: "sb_fe_test_bit x 0 = of_bool (bit (fe_val x) 0)" for x
    by (simp add: sb_fe_test_bit_val)
  show "MULT_K (point_mult_zero_point c s) = fst (sb_fe_mod_halve (MULT_K c) (curve_n s))"
    "MULT_POINT_X (point_mult_zero_point c s) = pair_x (dz_r s)"
    using assms by (simp_all add: point_mult_zero_point_def Let_def case_prod_unfold sb_fe_equal_iff)
  show "MULT_POINT_Y (point_mult_zero_point c s) = zero_double s (MULT_POINT_Y c)"
    using assms by (cases "bit (fe_val (sb_fe_mont_reduce (MULT_POINT_Y c) (curve_p s))) 0")
      (simp_all add: point_mult_zero_point_def Let_def case_prod_unfold sb_fe_equal_iff b zero_double_def
        sb_fe_ctswap_if [of True] sb_fe_ctswap_if [of False])
qed

lemma point_mult_start_terms:
  fixes c :: sb_sw_context and s :: sb_sw_curve
  defines "c0 \<equiv> point_mult_zero_point c s"
  defines "neg \<equiv> bit (fe_val (MULT_K c0)) 255"
  defines "k \<equiv> (if neg then sb_fe_mod_negate (MULT_K c0) (curve_n s) else MULT_K c0)"
  shows "\<exists>c2. sb_sw_point_mult_start c s = set_MULT_STATE (point_mult_apply_z (sb_sw_point_initial_double c2 s) s)
      (MULT_STATE c\<lparr>st_inv_k := of_bool neg, st_k_one := of_bool (k = SB_FE_ONE), st_i := SB_FE_BITS - 1,
        st_stage := SB_SW_POINT_MULT_OP_STAGE_LADDER\<rparr>) \<and>
    C_X2 c2 = MULT_POINT_X c0 \<and> C_Y2 c2 = MULT_POINT_Y c0 \<and> MULT_POINT_X c2 = MULT_POINT_X c0 \<and>
    MULT_POINT_Y c2 = MULT_POINT_Y c0 \<and> MULT_Z c2 = MULT_Z c \<and>
    MULT_K c2 = MULT_K (sb_sw_regularize_scalar (c\<lparr>MULT_K := k\<rparr>) s)"
proof -
  have t: "sb_fe_test_bit (MULT_K c0) (SB_FE_BITS - 1) = of_bool neg"
    by (simp add: sb_fe_test_bit_val SB_FE_BITS_def neg_def)
  have e: "sb_fe_equal a b = of_bool (a = b)" for a b
    by (simp add: sb_fe_equal_iff)
  define c1 where "c1 = sb_sw_regularize_scalar (c0\<lparr>C_T5 := (if neg then MULT_K c0 else
      sb_fe_mod_negate (MULT_K c0) (curve_n s)), MULT_K := k\<rparr>) s"
  let ?c2 = "c1\<lparr>C_X2 := MULT_POINT_X c0, C_Y2 := MULT_POINT_Y c0\<rparr>"
  have z: "MULT_Z c0 = MULT_Z c" by (simp add: c0_def)
  have "sb_sw_point_mult_start c s = set_MULT_STATE (point_mult_apply_z (sb_sw_point_initial_double ?c2 s) s)
      (MULT_STATE c\<lparr>st_inv_k := of_bool neg, st_k_one := of_bool (k = SB_FE_ONE), st_i := SB_FE_BITS - 1,
        st_stage := SB_SW_POINT_MULT_OP_STAGE_LADDER\<rparr>)"
    by (cases neg) (simp_all add: sb_sw_point_mult_start_def Let_def t e c1_def k_def sb_fe_ctswap_if [of True]
        sb_fe_ctswap_if [of False] flip: c0_def)
  moreover have "MULT_K c1 = MULT_K (sb_sw_regularize_scalar (c\<lparr>MULT_K := k\<rparr>) s)"
    by (simp add: c1_def sb_sw_regularize_scalar_def Let_def case_prod_unfold)
  ultimately show ?thesis
    by (intro exI [of _ ?c2]) (simp add: c1_def z)
qed

text \<open>
  What the multiplication needs of the curve and of its inputs: the point is the first multiple,
  in Montgomery form, with an abscissa that is not zero, the initial coordinate is not
  zero and the scalar is reduced.
\<close>

definition mult_curve_ok :: "sb_sw_curve \<Rightarrow> bool" where
  "mult_curve_ok s \<longleftrightarrow> prime_field_ok (curve_p s) \<and> fermat_at (modulus (curve_p s)) 2 \<and>
     2 ^ 255 < modulus (curve_n s) \<and> quasi_reduced (curve_p s) (minus_a_r_over_three s) \<and>
     eqm (modulus (curve_p s)) (3 * mval (curve_p s) (minus_a_r_over_three s)) (fe_val (minus_a s))"

definition mult_data :: "sb_sw_curve \<Rightarrow> int \<Rightarrow> (int \<Rightarrow> affine) \<Rightarrow> sb_sw_context \<Rightarrow> bool" where
  "mult_data s m M c \<longleftrightarrow> multiples (modulus (curve_p s)) (fe_val (minus_a s)) m M \<and> point_qr s c \<and>
     M 1 = (mval (curve_p s) (MULT_POINT_X c), mval (curve_p s) (MULT_POINT_Y c)) \<and>
     fermat_at (modulus (curve_p s)) (fst (M 1)) \<and> fermat_at (modulus (curve_p s)) (mval (curve_p s) (MULT_Z c)) \<and>
     0 < fe_val (MULT_K c) \<and> fe_val (MULT_K c) < modulus (curve_n s)"

definition mult_input :: "sb_sw_curve \<Rightarrow> int \<Rightarrow> (int \<Rightarrow> affine) \<Rightarrow> sb_sw_context \<Rightarrow> bool" where
  "mult_input s m M c \<longleftrightarrow> mult_data s m M c \<and> st_swap (MULT_STATE c) = 0"

lemma mult_curve_okD:
  assumes "mult_curve_ok s"
  shows "prime_field_ok (curve_p s)" "mont_ok (curve_p s)" "fermat_at (modulus (curve_p s)) 2"
    "2 ^ 255 < modulus (curve_n s)" "quasi_reduced (curve_p s) (minus_a_r_over_three s)"
    "eqm (modulus (curve_p s)) (3 * mval (curve_p s) (minus_a_r_over_three s)) (fe_val (minus_a s))"
  using assms prime_field_okD(1) [of "curve_p s"]
  by (auto simp: mult_curve_ok_def)

lemma mult_dataD:
  assumes "mult_data s m M c"
  shows "multiples (modulus (curve_p s)) (fe_val (minus_a s)) m M" "point_qr s c"
    "M 1 = (mval (curve_p s) (MULT_POINT_X c), mval (curve_p s) (MULT_POINT_Y c))"
    "fermat_at (modulus (curve_p s)) (fst (M 1))" "fermat_at (modulus (curve_p s)) (mval (curve_p s) (MULT_Z c))"
    "0 < fe_val (MULT_K c)" "fe_val (MULT_K c) < modulus (curve_n s)"
    "MULT_POINT_X c \<noteq> prime_p (curve_p s)"
proof -
  have "\<not> modulus (curve_p s) dvd fst (M 1)"
    using assms unfolding mult_data_def by (intro fermat_at_not_dvd) blast
  then show "MULT_POINT_X c \<noteq> prime_p (curve_p s)"
    using assms by (auto simp: mult_data_def mval_def)
qed (use assms [unfolded mult_data_def] in blast)+

lemma mult_inputD:
  assumes "mult_input s m M c"
  shows "mult_data s m M c" "st_swap (MULT_STATE c) = 0"
  using assms by (simp_all add: mult_input_def)

lemma ladder_scalar_fe:
  assumes "0 < fe_val k" "fe_val k < modulus n"
  shows "fe_val (if bit (fe_val k) 255 then sb_fe_mod_negate k n else k) = ladder_scalar (modulus n) (fe_val k)"
    and "0 < ladder_scalar (modulus n) (fe_val k)" "ladder_scalar (modulus n) (fe_val k) < modulus n"
proof -
  have "qrep (modulus n) (- fe_val k) = modulus n - fe_val k"
    using assms by (intro qrep_eqI [symmetric]) (auto simp: mod_simps)
  then show "fe_val (if bit (fe_val k) 255 then sb_fe_mod_negate k n else k) = ladder_scalar (modulus n) (fe_val k)"
    using assms by (simp add: ladder_scalar_def sb_fe_mod_negate_val quasi_reduced_def)
  show "0 < ladder_scalar (modulus n) (fe_val k)" "ladder_scalar (modulus n) (fe_val k) < modulus n"
    using assms by (simp_all add: ladder_scalar_def)
qed

lemma regularized_range:
  assumes "2 ^ 255 < N" "N < 2 ^ 256" "0 < k" "k < N"
  shows "2 ^ 256 \<le> regularized N k" "regularized N k < 2 ^ 257" "regularized N k div 2 ^ 256 = 1"
proof -
  show r: "2 ^ 256 \<le> regularized N k" "regularized N k < 2 ^ 257"
    using assms by (auto simp: regularized_def)
  then show "regularized N k div 2 ^ 256 = 1"
    by (intro int_div_pos_eq [where r = "regularized N k - 2 ^ 256"]) auto
qed

lemma mult_data_other:
  assumes "mult_data s m M c"
  shows "mult_data s m M (point_mult_zero_point c s)"
  using assms point_mult_zero_point_other [OF mult_dataD(8) [OF assms]] by (auto simp: mult_data_def point_qr_def)

lemma sb_sw_point_mult_start_scalar:
  fixes c :: sb_sw_context and s :: sb_sw_curve
  defines "c0 \<equiv> point_mult_zero_point c s"
  assumes k: "0 < fe_val (MULT_K c0)" "fe_val (MULT_K c0) < modulus (curve_n s)" and N: "2 ^ 255 < modulus (curve_n s)"
  shows "2 ^ 256 + fe_val (MULT_K (sb_sw_point_mult_start c s)) =
    regularized (modulus (curve_n s)) (ladder_scalar (modulus (curve_n s)) (fe_val (MULT_K c0)))"
proof -
  define k where "k = (if bit (fe_val (MULT_K c0)) 255 then sb_fe_mod_negate (MULT_K c0) (curve_n s) else MULT_K c0)"
  have "MULT_K (sb_sw_point_mult_start c s) = MULT_K (sb_sw_regularize_scalar (c\<lparr>MULT_K := k\<rparr>) s)"
    using point_mult_start_terms [of c s] unfolding c0_def [symmetric] k_def [symmetric] by auto
  then show ?thesis
    using sb_sw_regularize_scalar_val [OF N, of "c\<lparr>MULT_K := k\<rparr>"] ladder_scalar_fe [OF k, folded k_def]
    by (simp add: regularized_def)
qed

lemma sb_sw_point_mult_start_val:
  fixes c :: sb_sw_context and s :: sb_sw_curve
  defines "c0 \<equiv> point_mult_zero_point c s"
  assumes cv: "mult_curve_ok s" and inp: "mult_data s m M c0" and sw: "st_swap (MULT_STATE c) = 0"
  defines "c' \<equiv> sb_sw_point_mult_start c s" and "k \<equiv> ladder_scalar (modulus (curve_n s)) (fe_val (MULT_K c0))"
  defines "K \<equiv> regularized (modulus (curve_n s)) k"
  shows "ladder_at s m M K 255 c'" "2 ^ 256 + fe_val (MULT_K c') = K"
    and "st_inv_k (MULT_STATE c') = of_bool (bit (fe_val (MULT_K c0)) 255)" "st_k_one (MULT_STATE c') = of_bool (k = 1)"
    and "MULT_POINT_X c' = MULT_POINT_X c0" "MULT_POINT_Y c' = MULT_POINT_Y c0"
proof -
  let ?p = "curve_p s" and ?P = "modulus (curve_p s)" and ?N = "modulus (curve_n s)"
  define k' where "k' = (if bit (fe_val (MULT_K c0)) 255 then sb_fe_mod_negate (MULT_K c0) (curve_n s) else MULT_K c0)"
  note C = mult_curve_okD [OF cv] and I = mult_dataD [OF inp]
  note D = multiplesD [OF I(1)] and k = ladder_scalar_fe [OF I(6,7), folded k'_def k_def]
  obtain c2 where c2: "c' = set_MULT_STATE (point_mult_apply_z (sb_sw_point_initial_double c2 s) s)
      (MULT_STATE c\<lparr>st_inv_k := of_bool (bit (fe_val (MULT_K c0)) 255), st_k_one := of_bool (k' = SB_FE_ONE),
        st_i := SB_FE_BITS - 1, st_stage := SB_SW_POINT_MULT_OP_STAGE_LADDER\<rparr>)"
    "C_X2 c2 = MULT_POINT_X c0" "C_Y2 c2 = MULT_POINT_Y c0" "MULT_POINT_X c2 = MULT_POINT_X c0"
    "MULT_POINT_Y c2 = MULT_POINT_Y c0" "MULT_Z c2 = MULT_Z c"
    "MULT_K c2 = MULT_K (sb_sw_regularize_scalar (c\<lparr>MULT_K := k'\<rparr>) s)"
    using point_mult_start_terms [of c s] unfolding c'_def c0_def [symmetric] k'_def [symmetric] by blast
  have z: "MULT_Z c0 = MULT_Z c" by (simp_all add: c0_def)
  have "k' = SB_FE_ONE \<longleftrightarrow> k = 1"
    using k(1) by (simp flip: fe_val_inject)
  then show "st_inv_k (MULT_STATE c') = of_bool (bit (fe_val (MULT_K c0)) 255)" "st_k_one (MULT_STATE c') = of_bool (k = 1)"
    by (simp_all add: c2(1))
  show "MULT_POINT_X c' = MULT_POINT_X c0" "MULT_POINT_Y c' = MULT_POINT_Y c0"
    by (simp_all add: c2)
  show K: "2 ^ 256 + fe_val (MULT_K c') = K"
    unfolding c'_def K_def k_def c0_def by (rule sb_sw_point_mult_start_scalar [OF I(6,7) [unfolded c0_def] C(4)])
  have q: "quasi_reduced ?p (C_X2 c2)" "quasi_reduced ?p (C_Y2 c2)" "quasi_reduced ?p (MULT_Z c2)"
    using I(2) by (simp_all add: c2 point_qr_def z)
  have r2: "reg2 s c2 = M 1" by (simp add: reg2_def c2 I(3))
  have one: "\<not> m dvd 1" using D(1) by simp
  have tg: "tangent ?P (fe_val (minus_a s)) (reg2 s c2) (M 2)"
    unfolding r2 using D(7) [OF one] by simp
  note dbl = initial_double_tangent [OF C(2) q(1,2) C(5,6) tg, unfolded r2]
  note az = point_mult_apply_z_val [OF C(2) dbl(3) _ refl]
  have "fermat_at ?P (2 * snd (M 1) * mval ?p (MULT_Z c))"
    using C(3) I(5) D(6) [OF one] by (simp add: fermat_at_mult z)
  moreover have "coords_qr s (point_mult_apply_z (sb_sw_point_initial_double c2 s) s)"
    by (rule point_mult_apply_z_typed [OF C(2) dbl(3)]) (simp add: q)
  moreover have "K div 2 ^ Suc 255 = 1"
    using regularized_range(3) [OF C(4) _ k(2,3)] fe_val_bound [of "prime_p (curve_n s)"] by (simp add: K_def)
  ultimately have "ladder_rel s (2 * snd (M 1) * mval ?p (MULT_Z c)) (MULT_STATE c') c'
      (M (K div 2 ^ Suc 255), M (K div 2 ^ Suc 255 + 1))"
    using az(1) [OF _ dbl(1)] az(2) [OF _ dbl(2)] q(3) sw
    by (auto simp: ladder_rel_def c2(1,6) z simp del: power_Suc intro!: exI [of _ False])
  moreover have "regular_above m K (255 + 2)" by (simp add: regular_above_def)
  ultimately show "ladder_at s m M K 255 c'"
    using sw by (auto simp: ladder_at_def ladder_holds_def c2(1) z SB_FE_BITS_def simp del: power_Suc intro!: exI [of _ False])
qed

subsection \<open>The whole multiplication\<close>

text \<open>
  The output of the last call: the multiple, or, when a prefix was exceptional, the input point
  for the scalar one and zeros otherwise.
\<close>

lemma point_mult_recover_output:
  fixes c :: sb_sw_context
  assumes P: "P = modulus (curve_p s)" and ok: "prime_field_ok (curve_p s)" and M: "multiples P A m M"
    and K: "K = 2 ^ 256 + fe_val (MULT_K c)" and h: "ladder_holds s m M K 0 st c"
    and q: "quasi_reduced (curve_p s) (MULT_POINT_X c)" "quasi_reduced (curve_p s) (MULT_POINT_Y c)"
    and pt: "M 1 = (mval (curve_p s) (MULT_POINT_X c), mval (curve_p s) (MULT_POINT_Y c))" "fermat_at P (fst (M 1))"
    and st: "st_k_one st = of_bool one" "st_inv_k st = of_bool neg"
    and one: "one \<Longrightarrow> \<not> non_exceptional m K"
    and z: "point_mult_recover_z st c s = (st2, c2)"
  defines "r \<equiv> (if non_exceptional m K then M K else if one then M 1 else (0, 0))"
  shows "MULT_K c2 = MULT_K c" "st_k_one st2 = of_bool one" "st_inv_k st2 = of_bool neg"
    and "fe_val (C_X1 (point_mult_output st2 c2 s)) = qrep P (fst r)"
    and "fe_val (C_Y1 (point_mult_output st2 c2 s)) = qrep P (if neg then - snd r else snd r)"
proof -
  note mo = prime_field_okD(1) [OF ok]
  obtain w where w: "st_swap st = of_bool w" using h by (auto simp: ladder_holds_0)
  have b: "sb_fe_test_bit (MULT_K c) 0 = of_bool (bit K 0)"
    using low_bits_same [OF _ K, of 0] by (simp add: sb_fe_test_bit_val)
  have "(MULT_K c2 = MULT_K c \<and> st_k_one st2 = of_bool one \<and> st_inv_k st2 = of_bool neg) \<and>
      fe_val (C_X1 (point_mult_output st2 c2 s)) = qrep P (fst r) \<and>
      fe_val (C_Y1 (point_mult_output st2 c2 s)) = qrep P (if neg then - snd r else snd r)"
  proof (cases "non_exceptional m K")
    case ne: True
    then have reg: "regular_above m K 2" "regular m (K div 2)" and n1: "\<not> one"
      using one by (auto simp: non_exceptional_iff)
    from h reg(1) obtain z0 where rel: "ladder_rel s z0 st c (M (K div 2), M (K div 2 + 1))"
      by (auto simp: ladder_holds_0)
    have pt': "eqm P (mval (curve_p s) (MULT_POINT_X c)) (fst (M 1))"
      "eqm P (mval (curve_p s) (MULT_POINT_Y c)) (snd (M 1))"
      by (simp_all add: pt(1))
    have KK: "2 * (K div 2) + of_bool (bit K 0) = K"
      using div_pow2_bit [of K 0] by simp
    note v = point_mult_recover_z_val [OF P ok M reg(2) rel b q pt' pt(2) z, unfolded KK]
    obtain z' where z': "jacobian P z' (M K) (reg2 s c2)" "eqm P (mval (curve_p s) (C_T8 c2) * z') 1"
      using v(1) by blast
    have s2: "st_k_one st2 = 0" "st_inv_k st2 = of_bool neg" using v(7,8) st n1 by simp_all
    show ?thesis
      using point_mult_output_point [OF ok v(2,3) q [folded v(5,6)] s2 P z'] s2 n1 v(4) ne by (simp add: r_def)
  next
    case ex: False
    have "K div 2 ^ 256 = 1" unfolding K by (rule implicit_top_bit)
    note l = last_conj_add_exceptional [OF mo M [unfolded P] this h ex, folded P]
    note v = point_mult_recover_z_dead [OF P ok w b l q z]
    have s2: "st_k_one st2 = of_bool one" "st_inv_k st2 = of_bool neg" using v(7,8) st by simp_all
    show ?thesis
      using point_mult_output_dead [OF ok v(2,3) q [folded v(5,6)] s2 P v(1) pt(1) [folded v(5,6)]] s2 v(4) ex
      by (simp add: r_def)
  qed
  then show "MULT_K c2 = MULT_K c" "st_k_one st2 = of_bool one" "st_inv_k st2 = of_bool neg"
    "fe_val (C_X1 (point_mult_output st2 c2 s)) = qrep P (fst r)"
    "fe_val (C_Y1 (point_mult_output st2 c2 s)) = qrep P (if neg then - snd r else snd r)"
    by blast+
qed

lemma sb_sw_point_mult_recover_val:
  fixes c :: sb_sw_context
  assumes cv: "mult_curve_ok s" and M: "multiples (modulus (curve_p s)) A m M" and at: "ladder_at s m M K 0 c"
    and K: "K = 2 ^ 256 + fe_val (MULT_K c)"
    and q: "quasi_reduced (curve_p s) (MULT_POINT_X c)" "quasi_reduced (curve_p s) (MULT_POINT_Y c)"
    and pt: "M 1 = (mval (curve_p s) (MULT_POINT_X c), mval (curve_p s) (MULT_POINT_Y c))"
      "fermat_at (modulus (curve_p s)) (fst (M 1))"
    and st: "st_k_one (MULT_STATE c) = of_bool one" "st_inv_k (MULT_STATE c) = of_bool neg"
    and one: "one \<Longrightarrow> \<not> non_exceptional m K"
    and k: "0 < k" "k < modulus (curve_n s)" "K = regularized (modulus (curve_n s)) k"
  defines "c' \<equiv> snd (sb_sw_point_mult_continue c s)"
    and "r \<equiv> (if non_exceptional m K then M K else if one then M 1 else (0, 0))"
  shows "sb_sw_point_mult_is_finished c'"
    and "fe_val (C_X1 c') = qrep (modulus (curve_p s)) (fst r)"
    and "fe_val (C_Y1 c') = qrep (modulus (curve_p s)) (if neg then - snd r else snd r)"
    and "fe_val (MULT_K c') = (if neg then modulus (curve_n s) - k else k)"
proof -
  note C = mult_curve_okD [OF cv]
  have h: "ladder_holds s m M K 0 (MULT_STATE c) c"
    and stage: "st_stage (MULT_STATE c) = SB_SW_POINT_MULT_OP_STAGE_INV_Z"
    using at by (auto simp: ladder_at_def)
  obtain st2 c2 where z: "point_mult_recover_z (MULT_STATE c) c s = (st2, c2)" by fastforce
  have c': "c' = set_MULT_STATE (point_mult_output st2 c2 s) (st2\<lparr>st_stage := SB_SW_POINT_MULT_OP_DONE\<rparr>)"
    by (simp add: c'_def sb_sw_point_mult_continue_def Let_def stage z mult_stage_defs)
  then show "sb_sw_point_mult_is_finished c'"
    by (simp add: sb_sw_point_mult_is_finished_def)
  note v = point_mult_recover_output [OF refl C(1) M K h q pt st one z, folded r_def]
  show "fe_val (C_X1 c') = qrep (modulus (curve_p s)) (fst r)"
    "fe_val (C_Y1 c') = qrep (modulus (curve_p s)) (if neg then - snd r else snd r)"
    using v(4,5) by (simp_all add: c')
  have "2 ^ 256 + fe_val (MULT_K c2) = k + modulus (curve_n s) * (if 2 ^ 256 \<le> k + modulus (curve_n s) then 1 else 2)"
    using K k(3) by (simp add: v(1) regularized_def)
  from point_mult_output_scalar [OF v(2,3) refl C(4) k(1,2) this]
  show "fe_val (MULT_K c') = (if neg then modulus (curve_n s) - k else k)"
    by (simp add: c')
qed

text \<open>For the scalar one the last prefix is the order, at which the ladder is exceptional.\<close>

lemma one_exceptional:
  assumes "m dvd N" "N + 1 < 2 ^ 256"
  shows "\<not> non_exceptional m (regularized N 1)"
proof -
  have "regularized N 1 div 2 = N" using assms(2) by (simp add: regularized_def)
  with assms(1) show ?thesis by (simp add: non_exceptional_iff regular_def)
qed

text \<open>
  Seventeen calls after the start the affine coordinates of the multiple are in the first
  registers and the scalar is restored. An exceptional prefix leaves zeros instead, except
  for the scalars one and minus one.
\<close>

definition ladder_defined :: "int \<Rightarrow> int \<Rightarrow> int \<Rightarrow> bool" where
  "ladder_defined N m k \<longleftrightarrow>
     ladder_scalar N k = 1 \<or> non_exceptional m (regularized N (ladder_scalar N k))"

lemma sb_sw_point_mult_total:
  fixes c :: sb_sw_context and s :: sb_sw_curve
  defines "c0 \<equiv> point_mult_zero_point c s"
  assumes cv: "mult_curve_ok s" and inp: "mult_data s m M c0" and sw: "st_swap (MULT_STATE c) = 0" and mN: "m dvd modulus (curve_n s)"
    and N: "modulus (curve_n s) + 1 < 2 ^ 256"
  defines "c' \<equiv> mult_calls s 17 (sb_sw_point_mult_start c s)"
    and "r \<equiv> (if ladder_defined (modulus (curve_n s)) m (fe_val (MULT_K c0)) then M (fe_val (MULT_K c0)) else (0, 0))"
  shows "sb_sw_point_mult_is_finished c'" "MULT_K c' = MULT_K c0"
    and "fe_val (C_X1 c') = qrep (modulus (curve_p s)) (fst r)"
    and "fe_val (C_Y1 c') = qrep (modulus (curve_p s)) (snd r)"
proof -
  let ?N = "modulus (curve_n s)"
  define k where "k = ladder_scalar ?N (fe_val (MULT_K c0))"
  define K where "K = regularized ?N k"
  define neg where "neg = bit (fe_val (MULT_K c0)) 255"
  note C = mult_curve_okD [OF cv] and I = mult_dataD [OF inp]
  note D = multiplesD [OF I(1)] and kr = ladder_scalar_fe(2,3) [OF I(6,7), folded k_def]
  note start = sb_sw_point_mult_start_val [OF cv inp [unfolded c0_def] sw, folded c0_def, folded k_def, folded K_def neg_def]
  define c1 where "c1 = mult_calls s 16 (sb_sw_point_mult_start c s)"
  have c1: "ladder_at s m M K 0 c1" "same_mult (sb_sw_point_mult_start c s) c1"
    using mult_calls_ladder [OF C(2) I(1) start(2) [symmetric] start(1), of 16]
    by (simp_all add: c1_def SB_SW_POINT_ITERATIONS_def)
  have c': "c' = snd (sb_sw_point_mult_continue c1 s)"
    using funpow_add [of 1 16 "\<lambda>m. snd (sb_sw_point_mult_continue m s)"]
    by (simp add: c'_def c1_def mult_calls_def)
  have c1': "K = 2 ^ 256 + fe_val (MULT_K c1)" "st_k_one (MULT_STATE c1) = of_bool (k = 1)"
    "st_inv_k (MULT_STATE c1) = of_bool neg"
    "MULT_POINT_X c1 = MULT_POINT_X c0" "MULT_POINT_Y c1 = MULT_POINT_Y c0"
    using c1(2) start by (simp_all add: same_mult_def)
  have q: "quasi_reduced (curve_p s) (MULT_POINT_X c0)" "quasi_reduced (curve_p s) (MULT_POINT_Y c0)"
    using I(2) by (simp_all add: point_qr_def)
  have one: "k = 1 \<Longrightarrow> \<not> non_exceptional m K"
    using one_exceptional [OF mN N] by (simp add: K_def)
  note v = sb_sw_point_mult_recover_val [OF cv I(1) c1(1) c1'(1), unfolded c1'(4,5), OF q I(3,4) c1'(2,3) one kr K_def, folded c']
  have MK: "M j = (if neg then opposite (M (fe_val (MULT_K c0))) else M (fe_val (MULT_K c0)))"
    if "?N dvd j - k" for j
  proof -
    have "m dvd j - k" "m dvd ?N" using that mN by auto
    then show ?thesis
      using D(3) [of j k] D(3) [of k "- fe_val (MULT_K c0)"] D(4) [of "fe_val (MULT_K c0)"]
      by (auto simp: k_def ladder_scalar_def neg_def)
  qed
  have "M K = (if neg then opposite (M (fe_val (MULT_K c0))) else M (fe_val (MULT_K c0)))"
    by (rule MK) (simp add: K_def regularized_def)
  moreover have "M 1 = (if neg then opposite (M (fe_val (MULT_K c0))) else M (fe_val (MULT_K c0)))" if "k = 1"
    by (rule MK) (simp add: that)
  ultimately have "(if non_exceptional m K then M K else if k = 1 then M 1 else (0, 0)) = (if neg then opposite r else r)"
    by (auto simp: r_def ladder_defined_def opposite_def simp flip: k_def K_def)
  with v(1-3) show "sb_sw_point_mult_is_finished c'"
    "fe_val (C_X1 c') = qrep (modulus (curve_p s)) (fst r)" "fe_val (C_Y1 c') = qrep (modulus (curve_p s)) (snd r)"
    by (auto simp: opposite_def split: if_splits)
  have "fe_val (MULT_K c') = fe_val (MULT_K c0)"
    using v(4) by (auto simp: k_def ladder_scalar_def neg_def)
  then show "MULT_K c' = MULT_K c0" by (simp add: fe_val_inject)
qed

text \<open>
  The point \<open>(0, y)\<close> is multiplied by means of its double \<open>dz_r\<close>, whose sign is that of \<open>y\<close>, and
  half the scalar.
\<close>

definition zero_data :: "sb_sw_curve \<Rightarrow> int \<Rightarrow> (int \<Rightarrow> affine) \<Rightarrow> sb_sw_context \<Rightarrow> bool" where
  "zero_data s m M c \<longleftrightarrow> multiples (modulus (curve_p s)) (fe_val (minus_a s)) m M \<and> point_qr s c \<and>
     MULT_POINT_X c = prime_p (curve_p s) \<and> M 1 = (0, mval (curve_p s) (MULT_POINT_Y c)) \<and>
     pair_qr (curve_p s) (dz_r s) \<and> M 2 = (mval (curve_p s) (pair_x (dz_r s)), mval (curve_p s) (zero_double s (MULT_POINT_Y c))) \<and>
     fermat_at (modulus (curve_p s)) (fst (M 2)) \<and> fermat_at (modulus (curve_p s)) (mval (curve_p s) (MULT_Z c)) \<and>
     odd (modulus (curve_n s)) \<and> 0 < fe_val (MULT_K c) \<and> fe_val (MULT_K c) < modulus (curve_n s)"

lemma multiples_double:
  assumes "multiples P A m M"
  shows "multiples P A m (\<lambda>i. M (2 * i))"
proof -
  note D = multiplesD [OF assms]
  have d: "m dvd 2 * i - 2 * j \<longleftrightarrow> m dvd i - j" "m dvd 2 * i + 2 * j \<longleftrightarrow> m dvd i + j" for i j
    using odd_dvd_double [OF D(2), of "i - j"] odd_dvd_double [OF D(2), of "i + j"] by (simp_all add: algebra_simps)
  show ?thesis
    unfolding multiples_def using D(1,2) D(4) [of "2 * _"] D(5) [of "2 * _" "2 * _"] D(6,7) [of "2 * _"] odd_dvd_double [OF D(2)]
    by (auto intro!: D(3) simp: d)
qed

lemma zero_data_start:
  assumes z: "zero_data s m M c"
  defines "k \<equiv> fe_val (MULT_K (point_mult_zero_point c s))"
  shows "mult_data s m (\<lambda>i. M (2 * i)) (point_mult_zero_point c s)" "modulus (curve_n s) dvd 2 * k - fe_val (MULT_K c)"
proof -
  let ?N = "modulus (curve_n s)"
  have Z: "multiples (modulus (curve_p s)) (fe_val (minus_a s)) m M" "point_qr s c" "MULT_POINT_X c = prime_p (curve_p s)"
    "pair_qr (curve_p s) (dz_r s)" "M 2 = (mval (curve_p s) (pair_x (dz_r s)), mval (curve_p s) (zero_double s (MULT_POINT_Y c)))"
    "fermat_at (modulus (curve_p s)) (fst (M 2))" "fermat_at (modulus (curve_p s)) (mval (curve_p s) (MULT_Z c))"
    "odd ?N" "0 < fe_val (MULT_K c)" "fe_val (MULT_K c) < ?N"
    using z [unfolded zero_data_def] by blast+
  note f = point_mult_zero_point_zero [OF Z(3)]
  have qk: "quasi_reduced (curve_n s) (MULT_K c)" using Z(9,10) by (simp add: quasi_reduced_def)
  note h = sb_fe_mod_halve_val [OF qk Z(8)] sb_fe_mod_halve_double(2) [OF qk Z(8)]
  have k: "0 < k" "k < ?N"
    using Z(8-10) h(1) by (auto simp: k_def f elim!: evenE)
  have "quasi_reduced (curve_p s) (zero_double s (MULT_POINT_Y c))"
    using Z(4) by (simp add: zero_double_def pair_qr_def qr_intros)
  with Z k show "mult_data s m (\<lambda>i. M (2 * i)) (point_mult_zero_point c s)"
    using multiples_double [OF Z(1)] by (auto simp: mult_data_def f(2,3) point_qr_def pair_qr_def k_def)
  show "?N dvd 2 * k - fe_val (MULT_K c)"
    using h(2) by (simp add: k_def f(1) mod_eq_dvd_iff)
qed

text \<open>Both cases: the scalar the ladder runs on is the one that \<open>point_mult_zero_point\<close> leaves.\<close>

lemma sb_sw_point_mult_val:
  fixes c :: sb_sw_context and s :: sb_sw_curve
  assumes cv: "mult_curve_ok s" and inp: "mult_data s m M c \<or> zero_data s m M c" and sw: "st_swap (MULT_STATE c) = 0"
    and mN: "m dvd modulus (curve_n s)" and N: "modulus (curve_n s) + 1 < 2 ^ 256"
  defines "c' \<equiv> mult_calls s 17 (sb_sw_point_mult_start c s)" and "k \<equiv> MULT_K (point_mult_zero_point c s)"
  defines "r \<equiv> (if ladder_defined (modulus (curve_n s)) m (fe_val k) then M (fe_val (MULT_K c)) else (0, 0))"
  shows "sb_sw_point_mult_is_finished c'" "MULT_K c' = k"
    and "fe_val (C_X1 c') = qrep (modulus (curve_p s)) (fst r)"
    and "fe_val (C_Y1 c') = qrep (modulus (curve_p s)) (snd r)"
proof -
  note total = sb_sw_point_mult_total [OF cv _ sw mN N, folded c'_def k_def]
  have "sb_sw_point_mult_is_finished c' \<and> MULT_K c' = k \<and>
    fe_val (C_X1 c') = qrep (modulus (curve_p s)) (fst r) \<and> fe_val (C_Y1 c') = qrep (modulus (curve_p s)) (snd r)"
    using inp
  proof
    assume d: "mult_data s m M c"
    from total [OF mult_data_other [OF d]] show ?thesis
      by (simp add: r_def k_def point_mult_zero_point_other [OF mult_dataD(8) [OF d]])
  next
    assume z: "zero_data s m M c"
    note zs = zero_data_start [OF z]
    have "m dvd 2 * fe_val k - fe_val (MULT_K c)"
      using dvd_trans [OF mN zs(2)] by (simp add: k_def)
    then have "M (2 * fe_val k) = M (fe_val (MULT_K c))"
      using z by (intro multiplesD(3)) (auto simp: zero_data_def)
    with total [OF zs(1)] show ?thesis
      by (simp add: r_def)
  qed
  then show "sb_sw_point_mult_is_finished c'" "MULT_K c' = k"
    "fe_val (C_X1 c') = qrep (modulus (curve_p s)) (fst r)" "fe_val (C_Y1 c') = qrep (modulus (curve_p s)) (snd r)"
    by blast+
qed

subsection \<open>Exceptional scalars\<close>

lemma dvd_below_double: "(N :: int) dvd x \<Longrightarrow> 0 < x \<Longrightarrow> x < 2 * N \<Longrightarrow> x = N"
proof -
  assume "N dvd x" and x: "0 < x" "x < 2 * N"
  then obtain t where t: "x = N * t" by (auto elim!: dvdE)
  have "0 < N" using x by simp
  with x t have "0 < t" "t < 2" by (simp_all add: zero_less_mult_iff)
  then show ?thesis using t by simp
qed

lemma dvd_odd_below: "(N :: int) dvd x \<Longrightarrow> odd x \<Longrightarrow> 0 < x \<Longrightarrow> x < 4 * N \<Longrightarrow> x = N \<or> x = 3 * N"
proof -
  assume "N dvd x" "odd x" and x: "0 < x" "x < 4 * N"
  then obtain t where t: "x = N * t" "odd t" by (auto elim!: dvdE)
  have "0 < N" using x by simp
  with x t(1) have "0 < t" "t < 4" by (simp_all add: zero_less_mult_iff)
  with t(2) have "t = 1 \<or> t = 3" by (auto elim!: oddE)
  with t(1) show ?thesis by auto
qed

lemma regularI:
  assumes "0 < c" "c + 1 < 2 * N" "c \<noteq> N" "c + 1 \<noteq> N" "2 * c + 1 \<noteq> N" "2 * c + 1 \<noteq> 3 * N"
  shows "regular N c"
  using assms dvd_below_double [of N c] dvd_below_double [of N "c + 1"] dvd_odd_below [of N "2 * c + 1"]
  by (auto simp: regular_def)

lemma ladder_scalar_range:
  assumes "N < 2 ^ 256" "0 < k" "k < N" "ladder_scalar N k \<noteq> 1"
  shows "1 < ladder_scalar N k" "ladder_scalar N k < 2 ^ 255"
proof -
  have "bit k 255 \<longleftrightarrow> k div 2 ^ 255 = 1"
  proof -
    have "k div 2 ^ 255 = 0 \<or> k div 2 ^ 255 = 1" using assms(1-3) by auto
    then show ?thesis by (auto simp: bit_iff_odd)
  qed
  then have "bit k 255 \<longleftrightarrow> 2 ^ 255 \<le> k"
    using assms(1-3) by auto
  then show "1 < ladder_scalar N k" "ladder_scalar N k < 2 ^ 255"
    using assms by (auto simp: ladder_scalar_def split: if_splits)
qed

text \<open>
  The scalars at which the ladder on a group of the curve's order meets an exceptional
  addition are one and minus one only.
\<close>

lemma ladder_never_exceptional:
  assumes N: "2 ^ 255 + 1 < N" "N < 2 ^ 256" "odd N" and k: "0 < k" "k < N" "ladder_scalar N k \<noteq> 1"
  shows "non_exceptional N (regularized N (ladder_scalar N k))"
  unfolding non_exceptional_def
proof
  fix i :: nat
  define K where "K = regularized N (ladder_scalar N k)"
  note r = ladder_scalar_range [OF N(2) k]
  have K: "K = ladder_scalar N k + N \<and> 2 ^ 256 \<le> K \<or> K = ladder_scalar N k + 2 * N \<and> K < 2 ^ 256 + N"
    by (auto simp: K_def regularized_def)
  have Kr: "2 ^ 256 \<le> K" "K < 2 ^ 257" using K r N by auto
  assume i: "i \<in> {1..256}"
  have "regular N c" if c: "c = K div 2" for c
  proof (rule regularI)
    have "2 * c \<le> K" "K \<le> 2 * c + 1" unfolding c by presburger+
    note facts = this K r N(1,2) Kr
    show "0 < c" "c + 1 < 2 * N" "2 * c + 1 \<noteq> N" using facts by linarith+
    show "c \<noteq> N" "c + 1 \<noteq> N" "2 * c + 1 \<noteq> 3 * N" using facts by linarith+
  qed
  moreover have "regular N c" if c: "c = K div 4" for c
  proof (rule regularI)
    have "4 * c \<le> K" "K \<le> 4 * c + 3" unfolding c by presburger+
    note facts = this K r N(1,2) Kr
    show "0 < c" "c + 1 < 2 * N" "2 * c + 1 \<noteq> 3 * N" using facts by linarith+
    show "c \<noteq> N" "c + 1 \<noteq> N" "2 * c + 1 \<noteq> N" using facts by linarith+
  qed
  moreover have "regular N (K div 2 ^ i)" if "3 \<le> i"
  proof -
    have p: "(2 :: int) ^ 3 \<le> 2 ^ i" "(2 :: int) ^ i \<le> 2 ^ 256"
      using that i by (intro power_increasing; simp)+
    have "K div 2 ^ i \<le> K div 2 ^ 3" "K div 2 ^ 256 \<le> K div 2 ^ i"
      using p Kr by (intro zdiv_mono2; simp)+
    then have "K div 2 ^ i < 2 ^ 254" "0 < K div 2 ^ i" using Kr by auto
    then show ?thesis
      using N by (intro regularI) auto
  qed
  ultimately show "regular N (K div 2 ^ i)"
    using i by (cases "i = 1"; cases "i = 2") auto
qed

text \<open>In a group of the order of the curve every scalar is multiplied correctly.\<close>

lemma ladder_defined_order:
  assumes N: "2 ^ 255 + 1 < N" "N < 2 ^ 256" "odd N" and k: "0 < k" "k < N"
  shows "ladder_defined N N k"
  using ladder_never_exceptional [OF N k] by (auto simp: ladder_defined_def)

end
