(* ===== verification/Small_Groups.thy ===== *)
theory Small_Groups
  imports Scalar_Mult
begin

text \<open>
  What the concrete instances of the curve properties share: moduli for which Fermat's little
  theorem can be checked from small prime factors (Korselt's criterion), and groups of seven points
  given by a table, whose chord and tangent law is checked by evaluation.
\<close>

subsection \<open>Moduli with Fermat's property\<close>

definition trial_prime :: "int \<Rightarrow> int \<Rightarrow> bool" where
  "trial_prime b p \<longleftrightarrow> 1 < p \<and> p < b * b \<and> list_all (\<lambda>d. d = p \<or> \<not> d dvd p) [2..b - 1]"

lemma trial_prime: "0 < b \<Longrightarrow> trial_prime b p \<Longrightarrow> prime_modulus p"
proof (unfold prime_modulus_def, intro conjI allI impI)
  assume b: "0 < b" and t: "trial_prime b p"
  then have p: "1 < p" "p < b * b" and no: "\<And>d. 2 \<le> d \<Longrightarrow> d < b \<Longrightarrow> d dvd p \<Longrightarrow> d = p"
    by (auto simp: trial_prime_def list_all_iff)
  show "1 < p" by (fact p(1))
  fix d assume "0 < d \<and> d dvd p"
  then obtain e where d: "0 < d" "p = d * e" by (auto elim: dvdE)
  then have e: "0 < e" using p(1) zero_less_mult_pos [of d e] by simp
  have "d < b \<or> e < b"
    using p(2) d b e mult_mono [of b d b e] by (auto simp: not_less [symmetric])
  moreover have "d dvd p" "e dvd p" using d by simp_all
  ultimately consider "d = 1" | "e = 1" | "d = p" | "e = p"
    using no [of d] no [of e] d(1) e by linarith
  then show "d = 1 \<or> d = p"
  proof cases
    case 4
    with d(2) mult_1 [of p] have "1 * p = d * p" by metis
    with p(1) show ?thesis by (simp only: mult_cancel_right) simp
  qed (use d(2) in \<open>blast | metis mult.right_neutral\<close>)+
qed

text \<open>Every \<open>a\<close> prime to \<open>P\<close> passes Fermat's test when each factor \<open>p\<close> of \<open>P\<close> has \<open>p - 1\<close> dividing \<open>P - 1\<close>.\<close>

definition korselt :: "int \<Rightarrow> int \<Rightarrow> int list \<Rightarrow> bool" where
  "korselt b P ps \<longleftrightarrow> prod_list ps = P \<and> distinct ps \<and> list_all (\<lambda>p. trial_prime b p \<and> p - 1 dvd P - 1) ps"

lemma prime_modulus_distinct_coprime:
  assumes "prime_modulus p" "prime_modulus q" "p \<noteq> q"
  shows "coprime p q"
proof (rule prime_modulus_coprime [OF assms(2)])
  show "\<not> q dvd p"
    using assms prime_modulus_gt1 [OF assms(1)] prime_modulus_gt1 [OF assms(2)]
    unfolding prime_modulus_def by (metis less_irrefl less_trans zero_less_one)
qed

lemma coprime_prod_list: "\<forall>q \<in> set ps. coprime (p :: int) q \<Longrightarrow> coprime p (prod_list ps)"
  by (induction ps) simp_all

lemma prod_list_dvd:
  "\<lbrakk>distinct ps; \<forall>p \<in> set ps. prime_modulus p; \<forall>p \<in> set ps. p dvd x\<rbrakk> \<Longrightarrow> prod_list ps dvd x"
proof (induction ps)
  case (Cons p ps)
  then have "coprime p (prod_list ps)"
    by (intro coprime_prod_list ballI prime_modulus_distinct_coprime) auto
  with Cons show ?case by (simp add: divides_mult)
qed simp

lemma fermat_at_korselt:
  assumes P: "korselt b P ps" "0 < b" "1 < P" and a: "list_all (\<lambda>p. a mod p \<noteq> 0) ps"
  shows "fermat_at P a"
proof -
  have "p dvd a ^ nat (P - 1) - 1" if p: "p \<in> set ps" for p
  proof -
    have pr: "prime_modulus p" and "p - 1 dvd P - 1" and na: "\<not> p dvd a"
      using P(1) p a trial_prime [OF P(2)] by (auto simp: korselt_def list_all_iff dvd_eq_mod_eq_0)
    then obtain k where k: "P - 1 = (p - 1) * k" by (auto elim: dvdE)
    have "0 \<le> p - 1" "0 \<le> k"
      using prime_modulus_gt1 [OF pr] P(3) k by (simp_all, smt (verit) zero_less_mult_iff)
    then have "a ^ nat (P - 1) = (a ^ nat (p - 1)) ^ nat k"
      by (simp add: k nat_mult_distrib power_mult)
    also have "\<dots> mod p = (a ^ nat (p - 1) mod p) ^ nat k mod p"
      by (simp add: power_mod)
    also have "\<dots> = 1 mod p"
      by (simp only: fermat_little [OF pr na] power_one)
    finally show ?thesis by (simp add: mod_eq_dvd_iff)
  qed
  then have "P dvd a ^ nat (P - 1) - 1"
    using P(1) trial_prime [OF P(2)] prod_list_dvd [of ps "a ^ nat (P - 1) - 1"]
    by (auto simp: korselt_def list_all_iff)
  then have "a ^ nat (P - 1) mod P = 1 mod P"
    by (simp add: mod_eq_dvd_iff)
  with P(3) show ?thesis by (simp add: fermat_at_def)
qed

subsection \<open>Seven points\<close>

text \<open>
  A table of the multiples of a point of order seven. Its chords and tangents are checked modulo a
  multiple \<open>Q\<close> of the modulus with slopes from a list; for \<open>Q = 0\<close> they hold on the integers.
\<close>

definition seven_multiples :: "affine list \<Rightarrow> int \<Rightarrow> affine" where
  "seven_multiples t i = t ! nat (i mod 7)"

definition chord_check :: "int \<Rightarrow> affine \<Rightarrow> affine \<Rightarrow> affine \<Rightarrow> int \<Rightarrow> bool" where
  "chord_check Q p q r l \<longleftrightarrow> Q dvd l * (fst q - fst p) - (snd q - snd p) \<and>
     Q dvd fst r - (l * l - fst p - fst q) \<and> Q dvd snd r - (l * (fst p - fst r) - snd p)"

definition tangent_check :: "int \<Rightarrow> int \<Rightarrow> affine \<Rightarrow> affine \<Rightarrow> int \<Rightarrow> bool" where
  "tangent_check Q A p r l \<longleftrightarrow> Q dvd l * (2 * snd p) - (3 * (fst p * fst p) - A) \<and>
     Q dvd fst r - (l * l - fst p - fst p) \<and> Q dvd snd r - (l * (fst p - fst r) - snd p)"

lemma tangent_check: "P dvd Q \<Longrightarrow> list_ex (tangent_check Q A p r) ls \<Longrightarrow> tangent P A p r"
  by (auto simp: list_ex_iff tangent_check_def eqm_def slope_result_def intro!: tangentI elim: dvd_trans)

lemma chord_check: "P dvd Q \<Longrightarrow> list_ex (chord_check Q p q r) ls \<Longrightarrow> chord P p q r"
  by (auto simp: list_ex_iff chord_check_def eqm_def slope_result_def intro!: chordI elim: dvd_trans)

definition doubles_check :: "int \<Rightarrow> int \<Rightarrow> int list \<Rightarrow> affine list \<Rightarrow> bool" where
  "doubles_check Q A ls t \<longleftrightarrow>
     list_all (\<lambda>a. list_ex (tangent_check Q A (seven_multiples t a) (seven_multiples t (2 * a))) ls) [1..6]"

definition sums_check :: "int \<Rightarrow> int list \<Rightarrow> affine list \<Rightarrow> bool" where
  "sums_check Q ls t \<longleftrightarrow> list_all (\<lambda>a. list_all (\<lambda>b. a = b \<or> a + b = 7 \<or>
     list_ex (chord_check Q (seven_multiples t a) (seven_multiples t b) (seven_multiples t (a + b))) ls) [1..6]) [1..6]"

definition units_check :: "int \<Rightarrow> affine list \<Rightarrow> bool" where
  "units_check P t \<longleftrightarrow> list_all (\<lambda>a. fermat_at P (snd (seven_multiples t a)) \<and>
     list_all (\<lambda>b. a = b \<or> a + b = 7 \<or>
       fermat_at P (fst (seven_multiples t b) - fst (seven_multiples t a))) [1..6]) [1..6]"

definition opposites_check :: "affine list \<Rightarrow> bool" where
  "opposites_check t \<longleftrightarrow> list_all (\<lambda>a. seven_multiples t (- a) = opposite (seven_multiples t a)) [0..6]"

lemma seven_multiples_mod [simp]: "seven_multiples t (i mod 7) = seven_multiples t i"
  by (simp add: seven_multiples_def)

lemma seven_multiples_cong: "i mod 7 = j mod 7 \<Longrightarrow> seven_multiples t i = seven_multiples t j"
  by (simp add: seven_multiples_def)

lemma residues_7: "(i :: int) mod 7 \<in> {0, 1, 2, 3, 4, 5, 6}"
  by (simp, presburger)

lemma nonzero_residue: "\<not> 7 dvd i \<Longrightarrow> i mod 7 \<in> set [1..6]"
  using residues_7 [of i] by (simp add: dvd_eq_mod_eq_0) linarith

lemma distinct_residues:
  assumes "\<not> 7 dvd i - j" "\<not> (7 :: int) dvd i + j"
  shows "i mod 7 \<noteq> j mod 7" "i mod 7 + j mod 7 \<noteq> 7"
proof -
  show "i mod 7 \<noteq> j mod 7" using assms(1) by (simp add: mod_eq_dvd_iff)
  show "i mod 7 + j mod 7 \<noteq> 7"
  proof
    assume "i mod 7 + j mod 7 = 7"
    then have "(i + j) mod 7 = 7 mod 7" by (metis mod_add_eq)
    with assms(2) show False by (simp add: dvd_eq_mod_eq_0)
  qed
qed

lemma seven_multiples:
  assumes "P dvd Q" "doubles_check Q A ls t" "sums_check Q ls t" "units_check P t" "opposites_check t"
  shows "multiples P A 7 (seven_multiples t)"
  unfolding multiples_def
proof (intro conjI allI impI)
  fix i j :: int
  let ?M = "seven_multiples t"
  show "?M i = ?M j" if "7 dvd i - j"
    using that by (intro seven_multiples_cong) (simp add: mod_eq_dvd_iff)
  have "?M (- i) = ?M (- (i mod 7))"
    by (intro seven_multiples_cong) (simp add: mod_minus_eq)
  also have "\<dots> = opposite (?M (i mod 7))"
    using assms(5) residues_7 [of i]
    by (auto simp add: opposites_check_def list_all_iff upto_rec1 simp del: seven_multiples_mod)
  finally show "?M (- i) = opposite (?M i)" by simp
  have D: "i mod 7 \<in> set [1..6]" "?M (2 * (i mod 7)) = ?M (2 * i)" if "\<not> 7 dvd i"
    using nonzero_residue [OF that] by (simp_all only: seven_multiples_def mod_mult_right_eq)
  show "proper_chord P (?M i) (?M j) (?M (i + j))"
    if h: "\<not> 7 dvd i \<and> \<not> 7 dvd j \<and> \<not> 7 dvd i - j \<and> \<not> 7 dvd i + j"
  proof -
    have r: "i mod 7 \<in> set [1..6]" "j mod 7 \<in> set [1..6]"
      using h nonzero_residue [of i] nonzero_residue [of j] by blast+
    have n: "i mod 7 \<noteq> j mod 7" "i mod 7 + j mod 7 \<noteq> 7"
      using h distinct_residues [of i j] by blast+
    have "?M (i mod 7 + j mod 7) = ?M (i + j)"
      by (intro seven_multiples_cong) (simp add: mod_add_eq)
    moreover have "list_ex (chord_check Q (?M (i mod 7)) (?M (j mod 7)) (?M (i mod 7 + j mod 7))) ls"
      using bspec [OF bspec [OF assms(3) [unfolded sums_check_def list_all_iff] r(1)] r(2)] n by blast
    ultimately have "chord P (?M i) (?M j) (?M (i + j))"
      using chord_check [OF assms(1)] by simp
    moreover have "fermat_at P (fst (?M (j mod 7)) - fst (?M (i mod 7)))"
      using bspec [OF bspec [OF assms(4) [unfolded units_check_def list_all_iff] r(1), THEN conjunct2] r(2)] n by blast
    ultimately show ?thesis by (simp add: proper_chord_def)
  qed
  show "fermat_at P (snd (?M i))" if "\<not> 7 dvd i"
    using bspec [OF assms(4) [unfolded units_check_def list_all_iff] D(1) [OF that], THEN conjunct1] by simp
  show "tangent P A (?M i) (?M (2 * i))" if "\<not> 7 dvd i"
    using tangent_check [OF assms(1) bspec [OF assms(2) [unfolded doubles_check_def list_all_iff] D(1) [OF that]]]
    by (simp only: seven_multiples_mod D(2) [OF that])
qed simp_all

subsection \<open>Regular prefixes modulo seven\<close>

lemma power_2_mod_7: "(2 :: int) ^ n mod 7 \<in> {1, 2, 4}"
proof (induction n)
  case (Suc n)
  have "(2 :: int) ^ Suc n mod 7 = (2 * (2 ^ n mod 7)) mod 7"
    by (simp add: mod_mult_right_eq)
  with Suc show ?case by auto
qed simp

lemma regular_mod_7: "regular 7 (c mod 7) = regular 7 c"
proof -
  have "(c mod 7 + 1) mod 7 = (c + 1) mod 7"
    by (rule mod_add_left_eq)
  moreover have "(2 * (c mod 7) + 1) mod 7 = (2 * c + 1) mod 7"
    by (metis mod_add_left_eq mod_mult_right_eq)
  ultimately show ?thesis
    by (simp only: regular_def dvd_eq_mod_eq_0 mod_mod_trivial)
qed

lemma regular_power_2: "regular 7 (2 ^ n)"
  using power_2_mod_7 [of n] unfolding regular_mod_7 [of "2 ^ n", symmetric]
  by (elim insertE) (simp_all add: regular_def)

end
