(* ===== verification/Scalar_Claims.thy ===== *)
theory Scalar_Claims
  imports Small_Groups Field_Claims
begin

text \<open>
  The properties of the incremental point multiplication as a whole. Their concrete instance is a
  curve of seven points over the field with seven elements.
\<close>

text \<open>
  C4: point multiplication is total and correct: started on a point with any scalar between one and
  the order minus one, and after seventeen calls of \<open>sb_sw_point_mult_continue\<close>, it is finished and the
  registers hold the affine coordinates of the multiple of the point by the scalar, fully determined as
  quasi-reduced elements whatever the initial coordinate \<open>Z\<close>. The scalars one and minus one, at which the
  ladder yields zeros and the input point is added, and the point \<open>(0, y)\<close>, whose double is multiplied by
  half the scalar, are included. The multiples of the point follow the chord and tangent law with an order \<open>m\<close> that divides the
  curve's order; if a prefix of the regularised scalar is exceptional for \<open>m\<close>, which the next property
  excludes for the order itself, both coordinates are zero. The scalar is left as \<open>point_mult_zero_point\<close> has it: restored,
  or halved for \<open>(0, y)\<close>.
\<close>

theorem scalar_multiplication:
  fixes c :: sb_sw_context and s :: sb_sw_curve
  assumes "mult_curve_ok s" "mult_data s m M c \<or> zero_data s m M c" "st_swap (MULT_STATE c) = 0"
    and "m dvd modulus (curve_n s)" "modulus (curve_n s) + 1 < 2 ^ 256"
  shows "let c' = mult_calls s 17 (sb_sw_point_mult_start c s); k = MULT_K (point_mult_zero_point c s);
      r = (if ladder_defined (modulus (curve_n s)) m (fe_val k) then M (fe_val (MULT_K c)) else (0, 0)) in
    sb_sw_point_mult_is_finished c' \<and> MULT_K c' = k \<and>
    fe_val (C_X1 c') = qrep (modulus (curve_p s)) (fst r) \<and> fe_val (C_Y1 c') = qrep (modulus (curve_p s)) (snd r)"
  unfolding Let_def using sb_sw_point_mult_val [OF assms] by (intro conjI)

subsection \<open>A curve with seven points\<close>

text \<open>\<open>y\<^sup>2 = x\<^sup>3 + 5\<close> modulo seven; the order field is any multiple of seven of 256 bits.\<close>

definition seven_curve :: sb_sw_curve where
  "seven_curve = SB_CURVE_SECP256K1\<lparr>curve_p := tiny_field,
     curve_n := SB_CURVE_SECP256K1_N\<lparr>prime_p := FE 0xfffffffffffffff7 0xffffffffffffffff 0xffffffffffffffff 0xffffffffffffffff\<rparr>,
     minus_a := sb_fe_const 0 0 0 7, minus_a_r_over_three := sb_fe_const 0 0 0 7\<rparr>"

definition seven_table :: "affine list" where
  "seven_table = [(0, 0), (3, 2), (5, 2), (6, - 2), (6, 2), (5, - 2), (3, - 2)]"

abbreviation seven_points :: "int \<Rightarrow> affine" where
  "seven_points \<equiv> seven_multiples seven_table"

lemma seven_curve_val:
  "curve_p seven_curve = tiny_field" "modulus (curve_n seven_curve) = 2 ^ 256 - 9"
  "fe_val (minus_a seven_curve) = 7" "fe_val (minus_a_r_over_three seven_curve) = 7"
  by (simp_all add: seven_curve_def sb_fe_const_def fe_val_FE)

lemma seven_curve_ok: "mult_curve_ok seven_curve"
  using tiny_field_ok
  by (simp add: mult_curve_ok_def seven_curve_val tiny_field_val quasi_reduced_def mval_def eqm_def
      fermat_at_prime_iff [OF prime_modulus_7])

lemma seven_table_checks:
  "doubles_check 7 7 [0..6] seven_table" "sums_check 7 [0..6] seven_table" "opposites_check seven_table"
  by code_simp+

lemma seven_table_units: "units_check 7 seven_table"
  unfolding units_check_def fermat_at_prime_iff [OF prime_modulus_7] by code_simp

lemma seven_points_multiples: "multiples 7 7 7 seven_points"
  by (rule seven_multiples [OF dvd_refl seven_table_checks(1,2) seven_table_units seven_table_checks(3)])

text \<open>
  The regularised scalar of nine is \<open>2 ^ 256\<close>: all lower bits are clear and the prefixes are powers of
  two, which are one, two or four modulo seven.
\<close>

lemma non_exceptional_9: "non_exceptional 7 (2 ^ 256)"
  unfolding non_exceptional_def
proof
  fix i :: nat
  assume "i \<in> {1..256}"
  then have "(2 :: int) ^ 256 div 2 ^ i = 2 ^ (256 - i)"
    by (simp add: power_diff)
  then show "regular 7 (2 ^ 256 div 2 ^ i)"
    by (simp only: regular_power_2)
qed

definition seven_context :: "sb_fe \<Rightarrow> sb_sw_context" where
  "seven_context k = set_MULT_STATE (context_zero\<lparr>MULT_K := k, MULT_Z := sb_fe_const 0 0 0 3,
     MULT_POINT_X := sb_fe_const 0 0 0 6, MULT_POINT_Y := sb_fe_const 0 0 0 4\<rparr>) saved_state_zero"

lemma seven_context_val:
  "MULT_K (seven_context k) = k" "st_swap (MULT_STATE (seven_context k)) = 0"
  "MULT_POINT_X (seven_context k) \<noteq> prime_p (curve_p seven_curve)"
  "MULT_POINT_X (seven_context k) = sb_fe_const 0 0 0 6" "MULT_POINT_Y (seven_context k) = sb_fe_const 0 0 0 4"
  "MULT_Z (seven_context k) = sb_fe_const 0 0 0 3"
  by (simp_all add: seven_context_def saved_state_zero_def seven_curve_val tiny_field_def sb_fe_const_def)

lemma rinv_7: "rinv 7 mod 7 = 4"
  by (simp add: rinv_def)

lemma seven_data:
  assumes "0 < fe_val k" "fe_val k < 2 ^ 256 - 9"
  shows "mult_data seven_curve 7 seven_points (seven_context k)"
proof -
  have r: "mval tiny_field (sb_fe_const 0 0 0 6) = 3" "mval tiny_field (sb_fe_const 0 0 0 4) = 2"
    "mval tiny_field (sb_fe_const 0 0 0 3) = 5"
    using rinv_7 by (simp_all add: mval_def tiny_field_val sb_fe_const_def fe_val_FE mod_mult_right_eq [of _ "rinv 7", symmetric])
  then show ?thesis
    using seven_points_multiples assms
    by (simp add: mult_data_def seven_curve_val tiny_field_val seven_context_val point_qr_def quasi_reduced_def
        fermat_at_prime_iff [OF prime_modulus_7] seven_multiples_def seven_table_def sb_fe_const_def fe_val_FE)
qed

text \<open>
  The scalar nine has only regular prefixes. That of two has the prefix \<open>2 ^ 252 - 1\<close>, which is a multiple of
  seven, so that the output is zero, that is the quasi-reduced element seven.
\<close>

lemma seven_ladders:
  "ladder_defined (2 ^ 256 - 9) 7 9" "ladder_defined (2 ^ 256 - 9) 7 1" "\<not> ladder_defined (2 ^ 256 - 9) 7 2"
proof -
  have r: "regularized (2 ^ 256 - 9) 9 = 2 ^ 256" "regularized (2 ^ 256 - 9) 2 = 2 ^ 257 - 16"
    by (simp_all add: regularized_def)
  have l: "ladder_scalar (2 ^ 256 - 9) 9 = 9" "ladder_scalar (2 ^ 256 - 9) 1 = 1" "ladder_scalar (2 ^ 256 - 9) 2 = 2"
    by (simp_all add: ladder_scalar_def bit_iff_odd)
  show "ladder_defined (2 ^ 256 - 9) 7 9" "ladder_defined (2 ^ 256 - 9) 7 1"
    unfolding ladder_defined_def l r using non_exceptional_9 by simp_all
  have "\<not> regular 7 ((2 ^ 257 - 16) div 2 ^ 5)"
    by (simp add: regular_def)
  then have "\<not> non_exceptional 7 (2 ^ 257 - 16)"
    unfolding non_exceptional_def by (meson atLeastAtMost_iff numeral_le_iff one_le_numeral semiring_norm)
  then show "\<not> ladder_defined (2 ^ 256 - 9) 7 2"
    unfolding ladder_defined_def l r by simp
qed

subsection \<open>A curve with seven points, one of them on the axis\<close>

text \<open>
  \<open>y\<^sup>2 = x\<^sup>3 + 2 x + 1\<close> modulo five, where \<open>2 ^ 256\<close> is one: the even root of one is four, and the double
  of \<open>(0, 4)\<close> is \<open>(1, 2)\<close>.
\<close>

definition five_field :: sb_prime_field where
  "five_field =
    \<lparr>prime_p = sb_fe_const 0 0 0 5, p_mp = 0x3333333333333333,
     p_minus_two_f1 = sb_fe_const 0 0 0 3, p_minus_two_f2 = sb_fe_const 0 0 0 1,
     r2_mod_p = sb_fe_const 0 0 0 1, r_mod_p = sb_fe_const 0 0 0 1, bits = 4\<rparr>"

lemma five_field_val:
  "modulus five_field = 5" "fe_val (p_minus_two_f1 five_field) = 3" "fe_val (p_minus_two_f2 five_field) = 1"
  "fe_val (r_mod_p five_field) = 1" "fe_val (r2_mod_p five_field) = 1" "bits five_field = 4"
  "uint (p_mp five_field) = 0x3333333333333333"
  by (simp_all add: five_field_def sb_fe_const_def fe_val_FE)

lemma five_field_ok: "prime_field_ok five_field"
  unfolding prime_field_ok_def mont_ok_def five_field_val by simp

lemma prime_modulus_5: "prime_modulus 5"
  by (rule trial_prime [of 5]) code_simp+

definition five_curve :: sb_sw_curve where
  "five_curve = seven_curve\<lparr>curve_p := five_field, minus_a := sb_fe_const 0 0 0 3,
     minus_a_r_over_three := sb_fe_const 0 0 0 1,
     dz_r := \<lparr>pair_x = sb_fe_const 0 0 0 1, pair_y = sb_fe_const 0 0 0 2\<rparr>\<rparr>"

lemma five_curve_val:
  "curve_p five_curve = five_field" "curve_n five_curve = curve_n seven_curve" "fe_val (minus_a five_curve) = 3"
  "fe_val (minus_a_r_over_three five_curve) = 1"
  "pair_x (dz_r five_curve) = sb_fe_const 0 0 0 1" "pair_y (dz_r five_curve) = sb_fe_const 0 0 0 2"
  by (simp_all add: five_curve_def sb_fe_const_def fe_val_FE)

lemma rinv_5: "rinv 5 mod 5 = 1"
  by (simp add: rinv_def)

lemma five_mval: "mval five_field x = fe_val x mod 5"
  using rinv_5 by (simp add: mval_def five_field_val) (metis mod_mult_right_eq mult.right_neutral)

lemma five_curve_ok: "mult_curve_ok five_curve"
  using five_field_ok
  by (simp add: mult_curve_ok_def five_curve_val seven_curve_val five_field_val quasi_reduced_def five_mval eqm_def
      fermat_at_prime_iff [OF prime_modulus_5])

definition five_table :: "affine list" where
  "five_table = [(0, 0), (0, 1), (1, 3), (3, - 2), (3, 2), (1, - 3), (0, - 1)]"

abbreviation five_points :: "int \<Rightarrow> affine" where
  "five_points \<equiv> seven_multiples five_table"

lemma five_table_checks:
  "doubles_check 5 3 [0..4] five_table" "sums_check 5 [0..4] five_table" "opposites_check five_table"
  by code_simp+

lemma five_table_units: "units_check 5 five_table"
  unfolding units_check_def fermat_at_prime_iff [OF prime_modulus_5] by code_simp

definition five_context :: "sb_fe \<Rightarrow> sb_sw_context" where
  "five_context k = set_MULT_STATE (context_zero\<lparr>MULT_K := k, MULT_Z := sb_fe_const 0 0 0 3,
     MULT_POINT_X := sb_fe_const 0 0 0 5, MULT_POINT_Y := sb_fe_const 0 0 0 1\<rparr>) saved_state_zero"

lemma five_context_val:
  "MULT_K (five_context k) = k" "st_swap (MULT_STATE (five_context k)) = 0"
  "MULT_POINT_X (five_context k) = prime_p (curve_p five_curve)"
  "MULT_POINT_X (five_context k) = sb_fe_const 0 0 0 5" "MULT_POINT_Y (five_context k) = sb_fe_const 0 0 0 1"
  "MULT_Z (five_context k) = sb_fe_const 0 0 0 3"
  by (simp_all add: five_context_def saved_state_zero_def five_curve_val five_field_def)

lemma five_zero_double: "mval five_field (zero_double five_curve (sb_fe_const 0 0 0 1)) = 3"
proof -
  have "fe_val (sb_fe_mont_reduce (sb_fe_const 0 0 0 1) five_field) = 1"
    using sb_fe_mont_reduce_val(1) [OF five_field_ok, of "sb_fe_const 0 0 0 1"]
    by (simp add: five_mval quasi_reduced_def five_field_val qrep_def sb_fe_const_def fe_val_FE)
  moreover have "fe_val (sb_fe_mod_negate (sb_fe_const 0 0 0 2) five_field) = 3"
    using sb_fe_mod_negate_val [of five_field "sb_fe_const 0 0 0 2"]
    by (simp add: quasi_reduced_def five_field_val qrep_def sb_fe_const_def fe_val_FE)
  ultimately show ?thesis
    by (simp add: zero_double_def five_curve_val five_mval bit_iff_odd)
qed

lemma five_data: "zero_data five_curve 7 five_points (five_context (sb_fe_const 0 0 0 18))"
proof -
  have "multiples 5 3 7 five_points"
    by (rule seven_multiples [OF dvd_refl five_table_checks(1,2) five_table_units five_table_checks(3)])
  then show ?thesis
    using five_zero_double
    by (simp add: zero_data_def five_curve_val five_field_val seven_curve_val five_context_val point_qr_def quasi_reduced_def
        pair_qr_def five_mval fermat_at_prime_iff [OF prime_modulus_5] seven_multiples_def five_table_def sb_fe_const_def fe_val_FE)
qed

lemma five_half: "fe_val (fst (sb_fe_mod_halve (sb_fe_const 0 0 0 18) (curve_n five_curve))) = 9"
  using sb_fe_mod_halve_val [of "curve_n five_curve" "sb_fe_const 0 0 0 18"]
  by (simp add: five_curve_val seven_curve_val quasi_reduced_def sb_fe_const_def fe_val_FE)

text \<open>
  Nine, one, the exceptional scalar two, and eighteen times \<open>(0, 1)\<close>, which is the fourth multiple \<open>(3, 2)\<close>.
\<close>

definition seven_result :: "sb_sw_curve \<Rightarrow> sb_sw_context \<Rightarrow> int \<times> int" where
  "seven_result s c = (let c' = mult_calls s 17 (sb_sw_point_mult_start c s) in (fe_val (C_X1 c'), fe_val (C_Y1 c')))"

theorem scalar_multiplication_witness:
  "seven_result seven_curve (seven_context (sb_fe_const 0 0 0 9)) = (5, 2) \<and>
   seven_result seven_curve (seven_context (sb_fe_const 0 0 0 1)) = (3, 2) \<and>
   seven_result seven_curve (seven_context (sb_fe_const 0 0 0 2)) = (7, 7) \<and>
   seven_result five_curve (five_context (sb_fe_const 0 0 0 18)) = (3, 2)"
proof -
  let ?r = "\<lambda>k. if ladder_defined (2 ^ 256 - 9) 7 k then seven_points k else (0, 0)"
  have seven: "seven_result seven_curve (seven_context k) = (qrep 7 (fst (?r (fe_val k))), qrep 7 (snd (?r (fe_val k))))"
    if "0 < fe_val k" "fe_val k < 2 ^ 256 - 9" for k
    using scalar_multiplication [OF seven_curve_ok disjI1 [OF seven_data [OF that]] seven_context_val(2)]
      point_mult_zero_point_other(1) [OF seven_context_val(3)]
    by (simp add: seven_result_def Let_def seven_context_val(1) seven_curve_val(1,2) tiny_field_val(1))
  have v: "fe_val (sb_fe_const 0 0 0 9) = 9" "fe_val (sb_fe_const 0 0 0 1) = 1" "fe_val (sb_fe_const 0 0 0 2) = 2"
    "fe_val (sb_fe_const 0 0 0 18) = 18"
    by (simp_all add: sb_fe_const_def fe_val_FE)
  have p: "seven_points 9 = (5, 2)" "seven_points 1 = (3, 2)" "five_points 18 = (3, 2)"
    by (simp_all add: seven_multiples_def seven_table_def five_table_def)
  have "seven_result five_curve (five_context (sb_fe_const 0 0 0 18)) = (3, 2)"
    using scalar_multiplication [OF five_curve_ok disjI2 [OF five_data] five_context_val(2)]
      point_mult_zero_point_zero(1) [OF five_context_val(3)] five_half seven_ladders(1) p(3)
    by (simp add: seven_result_def Let_def five_context_val(1) five_curve_val(1,2) seven_curve_val(2) five_field_val(1)
        v qrep_def)
  then show ?thesis
    using seven [of "sb_fe_const 0 0 0 9"] seven [of "sb_fe_const 0 0 0 1"] seven [of "sb_fe_const 0 0 0 2"]
      seven_ladders p by (simp add: v qrep_def)
qed

text \<open>
  C5: the only exceptional scalars are one and minus one: for every other reduced scalar the 257-bit
  scalar that \<open>sb_sw_point_mult_start\<close> leaves for the ladder, with its implicit top bit, passes
  through no prefix at which an addition of the ladder on a group of the curve's order would meet the point at
  infinity or a doubling. The abscissa of the point is not zero: for \<open>(0, y)\<close> the start function takes the double of the
  point and half the scalar instead.
\<close>

theorem ladder_complete:
  fixes c :: sb_sw_context and s :: sb_sw_curve
  assumes "mont_ok (curve_n s)" "2 ^ 255 + 1 < modulus (curve_n s)" "MULT_POINT_X c \<noteq> prime_p (curve_p s)"
    and "0 < fe_val (MULT_K c)" "fe_val (MULT_K c) < modulus (curve_n s)"
    and "fe_val (MULT_K c) \<notin> {1, modulus (curve_n s) - 1}"
  shows "non_exceptional (modulus (curve_n s)) (2 ^ 256 + fe_val (MULT_K (sb_sw_point_mult_start c s)))"
proof -
  have "ladder_scalar (modulus (curve_n s)) (fe_val (MULT_K c)) \<noteq> 1"
    using assms(6) by (auto simp: ladder_scalar_def)
  moreover have "2 ^ 255 < modulus (curve_n s)" "odd (modulus (curve_n s))"
    using assms(1,2) by (simp_all add: mont_ok_def)
  ultimately show ?thesis
    unfolding sb_sw_point_mult_start_scalar [of c s, unfolded point_mult_zero_point_other(1) [OF assms(3)],
        OF assms(4,5) \<open>2 ^ 255 < modulus (curve_n s)\<close>]
    using fe_val_bound [of "prime_p (curve_n s)"] by (intro ladder_never_exceptional assms) simp_all
qed

theorem ladder_complete_witness:
  "non_exceptional (modulus (curve_n SB_CURVE_P256)) (2 ^ 256 + fe_val (MULT_K
     (sb_sw_point_mult_start (context_zero\<lparr>MULT_K := sb_fe_const 0 0 0 2\<rparr>) SB_CURVE_P256)))"
proof -
  have "MULT_POINT_X context_zero \<noteq> prime_p (curve_p SB_CURVE_P256)"
    using curve_okD(5) [OF SB_CURVE_P256_ok] by (auto simp: context_zero_def simp flip: fe_val_inject)
  then show ?thesis
    by (intro ladder_complete curve_okD(4) [OF SB_CURVE_P256_ok])
      (simp_all add: SB_CURVE_P256_coeffs SB_CURVE_P256_N_val sb_fe_const_def fe_val_FE)
qed

end
