(* ===== verification/Verify_Mult.thy ===== *)
theory Verify_Mult
  imports Mult_Add Scalar_Mult Sign_Verify
begin

text \<open>
  Multiplication-addition as a whole, on the multiples of one point: the table set-up, the loop
  from the first bit to the last, and the case that the loop meets an exceptional addition, after which the
  coordinate \<open>Z\<close> is zero for good and the final comparison of verification fails.
\<close>

subsection \<open>Points up to congruence\<close>

definition same_point :: "int \<Rightarrow> affine \<Rightarrow> affine \<Rightarrow> bool" where
  "same_point P a b \<longleftrightarrow> eqm P (fst a) (fst b) \<and> eqm P (snd a) (snd b)"

lemma same_pointD: "same_point P a b \<Longrightarrow> eqm P (fst a) (fst b)" "same_point P a b \<Longrightarrow> eqm P (snd a) (snd b)"
  by (simp_all add: same_point_def)

lemma same_point_refl [simp]: "same_point P a a"
  by (simp add: same_point_def)

lemma same_point_sym: "same_point P a b \<Longrightarrow> same_point P b a"
  by (simp add: same_point_def eqm_sym)

lemma same_point_trans [trans]: "same_point P a b \<Longrightarrow> same_point P b c \<Longrightarrow> same_point P a c"
  by (meson eqm_trans same_point_def)

lemma jacobian_same: "same_point P a b \<Longrightarrow> jacobian P z a XY \<Longrightarrow> jacobian P z b XY"
  unfolding jacobian_def same_point_def by (meson eqm_mult eqm_refl eqm_trans)

lemma slope_result_cong:
  assumes "same_point P a a'" "same_point P b b'" "same_point P r r'" "slope_result P l a b r"
  shows "slope_result P l a' b' r'"
proof -
  note A = same_pointD [OF assms(1)] and B = same_pointD [OF assms(2)] and R = same_pointD [OF assms(3)]
  have "eqm P (l * l - fst a - fst b) (l * l - fst a' - fst b')"
    "eqm P (l * (fst a - fst r) - snd a) (l * (fst a' - fst r') - snd a')"
    by (intro eqm_cong A B R)+
  with assms(4) R show ?thesis
    unfolding slope_result_def by (meson eqm_sym eqm_trans)
qed

lemma chord_cong:
  assumes "same_point P a a'" "same_point P b b'" "same_point P r r'" "chord P a b r"
  shows "chord P a' b' r'"
proof -
  note A = same_pointD [OF assms(1)] and B = same_pointD [OF assms(2)]
  obtain l where l: "eqm P (l * (fst b - fst a)) (snd b - snd a)" "slope_result P l a b r"
    using assms(4) by (auto simp: chord_def)
  have "eqm P (l * (fst b - fst a)) (l * (fst b' - fst a'))" "eqm P (snd b - snd a) (snd b' - snd a')"
    by (intro eqm_cong A B)+
  with l(1) have "eqm P (l * (fst b' - fst a')) (snd b' - snd a')"
    by (meson eqm_sym eqm_trans)
  then show ?thesis
    using slope_result_cong [OF assms(1-3) l(2)] by (rule chordI)
qed

lemma tangent_cong:
  assumes "same_point P a a'" "tangent P A a r"
  shows "tangent P A a' r"
proof -
  note a = same_pointD [OF assms(1)]
  obtain l where l: "eqm P (l * (2 * snd a)) (3 * (fst a * fst a) - A)" "slope_result P l a a r"
    using assms(2) by (auto simp: tangent_def)
  have "eqm P (l * (2 * snd a)) (l * (2 * snd a'))" "eqm P (3 * (fst a * fst a) - A) (3 * (fst a' * fst a') - A)"
    by (intro eqm_cong a)+
  with l(1) have "eqm P (l * (2 * snd a')) (3 * (fst a' * fst a') - A)"
    by (meson eqm_sym eqm_trans)
  then show ?thesis
    using slope_result_cong [OF assms(1,1) same_point_refl l(2)] by (rule tangentI)
qed

subsection \<open>The update of multiplication-addition\<close>

text \<open>The update on any registers, with the coordinate \<open>MULT_Z\<close>.\<close>

lemma mult_add_z_update_regs:
  fixes c :: sb_sw_context and s :: sb_sw_curve
  assumes ok: "mont_ok (curve_p s)" and q: "coords_qr s c" "quasi_reduced (curve_p s) (MULT_Z c)"
    and P: "P = modulus (curve_p s)"
  defines "c' \<equiv> sb_sw_point_mult_add_z_update c s"
  shows "z_update P (reg1 s c) (reg2 s c) (reg1 s c') (reg2 s c')"
    and "eqm P (mval (curve_p s) (MULT_Z c')) (mval (curve_p s) (MULT_Z c) * (fst (reg2 s c) - fst (reg1 s c)))"
proof -
  let ?t = "sb_fe_mod_sub (C_X2 c) (C_X1 c) (curve_p s)"
  let ?z = "sb_fe_mont_mult ?t (MULT_Z c) (curve_p s)"
  let ?d = "c\<lparr>C_T6 := ?t, C_T5 := ?z, MULT_Z := ?z\<rparr>"
  have c': "c' = sb_sw_point_co_z_add_update_zup ?d s"
    by (simp add: c'_def sb_sw_point_mult_add_z_update_def Let_def)
  have qd: "coords_qr s ?d" "quasi_reduced (curve_p s) (C_T6 ?d)"
    using q by (simp_all add: coords_qrD [OF q(1)] qr_intros)
  have e: "eqm P (mval (curve_p s) ?t) (fst (reg2 s c) - fst (reg1 s c))"
    using z_factor_eqm [OF q(1)] by (simp add: z_factor_def P)
  then show "z_update P (reg1 s c) (reg2 s c) (reg1 s c') (reg2 s c')"
    using zup_pairs(1) [OF ok qd P] by (simp add: c')
  have "eqm P (mval (curve_p s) (MULT_Z c')) (mval (curve_p s) (MULT_Z c) * z_factor s c)"
    using qd q by (simp add: eqm_mod c' P z_factor_def mval_mont_mult ok) (simp add: ac_simps)
  also have "eqm P \<dots> (mval (curve_p s) (MULT_Z c) * (fst (reg2 s c) - fst (reg1 s c)))"
    using e by (intro eqm_mult eqm_refl) (simp add: z_factor_def)
  finally show "eqm P (mval (curve_p s) (MULT_Z c')) (mval (curve_p s) (MULT_Z c) * (fst (reg2 s c) - fst (reg1 s c)))" .
qed

subsection \<open>One update on multiples\<close>

text \<open>
  After an exceptional addition the coordinate is zero and the first registers hold zeros or a
  point of the cuspidal cubic with an invertible abscissa.
\<close>

definition dead :: "sb_sw_curve \<Rightarrow> sb_sw_context \<Rightarrow> bool" where
  "dead s q \<longleftrightarrow> coords_qr s q \<and> quasi_reduced (curve_p s) (MULT_Z q) \<and>
     eqm (modulus (curve_p s)) (mval (curve_p s) (MULT_Z q)) 0 \<and>
     (zero_point (modulus (curve_p s)) (reg1 s q) \<or>
      cuspidal (modulus (curve_p s)) (reg1 s q) \<and> fermat_at (modulus (curve_p s)) (fst (reg1 s q)))"

text \<open>The two points of an update: multiples under the invertible coordinate \<open>MULT_Z\<close>.\<close>

definition holds_multiples :: "sb_sw_curve \<Rightarrow> (int \<Rightarrow> affine) \<Rightarrow> sb_sw_context \<Rightarrow> int \<Rightarrow> int \<Rightarrow> bool" where
  "holds_multiples s M q a b \<longleftrightarrow> coords_qr s q \<and> quasi_reduced (curve_p s) (MULT_Z q) \<and>
     fermat_at (modulus (curve_p s)) (mval (curve_p s) (MULT_Z q)) \<and>
     jacobian (modulus (curve_p s)) (mval (curve_p s) (MULT_Z q)) (M a) (reg1 s q) \<and>
     jacobian (modulus (curve_p s)) (mval (curve_p s) (MULT_Z q)) (M b) (reg2 s q)"

lemma mult_add_z_update_multiples:
  fixes q :: sb_sw_context
  assumes ok: "mont_ok (curve_p s)" and M: "multiples (modulus (curve_p s)) A m M"
    and h: "holds_multiples s M q a b" and ab: "\<not> m dvd a" "\<not> m dvd b" "\<not> m dvd a - b" "\<not> m dvd a + b"
  shows "holds_multiples s M (sb_sw_point_mult_add_z_update q s) (a + b) a"
proof -
  note H = h [unfolded holds_multiples_def]
  have ch: "proper_chord (modulus (curve_p s)) (M a) (M b) (M (a + b))"
    using multiplesD(5) [OF M ab] by simp
  note u = mult_add_z_update_chord [OF ok, of q "M a" "M b" "M (a + b)"]
  have "fermat_at (modulus (curve_p s)) (mval (curve_p s) (MULT_Z q) * z_factor s q)"
    using H ch by (intro z_factor_unit(2) [OF refl, of s q _ "M a" "M b"]) (auto simp: proper_chord_def)
  with u H ch show ?thesis
    by (simp add: holds_multiples_def proper_chord_def fermat_at_cong)
qed

lemma mult_add_z_update_exceptional:
  fixes q :: sb_sw_context
  assumes ok: "mont_ok (curve_p s)" and M: "multiples (modulus (curve_p s)) A m M"
    and two: "fermat_at (modulus (curve_p s)) 2"
    and h: "holds_multiples s M q a b" and a: "\<not> m dvd a" and ab: "m dvd a - b \<or> m dvd a + b"
  defines "q' \<equiv> sb_sw_point_mult_add_z_update q s"
  shows "dead s q'" "zero_point (modulus (curve_p s)) (reg2 s q')"
proof -
  let ?P = "modulus (curve_p s)" and ?v = "mval (curve_p s)"
  define z where "z = ?v (MULT_Z q)"
  have H: "coords_qr s q" "quasi_reduced (curve_p s) (MULT_Z q)" "fermat_at ?P z"
    "jacobian ?P z (M a) (reg1 s q)" "jacobian ?P z (M b) (reg2 s q)"
    using h by (simp_all add: holds_multiples_def z_def)
  note D = multiplesD [OF M] and J1 = jacobianD [OF H(4)] and J2 = jacobianD [OF H(5)]
  have Mb: "M b = M a \<or> M b = opposite (M a)"
    using ab D(3) [of a b] D(3) [of b "- a"] D(4) [of a] by (auto simp: add.commute)
  then have "fst (M b) = fst (M a)" by (auto simp: opposite_def)
  with J2(1) have d: "eqm ?P (fst (reg2 s q) - fst (reg1 s q)) 0"
    using eqm_diff [OF _ J1(1)] by fastforce
  note pair = mult_add_z_update_regs(1) [OF ok H(1,2) refl, folded q'_def]
  show r2: "zero_point ?P (reg2 s q')"
    by (rule z_update_equal(1) [OF pair d])
  have "eqm ?P (?v (MULT_Z q')) (z * 0)"
    using eqm_trans [OF mult_add_z_update_regs(2) [OF ok H(1,2) refl] eqm_mult [OF eqm_refl d]]
    by (simp add: q'_def z_def)
  then have base: "coords_qr s q'" "quasi_reduced (curve_p s) (MULT_Z q')" "eqm ?P (?v (MULT_Z q')) 0"
    using mult_add_z_update_qr [OF ok H(1,2)] by (simp_all add: q'_def)
  from Mb show "dead s q'"
  proof
    assume "M b = M a"
    with J2(2) have "eqm ?P (snd (reg2 s q) - snd (reg1 s q)) 0"
      using eqm_diff [OF _ J1(2)] by fastforce
    from z_update_same(1) [OF pair d this] base show ?thesis by (simp add: dead_def)
  next
    assume o: "M b = opposite (M a)"
    let ?y = "snd (M a) * (z * (z * z))"
    have t: "eqm ?P (snd (reg2 s q) - snd (reg1 s q)) (- (2 * ?y))"
      using eqm_diff [OF J2(2) J1(2)] by (simp add: o opposite_def ac_simps)
    have "eqm ?P (fst (reg1 s q')) (- (2 * ?y) * - (2 * ?y))"
      by (rule eqm_trans [OF z_update_equal(2) [OF pair d] eqm_mult [OF t t]])
    then have "eqm ?P (fst (reg1 s q')) (2 * ?y * (2 * ?y))" by simp
    moreover have "fermat_at ?P (2 * ?y * (2 * ?y))"
      using two H(3) D(6) [OF a] by (intro fermat_at_mult)
    ultimately have "fermat_at ?P (fst (reg1 s q'))"
      by (simp add: fermat_at_cong)
    with z_update_opposite [OF pair d] base show ?thesis by (simp add: dead_def)
  qed
qed

text \<open>Updates after that.\<close>

lemma mult_add_z_update_dead:
  fixes q :: sb_sw_context
  assumes ok: "mont_ok (curve_p s)" and P: "P = modulus (curve_p s)"
    and q: "coords_qr s q" "quasi_reduced (curve_p s) (MULT_Z q)" "eqm P (mval (curve_p s) (MULT_Z q)) 0"
    and r: "cuspidal P (reg1 s q) \<and> zero_point P (reg2 s q) \<or> zero_point P (reg1 s q) \<and> cuspidal P (reg2 s q)"
  defines "q' \<equiv> sb_sw_point_mult_add_z_update q s"
  shows "dead s q'" "zero_point P (reg1 s q')"
    and "cuspidal P (reg1 s q) \<and> zero_point P (reg2 s q) \<Longrightarrow> cuspidal P (reg2 s q')"
proof -
  note pair = mult_add_z_update_regs(1) [OF ok q(1,2) P, folded q'_def]
  show z: "zero_point P (reg1 s q')"
    using r z_update_cusp_zero(1) [OF pair] z_update_zero_cusp [OF pair] by blast
  show "cuspidal P (reg1 s q) \<and> zero_point P (reg2 s q) \<Longrightarrow> cuspidal P (reg2 s q')"
    using z_update_cusp_zero(2) [OF pair] by blast
  have "eqm P (mval (curve_p s) (MULT_Z q')) (0 * (fst (reg2 s q) - fst (reg1 s q)))"
    unfolding q'_def
    by (rule eqm_trans [OF mult_add_z_update_regs(2) [OF ok q(1,2) P] eqm_mult [OF q(3) eqm_refl]])
  with z mult_add_z_update_qr [OF ok q(1,2)] show "dead s q'"
    by (simp add: dead_def P q'_def)
qed

subsection \<open>One iteration\<close>

text \<open>The index of the table entry for two bits: multiples \<open>u\<close> of the key, \<open>g\<close> and \<open>h\<close> of the curve's points.\<close>

definition shamir_entry :: "int \<Rightarrow> int \<Rightarrow> int \<Rightarrow> bool \<Rightarrow> bool \<Rightarrow> int" where
  "shamir_entry u g h bp bg = of_bool bp * u + of_bool bg * g + h"

definition table_multiples ::
  "sb_sw_curve \<Rightarrow> int \<Rightarrow> (int \<Rightarrow> affine) \<Rightarrow> int \<Rightarrow> int \<Rightarrow> int \<Rightarrow> sb_sw_context \<Rightarrow> bool" where
  "table_multiples s m M u g h q \<longleftrightarrow> table_qr s q \<and>
     (\<forall>bp bg. \<not> m dvd shamir_entry u g h bp bg \<and>
        same_point (modulus (curve_p s)) (table_point s q bp bg) (M (shamir_entry u g h bp bg)))"

text \<open>The accumulator holds the multiple \<open>e\<close>, which is not the point at infinity.\<close>

definition live :: "sb_sw_curve \<Rightarrow> int \<Rightarrow> (int \<Rightarrow> affine) \<Rightarrow> int \<Rightarrow> sb_sw_context \<Rightarrow> bool" where
  "live s m M e q \<longleftrightarrow> accumulates s q (M e) \<and> fermat_at (modulus (curve_p s)) (mval (curve_p s) (MULT_Z q)) \<and> \<not> m dvd e"

text \<open>The additions of an iteration with accumulator \<open>e\<close> and entry \<open>b\<close> are not exceptional.\<close>

definition shamir_regular :: "int \<Rightarrow> bool \<Rightarrow> int \<Rightarrow> int \<Rightarrow> bool" where
  "shamir_regular m d e b \<longleftrightarrow> \<not> m dvd e - b \<and> \<not> m dvd e + b \<and> (d \<longrightarrow> \<not> m dvd 2 * e + b)"

lemma mult_add_step_inputs:
  "unat i < 256 \<Longrightarrow> same_inputs q (mult_add_step i q s)"
  by (simp add: mult_add_step_eq same_inputs_def sb_sw_point_mult_add_select_def ctswap_X2_T5_def ctswap_Y2_T6_def
      Let_def case_prod_unfold)

lemma mult_add_step_live:
  fixes q :: sb_sw_context
  assumes ok: "mont_ok (curve_p s)" and M: "multiples (modulus (curve_p s)) A m M"
    and two: "fermat_at (modulus (curve_p s)) 2" and t: "table_multiples s m M u g h q" and i: "unat i < 256"
    and l: "live s m M e q"
  defines "b \<equiv> shamir_entry u g h (bit (fe_val (MULT_K q)) (unat i)) (bit (fe_val (MULT_ADD_KG q)) (unat i))"
    and "d \<equiv> unat i < 255"
  shows "shamir_regular m d e b \<Longrightarrow> live s m M ((if d then 2 * e else e) + b) (mult_add_step i q s)"
    and "\<not> shamir_regular m d e b \<Longrightarrow> dead s (mult_add_step i q s)"
proof -
  let ?P = "modulus (curve_p s)" and ?v = "mval (curve_p s)"
  define bp bg where bits: "bp = bit (fe_val (MULT_K q)) (unat i)" "bg = bit (fe_val (MULT_ADD_KG q)) (unat i)"
  define q1 where "q1 = sb_sw_point_mult_add_select (of_bool bp) (of_bool bg) q s"
  define q2 where "q2 = sb_sw_point_mult_add_z_update q1 s"
  define q3 where "q3 = sb_sw_point_mult_add_z_update q2 s"
  have eq: "mult_add_step i q s = (if d then q3 else q2)"
    unfolding d_def q3_def by (rule mult_add_step_eq [OF i, of q s, folded bits, folded q1_def, folded q2_def])
  have e: "\<not> m dvd e" and R: "accumulates s q (M e)" "fermat_at ?P (?v (MULT_Z q))"
    using l by (simp_all add: live_def)
  have qq: "coords_qr s q" "quasi_reduced (curve_p s) (MULT_Z q)"
    using R(1) by (simp_all add: accumulates_def)
  have b: "\<not> m dvd b" "same_point ?P (table_point s q bp bg) (M b)" "table_qr s q"
    using t by (simp_all add: table_multiples_def b_def flip: bits)
  note sel = mult_add_select_regs [OF ok qq b(3), of bp bg, folded q1_def]
  have h1: "holds_multiples s M q1 e b"
    using sel R jacobian_same [OF b(2)] by (simp add: holds_multiples_def accumulates_def)
  note up = mult_add_z_update_multiples [OF ok M]
  show "live s m M ((if d then 2 * e else e) + b) (mult_add_step i q s)" if "shamir_regular m d e b"
  proof -
    have r: "\<not> m dvd e - b" "\<not> m dvd e + b" "d \<Longrightarrow> \<not> m dvd 2 * e + b"
      using that by (simp_all add: shamir_regular_def)
    have h2: "holds_multiples s M q2 (e + b) e"
      unfolding q2_def by (rule up [OF h1 e b(1) r(1,2)])
    show ?thesis
    proof (cases d)
      case True
      have "holds_multiples s M q3 (e + b + e) (e + b)"
        unfolding q3_def by (rule up [OF h2 r(2) e]) (use b(1) r(3) True in \<open>simp_all add: algebra_simps\<close>)
      with True r(3) show ?thesis
        by (simp add: eq live_def holds_multiples_def accumulates_def algebra_simps)
    next
      case False
      with h2 r(2) show ?thesis
        by (simp add: eq live_def holds_multiples_def accumulates_def)
    qed
  qed
  show "dead s (mult_add_step i q s)" if nr: "\<not> shamir_regular m d e b"
  proof (cases "m dvd e - b \<or> m dvd e + b")
    case True
    note x = mult_add_z_update_exceptional [OF ok M two h1 e True, folded q2_def]
    have "dead s q3"
      unfolding q3_def using x zero_point_cuspidal
      by (intro mult_add_z_update_dead(1) [OF ok refl]) (auto simp: dead_def)
    with x(1) show ?thesis by (simp add: eq)
  next
    case False
    then have h2: "holds_multiples s M q2 (e + b) e"
      unfolding q2_def by (intro up [OF h1 e b(1)]) simp_all
    have d: d and x: "m dvd e + b - e \<or> m dvd e + b + e"
      using nr False by (simp_all add: shamir_regular_def algebra_simps)
    have "dead s q3"
      unfolding q3_def by (rule mult_add_z_update_exceptional(1) [OF ok M two h2 _ x]) (use False in simp)
    with d show ?thesis by (simp add: eq)
  qed
qed

lemma mult_add_step_dead:
  fixes q :: sb_sw_context
  assumes ok: "mont_ok (curve_p s)" and t: "table_qr s q" and i: "unat i < 256" and d: "dead s q"
  shows "dead s (mult_add_step i q s)"
proof -
  let ?P = "modulus (curve_p s)" and ?v = "mval (curve_p s)"
  define bp bg where bits: "bp = bit (fe_val (MULT_K q)) (unat i)" "bg = bit (fe_val (MULT_ADD_KG q)) (unat i)"
  define q1 where "q1 = sb_sw_point_mult_add_select (of_bool bp) (of_bool bg) q s"
  define q2 where "q2 = sb_sw_point_mult_add_z_update q1 s"
  note eq = mult_add_step_eq [OF i, of q s, folded bits, folded q1_def, folded q2_def]
  have D: "coords_qr s q" "quasi_reduced (curve_p s) (MULT_Z q)" "eqm ?P (?v (MULT_Z q)) 0" "cuspidal ?P (reg1 s q)"
    using d zero_point_cuspidal [of ?P "reg1 s q"] by (auto simp: dead_def)
  note sel = mult_add_select_regs [OF ok D(1,2) t, of bp bg, folded q1_def]
  have z: "zero_point ?P (reg2 s q1)"
  proof -
    have "eqm ?P (?v (MULT_Z q1)) 0" by (simp add: sel(2) D(3))
    from eqm_mult [OF this this] eqm_mult [OF this eqm_mult [OF this this]]
    have "eqm ?P (?v (MULT_Z q1) * ?v (MULT_Z q1)) 0" "eqm ?P (?v (MULT_Z q1) * (?v (MULT_Z q1) * ?v (MULT_Z q1))) 0"
      by simp_all
    from eqm_mult [OF eqm_refl this(1)] eqm_mult [OF eqm_refl this(2)] jacobianD [OF sel(5)] show ?thesis
      unfolding zero_point_def mult_zero_right by (meson eqm_trans)
  qed
  note u = mult_add_z_update_dead [OF ok refl sel(1), folded q2_def, unfolded sel(2,3), OF D(2,3)]
  have d2: "dead s q2" "zero_point ?P (reg1 s q2)" "cuspidal ?P (reg2 s q2)"
    using u D(4) z by blast+
  then have "dead s (sb_sw_point_mult_add_z_update q2 s)"
    by (intro mult_add_z_update_dead(1) [OF ok refl]) (auto simp: dead_def)
  with d2(1) show ?thesis by (simp add: eq)
qed

subsection \<open>The loop from the first bit to the last\<close>

text \<open>The multiple in the accumulator after bit \<open>i\<close>; before the first bit it is \<open>2 h\<close>.\<close>

definition shamir_sum :: "int \<Rightarrow> int \<Rightarrow> int \<Rightarrow> int \<Rightarrow> int \<Rightarrow> nat \<Rightarrow> int" where
  "shamir_sum kp kg u g h i = kp div 2 ^ i * u + kg div 2 ^ i * g + (2 ^ (257 - i) - 1) * h"

definition shamir_at :: "int \<Rightarrow> int \<Rightarrow> int \<Rightarrow> int \<Rightarrow> int \<Rightarrow> nat \<Rightarrow> int" where
  "shamir_at kp kg u g h i = (if i = 256 then 2 * h else shamir_sum kp kg u g h i)"

lemma shamir_sum_step:
  assumes "i < 256"
  shows "shamir_sum kp kg u g h i = 2 * shamir_sum kp kg u g h (Suc i) + shamir_entry u g h (bit kp i) (bit kg i)"
proof -
  have "257 - i = Suc (257 - Suc i)" using assms by simp
  then show ?thesis
    by (simp add: shamir_sum_def shamir_entry_def div_pow2_bit [of kp i] div_pow2_bit [of kg i] algebra_simps
        del: power_Suc) (simp add: algebra_simps)
qed

lemma shamir_sum_256: "shamir_sum (fe_val kp) (fe_val kg) u g h 256 = h"
  using fe_val_bound [of kp] fe_val_bound [of kg] fe_val_nonneg [of kp] fe_val_nonneg [of kg]
  by (simp add: shamir_sum_def div_pos_pos_trivial)

definition shamir_regular_at :: "int \<Rightarrow> int \<Rightarrow> int \<Rightarrow> int \<Rightarrow> int \<Rightarrow> int \<Rightarrow> nat \<Rightarrow> bool" where
  "shamir_regular_at m kp kg u g h i \<longleftrightarrow>
     shamir_regular m (i < 255) (shamir_at kp kg u g h (Suc i)) (shamir_entry u g h (bit kp i) (bit kg i))"

text \<open>
  After bit \<open>i\<close> the accumulator holds its multiple, unless an addition was exceptional; the
  inputs are those of the context \<open>q0\<close> at the start of the loop.
\<close>

definition follows ::
  "sb_sw_curve \<Rightarrow> int \<Rightarrow> (int \<Rightarrow> affine) \<Rightarrow> int \<Rightarrow> int \<Rightarrow> int \<Rightarrow> sb_sw_context \<Rightarrow> nat \<Rightarrow> sb_sw_context \<Rightarrow> bool" where
  "follows s m M u g h q0 i q \<longleftrightarrow> same_inputs q0 q \<and>
     (if \<forall>j \<in> {i..<256}. shamir_regular_at m (fe_val (MULT_K q0)) (fe_val (MULT_ADD_KG q0)) u g h j
      then live s m M (shamir_at (fe_val (MULT_K q0)) (fe_val (MULT_ADD_KG q0)) u g h i) q
      else dead s q)"

lemma same_inputs_table_multiples:
  "same_inputs q q' \<Longrightarrow> table_multiples s m M u g h q' = table_multiples s m M u g h q"
  by (simp add: table_multiples_def same_inputs_table(1,2))

lemma mult_add_step_follows:
  fixes q :: sb_sw_context
  assumes ok: "mont_ok (curve_p s)" and M: "multiples (modulus (curve_p s)) A m M"
    and two: "fermat_at (modulus (curve_p s)) 2" and t: "table_multiples s m M u g h q0" and i: "unat i < 256"
    and f: "follows s m M u g h q0 (Suc (unat i)) q"
  shows "follows s m M u g h q0 (unat i) (mult_add_step i q s)"
proof -
  let ?i = "unat i" and ?kp = "fe_val (MULT_K q0)" and ?kg = "fe_val (MULT_ADD_KG q0)"
  have same: "same_inputs q0 q" "MULT_K q = MULT_K q0" "MULT_ADD_KG q = MULT_ADD_KG q0"
    using f by (simp_all add: follows_def same_inputs_def)
  have tq: "table_multiples s m M u g h q" "table_qr s q"
  proof -
    show "table_multiples s m M u g h q"
      using t by (simp only: same_inputs_table_multiples [OF same(1)])
    then show "table_qr s q" by (simp add: table_multiples_def)
  qed
  have same': "same_inputs q0 (mult_add_step i q s)"
    by (rule same_inputs_trans [OF same(1) mult_add_step_inputs [OF i]])
  have ivl: "{?i..<256} = insert ?i {Suc ?i..<256}"
    using i by auto
  show ?thesis
  proof (cases "\<forall>j \<in> {Suc ?i..<256}. shamir_regular_at m ?kp ?kg u g h j")
    case True
    let ?e = "shamir_at ?kp ?kg u g h (Suc ?i)" and ?b = "shamir_entry u g h (bit ?kp ?i) (bit ?kg ?i)"
    have "live s m M ?e q"
      using f True by (simp add: follows_def)
    note step = mult_add_step_live [OF ok M two tq(1) i this, unfolded same(2,3)]
    have e: "(if ?i < 255 then 2 * ?e else ?e) + ?b = shamir_at ?kp ?kg u g h ?i"
    proof (cases "?i < 255")
      case True
      then show ?thesis using shamir_sum_step [OF i, of ?kp ?kg u g h] by (simp add: shamir_at_def)
    next
      case False
      with i have "?i = 255" by simp
      then show ?thesis
        using shamir_sum_step [of 255 ?kp ?kg u g h] shamir_sum_256
        by (simp add: shamir_at_def)
    qed
    from step True same' show ?thesis
      by (simp add: follows_def ivl shamir_regular_at_def e)
  next
    case False
    with f mult_add_step_dead [OF ok tq(2) i] same' show ?thesis
      by (auto simp: follows_def ivl)
  qed
qed

lemma mult_add_loop_follows:
  assumes "mont_ok (curve_p s)" "multiples (modulus (curve_p s)) A m M" "fermat_at (modulus (curve_p s)) 2"
    and "table_multiples s m M u g h q0"
  shows "follows s m M u g h q0 (Suc (unat i)) q \<Longrightarrow> i < SB_FE_BITS \<Longrightarrow> n \<le> Suc (unat i) \<Longrightarrow>
    follows s m M u g h q0 (Suc (unat i) - n) (snd (mult_add_loop n i q s))"
proof (induction n arbitrary: i q)
  case (Suc n)
  have i: "unat i < 256"
    using Suc.prems(2) by (simp add: word_less_nat_alt SB_FE_BITS_def)
  note step = mult_add_step_follows [OF assms i Suc.prems(1)]
  show ?case
  proof (cases "i = 0")
    case True
    with Suc.prems(3) have "n = 0" by simp
    with step Suc.prems(2) show ?thesis by simp
  next
    case False
    with size_dec_wrap [OF Suc.prems(2)] have d: "i - 1 < SB_FE_BITS" "unat (i - 1) = unat i - 1" "0 < unat i"
      by (simp_all add: unat_gt_0)
    with Suc.IH [of "i - 1"] step Suc.prems(2,3) show ?thesis by simp
  qed
qed simp

subsection \<open>The table\<close>

text \<open>
  What verification needs of the curve: its points \<open>G\<close>, \<open>H\<close> and \<open>G + H\<close> are the multiples \<open>g\<close>,
  \<open>h\<close> and \<open>g + h\<close> of one point whose order divides the curve's order, and
  \<open>(2 ^ 257 - 1) H = G\<close>.
\<close>

definition pair_point :: "sb_prime_field \<Rightarrow> sb_fe_pair \<Rightarrow> affine" where
  "pair_point F q = (mval F (pair_x q), mval F (pair_y q))"

definition verify_curve :: "sb_sw_curve \<Rightarrow> int \<Rightarrow> (int \<Rightarrow> affine) \<Rightarrow> int \<Rightarrow> int \<Rightarrow> bool" where
  "verify_curve s m M g h \<longleftrightarrow> curve_ok s \<and> multiples (modulus (curve_p s)) (fe_val (minus_a s)) m M \<and>
     fermat_at (modulus (curve_p s)) 2 \<and> m dvd modulus (curve_n s) \<and> m dvd (2 ^ 257 - 1) * h - g \<and>
     \<not> m dvd g \<and> \<not> m dvd h \<and> \<not> m dvd g + h \<and>
     same_point (modulus (curve_p s)) (pair_point (curve_p s) (g_r s)) (M g) \<and>
     same_point (modulus (curve_p s)) (pair_point (curve_p s) (h_r s)) (M h) \<and>
     same_point (modulus (curve_p s)) (pair_point (curve_p s) (g_h_r s)) (M (g + h))"

lemma verify_curveD:
  assumes "verify_curve s m M g h"
  shows "curve_ok s" "multiples (modulus (curve_p s)) (fe_val (minus_a s)) m M"
    "fermat_at (modulus (curve_p s)) 2" "m dvd modulus (curve_n s)" "m dvd (2 ^ 257 - 1) * h - g"
    "\<not> m dvd g" "\<not> m dvd h" "\<not> m dvd g + h"
    "same_point (modulus (curve_p s)) (pair_point (curve_p s) (g_r s)) (M g)"
    "same_point (modulus (curve_p s)) (pair_point (curve_p s) (h_r s)) (M h)"
    "same_point (modulus (curve_p s)) (pair_point (curve_p s) (g_h_r s)) (M (g + h))"
  using assms by (simp_all add: verify_curve_def)

text \<open>The keys for which the table can be computed: \<open>P\<close> is not \<open>H\<close>, \<open>- H\<close>, \<open>G - H\<close> or \<open>- (G + H)\<close>.\<close>

definition table_key :: "int \<Rightarrow> int \<Rightarrow> int \<Rightarrow> int \<Rightarrow> bool" where
  "table_key m u g h \<longleftrightarrow> \<not> m dvd u \<and> \<not> m dvd u - h \<and> \<not> m dvd u + h \<and> \<not> m dvd u + h - g \<and> \<not> m dvd u + h + g"

text \<open>Bringing a point under the coordinate one.\<close>

lemma normalised_point:
  assumes ok: "mont_ok F" and q: "quasi_reduced F X" "quasi_reduced F Y" "quasi_reduced F i"
    and j: "jacobian (modulus F) z a (mval F X, mval F Y)" and i: "eqm (modulus F) (z * mval F i) 1"
  defines "ii \<equiv> sb_fe_mont_square i F"
  shows "same_point (modulus F) (mval F (sb_fe_mont_mult X ii F), mval F (sb_fe_mont_mult Y (sb_fe_mont_mult i ii F) F)) a"
    and "quasi_reduced F (sb_fe_mont_mult X ii F)" "quasi_reduced F (sb_fe_mont_mult Y (sb_fe_mont_mult i ii F) F)"
proof -
  let ?P = "modulus F" and ?v = "mval F" and ?w = "mval F i"
  have q2: "quasi_reduced F ii" "quasi_reduced F (sb_fe_mont_mult i ii F)"
    unfolding ii_def by (intro qr_intros ok q)+
  show "quasi_reduced F (sb_fe_mont_mult X ii F)" "quasi_reduced F (sb_fe_mont_mult Y (sb_fe_mont_mult i ii F) F)"
    by (intro qr_intros ok q q2)+
  note J = jacobianD [OF j, unfolded fst_conv snd_conv]
  have w: "eqm ?P (z * ?w * (z * ?w)) 1" "eqm ?P (z * ?w * (z * ?w * (z * ?w))) 1"
    using eqm_mult [OF i i] eqm_mult [OF i eqm_mult [OF i i]] by simp_all
  have "eqm ?P (?v (sb_fe_mont_mult X ii F)) (?v X * (?w * ?w))"
    by (simp add: eqm_mod ii_def mval_simps mod_simps q ok qr_intros)
  also have "eqm ?P \<dots> (fst a * (z * z) * (?w * ?w))"
    by (intro eqm_mult eqm_refl J)
  also have "fst a * (z * z) * (?w * ?w) = fst a * (z * ?w * (z * ?w))" by (simp add: ac_simps)
  also have "eqm ?P \<dots> (fst a * 1)" by (intro eqm_mult eqm_refl w)
  finally have x: "eqm ?P (?v (sb_fe_mont_mult X ii F)) (fst a)" by simp
  have "eqm ?P (?v (sb_fe_mont_mult Y (sb_fe_mont_mult i ii F) F)) (?v Y * (?w * (?w * ?w)))"
    using q2 by (simp add: eqm_mod ii_def mval_simps mod_simps q ok qr_intros)
  also have "eqm ?P \<dots> (snd a * (z * (z * z)) * (?w * (?w * ?w)))"
    by (intro eqm_mult eqm_refl J)
  also have "snd a * (z * (z * z)) * (?w * (?w * ?w)) = snd a * (z * ?w * (z * ?w * (z * ?w)))" by (simp add: ac_simps)
  also have "eqm ?P \<dots> (snd a * 1)" by (intro eqm_mult eqm_refl w)
  finally show "same_point ?P (mval F (sb_fe_mont_mult X ii F), mval F (sb_fe_mont_mult Y (sb_fe_mont_mult i ii F) F)) a"
    using x by (simp add: same_point_def)
qed

text \<open>The stages of the set-up, and what remains of it after each.\<close>

lemma mult_add_inv_z_stages:
  fixes q :: sb_sw_context and s :: sb_sw_curve
  defines "p \<equiv> curve_p s" and "px \<equiv> sb_fe_mont_convert (MULT_POINT_X q) (curve_p s)"
    and "py \<equiv> sb_fe_mont_convert (MULT_POINT_Y q) (curve_p s)"
  defines "a \<equiv> q\<lparr>MULT_ADD_KG := fst (sb_fe_sub (MULT_ADD_KG q) SB_FE_ONE), C_X1 := px, MULT_POINT_X := px, C_Y1 := py,
    MULT_POINT_Y := py, C_X2 := pair_x (h_r s), C_Y2 := pair_y (h_r s), C_T8 := MULT_Z q, MULT_Z := r_mod_p p\<rparr>"
  defines "b \<equiv> sb_sw_point_mult_add_z_update a s"
  defines "c \<equiv> sb_sw_point_mult_add_apply_z (b\<lparr>C_X2 := pair_x (g_r s), C_Y2 := pair_y (g_r s)\<rparr>) s"
  defines "d \<equiv> sb_sw_point_mult_add_z_update c s"
  defines "i \<equiv> fst (sb_fe_mod_inv_r (MULT_Z d) p (C_T7 d))"
  defines "ii \<equiv> sb_fe_mont_square i p"
  defines "iii \<equiv> sb_fe_mont_mult i ii p"
  defines "e \<equiv> d\<lparr>C_T5 := i, C_T6 := ii, C_T7 := iii,
    MULT_POINT_X := sb_fe_mont_mult (C_X2 d) ii p, MULT_POINT_Y := sb_fe_mont_mult (C_Y2 d) iii p,
    MULT_ADD_PG_X := sb_fe_mont_mult (C_X1 d) ii p, MULT_ADD_PG_Y := sb_fe_mont_mult (C_Y1 d) iii p,
    C_X2 := pair_x (h_r s), C_Y2 := pair_y (h_r s)\<rparr>"
  defines "f \<equiv> sb_sw_point_initial_double e s"
  defines "k \<equiv> sb_sw_point_mult_add_apply_z (f\<lparr>MULT_Z := MULT_Z q\<rparr>) s"
  defines "t \<equiv> sb_fe_mont_mult (MULT_Z q) (C_T5 f) p"
  shows "mult_add_inv_z q s = k\<lparr>C_T6 := t, MULT_Z := t, C_X1 := C_X2 k, C_Y1 := C_Y2 k\<rparr>"
proof -
  obtain t6 t7 where inv: "sb_fe_mod_inv_r (MULT_Z d) p (C_T7 d) = (i, t6, t7)"
    by (metis i_def prod.collapse)
  show ?thesis
    using inv [unfolded d_def c_def b_def a_def px_def py_def p_def]
    by (simp add: mult_add_inv_z_def Let_def k_def f_def e_def d_def c_def b_def a_def iii_def ii_def t_def
        px_def py_def p_def)
qed

text \<open>The input of the set-up: the plain coordinates of the key \<open>u\<close>, and an invertible initial coordinate.\<close>

definition verify_key :: "sb_sw_curve \<Rightarrow> (int \<Rightarrow> affine) \<Rightarrow> int \<Rightarrow> sb_sw_context \<Rightarrow> bool" where
  "verify_key s M u q \<longleftrightarrow> point_qr s q \<and> fermat_at (modulus (curve_p s)) (mval (curve_p s) (MULT_Z q)) \<and>
     same_point (modulus (curve_p s)) (fe_val (MULT_POINT_X q), fe_val (MULT_POINT_Y q)) (M u)"

lemma prime_field_one:
  assumes "prime_field_ok F"
  shows "quasi_reduced F (r_mod_p F)" "mval F (r_mod_p F) = 1"
proof -
  note D = prime_field_okD [OF assms]
  show v: "mval F (r_mod_p F) = 1" by (rule mval_r_mod_p [OF assms])
  have "fe_val (r_mod_p F) = 2 ^ 256 mod modulus F"
    using assms unfolding prime_field_ok_def by blast
  then have "fe_val (r_mod_p F) < modulus F"
    using D(4) by (simp only: pos_mod_bound)
  moreover have "fe_val (r_mod_p F) \<noteq> 0"
    using v by (auto simp: mval_def)
  ultimately show "quasi_reduced F (r_mod_p F)"
    using fe_val_nonneg [of "r_mod_p F"] unfolding quasi_reduced_def by linarith
qed

lemma mult_add_inv_z_val:
  fixes q :: sb_sw_context
  assumes cv: "verify_curve s m M g h" and u: "table_key m u g h" and key: "verify_key s M u q"
  defines "q' \<equiv> mult_add_inv_z q s"
  shows "table_multiples s m M u g h q'" "live s m M (2 * h) q'"
    and "MULT_K q' = MULT_K q" "MULT_ADD_KG q' = fst (sb_fe_sub (MULT_ADD_KG q) SB_FE_ONE)" "VERIFY_QR q' = VERIFY_QR q"
proof -
  let ?p = "curve_p s" and ?P = "modulus (curve_p s)" and ?v = "mval (curve_p s)"
  note C = verify_curveD [OF cv] and ok = curve_okD(1,3,10,12-16) [OF verify_curveD(1) [OF cv]]
  note M = C(2) and one = prime_field_one [OF ok(1)]
  have q: "quasi_reduced ?p (MULT_POINT_X q)" "quasi_reduced ?p (MULT_POINT_Y q)" "quasi_reduced ?p (MULT_Z q)"
    "fermat_at ?P (?v (MULT_Z q))"
    using key by (simp_all add: verify_key_def point_qr_def)
  have pairs: "quasi_reduced ?p (pair_x (g_r s))" "quasi_reduced ?p (pair_y (g_r s))"
    "quasi_reduced ?p (pair_x (h_r s))" "quasi_reduced ?p (pair_y (h_r s))"
    using ok by (simp_all add: pair_qr_def)
  define px py where "px = sb_fe_mont_convert (MULT_POINT_X q) ?p" and "py = sb_fe_mont_convert (MULT_POINT_Y q) ?p"
  note cx = sb_fe_mont_convert_val(2,3) [OF ok(1) q(1), folded px_def]
    and cy = sb_fe_mont_convert_val(2,3) [OF ok(1) q(2), folded py_def]
  define a where "a = q\<lparr>MULT_ADD_KG := fst (sb_fe_sub (MULT_ADD_KG q) SB_FE_ONE), C_X1 := px, MULT_POINT_X := px,
    C_Y1 := py, MULT_POINT_Y := py, C_X2 := pair_x (h_r s), C_Y2 := pair_y (h_r s), C_T8 := MULT_Z q, MULT_Z := r_mod_p ?p\<rparr>"
  define b where "b = sb_sw_point_mult_add_z_update a s"
  define c where "c = sb_sw_point_mult_add_apply_z (b\<lparr>C_X2 := pair_x (g_r s), C_Y2 := pair_y (g_r s)\<rparr>) s"
  define d where "d = sb_sw_point_mult_add_z_update c s"
  define i where "i = fst (sb_fe_mod_inv_r (MULT_Z d) ?p (C_T7 d))"
  define ii where "ii = sb_fe_mont_square i ?p"
  define iii where "iii = sb_fe_mont_mult i ii ?p"
  define e where "e = d\<lparr>C_T5 := i, C_T6 := ii, C_T7 := iii,
    MULT_POINT_X := sb_fe_mont_mult (C_X2 d) ii ?p, MULT_POINT_Y := sb_fe_mont_mult (C_Y2 d) iii ?p,
    MULT_ADD_PG_X := sb_fe_mont_mult (C_X1 d) ii ?p, MULT_ADD_PG_Y := sb_fe_mont_mult (C_Y1 d) iii ?p,
    C_X2 := pair_x (h_r s), C_Y2 := pair_y (h_r s)\<rparr>"
  define f where "f = sb_sw_point_initial_double e s"
  define k where "k = sb_sw_point_mult_add_apply_z (f\<lparr>MULT_Z := MULT_Z q\<rparr>) s"
  define t where "t = sb_fe_mont_mult (MULT_Z q) (C_T5 f) ?p"
  have q': "q' = k\<lparr>C_T6 := t, MULT_Z := t, C_X1 := C_X2 k, C_Y1 := C_Y2 k\<rparr>"
    unfolding q'_def by (rule mult_add_inv_z_stages [of q s, folded px_def py_def, folded a_def, folded b_def,
          folded c_def, folded d_def, folded i_def, folded ii_def, folded iii_def, folded e_def, folded f_def,
          folded k_def t_def])
  show "MULT_K q' = MULT_K q" "MULT_ADD_KG q' = fst (sb_fe_sub (MULT_ADD_KG q) SB_FE_ONE)" "VERIFY_QR q' = VERIFY_QR q"
    by (simp_all add: q' k_def f_def e_def d_def c_def b_def a_def)
  text \<open>The sums with \<open>H\<close> and with \<open>G\<close>.\<close>
  have "holds_multiples s M a u h"
  proof -
    have "same_point ?P (reg1 s a) (M u)"
      using key cx(1) cy(1) by (simp add: a_def reg1_def verify_key_def same_point_def eqm_mod)
    moreover have "same_point ?P (reg2 s a) (M h)"
      using C(10) by (simp add: a_def reg2_def pair_point_def)
    ultimately show ?thesis
      using one cx(2) cy(2) pairs fermat_at_one [of ?P] prime_field_okD(3) [OF ok(1)]
      by (simp add: holds_multiples_def a_def coords_qr_def jacobian_def same_point_def)
  qed
  then have hb: "holds_multiples s M b (u + h) u"
    unfolding b_def using u C(7) by (intro mult_add_z_update_multiples [OF ok(2) M]) (simp_all add: table_key_def)
  have hc: "holds_multiples s M c (u + h) g"
  proof -
    let ?b = "b\<lparr>C_X2 := pair_x (g_r s), C_Y2 := pair_y (g_r s)\<rparr>"
    have qb: "coords_qr s ?b" "quasi_reduced ?p (MULT_Z ?b)"
      using hb pairs by (simp_all add: holds_multiples_def coords_qr_def)
    have "jacobian ?P 1 (M g) (reg2 s ?b)"
      using C(9) by (simp add: jacobian_def reg2_def pair_point_def same_point_def)
    from mult_add_apply_z_val(1) [OF ok(2) qb this, folded c_def] mult_add_apply_z_val(2) [OF ok(2) qb, folded c_def] hb
    show ?thesis
      by (simp add: holds_multiples_def reg1_def) (simp add: c_def)
  qed
  then have hd: "holds_multiples s M d (u + h + g) (u + h)"
    unfolding d_def using u C(6) by (intro mult_add_z_update_multiples [OF ok(2) M]) (simp_all add: table_key_def)
  then have qd: "coords_qr s d" "quasi_reduced ?p (MULT_Z d)" "fermat_at ?P (?v (MULT_Z d))"
    "jacobian ?P (?v (MULT_Z d)) (M (u + h + g)) (?v (C_X1 d), ?v (C_Y1 d))"
    "jacobian ?P (?v (MULT_Z d)) (M (u + h)) (?v (C_X2 d), ?v (C_Y2 d))"
    by (simp_all add: holds_multiples_def reg1_def reg2_def)
  have qi: "quasi_reduced ?p i"
    unfolding i_def by (rule sb_fe_mod_inv_r_val(2) [OF ok(1) qd(2)])
  have inv: "eqm ?P (?v (MULT_Z d) * ?v i) 1"
    using sb_fe_mod_inv_r_inverse [OF ok(1) qd(2,3), of "C_T7 d"] prime_field_okD(3) [OF ok(1)]
    by (simp add: i_def eqm_mod)
  note n1 = normalised_point [OF ok(2) coords_qrD(1,2) [OF qd(1)] qi qd(4) inv, folded ii_def, folded iii_def]
    and n2 = normalised_point [OF ok(2) coords_qrD(3,4) [OF qd(1)] qi qd(5) inv, folded ii_def, folded iii_def]
  have tab: "MULT_POINT_X q' = sb_fe_mont_mult (C_X2 d) ii ?p" "MULT_POINT_Y q' = sb_fe_mont_mult (C_Y2 d) iii ?p"
    "MULT_ADD_PG_X q' = sb_fe_mont_mult (C_X1 d) ii ?p" "MULT_ADD_PG_Y q' = sb_fe_mont_mult (C_Y1 d) iii ?p"
    by (simp_all add: q' k_def f_def e_def)
  show "table_multiples s m M u g h q'"
    unfolding table_multiples_def
  proof (intro conjI allI)
    show "table_qr s q'" using n1 n2 ok by (simp add: table_qr_def tab)
    fix bp bg
    show "\<not> m dvd shamir_entry u g h bp bg"
      using u C(7,8) by (cases bp; cases bg) (simp_all add: table_key_def shamir_entry_def algebra_simps)
    show "same_point ?P (table_point s q' bp bg) (M (shamir_entry u g h bp bg))"
      using n1(1) n2(1) C(10,11)
      by (cases bp; cases bg) (simp_all add: table_point_def selected_def shamir_entry_def tab pair_point_def add.commute
          add.left_commute)
  qed
  text \<open>The accumulator.\<close>
  have E: "C_X2 e = pair_x (h_r s)" "C_Y2 e = pair_y (h_r s)" by (simp_all add: e_def)
  have H: "same_point ?P (reg2 s e) (M h)"
    using C(10) by (simp add: reg2_def E pair_point_def)
  have "tangent ?P (fe_val (minus_a s)) (reg2 s e) (M (2 * h))"
    by (rule tangent_cong [OF same_point_sym [OF H] multiplesD(7) [OF M C(7)]])
  note dbl = initial_double_tangent [OF ok(2) pairs(3,4) [folded E] ok(4,5) this, folded f_def]
  define z where "z = 2 * snd (reg2 s e)"
  have "eqm ?P z (2 * snd (M h))"
    unfolding z_def by (intro eqm_mult eqm_refl same_pointD(2) [OF H])
  then have z: "fermat_at ?P z"
    using multiplesD(6) [OF M C(7)] C(3) by (simp add: fermat_at_cong fermat_at_mult)
  have qf: "coords_qr s (f\<lparr>MULT_Z := MULT_Z q\<rparr>)" "quasi_reduced ?p (MULT_Z (f\<lparr>MULT_Z := MULT_Z q\<rparr>))"
    using dbl(3) q(3) by simp_all
  have k: "jacobian ?P (z * ?v (MULT_Z q)) (M (2 * h)) (reg2 s k)" "coords_qr s k"
    using mult_add_apply_z_val(1) [OF ok(2) qf, folded k_def, of z "M (2 * h)"]
      mult_add_apply_z_val(2) [OF ok(2) qf, folded k_def] dbl(2) by (simp_all add: z_def)
  have t: "eqm ?P (?v t) (z * ?v (MULT_Z q))" "quasi_reduced ?p t"
  proof -
    have "eqm ?P (?v t) (?v (C_T5 f) * ?v (MULT_Z q))"
      by (simp add: t_def eqm_mod mval_mont_mult ok(2) q(3) dbl(4) mult.commute)
    also have "eqm ?P \<dots> (z * ?v (MULT_Z q))"
      using dbl(5) by (intro eqm_mult eqm_refl) (simp add: z_def)
    finally show "eqm ?P (?v t) (z * ?v (MULT_Z q))" .
    show "quasi_reduced ?p t" unfolding t_def by (intro qr_intros ok(2) q(3) dbl(4))
  qed
  have "jacobian ?P (?v t) (M (2 * h)) (reg1 s q')"
    using jacobian_cong [OF eqm_sym [OF t(1)] k(1)] by (simp add: q' reg1_def reg2_def)
  moreover have "coords_qr s q'" "MULT_Z q' = t"
    using k(2) by (simp_all add: q' coords_qr_def)
  moreover have "fermat_at ?P (?v t)"
    using t(1) z q(4) by (simp add: fermat_at_cong fermat_at_mult)
  moreover have "\<not> m dvd 2 * h"
    using C(7) odd_dvd_double [OF multiplesD(2) [OF M]] by simp
  ultimately show "live s m M (2 * h) q'"
    using t(2) by (simp add: live_def accumulates_def)
qed

end
