(* ===== verification/Verification.thy ===== *)
theory Verification
  imports Verify_Mult
begin

text \<open>
  Signature verification below the public interface as a whole: from \<open>sb_sw_verify_start\<close> through
  nineteen calls of \<open>sb_sw_verify_continue\<close> to the result word. The stages are the
  inversion of \<open>s\<close>, the set-up of the table, sixteen chunks of the loop, and the final comparison.
\<close>

subsection \<open>The first stage\<close>

lemma verify_inv_s_frame:
  assumes ok: "curve_ok s" and r: "verify_inv_s res v s = (res', v')"
  shows "quasi_reduced (curve_n s) (MULT_K v')" "quasi_reduced (curve_n s) (MULT_ADD_KG v')"
    and "MULT_Z v' = MULT_Z v" "MULT_POINT_X v' = MULT_POINT_X v" "MULT_POINT_Y v' = MULT_POINT_Y v"
proof -
  let ?n = "curve_n s"
  note C = curve_okD [OF ok]
  define qr qs ms where "qr = snd (sb_sw_scalar_validate (VERIFY_QR v) s)"
    and "qs = snd (sb_sw_scalar_validate (VERIFY_QS v) s)" and "ms = sb_fe_mod_reduce (VERIFY_MESSAGE v) ?n"
  obtain rv sv where val: "sb_sw_scalar_validate (VERIFY_QR v) s = (rv, qr)"
    "sb_sw_scalar_validate (VERIFY_QS v) s = (sv, qs)"
    by (metis qr_def qs_def prod.collapse)
  have N: "0 < modulus ?n" using C(6) by simp
  have q: "quasi_reduced ?n qr" "quasi_reduced ?n qs" "quasi_reduced ?n ms"
    using sb_sw_scalar_validate_val [OF ok] val N by (auto simp: ms_def intro: quasi_reduced_qrep)
  obtain i t6 t7 where inv: "sb_fe_mod_inv_r (sb_fe_mont_convert qs ?n) ?n (C_T7 v) = (i, t6, t7)"
    by (metis prod_cases3)
  have qi: "quasi_reduced ?n i"
    using sb_fe_mod_inv_r_val(2) [OF C(2) sb_fe_mont_convert_val(3) [OF C(2) q(2)], of "C_T7 v"] inv by simp
  have "MULT_ADD_KG v' = sb_fe_mont_mult ms i ?n" "MULT_K v' = sb_fe_mont_mult qr i ?n"
    using r by (auto simp: verify_inv_s_def Let_def val inv simp flip: ms_def)
  then show "quasi_reduced ?n (MULT_K v')" "quasi_reduced ?n (MULT_ADD_KG v')"
    by (simp_all add: mont_qr C(4) q qi)
  show "MULT_Z v' = MULT_Z v" "MULT_POINT_X v' = MULT_POINT_X v" "MULT_POINT_Y v' = MULT_POINT_Y v"
    using r by (auto simp: verify_inv_s_def Let_def case_prod_unfold)
qed

text \<open>The two scalars of verification, \<open>r / s\<close> and \<open>m / s\<close>, as the numbers the code computes.\<close>

definition quotient_scalar :: "int \<Rightarrow> int \<Rightarrow> int \<Rightarrow> int" where
  "quotient_scalar N x y = qrep N (x * y ^ nat (N - 2))"

lemma quotient_scalar_unique:
  assumes f: "fermat_at N y" and k: "0 < k" "k \<le> N" "(k * y) mod N = x mod N"
  shows "k = quotient_scalar N x y"
proof -
  have "(x * y ^ nat (N - 2)) mod N = (k * y * y ^ nat (N - 2)) mod N"
    by (metis k(3) mod_mult_left_eq)
  also have "\<dots> = (k * ((y * y ^ nat (N - 2)) mod N)) mod N"
    by (simp add: mod_mult_right_eq mult.assoc)
  also have "\<dots> = k mod N"
    by (simp add: fermat_at_inverse [OF f])
  finally show ?thesis
    unfolding quotient_scalar_def using k(1,2) by (intro qrep_eqI) simp_all
qed

lemma verify_inv_s_scalars:
  assumes ok: "curve_ok s" and r: "verify_inv_s res v s = (res', v')"
    and f: "fermat_at (modulus (curve_n s)) (fe_val (VERIFY_QS v))"
    and valid: "scalar_valid s (VERIFY_QR v)" "scalar_valid s (VERIFY_QS v)"
  shows "fe_val (MULT_K v') = quotient_scalar (modulus (curve_n s)) (fe_val (VERIFY_QR v)) (fe_val (VERIFY_QS v))"
    and "fe_val (MULT_ADD_KG v') = quotient_scalar (modulus (curve_n s)) (fe_val (VERIFY_MESSAGE v)) (fe_val (VERIFY_QS v))"
    and "VERIFY_QR v' = VERIFY_QR v"
proof -
  note q = verify_inv_s_frame(1,2) [OF ok r, unfolded quasi_reduced_def] and e = verify_inv_s_val(2) [OF ok r f valid]
  have "fe_val (VERIFY_QR v) mod modulus (curve_n s) = fe_val (VERIFY_QR v)"
    using valid(1) by (simp add: scalar_valid_def)
  with e show "fe_val (MULT_K v') = quotient_scalar (modulus (curve_n s)) (fe_val (VERIFY_QR v)) (fe_val (VERIFY_QS v))"
    using q(1) by (intro quotient_scalar_unique [OF f]) auto
  show "fe_val (MULT_ADD_KG v') = quotient_scalar (modulus (curve_n s)) (fe_val (VERIFY_MESSAGE v)) (fe_val (VERIFY_QS v))"
    using e q(2) by (intro quotient_scalar_unique [OF f]) auto
  show "VERIFY_QR v' = VERIFY_QR v" using e by blast
qed

subsection \<open>The calls of the loop\<close>

definition verify_calls :: "sb_sw_curve \<Rightarrow> nat \<Rightarrow> sb_sw_context \<Rightarrow> sb_sw_context" where
  "verify_calls s n v = ((\<lambda>v. snd (sb_sw_verify_continue v s)) ^^ n) v"

lemma verify_calls_Suc: "verify_calls s (Suc n) v = snd (sb_sw_verify_continue (verify_calls s n v) s)"
  by (simp add: verify_calls_def)

lemma verify_calls_add: "verify_calls s (m + n) v = verify_calls s m (verify_calls s n v)"
  by (simp add: verify_calls_def funpow_add)

lemma set_MULT_STATE_follows [simp]:
  "follows s m M u g h q0 i (set_MULT_STATE q st) = follows s m M u g h q0 i q"
proof -
  have "coords_qr s (set_MULT_STATE q st) = coords_qr s q" by (simp add: coords_qr_def)
  then show ?thesis
    by (simp add: follows_def live_def dead_def accumulates_def same_inputs_def)
qed

text \<open>The state between two chunks, with bits below \<open>j + 1\<close> to be processed.\<close>

definition verify_ladder_at ::
  "sb_sw_curve \<Rightarrow> int \<Rightarrow> (int \<Rightarrow> affine) \<Rightarrow> int \<Rightarrow> int \<Rightarrow> int \<Rightarrow> sb_sw_context \<Rightarrow> sb_word \<Rightarrow> nat \<Rightarrow> sb_sw_context \<Rightarrow> bool" where
  "verify_ladder_at s m M u g h q0 res j v \<longleftrightarrow> follows s m M u g h q0 (Suc j) v \<and> unat (st_i (MULT_STATE v)) = j \<and>
     st_stage (MULT_STATE v) = SB_SW_VERIFY_OP_STAGE_LADDER \<and> st_res (MULT_STATE v) = res"

text \<open>The state before the comparison: the coordinates of some \<open>w\<close> have been converted.\<close>

definition verify_test_at ::
  "sb_sw_curve \<Rightarrow> int \<Rightarrow> (int \<Rightarrow> affine) \<Rightarrow> int \<Rightarrow> int \<Rightarrow> int \<Rightarrow> sb_sw_context \<Rightarrow> sb_word \<Rightarrow> sb_sw_context \<Rightarrow> bool" where
  "verify_test_at s m M u g h q0 res v \<longleftrightarrow> (\<exists>w. follows s m M u g h q0 0 w \<and>
     C_X1 v = sb_fe_mont_reduce (C_X1 w) (curve_p s) \<and> C_Y1 v = sb_fe_mont_reduce (C_Y1 w) (curve_p s) \<and>
     MULT_Z v = MULT_Z w \<and> VERIFY_QR v = VERIFY_QR q0) \<and>
     st_stage (MULT_STATE v) = SB_SW_VERIFY_OP_STAGE_TEST \<and> st_res (MULT_STATE v) = res"

lemma verify_continue_ladder:
  assumes "mont_ok (curve_p s)" "multiples (modulus (curve_p s)) A m M" "fermat_at (modulus (curve_p s)) 2"
    and "table_multiples s m M u g h q0"
    and at: "verify_ladder_at s m M u g h q0 res j v" and j: "j < 256"
  defines "v' \<equiv> snd (sb_sw_verify_continue v s)"
  shows "SB_SW_POINT_ITERATIONS \<le> j \<Longrightarrow> verify_ladder_at s m M u g h q0 res (j - SB_SW_POINT_ITERATIONS) v'"
    and "j = SB_SW_POINT_ITERATIONS - 1 \<Longrightarrow> verify_test_at s m M u g h q0 res v'"
proof -
  let ?st = "MULT_STATE v"
  have A: "follows s m M u g h q0 (Suc j) v" "unat (st_i ?st) = j" "st_stage ?st = SB_SW_VERIFY_OP_STAGE_LADDER"
    "st_res ?st = res"
    using at by (simp_all add: verify_ladder_at_def)
  have i: "st_i ?st < SB_FE_BITS"
    using A(2) j by (simp add: word_less_nat_alt SB_FE_BITS_def)
  obtain i' w where l: "mult_add_loop SB_SW_POINT_ITERATIONS (st_i ?st) v s = (i', w)" by fastforce
  have ne: "SB_SW_VERIFY_OP_STAGE_LADDER \<noteq> SB_SW_VERIFY_OP_STAGE_INV_S"
    "SB_SW_VERIFY_OP_STAGE_LADDER \<noteq> SB_SW_VERIFY_OP_STAGE_INV_Z"
    by (simp_all add: verify_stage_defs)
  have v': "v' = snd (sb_sw_point_mult_add_z_continue v s)"
    by (simp add: v'_def sb_sw_verify_continue_def Let_def A(3) ne case_prod_unfold)
  note fol = mult_add_loop_follows [OF assms(1-4), of "st_i ?st" v SB_SW_POINT_ITERATIONS, unfolded A(2) l snd_conv,
      OF A(1) i]
  note idx = mult_add_loop_index [OF i, of SB_SW_POINT_ITERATIONS v s, unfolded l fst_conv A(2)]
  show "verify_ladder_at s m M u g h q0 res (j - SB_SW_POINT_ITERATIONS) v'" if n: "SB_SW_POINT_ITERATIONS \<le> j"
  proof -
    have "v' = set_MULT_STATE w (?st\<lparr>st_i := i'\<rparr>)"
      using idx(1) n by (simp add: v' sb_sw_point_mult_add_z_continue_def Let_def A(3) ne l)
    then show ?thesis
      using idx(2) [OF n] fol n A(3,4) by (simp add: verify_ladder_at_def Suc_diff_le)
  qed
  show "verify_test_at s m M u g h q0 res v'" if n: "j = SB_SW_POINT_ITERATIONS - 1"
  proof -
    have "\<not> i' < SB_FE_BITS" and z: "Suc j - SB_SW_POINT_ITERATIONS = 0"
      using idx(1) n by (simp_all add: SB_SW_POINT_ITERATIONS_def)
    then have v'': "v' = set_MULT_STATE (w\<lparr>C_X1 := sb_fe_mont_reduce (C_X1 w) (curve_p s), C_T6 := C_Y1 w,
        C_Y1 := sb_fe_mont_reduce (C_Y1 w) (curve_p s)\<rparr>) (?st\<lparr>st_i := i', st_stage := SB_SW_VERIFY_OP_STAGE_TEST\<rparr>)"
      by (simp add: v' sb_sw_point_mult_add_z_continue_def Let_def A(3) ne l)
    have "follows s m M u g h q0 0 w"
      using fol n by (simp add: z SB_SW_POINT_ITERATIONS_def)
    moreover from this have "VERIFY_QR w = VERIFY_QR q0"
      by (simp add: follows_def same_inputs_def)
    ultimately show ?thesis
      unfolding verify_test_at_def v'' by (auto simp: A(4) intro!: exI [of _ w])
  qed
qed

lemma verify_calls_ladder:
  assumes "mont_ok (curve_p s)" "multiples (modulus (curve_p s)) A m M" "fermat_at (modulus (curve_p s)) 2"
    and "table_multiples s m M u g h q0" "verify_ladder_at s m M u g h q0 res 255 v"
  shows "verify_test_at s m M u g h q0 res (verify_calls s 16 v)"
proof -
  have "n \<le> 15 \<Longrightarrow> verify_ladder_at s m M u g h q0 res (255 - n * SB_SW_POINT_ITERATIONS) (verify_calls s n v)" for n
  proof (induction n)
    case 0
    show ?case using assms(5) by (simp add: verify_calls_def)
  next
    case (Suc n)
    then have at: "verify_ladder_at s m M u g h q0 res (255 - n * SB_SW_POINT_ITERATIONS) (verify_calls s n v)" by simp
    have "SB_SW_POINT_ITERATIONS \<le> 255 - n * SB_SW_POINT_ITERATIONS" "255 - n * SB_SW_POINT_ITERATIONS < 256"
      "255 - n * SB_SW_POINT_ITERATIONS - SB_SW_POINT_ITERATIONS = 255 - Suc n * SB_SW_POINT_ITERATIONS"
      using Suc.prems by (simp_all add: SB_SW_POINT_ITERATIONS_def)
    with verify_continue_ladder(1) [OF assms(1-4) at] show ?case
      by (simp only: verify_calls_Suc)
  qed
  from this [of 15] have at: "verify_ladder_at s m M u g h q0 res 15 (verify_calls s 15 v)"
    by (simp add: SB_SW_POINT_ITERATIONS_def)
  have "verify_test_at s m M u g h q0 res (verify_calls s (Suc 15) v)"
    unfolding verify_calls_Suc
    by (rule verify_continue_ladder(2) [OF assms(1-4) at]) (simp_all add: SB_SW_POINT_ITERATIONS_def)
  then show ?thesis by simp
qed

subsection \<open>The comparison\<close>

lemma fermat_at_coprime: "fermat_at P a \<Longrightarrow> coprime a P"
proof -
  assume f: "fermat_at P a"
  then have "P dvd a * a ^ nat (P - 2) - 1"
    using fermat_at_inverse [OF f] by (simp add: fermat_at_def flip: mod_eq_dvd_iff)
  then obtain k where k: "a * a ^ nat (P - 2) - 1 = P * k" ..
  show "coprime a P"
  proof (rule coprimeI)
    fix c assume "c dvd a" "c dvd P"
    then have "c dvd a * a ^ nat (P - 2) - P * k" by (intro dvd_diff dvd_mult2)
    with k show "is_unit c" by (simp add: algebra_simps)
  qed
qed

lemma verify_test_rejects:
  fixes v :: sb_sw_context
  assumes ok: "curve_ok s" and z: "quasi_reduced (curve_p s) (MULT_Z v)"
      "eqm (modulus (curve_p s)) (mval (curve_p s) (MULT_Z v)) 0"
    and qr: "quasi_reduced (curve_p s) (VERIFY_QR v)"
    and x: "C_X1 v \<noteq> prime_p (curve_p s) \<or> C_Y1 v = prime_p (curve_p s)"
  shows "fst (verify_test res v s) = 0"
proof -
  let ?p = "curve_p s" and ?P = "modulus (curve_p s)" and ?v = "mval (curve_p s)"
  note C = curve_okD [OF ok] and D = prime_field_okD [OF curve_okD(1) [OF ok]]
  define t6 where "t6 = sb_fe_mont_square (MULT_Z v) ?p"
  define rN where "rN = sb_fe_mod_add (VERIFY_QR v) (prime_p (curve_n s)) ?p"
  have t6: "?v t6 = 0" "quasi_reduced ?p t6"
    using z(2) by (simp_all add: t6_def mval_mont_square C(3) z(1) mont_square_qr eqm_mod)
      (metis mod_mult_left_eq mod_0 mult_zero_left)
  have T7: "sb_fe_mont_mult w t6 ?p = prime_p ?p" if w: "quasi_reduced ?p w" for w
  proof -
    have "fe_val (sb_fe_mont_mult w t6 ?p) mod ?P = 0"
      using mont_mult_fe_mval(1) [OF C(3) w t6(2)] t6(1) by simp
    then have "fe_val (sb_fe_mont_mult w t6 ?p) = fe_val (prime_p ?p)"
      using mont_qr [OF C(3) w t6(2)] D(4)
      by (intro quasi_reduced_eqm [where P = ?P]) (auto simp: quasi_reduced_def eqm_mod)
    then show ?thesis by (simp add: fe_val_inject)
  qed
  have "quasi_reduced ?p (prime_p (curve_n s))"
    using C(6,7) by (simp add: quasi_reduced_def)
  then have "quasi_reduced ?p rN"
    unfolding rN_def by (intro qr_intros qr)
  then have "fst (verify_test res v s) = res AND word_not (sb_fe_equal (C_X1 v) (prime_p ?p) AND sb_fe_equal (C_Y1 v) (prime_p ?p)) AND
      (0 OR sb_fe_equal (prime_p ?p) (C_X1 v) OR
        (sb_fe_lt (VERIFY_QR v) (fst (sb_fe_sub (prime_p ?p) (prime_p (curve_n s)))) AND sb_fe_equal (prime_p ?p) (C_X1 v)))"
    by (simp add: verify_test_def Let_def and.assoc T7 qr flip: t6_def rN_def)
  moreover have "prime_p ?p = C_X1 v \<longleftrightarrow> C_X1 v = prime_p ?p" by (rule eq_commute)
  ultimately show ?thesis
    using x by (simp add: sb_fe_equal_iff word_not_def)
qed

text \<open>The comparison after the loop, on both its outcomes.\<close>

lemma verify_test_val_at:
  assumes ok: "curve_ok s" and M: "multiples (modulus (curve_p s)) A m M"
    and at: "verify_test_at s m M u g h q0 res v" and r: "scalar_valid s (VERIFY_QR q0)"
  defines "kp \<equiv> fe_val (MULT_K q0)" and "kg \<equiv> fe_val (MULT_ADD_KG q0)"
  shows "fst (verify_test res v s) = res AND of_bool ((\<forall>i < 256. shamir_regular_at m kp kg u g h i) \<and>
    fst (M (shamir_sum kp kg u g h 0)) mod modulus (curve_p s) mod modulus (curve_n s) = fe_val (VERIFY_QR q0))"
proof -
  let ?p = "curve_p s" and ?P = "modulus (curve_p s)" and ?v = "mval (curve_p s)"
  note C = curve_okD [OF ok] and D = prime_field_okD [OF curve_okD(1) [OF ok]]
  obtain w where w: "follows s m M u g h q0 0 w" "C_X1 v = sb_fe_mont_reduce (C_X1 w) ?p"
    "C_Y1 v = sb_fe_mont_reduce (C_Y1 w) ?p" "MULT_Z v = MULT_Z w" "VERIFY_QR v = VERIFY_QR q0"
    using at by (auto simp: verify_test_at_def)
  have qr: "quasi_reduced ?p (VERIFY_QR v)"
    using r C(7) by (simp add: w(5) quasi_reduced_def scalar_valid_def)
  have red: "fe_val (sb_fe_mont_reduce x ?p) = qrep ?P (?v x)" "quasi_reduced ?p (sb_fe_mont_reduce x ?p)"
    if "quasi_reduced ?p x" for x
    using sb_fe_mont_reduce_val [OF C(1) that] by simp_all
  have zero: "sb_fe_mont_reduce x ?p = prime_p ?p \<longleftrightarrow> eqm ?P (?v x) 0" if "quasi_reduced ?p x" for x
    using red(1) [OF that] D(4) by (simp add: qrep_eq_modulus eqm_mod flip: fe_val_inject)
  show ?thesis
  proof (cases "\<forall>i < 256. shamir_regular_at m kp kg u g h i")
    case True
    let ?e = "shamir_sum kp kg u g h 0"
    have "live s m M ?e w"
      using w(1) True by (simp add: follows_def shamir_at_def kp_def kg_def)
    then have L: "coords_qr s w" "quasi_reduced ?p (MULT_Z w)" "fermat_at ?P (?v (MULT_Z w))" "\<not> m dvd ?e"
      "jacobian ?P (?v (MULT_Z w)) (M ?e) (reg1 s w)"
      by (simp_all add: live_def accumulates_def)
    note J = jacobianD [OF L(5), unfolded reg1_def fst_conv snd_conv] and q = coords_qrD [OF L(1)]
    let ?x = "fst (M ?e) mod ?P"
    have "eqm ?P (fe_val (C_X1 v)) (?v (C_X1 w))"
      by (simp add: w(2) red(1) [OF q(1)] eqm_mod)
    also note J(1)
    also have "eqm ?P (fst (M ?e) * (?v (MULT_Z w) * ?v (MULT_Z w))) (?x * (?v (MULT_Z v) * ?v (MULT_Z v)))"
      by (simp add: w(4) eqm_mod mod_mult_left_eq)
    finally have x: "eqm ?P (fe_val (C_X1 v)) (?x * (?v (MULT_Z v) * ?v (MULT_Z v)))" .
    have y: "C_Y1 v \<noteq> prime_p ?p"
    proof
      assume "C_Y1 v = prime_p ?p"
      then have "eqm ?P (snd (M ?e) * (?v (MULT_Z w) * (?v (MULT_Z w) * ?v (MULT_Z w)))) 0"
        using J(2) by (simp add: w(3) zero [OF q(2)]) (meson eqm_sym eqm_trans)
      moreover have "fermat_at ?P (snd (M ?e) * (?v (MULT_Z w) * (?v (MULT_Z w) * ?v (MULT_Z w))))"
        using multiplesD(6) [OF M L(4)] L(3) by (intro fermat_at_mult)
      ultimately show False
        using fermat_at_not_dvd by (auto simp: eqm_def)
    qed
    obtain res' v' where t: "verify_test res v s = (res', v')" by fastforce
    have "quasi_reduced ?p (C_X1 v)" "quasi_reduced ?p (MULT_Z v)" "coprime (?v (MULT_Z v)) ?P" "scalar_valid s (VERIFY_QR v)"
      using red(2) [OF q(1)] L(2) fermat_at_coprime [OF L(3)] r by (simp_all add: w(2,4,5))
    from verify_test_val [OF ok t this(4,1-3) _ _ x] True y D(4) show ?thesis
      by (simp add: t w(5))
  next
    case False
    then have "\<not> (\<forall>j \<in> {0..<256}. shamir_regular_at m kp kg u g h j)" by auto
    with w(1) have "dead s w"
      unfolding follows_def kp_def kg_def by meson
    then have L: "coords_qr s w" "quasi_reduced ?p (MULT_Z w)" "eqm ?P (?v (MULT_Z w)) 0"
      "zero_point ?P (reg1 s w) \<or> fermat_at ?P (fst (reg1 s w))"
      by (auto simp: dead_def)
    note q = coords_qrD [OF L(1)]
    have "C_X1 v \<noteq> prime_p ?p \<or> C_Y1 v = prime_p ?p"
      using L(4) fermat_at_not_dvd [of ?P "fst (reg1 s w)"]
      by (auto simp: w(2,3) zero [OF q(1)] zero [OF q(2)] zero_point_def reg1_def eqm_def)
    with verify_test_rejects [OF ok _ _ qr, of res] L(2,3) have "fst (verify_test res v s) = 0"
      by (simp add: w(4))
    with False show ?thesis by auto
  qed
qed

subsection \<open>The whole operation\<close>

lemma verify_start_fields:
  fixes v :: sb_sw_context and s :: sb_sw_curve
  defines "v' \<equiv> sb_sw_verify_start v s"
  shows "MULT_STATE v' = saved_state_zero\<lparr>st_operation := SB_SW_INCREMENTAL_OPERATION_VERIFY_SIGNATURE,
      st_stage := SB_SW_VERIFY_OP_STAGE_INV_S, st_res := 1, st_curve_id := curve_id s\<rparr>"
    and "VERIFY_QR v' = VERIFY_QR v" "VERIFY_MESSAGE v' = VERIFY_MESSAGE v" "VERIFY_QS v' = VERIFY_QS v"
    and "MULT_Z v' = MULT_Z v" "MULT_POINT_X v' = MULT_POINT_X v" "MULT_POINT_Y v' = MULT_POINT_Y v"
  by (simp_all add: v'_def sb_sw_verify_start_def)

text \<open>
  The verdict: both scalars in range, the digest not zero, no exceptional addition, and the
  abscissa of the sum of the multiples of \<open>G\<close> and of the key congruent to \<open>r\<close>.
\<close>

definition signature_accepted ::
  "sb_sw_curve \<Rightarrow> int \<Rightarrow> (int \<Rightarrow> affine) \<Rightarrow> int \<Rightarrow> int \<Rightarrow> int \<Rightarrow> sb_fe \<Rightarrow> sb_fe \<Rightarrow> sb_fe \<Rightarrow> bool" where
  "signature_accepted s m M u g h r t msg \<longleftrightarrow>
     (let N = modulus (curve_n s); kp = quotient_scalar N (fe_val r) (fe_val t);
          kg = quotient_scalar N (fe_val msg) (fe_val t)
      in scalar_valid s r \<and> scalar_valid s t \<and> fe_val msg mod N \<noteq> 0 \<and>
         (\<forall>i < 256. shamir_regular_at m kp (kg - 1) u g h i) \<and>
         fst (M (kp * u + kg * g)) mod modulus (curve_p s) mod N = fe_val r)"

lemma sb_sw_verify_val:
  fixes v :: sb_sw_context
  assumes cv: "verify_curve s m M g h" and u: "table_key m u g h" and key: "verify_key s M u v"
    and f: "scalar_valid s (VERIFY_QS v) \<Longrightarrow> fermat_at (modulus (curve_n s)) (fe_val (VERIFY_QS v))"
  defines "v' \<equiv> verify_calls s 19 (sb_sw_verify_start v s)"
  shows "sb_sw_verify_is_finished v'"
    and "st_res (MULT_STATE v') = of_bool (signature_accepted s m M u g h (VERIFY_QR v) (VERIFY_QS v) (VERIFY_MESSAGE v))"
proof -
  note C = verify_curveD [OF cv] and M = verify_curveD(2) [OF cv]
  define v0 where "v0 = sb_sw_verify_start v s"
  note F = verify_start_fields [of v s, folded v0_def]
  let ?r = "VERIFY_QR v" and ?t = "VERIFY_QS v" and ?msg = "VERIFY_MESSAGE v" and ?N = "modulus (curve_n s)"
  obtain r1 w1 where inv: "verify_inv_s 1 v0 s = (r1, w1)" by fastforce
  define v1 where "v1 = verify_calls s 1 v0"
  have v1: "v1 = set_MULT_STATE w1 (MULT_STATE v0\<lparr>st_res := r1, st_stage := SB_SW_VERIFY_OP_STAGE_INV_Z\<rparr>)"
    by (simp add: v1_def verify_calls_def sb_sw_verify_continue_def Let_def F(1) inv)
  note fr = verify_inv_s_frame [OF C(1) inv, unfolded F]
  have key1: "verify_key s M u v1"
    using key by (simp add: verify_key_def point_qr_def v1 fr)
  define q0 where "q0 = mult_add_inv_z v1 s"
  note Z = mult_add_inv_z_val [OF cv u key1, folded q0_def]
  define v2 where "v2 = verify_calls s 1 v1"
  have v2: "v2 = set_MULT_STATE q0 (MULT_STATE v1\<lparr>st_i := SB_FE_BITS - 1, st_stage := SB_SW_VERIFY_OP_STAGE_LADDER\<rparr>)"
    by (simp add: v2_def verify_calls_def sb_sw_verify_continue_def sb_sw_point_mult_add_z_continue_def Let_def
        q0_def) (simp add: v1 verify_stage_defs)
  have "follows s m M u g h q0 256 q0"
    using Z(2) by (simp add: follows_def same_inputs_def shamir_at_def)
  then have "verify_ladder_at s m M u g h q0 r1 255 v2"
    by (simp add: verify_ladder_at_def v2) (simp add: v1 SB_FE_BITS_def)
  note at = verify_calls_ladder [OF curve_okD(3) [OF C(1)] M C(3) Z(1) this]
  define v3 where "v3 = verify_calls s 16 v2"
  obtain r4 w4 where test: "verify_test r1 v3 s = (r4, w4)" by fastforce
  have st3: "st_stage (MULT_STATE v3) = SB_SW_VERIFY_OP_STAGE_TEST" "st_res (MULT_STATE v3) = r1"
    using at by (simp_all add: verify_test_at_def v3_def)
  have "v' = verify_calls s (1 + 16 + 1 + 1) v0"
    by (simp add: v'_def v0_def)
  also have "\<dots> = verify_calls s 1 v3"
    by (simp only: verify_calls_add v3_def v2_def v1_def)
  finally have v': "v' = set_MULT_STATE w4 (MULT_STATE v3\<lparr>st_res := r4, st_stage := SB_SW_VERIFY_OP_DONE\<rparr>)"
    by (simp add: verify_calls_def sb_sw_verify_continue_def Let_def st3 test) (simp add: verify_stage_defs)
  then show "sb_sw_verify_is_finished v'"
    by (simp add: sb_sw_verify_is_finished_def)
  have r1: "r1 = of_bool (scalar_valid s ?r \<and> scalar_valid s ?t \<and> fe_val ?msg mod ?N \<noteq> 0)"
    using verify_inv_s_val(1) [OF C(1) inv] by (simp add: F)
  have r4: "st_res (MULT_STATE v') = fst (verify_test r1 v3 s)" by (simp add: v' test)
  show "st_res (MULT_STATE v') = of_bool (signature_accepted s m M u g h ?r ?t ?msg)"
  proof (cases "scalar_valid s ?r \<and> scalar_valid s ?t \<and> fe_val ?msg mod ?N \<noteq> 0")
    case False
    then have "r1 = 0" by (simp add: r1)
    then have "fst (verify_test r1 v3 s) = 0"
      by (simp add: verify_test_def Let_def)
    with False show ?thesis
      by (auto simp: r4 signature_accepted_def Let_def)
  next
    case True
    then have valid: "scalar_valid s ?r" "scalar_valid s ?t" by simp_all
    note k = verify_inv_s_scalars [OF C(1) inv, unfolded F, OF f [OF valid(2)] valid]
    let ?kp = "quotient_scalar ?N (fe_val ?r) (fe_val ?t)" and ?kg = "quotient_scalar ?N (fe_val ?msg) (fe_val ?t)"
    have kg1: "1 \<le> fe_val (MULT_ADD_KG w1)"
      using fr(2) by (simp add: quasi_reduced_def)
    have K: "fe_val (MULT_K q0) = ?kp" "VERIFY_QR q0 = ?r"
      using k by (simp_all add: Z v1)
    have "fe_val (MULT_ADD_KG q0) = (fe_val (MULT_ADD_KG w1) - 1) mod 2 ^ 256"
      by (simp add: Z v1 sb_fe_sub_val)
    also have "\<dots> = ?kg - 1"
      using kg1 fe_val_bound [of "MULT_ADD_KG w1"] k(2) by (simp add: mod_pos_pos_trivial)
    finally have KG: "fe_val (MULT_ADD_KG q0) = ?kg - 1" .
    have "m dvd shamir_sum ?kp (?kg - 1) u g h 0 - (?kp * u + ?kg * g)"
      using C(5) by (simp add: shamir_sum_def algebra_simps)
    then have "M (shamir_sum ?kp (?kg - 1) u g h 0) = M (?kp * u + ?kg * g)"
      by (rule multiplesD(3) [OF M])
    with verify_test_val_at [OF C(1) M at, folded v3_def, unfolded K KG, OF valid(1)] True show ?thesis
      by (simp add: r4 r1 signature_accepted_def Let_def)
  qed
qed

end
