(* ===== verification/Signing.thy ===== *)
theory Signing
  imports Scalar_Mult Verification
begin

text \<open>
  Signing below the public interface as a whole: from \<open>sb_sw_sign_start\<close> through eighteen calls of
  \<open>sb_sw_sign_continue\<close> to the signature, and the agreement of signing with verification.
\<close>

subsection \<open>The operands of signing are kept\<close>

lemma sb_sw_point_mult_start_operands [simp]:
  "SIGN_MESSAGE (sb_sw_point_mult_start m s) = SIGN_MESSAGE m"
  "SIGN_PRIVATE (sb_sw_point_mult_start m s) = SIGN_PRIVATE m"
  by (simp_all add: sb_sw_point_mult_start_def point_mult_apply_z_def sb_sw_regularize_scalar_def
      point_mult_zero_point_def Let_def case_prod_unfold)

lemma sb_sw_point_mult_continue_operands [simp]:
  "SIGN_MESSAGE (snd (sb_sw_point_mult_continue m s)) = SIGN_MESSAGE m"
  "SIGN_PRIVATE (snd (sb_sw_point_mult_continue m s)) = SIGN_PRIVATE m"
proof -
  have r: "use_0 (snd (point_mult_recover_z st m s)) = use_0 m" "use_1 (snd (point_mult_recover_z st m s)) = use_1 m"
    for st
    by (simp_all add: point_mult_recover_z_def Let_def case_prod_unfold)
  have o: "use_0 (point_mult_output st m s) = use_0 m" "use_1 (point_mult_output st m s) = use_1 m" for st m
    by (simp_all add: point_mult_output_def Let_def case_prod_unfold)
  show "SIGN_MESSAGE (snd (sb_sw_point_mult_continue m s)) = SIGN_MESSAGE m"
    "SIGN_PRIVATE (snd (sb_sw_point_mult_continue m s)) = SIGN_PRIVATE m"
    by (simp_all add: sb_sw_point_mult_continue_def Let_def case_prod_unfold r o)
qed

lemma mult_calls_operands [simp]:
  "SIGN_MESSAGE (mult_calls s n m) = SIGN_MESSAGE m" "SIGN_PRIVATE (mult_calls s n m) = SIGN_PRIVATE m"
  by (induction n) (simp_all add: mult_calls_def)

subsection \<open>The calls\<close>

definition sign_calls :: "sb_sw_curve \<Rightarrow> nat \<Rightarrow> sb_sw_context \<Rightarrow> sb_sw_context" where
  "sign_calls s n g = ((\<lambda>g. snd (snd (sb_sw_sign_continue g s))) ^^ n) g"

lemma sign_calls_Suc: "sign_calls s (Suc n) g = snd (snd (sb_sw_sign_continue (sign_calls s n g) s))"
  by (simp add: sign_calls_def)

text \<open>Until the multiplication is done a call is a call of the multiplication.\<close>

lemma sign_calls_mult:
  assumes "point_mult_left (MULT_STATE g) = k" "n \<le> k"
  shows "sign_calls s n g = mult_calls s n g \<and> point_mult_left (MULT_STATE (mult_calls s n g)) = k - n"
  using assms(2)
proof (induction n)
  case 0
  show ?case using assms(1) by (simp add: sign_calls_def mult_calls_def)
next
  case (Suc n)
  let ?g = "mult_calls s n g"
  obtain d h where c: "sb_sw_point_mult_continue ?g s = (d, h)" by fastforce
  have IH: "sign_calls s n g = ?g" "point_mult_left (MULT_STATE ?g) = k - n"
    using Suc by simp_all
  then have "0 < point_mult_left (MULT_STATE ?g)" using Suc.prems by simp
  note st = sb_sw_point_mult_continue_state(3) [OF c this]
  have "st_stage (MULT_STATE ?g) \<noteq> SB_SW_SIGN_OP_STAGE_DONE" "st_stage (MULT_STATE ?g) \<noteq> SB_SW_SIGN_OP_STAGE_INV"
    using IH(2) Suc.prems by (auto simp: point_mult_left_def mult_stage_defs split: if_splits)
  then have "sign_calls s (Suc n) g = h"
    by (simp add: sign_calls_Suc IH(1) sb_sw_sign_continue_def c)
  moreover have "mult_calls s (Suc n) g = h"
    using c by (simp add: mult_calls_def)
  ultimately show ?case using st IH(2) by auto
qed

subsection \<open>The signature\<close>

text \<open>The context in which \<open>sb_sw_sign_start\<close> starts the multiplication of the base point.\<close>

definition sign_input :: "sb_sw_context \<Rightarrow> sb_sw_curve \<Rightarrow> sb_sw_context" where
  "sign_input g s = set_MULT_STATE (g\<lparr>MULT_POINT_X := pair_x (g_r s), MULT_POINT_Y := pair_y (g_r s)\<rparr>)
     (saved_state_zero\<lparr>st_operation := SB_SW_INCREMENTAL_OPERATION_SIGN_MESSAGE_DIGEST, st_curve_id := curve_id s\<rparr>)"

lemma sb_sw_sign_start_input: "sb_sw_sign_start g s = sb_sw_point_mult_start (sign_input g s) s"
  by (simp add: sb_sw_sign_start_def sign_input_def Let_def)

lemma sign_input_operands:
  "SIGN_MESSAGE (sign_input g s) = SIGN_MESSAGE g" "SIGN_PRIVATE (sign_input g s) = SIGN_PRIVATE g"
  "MULT_K (sign_input g s) = MULT_K g"
  by (simp_all add: sign_input_def)

lemma sb_sw_sign_val:
  fixes g :: sb_sw_context
  assumes ok: "curve_ok s" and two: "fermat_at (modulus (curve_p s)) 2"
    and inp: "mult_input s m M (sign_input g s)" and mN: "m dvd modulus (curve_n s)"
  defines "N \<equiv> modulus (curve_n s)" and "k \<equiv> fe_val (MULT_K g)" and "g' \<equiv> sign_calls s 17 (sb_sw_sign_start g s)"
  assumes N1: "N + 1 < 2 ^ 256" and ld: "ladder_defined N m k" and f: "fermat_at N k"
    and q: "quasi_reduced (curve_n s) (SIGN_PRIVATE g)" "quasi_reduced (curve_n s) (SIGN_MESSAGE g)"
    and r: "sb_sw_sign_continue g' s = (err, fin, g'')"
  shows "fin" "sb_sw_sign_is_finished g''"
    and "fe_val (C_X2 g'') = qrep N (qrep (modulus (curve_p s)) (fst (M k)))"
    and "(k * fe_val (C_Y2 g'')) mod N = (fe_val (SIGN_MESSAGE g) + fe_val (C_X2 g'') * fe_val (SIGN_PRIVATE g)) mod N"
    and "err = (if scalar_valid s (C_X2 g'') \<and> scalar_valid s (C_Y2 g'') then SB_SUCCESS else SB_ERROR_DRBG_FAILURE)"
    and "fe_val (C_Y2 g'') = quotient_scalar N (fe_val (SIGN_MESSAGE g) + fe_val (C_X2 g'') * fe_val (SIGN_PRIVATE g)) k"
proof -
  note C = curve_okD [OF ok]
  have cv: "mult_curve_ok s"
    using C(1,6,12,13) two by (simp add: mult_curve_ok_def)
  let ?i = "sign_input g s"
  have K: "fe_val (MULT_K ?i) = k" by (simp add: sign_input_operands k_def)
  have left: "point_mult_left (MULT_STATE (sb_sw_point_mult_start ?i s)) = 17"
    by (rule point_mult_left_start)
  have g': "g' = mult_calls s 17 (sb_sw_point_mult_start ?i s)" "point_mult_left (MULT_STATE g') = 0"
    using sign_calls_mult [OF left, of 17 s] by (simp_all add: g'_def sb_sw_sign_start_input)
  note inp' = mult_inputD [OF inp]
  note v = sb_sw_point_mult_val [OF cv disjI1 [OF inp'(1)] inp'(2) mN N1 [unfolded N_def],
      unfolded point_mult_zero_point_other(1) [OF mult_dataD(8) [OF inp'(1)]] K, folded N_def g'(1), unfolded if_P [OF ld]]
  have st: "st_stage (MULT_STATE g') = SB_SW_SIGN_OP_STAGE_INV"
    using v(1) by (simp add: sb_sw_point_mult_is_finished_def SB_SW_SIGN_OP_STAGE_INV_def)
  have ops: "SIGN_MESSAGE g' = SIGN_MESSAGE g" "SIGN_PRIVATE g' = SIGN_PRIVATE g" "fe_val (MULT_K g') = k"
    using v(2) K by (simp_all add: g'(1) sign_input_operands)
  obtain e h where inv: "sign_inv g' s = (e, h)" by fastforce
  have ne': "SB_SW_SIGN_OP_STAGE_INV \<noteq> SB_SW_SIGN_OP_STAGE_DONE"
    by (simp add: mult_stage_defs)
  have res: "err = e" "fin" "g'' = set_MULT_STATE h (MULT_STATE g'\<lparr>st_stage := SB_SW_SIGN_OP_STAGE_DONE\<rparr>)"
    using r by (simp_all add: sb_sw_sign_continue_def Let_def st ne' inv)
  then show "fin" "sb_sw_sign_is_finished g''"
    by (simp_all add: sb_sw_sign_is_finished_def)
  have kv: "scalar_valid s (MULT_K g')"
    using mult_dataD(6,7) [OF inp'(1)] ops(3) by (simp add: scalar_valid_def K)
  note sv = sign_inv_val [OF ok kv _ _ _ inv, unfolded ops, folded N_def, OF f q]
  have X: "fe_val (C_X2 g'') = qrep N (fe_val (C_X1 g'))"
    using sv(1) by (simp add: res)
  then show "fe_val (C_X2 g'') = qrep N (qrep (modulus (curve_p s)) (fst (M k)))"
    using v(3) by simp
  have "(fe_val (SIGN_MESSAGE g) + fe_val (C_X1 g') * fe_val (SIGN_PRIVATE g)) mod N =
      (fe_val (SIGN_MESSAGE g) + fe_val (C_X2 g'') * fe_val (SIGN_PRIVATE g)) mod N"
    unfolding X by (intro mod_add_cong mod_mult_cong) simp_all
  then show eq: "(k * fe_val (C_Y2 g'')) mod N =
      (fe_val (SIGN_MESSAGE g) + fe_val (C_X2 g'') * fe_val (SIGN_PRIVATE g)) mod N"
    using sv(2) by (simp add: res)
  show "fe_val (C_Y2 g'') = quotient_scalar N (fe_val (SIGN_MESSAGE g) + fe_val (C_X2 g'') * fe_val (SIGN_PRIVATE g)) k"
    using sv(4) eq by (intro quotient_scalar_unique f) (simp_all add: res quasi_reduced_def N_def mult.commute)
  show "err = (if scalar_valid s (C_X2 g'') \<and> scalar_valid s (C_Y2 g'') then SB_SUCCESS else SB_ERROR_DRBG_FAILURE)"
    using sv(3) by (simp add: res)
qed

subsection \<open>Signing and verifying\<close>

text \<open>
  A signature that satisfies the signing equation is accepted with the key of the signer, when
  the abscissa of the ephemeral point is not zero and verification meets no exceptional addition.
\<close>

lemma signature_accepted_signed:
  assumes M: "multiples P A m M" and mN: "m dvd modulus (curve_n s)" and P: "P = modulus (curve_p s)"
    and f: "fermat_at (modulus (curve_n s)) (fe_val t)"
    and valid: "scalar_valid s r" "scalar_valid s t" and msg: "fe_val msg mod modulus (curve_n s) \<noteq> 0"
    and x: "\<not> P dvd fst (M k)" "fe_val r = qrep (modulus (curve_n s)) (qrep P (fst (M k)))"
    and e: "(k * fe_val t) mod modulus (curve_n s) = (fe_val msg + fe_val r * d) mod modulus (curve_n s)"
  defines "kp \<equiv> quotient_scalar (modulus (curve_n s)) (fe_val r) (fe_val t)"
    and "kg \<equiv> quotient_scalar (modulus (curve_n s)) (fe_val msg) (fe_val t)"
  assumes reg: "\<forall>i < 256. shamir_regular_at m kp (kg - 1) d 1 h i"
  shows "signature_accepted s m M d 1 h r t msg"
proof -
  let ?N = "modulus (curve_n s)"
  have q: "(quotient_scalar ?N a (fe_val t) * fe_val t) mod ?N = a mod ?N" for a
  proof -
    have "(quotient_scalar ?N a (fe_val t) * fe_val t) mod ?N = (a * fe_val t ^ nat (?N - 2) * fe_val t) mod ?N"
      unfolding quotient_scalar_def by (rule mod_mult_cong) simp_all
    also have "\<dots> = (a * ((fe_val t * fe_val t ^ nat (?N - 2)) mod ?N)) mod ?N"
      by (simp add: mod_mult_right_eq ac_simps)
    finally show ?thesis by (simp add: fermat_at_inverse [OF f])
  qed
  have "((kp * d + kg * 1) * fe_val t) mod ?N = (kp * fe_val t * d + kg * fe_val t) mod ?N"
    by (simp add: algebra_simps)
  also have "\<dots> = (fe_val r * d + fe_val msg) mod ?N"
    unfolding kp_def kg_def by (intro mod_add_cong mod_mult_cong q refl)
  also have "\<dots> = (k * fe_val t) mod ?N"
    by (simp add: e add.commute)
  finally have "?N dvd (kp * d + kg * 1 - k) * fe_val t"
    by (simp add: mod_eq_dvd_iff left_diff_distrib)
  then have "?N dvd kp * d + kg * 1 - k"
    using fermat_at_coprime [OF f] by (simp add: coprime_commute coprime_dvd_mult_left_iff)
  then have "M (kp * d + kg * 1) = M k"
    using mN by (intro multiplesD(3) [OF M]) (rule dvd_trans)
  moreover have "fst (M k) mod P mod ?N = fe_val r"
  proof -
    have "qrep P (fst (M k)) = fst (M k) mod P"
      using x(1) by (simp add: qrep_def dvd_eq_mod_eq_0)
    with x(2) have "fe_val r = qrep ?N (fst (M k) mod P)" by simp
    moreover have "fe_val r < ?N" using valid(1) by (simp add: scalar_valid_def)
    ultimately show ?thesis by (auto simp: qrep_def split: if_splits)
  qed
  ultimately show ?thesis
    using valid msg reg by (simp add: signature_accepted_def Let_def P kp_def kg_def)
qed

text \<open>The whole round: what signing returns, verification accepts.\<close>

lemma signed_verified:
  fixes g v :: sb_sw_context
  assumes cv: "verify_curve s m M 1 h" and d: "table_key m d 1 h" and key: "verify_key s M d v"
    and inp: "mult_input s m M (sign_input g s)"
  defines "N \<equiv> modulus (curve_n s)" and "k \<equiv> fe_val (MULT_K g)" and "g' \<equiv> sign_calls s 17 (sb_sw_sign_start g s)"
  assumes N1: "N + 1 < 2 ^ 256" and ld: "ladder_defined N m k" and f: "fermat_at N k"
    and priv: "quasi_reduced (curve_n s) (SIGN_PRIVATE g)" "fe_val (SIGN_PRIVATE g) = d"
    and msg: "quasi_reduced (curve_n s) (SIGN_MESSAGE g)" "fe_val (SIGN_MESSAGE g) \<noteq> N"
    and r: "sb_sw_sign_continue g' s = (SB_SUCCESS, fin, g'')" and x: "\<not> modulus (curve_p s) dvd fst (M k)"
    and sig: "VERIFY_QR v = C_X2 g''" "VERIFY_QS v = C_Y2 g''" "VERIFY_MESSAGE v = SIGN_MESSAGE g"
    and ft: "fermat_at N (fe_val (C_Y2 g''))"
    and reg: "\<forall>i < 256. shamir_regular_at m (quotient_scalar N (fe_val (C_X2 g'')) (fe_val (C_Y2 g'')))
      (quotient_scalar N (fe_val (SIGN_MESSAGE g)) (fe_val (C_Y2 g'')) - 1) d 1 h i"
  defines "v' \<equiv> verify_calls s 19 (sb_sw_verify_start v s)"
  shows "sb_sw_verify_is_finished v'" "st_res (MULT_STATE v') = 1"
proof -
  note C = verify_curveD [OF cv]
  note sv = sb_sw_sign_val [OF C(1,3) inp C(4), folded k_def N_def g'_def, OF N1 ld f priv(1) msg(1) r, folded g'_def]
  have valid: "scalar_valid s (C_X2 g'')" "scalar_valid s (C_Y2 g'')"
    using sv(5) error_codes_nonzero by (auto simp: SB_SUCCESS_def split: if_splits)
  have m0: "fe_val (SIGN_MESSAGE g) mod N \<noteq> 0"
    using msg by (simp add: quasi_reduced_def N_def)
  note vv = sb_sw_verify_val [OF cv d key, unfolded sig, folded N_def v'_def, OF ft]
  show "sb_sw_verify_is_finished v'" by (rule vv(1))
  have "signature_accepted s m M d 1 h (C_X2 g'') (C_Y2 g'') (SIGN_MESSAGE g)"
    using signature_accepted_signed [OF C(2,4) refl ft [unfolded N_def] valid m0 [unfolded N_def] x
        sv(3) [unfolded N_def] sv(4) [unfolded N_def priv(2)] reg [unfolded N_def]] .
  then show "st_res (MULT_STATE v') = 1" by (simp add: vv(2))
qed

end
