(* ===== verification/Test_Curve.thy ===== *)
theory Test_Curve
  imports Small_Groups
begin

text \<open>
  A curve of the size of the library's own on which the concrete instances of signing and
  verification are computed: \<open>y\<^sup>2 = x\<^sup>3 - 43 x + 166\<close>, whose point \<open>(3, 8)\<close> has order seven over the
  integers already. Its moduli are 256-bit products of small primes with Fermat's property, and
  seven divides the order of the scalar field.
\<close>

definition test_field_p :: sb_prime_field where
  "test_field_p = \<lparr>prime_p = sb_fe_const 0xe38de2ff55842c2d 0xe0926b99319838ab 0x28a3ff84616f3a9 0xe338731647a496b7,
     p_mp = 0x46b4dc383539d8f9,
     p_minus_two_f1 = sb_fe_const 0 0 0 1,
     p_minus_two_f2 = sb_fe_const 0xe38de2ff55842c2d 0xe0926b99319838ab 0x28a3ff84616f3a9 0xe338731647a496b5,
     r2_mod_p = sb_fe_const 0x4adf7e25ee142af2 0xad830fb3171496 0xbca3bde4c8678afa 0x31abc0aaf4e75e0a,
     r_mod_p = sb_fe_const 0x1c721d00aa7bd3d2 0x1f6d9466ce67c754 0xfd75c007b9e90c56 0x1cc78ce9b85b6949,
     bits = 256\<rparr>"

definition test_field_n :: sb_prime_field where
  "test_field_n = \<lparr>prime_p = sb_fe_const 0xcab60301b72c30a0 0x59de53d6d70aa7b7 0xc190210b02789902 0x643eb51ae608f2c1,
     p_mp = 0x13216dc57ca562bf,
     p_minus_two_f1 = sb_fe_const 0 0 0 1,
     p_minus_two_f2 = sb_fe_const 0xcab60301b72c30a0 0x59de53d6d70aa7b7 0xc190210b02789902 0x643eb51ae608f2bf,
     r2_mod_p = sb_fe_const 0x356571fa5dd43df6 0x93d2063ce2fc2f94 0x6c4a5303df5538c8 0x811a397b138e857b,
     r_mod_p = sb_fe_const 0x3549fcfe48d3cf5f 0xa621ac2928f55848 0x3e6fdef4fd8766fd 0x9bc14ae519f70d3f,
     bits = 256\<rparr>"

definition test_curve :: sb_sw_curve where
  "test_curve = \<lparr>curve_p = test_field_p, curve_n = test_field_n,
     minus_a = sb_fe_const 0 0 0 43,
     minus_a_r_over_three = sb_fe_const 0xb42b120a36155a95 0xe1e58e285ce1f06c 0x83b82b2122a0127d 0xb9491b550acef90a,
     curve_b = sb_fe_const 0 0 0 166,
     g_r = \<lparr>pair_x = sb_fe_const 0x55565701ff737b76 0x5e48bd346b3755fe 0xf86140172dbb2502 0x5656a6bd29123bdb,
       pair_y = sb_fe_const 0x30505fe5a7263 0x1ada379d41a601fc 0xe923c04589316f07 0x303f4377b36b391\<rparr>,
     h_r = \<lparr>pair_x = sb_fe_const 0x555351fc01190913 0x436e859729915402 0xf3d7fd1a489b5fb 0x5352b285addb884a,
       pair_y = sb_fe_const 0x60a0bfcb4e4c6 0x35b46f3a834c03f9 0xd247808b1262de0e 0x607e86ef66d6722\<rparr>,
     g_h_r = \<lparr>pair_x = sb_fe_const 0x55565701ff737b76 0x5e48bd346b3755fe 0xf86140172dbb2502 0x5656a6bd29123bdb,
       pair_y = sb_fe_const 0xe38addf95729b9ca 0xc5b833fbeff236ae 0x19667fb2bce584a2 0xe0347edecc6de326\<rparr>,
     dz_r = \<lparr>pair_x = sb_fe_const 0x55565701ff737b76 0x5e48bd346b3755fe 0xf86140172dbb2502 0x5656a6bd29123bdb,
       pair_y = sb_fe_const 0x30505fe5a7263 0x1ada379d41a601fc 0xe923c04589316f07 0x303f4377b36b391\<rparr>,
     curve_id = 0\<rparr>"

lemma test_field_p_val:
  "modulus test_field_p = 102925708743001914577513911659997341036765397128372509983862302512974475335351"
  "fe_val (p_minus_two_f1 test_field_p) = 1" "fe_val (p_minus_two_f2 test_field_p) = 102925708743001914577513911659997341036765397128372509983862302512974475335349"
  "fe_val (r_mod_p test_field_p) = 12866380494314280846057073348690566816504587537268054055595281494938654304585"
  "fe_val (r2_mod_p test_field_p) = 33866028333237636691110266828040777934154656495899890078721206279584751246858"
  "bits test_field_p = 256" "uint (p_mp test_field_p) = 5094939212432136441"
  by (simp_all add: test_field_p_def sb_fe_const_def fe_val_FE)

lemma test_field_p_ok: "prime_field_ok test_field_p"
  unfolding prime_field_ok_def mont_ok_def test_field_p_val
proof (intro conjI)
  show "odd (102925708743001914577513911659997341036765397128372509983862302512974475335351 :: int)" by simp
  show "(5094939212432136441 :: int) * 102925708743001914577513911659997341036765397128372509983862302512974475335351 mod 2 ^ 64 = 2 ^ 64 - 1"
    by (rule mod_uniqueI [symmetric, where k = 28427793400650528333966101920403539485363432769148762703604035052732649460411]) simp_all
  show "(12866380494314280846057073348690566816504587537268054055595281494938654304585 :: int) = 2 ^ 256 mod 102925708743001914577513911659997341036765397128372509983862302512974475335351"
    by (rule mod_uniqueI [where k = 1]) simp_all
  show "(33866028333237636691110266828040777934154656495899890078721206279584751246858 :: int) = 2 ^ 512 mod 102925708743001914577513911659997341036765397128372509983862302512974475335351"
    by (rule mod_uniqueI [where k = 130266850660420792567181501349154646158567428257446142317911161702444967978938]) simp_all
qed simp_all

lemma test_field_n_val:
  "modulus test_field_n = 91688782331098791503280111521870818304984260068079601257061084440414040683201"
  "fe_val (p_minus_two_f1 test_field_n) = 1" "fe_val (p_minus_two_f2 test_field_n) = 91688782331098791503280111521870818304984260068079601257061084440414040683199"
  "fe_val (r_mod_p test_field_n) = 24103306906217403920290873486817089548285724597560962782396499567499088956735"
  "fe_val (r2_mod_p test_field_n) = 24151819175660943960168137168434932569203625522886630306649097701151373952379"
  "bits test_field_n = 256" "uint (p_mp test_field_n) = 1378503655919280831"
  by (simp_all add: test_field_n_def sb_fe_const_def fe_val_FE)

lemma test_field_n_ok: "prime_field_ok test_field_n"
  unfolding prime_field_ok_def mont_ok_def test_field_n_val
proof (intro conjI)
  show "odd (91688782331098791503280111521870818304984260068079601257061084440414040683201 :: int)" by simp
  show "(1378503655919280831 :: int) * 91688782331098791503280111521870818304984260068079601257061084440414040683201 mod 2 ^ 64 = 2 ^ 64 - 1"
    by (rule mod_uniqueI [symmetric, where k = 6851795696040670144740381801198425712520181178446795227749128644467406811676]) simp_all
  show "(24103306906217403920290873486817089548285724597560962782396499567499088956735 :: int) = 2 ^ 256 mod 91688782331098791503280111521870818304984260068079601257061084440414040683201"
    by (rule mod_uniqueI [where k = 1]) simp_all
  show "(24151819175660943960168137168434932569203625522886630306649097701151373952379 :: int) = 2 ^ 512 mod 91688782331098791503280111521870818304984260068079601257061084440414040683201"
    by (rule mod_uniqueI [where k = 146231715473387494959676950131775915212010918160096223723183220240425873157317]) simp_all
qed simp_all

definition test_p_factors :: "int list" where
  "test_p_factors =
    [19, 23, 31, 43, 71, 79, 131, 211, 271, 331, 379, 463, 631, 1051, 1951, 2003, 2311, 2731,
     3511, 3851, 4159, 4951, 5851, 6007, 7151, 7723, 8191]"

definition test_n_factors :: "int list" where
  "test_n_factors =
    [7, 17, 19, 23, 31, 37, 53, 67, 79, 89, 101, 131, 151, 157, 181, 199, 241, 313, 331, 397,
     401, 521, 601, 661, 859, 881, 991, 1171, 1201, 1301, 1321, 1873, 1951]"

lemma test_p_korselt: "korselt 91 (modulus test_field_p) test_p_factors"
  unfolding test_field_p_val korselt_def trial_prime_def test_p_factors_def by code_simp

lemma test_n_korselt: "korselt 91 (modulus test_field_n) test_n_factors"
  unfolding test_field_n_val korselt_def trial_prime_def test_n_factors_def by code_simp

lemma fermat_at_test_p: "list_all (\<lambda>p. a mod p \<noteq> 0) test_p_factors \<Longrightarrow> fermat_at (modulus test_field_p) a"
  by (rule fermat_at_korselt [OF test_p_korselt]) (simp_all add: test_field_p_val)

lemma fermat_at_test_n: "list_all (\<lambda>p. a mod p \<noteq> 0) test_n_factors \<Longrightarrow> fermat_at (modulus test_field_n) a"
  by (rule fermat_at_korselt [OF test_n_korselt]) (simp_all add: test_field_n_val)

subsection \<open>The seven points\<close>

definition test_table :: "affine list" where
  "test_table = [(0, 0), (3, 8), (- 5, - 16), (11, - 32), (11, 32), (- 5, 16), (3, - 8)]"

abbreviation test_points :: "int \<Rightarrow> affine" where
  "test_points \<equiv> seven_multiples test_table"

lemma test_table_checks:
  "doubles_check 0 43 [-5..5] test_table" "sums_check 0 [-5..5] test_table" "opposites_check test_table"
  by code_simp+

text \<open>The differences of the abscissae and the ordinates are powers of two up to their sign.\<close>

lemma test_units: "fermat_at (modulus test_field_p) x"
  if "x \<in> {2, 3, 8, - 8, 16, - 16, 32, - 32}"
  using that
  by (elim insertE) (simp_all add: fermat_at_test_p test_p_factors_def)

lemma test_table_units: "units_check (modulus test_field_p) test_table"
  by (simp add: units_check_def seven_multiples_def test_table_def test_units upto_rec1)

lemma test_points_multiples: "multiples (modulus test_field_p) 43 7 test_points"
  by (rule seven_multiples [OF dvd_0_right test_table_checks(1,2) test_table_units test_table_checks(3)])

subsection \<open>The curve\<close>

lemma test_curve_val:
  "curve_p test_curve = test_field_p" "curve_n test_curve = test_field_n"
  "fe_val (minus_a test_curve) = 43" "fe_val (curve_b test_curve) = 166"
  by (simp_all add: test_curve_def sb_fe_const_def fe_val_FE)

lemma test_curve_residues:
  shows "mval test_field_p (pair_x (g_r test_curve)) = 3"
    and "mval test_field_p (pair_y (g_r test_curve)) = 8"
    and "mval test_field_p (pair_x (h_r test_curve)) = 102925708743001914577513911659997341036765397128372509983862302512974475335346"
    and "mval test_field_p (pair_y (h_r test_curve)) = 16"
    and "mval test_field_p (pair_x (g_h_r test_curve)) = 3"
    and "mval test_field_p (pair_y (g_h_r test_curve)) = 102925708743001914577513911659997341036765397128372509983862302512974475335343"
    and "mval test_field_p (minus_a_r_over_three test_curve) = 68617139162001276385009274439998227357843598085581673322574868341982983556915"
proof -
  show "mval test_field_p (pair_x (g_r test_curve)) = 3"
    by (rule mval_eqI [OF test_field_p_ok, where k = 3])
      (simp_all add: test_field_p_val test_curve_def sb_fe_const_def fe_val_FE)
  show "mval test_field_p (pair_y (g_r test_curve)) = 8"
    by (rule mval_eqI [OF test_field_p_ok, where k = 9])
      (simp_all add: test_field_p_val test_curve_def sb_fe_const_def fe_val_FE)
  show "mval test_field_p (pair_x (h_r test_curve)) = 102925708743001914577513911659997341036765397128372509983862302512974475335346"
    by (rule mval_eqI [OF test_field_p_ok, where k = 115792089237316195423570985008687907853269984665640564039457584007913129639930])
      (simp_all add: test_field_p_val test_curve_def sb_fe_const_def fe_val_FE)
  show "mval test_field_p (pair_y (h_r test_curve)) = 16"
    by (rule mval_eqI [OF test_field_p_ok, where k = 18])
      (simp_all add: test_field_p_val test_curve_def sb_fe_const_def fe_val_FE)
  show "mval test_field_p (pair_x (g_h_r test_curve)) = 3"
    by (rule mval_eqI [OF test_field_p_ok, where k = 3])
      (simp_all add: test_field_p_val test_curve_def sb_fe_const_def fe_val_FE)
  show "mval test_field_p (pair_y (g_h_r test_curve)) = 102925708743001914577513911659997341036765397128372509983862302512974475335343"
    by (rule mval_eqI [OF test_field_p_ok, where k = 115792089237316195423570985008687907853269984665640564039457584007913129639926])
      (simp_all add: test_field_p_val test_curve_def sb_fe_const_def fe_val_FE)
  show "mval test_field_p (minus_a_r_over_three test_curve) = 68617139162001276385009274439998227357843598085581673322574868341982983556915"
    by (rule mval_eqI [OF test_field_p_ok, where k = 77194726158210796949047323339125271902179989777093709359638389338608753093306])
      (simp_all add: test_field_p_val test_curve_def sb_fe_const_def fe_val_FE)
qed

lemma test_curve_quasi_reduced:
  "pair_qr test_field_p (g_r test_curve)" "pair_qr test_field_p (h_r test_curve)"
  "pair_qr test_field_p (g_h_r test_curve)" "pair_qr test_field_p (dz_r test_curve)"
  "quasi_reduced test_field_p (minus_a_r_over_three test_curve)"
  by (simp_all add: test_curve_def pair_qr_def quasi_reduced_def test_field_p_val sb_fe_const_def fe_val_FE)

lemma test_curve_ok: "curve_ok test_curve"
  unfolding curve_ok_def test_curve_val
  by (simp add: test_curve_quasi_reduced test_field_p_ok test_field_n_ok test_curve_residues
      quasi_reduced_def [of _ "minus_a test_curve"] quasi_reduced_def [of _ "curve_b test_curve"]
      test_curve_val test_field_p_val test_field_n_val eqm_def)

end
