(* ===== verification/Flow_Claims.thy ===== *)
theory Flow_Claims
  imports Signing Test_Curve
begin

text \<open>
  The properties of signing and of verification as wholes, from the start of an incremental operation to its
  last call, and their concrete instance on the test curve.
\<close>

text \<open>
  C1: verification decides the signature equation: started on two numbers, a digest and a public key
  that is the \<open>u\<close>-th multiple of the point of order \<open>m\<close>, and after nineteen calls of
  \<open>sb_sw_verify_continue\<close>, it is finished and its result is one exactly when both numbers lie between one and the
  order minus one, the digest is not zero, no addition of the Shamir ladder is exceptional and the
  abscissa of \<open>(r / s) P + (e / s) G\<close> is congruent to \<open>r\<close> modulo the order; otherwise it is zero.
\<close>

theorem verification_decides:
  fixes v :: sb_sw_context
  assumes "verify_curve s m M g h" "table_key m u g h" "verify_key s M u v"
    and "scalar_valid s (VERIFY_QS v) \<Longrightarrow> fermat_at (modulus (curve_n s)) (fe_val (VERIFY_QS v))"
  shows "let v' = verify_calls s 19 (sb_sw_verify_start v s) in sb_sw_verify_is_finished v' \<and>
    st_res (MULT_STATE v') = of_bool (signature_accepted s m M u g h (VERIFY_QR v) (VERIFY_QS v) (VERIFY_MESSAGE v))"
  unfolding Let_def using sb_sw_verify_val [OF assms] by (intro conjI)

text \<open>
  C2: signing computes the ECDSA signature: started with a reduced ephemeral scalar \<open>k\<close>, and after
  seventeen calls of \<open>sb_sw_sign_continue\<close>, the next call finishes the operation, \<open>r\<close> is the
  abscissa of the multiple \<open>k G\<close> reduced modulo the order, \<open>s\<close> is \<open>(e + r d) / k\<close>, and the call fails
  with the error of the random bit generator exactly when one of the two is zero modulo the order.
\<close>

theorem signing_correct:
  fixes g :: sb_sw_context
  assumes "curve_ok s" "fermat_at (modulus (curve_p s)) 2"
    and "mult_input s m M (sign_input g s)" "m dvd modulus (curve_n s)"
    and "modulus (curve_n s) + 1 < 2 ^ 256" "ladder_defined (modulus (curve_n s)) m (fe_val (MULT_K g))"
    and "fermat_at (modulus (curve_n s)) (fe_val (MULT_K g))"
    and "quasi_reduced (curve_n s) (SIGN_PRIVATE g)" "quasi_reduced (curve_n s) (SIGN_MESSAGE g)"
  shows "let (err, fin, g') = sb_sw_sign_continue (sign_calls s 17 (sb_sw_sign_start g s)) s in
    fin \<and> sb_sw_sign_is_finished g' \<and>
    fe_val (C_X2 g') = qrep (modulus (curve_n s)) (qrep (modulus (curve_p s)) (fst (M (fe_val (MULT_K g))))) \<and>
    fe_val (C_Y2 g') = quotient_scalar (modulus (curve_n s))
      (fe_val (SIGN_MESSAGE g) + fe_val (C_X2 g') * fe_val (SIGN_PRIVATE g)) (fe_val (MULT_K g)) \<and>
    err = (if scalar_valid s (C_X2 g') \<and> scalar_valid s (C_Y2 g') then SB_SUCCESS else SB_ERROR_DRBG_FAILURE)"
proof -
  obtain err fin g' where r: "sb_sw_sign_continue (sign_calls s 17 (sb_sw_sign_start g s)) s = (err, fin, g')"
    by (metis prod_cases3)
  show ?thesis
    unfolding Let_def r prod.case using sb_sw_sign_val [OF assms r] by (intro conjI)
qed

text \<open>
  C3: what is signed is verified: a signature that the incremental signing operation returns with
  success is accepted by the incremental verification of the same digest with the key of
  the signer, when the digest is not zero modulo the order, the abscissa of the ephemeral point is not zero and
  verification meets no exceptional addition.
\<close>

theorem signed_is_verified:
  fixes g v :: sb_sw_context
  assumes "verify_curve s m M 1 h" "table_key m d 1 h" "verify_key s M d v" "mult_input s m M (sign_input g s)"
    and "modulus (curve_n s) + 1 < 2 ^ 256" "ladder_defined (modulus (curve_n s)) m (fe_val (MULT_K g))"
    and "fermat_at (modulus (curve_n s)) (fe_val (MULT_K g))"
    and "quasi_reduced (curve_n s) (SIGN_PRIVATE g)" "fe_val (SIGN_PRIVATE g) = d"
    and "quasi_reduced (curve_n s) (SIGN_MESSAGE g)" "fe_val (SIGN_MESSAGE g) \<noteq> modulus (curve_n s)"
    and "sb_sw_sign_continue (sign_calls s 17 (sb_sw_sign_start g s)) s = (SB_SUCCESS, fin, g')"
    and "\<not> modulus (curve_p s) dvd fst (M (fe_val (MULT_K g)))"
    and "VERIFY_QR v = C_X2 g'" "VERIFY_QS v = C_Y2 g'" "VERIFY_MESSAGE v = SIGN_MESSAGE g"
    and "fermat_at (modulus (curve_n s)) (fe_val (C_Y2 g'))"
    and "\<forall>i < 256. shamir_regular_at m (quotient_scalar (modulus (curve_n s)) (fe_val (C_X2 g')) (fe_val (C_Y2 g')))
      (quotient_scalar (modulus (curve_n s)) (fe_val (SIGN_MESSAGE g)) (fe_val (C_Y2 g')) - 1) d 1 h i"
  shows "let v' = verify_calls s 19 (sb_sw_verify_start v s) in sb_sw_verify_is_finished v' \<and> st_res (MULT_STATE v') = 1"
  unfolding Let_def using signed_verified [OF assms] by (intro conjI)

subsection \<open>The instance\<close>

text \<open>
  The ephemeral scalar is congruent to four modulo seven and its regularised form is \<open>2 ^ 256 + 23\<close>; the key is
  the fourth multiple, and the digest is chosen so that \<open>s\<close> is one. The second scalar of the Shamir ladder is
  then \<open>3 * 2 ^ 254 + 24\<close> and the first is eleven: between the first two bits and the last five no bit is set.
\<close>

definition test_signer :: sb_sw_context where
  "test_signer = set_MULT_STATE (context_zero
     \<lparr>MULT_K := sb_fe_const 0x3549fcfe48d3cf5f 0xa621ac2928f55848 0x3e6fdef4fd8766fd 0x9bc14ae519f70d56,
      MULT_Z := r_mod_p test_field_p,
      SIGN_PRIVATE := sb_fe_const 0x993e8dd2b3c30c17 0x872d543f2807bfcb 0x7580180801cc1230 0x48e7c987ed1dc7d2,
      SIGN_MESSAGE := sb_fe_const 0xc000000000000000 0x0 0x0 0x19\<rparr>) saved_state_zero"

definition test_verifier :: "sb_fe \<Rightarrow> sb_fe \<Rightarrow> sb_sw_context" where
  "test_verifier r t = context_zero
     \<lparr>MULT_Z := r_mod_p test_field_p, MULT_POINT_X := sb_fe_const 0 0 0 11, MULT_POINT_Y := sb_fe_const 0 0 0 32,
      VERIFY_QR := r, VERIFY_QS := t, VERIFY_MESSAGE := SIGN_MESSAGE test_signer\<rparr>"

definition test_key :: int where
  "test_key = 69314389178010852807466694402467138491199234246458813733304824684117327988690"

lemma test_signer_val:
  "fe_val (MULT_K test_signer) = 24103306906217403920290873486817089548285724597560962782396499567499088956758"
  "fe_val (SIGN_PRIVATE test_signer) = test_key"
  "fe_val (SIGN_MESSAGE test_signer) = 3 * 2 ^ 254 + 25"
  "MULT_Z test_signer = r_mod_p test_field_p"
  by (simp_all add: test_signer_def test_key_def sb_fe_const_def fe_val_FE)

lemma test_verifier_val:
  "VERIFY_QR (test_verifier r t) = r" "VERIFY_QS (test_verifier r t) = t"
  "VERIFY_MESSAGE (test_verifier r t) = SIGN_MESSAGE test_signer"
  by (simp_all add: test_verifier_def)

lemma test_points_at: "test_points 1 = (3, 8)" "test_points 5 = (- 5, 16)" "test_points 6 = (3, - 8)" "test_points 4 = (11, 32)"
  by (simp_all add: seven_multiples_def test_table_def)

lemma test_fermat_2: "fermat_at (modulus test_field_p) 2"
  by (rule test_units) simp

lemma test_input: "mult_input test_curve 7 test_points (sign_input test_signer test_curve)"
proof -
  have "MULT_POINT_X (sign_input test_signer test_curve) = pair_x (g_r test_curve)"
    "MULT_POINT_Y (sign_input test_signer test_curve) = pair_y (g_r test_curve)"
    "MULT_Z (sign_input test_signer test_curve) = r_mod_p test_field_p"
    "st_swap (MULT_STATE (sign_input test_signer test_curve)) = 0"
    by (simp_all add: sign_input_def test_signer_def saved_state_zero_def)
  then show ?thesis
    using test_points_multiples test_curve_quasi_reduced(1) prime_field_one [OF test_field_p_ok] test_units [of 3]
    by (simp add: mult_input_def mult_data_def test_curve_val sign_input_operands test_signer_val point_qr_def pair_qr_def
        test_curve_residues test_points_at test_units fermat_at_one test_field_p_val(1) test_field_n_val(1))
qed

lemma shifted_sum_div:
  fixes a c :: int
  assumes "i \<le> n" "0 \<le> c" "c < 2 ^ i"
  shows "(a * 2 ^ n + c) div 2 ^ i = a * 2 ^ (n - i)"
proof -
  have "(2 :: int) ^ n = 2 ^ (n - i) * 2 ^ i"
    using assms(1) by (simp flip: power_add)
  then have "(a * 2 ^ n + c) div 2 ^ i = (c + a * 2 ^ (n - i) * 2 ^ i) div 2 ^ i"
    by (simp add: ac_simps)
  also have "\<dots> = a * 2 ^ (n - i)"
    using assms(2,3) by (simp only: div_mult_self1 [OF power_not_zero]) (simp add: div_pos_pos_trivial)
  finally show ?thesis .
qed

lemma test_order: "modulus test_field_n + 1 < 2 ^ 256"
  by (simp add: test_field_n_val)

lemma test_scalar:
  defines "k \<equiv> fe_val (MULT_K test_signer)"
  shows "ladder_defined (modulus test_field_n) 7 k"
    and "fermat_at (modulus test_field_n) k" and "k mod 7 = 4"
proof -
  have l: "ladder_scalar (modulus test_field_n) k = k"
    by (simp add: ladder_scalar_def k_def test_signer_val bit_iff_odd)
  have "regularized (modulus test_field_n) k = 2 ^ 256 + 23"
    by (simp add: regularized_def k_def test_signer_val test_field_n_val)
  moreover have "non_exceptional 7 (2 ^ 256 + 23)"
    unfolding non_exceptional_def
  proof
    fix i :: nat
    assume i: "i \<in> {1..256}"
    show "regular 7 ((2 ^ 256 + 23) div 2 ^ i)"
    proof (cases "i < 5")
      case True
      with i have "i \<in> {1, 2, 3, 4}" by auto
      then show ?thesis by (elim insertE) (simp_all add: regular_def)
    next
      case False
      then have "(23 :: int) < 2 ^ i"
        using power_increasing [of 5 i "2 :: int"] by simp
      with i have "(1 * 2 ^ 256 + 23) div (2 :: int) ^ i = 1 * 2 ^ (256 - i)"
        by (intro shifted_sum_div) simp_all
      then show ?thesis using regular_power_2 [of "256 - i"] by simp
    qed
  qed
  ultimately show "ladder_defined (modulus test_field_n) 7 k"
    by (simp only: l ladder_defined_def) simp
  show "fermat_at (modulus test_field_n) k"
    unfolding k_def test_signer_val by (rule fermat_at_test_n, code_simp)
  show "k mod 7 = 4" by (simp add: k_def test_signer_val)
qed

lemma test_operands:
  "quasi_reduced test_field_n (SIGN_PRIVATE test_signer)" "quasi_reduced test_field_n (SIGN_MESSAGE test_signer)"
  by (simp_all add: quasi_reduced_def test_signer_val test_field_n_val test_key_def)

lemma test_curve_verify: "verify_curve test_curve 7 test_points 1 5"
  using test_curve_ok test_points_multiples test_fermat_2
  by (simp add: verify_curve_def test_curve_val same_point_def pair_point_def test_curve_residues test_points_at
      test_field_p_val(1) test_field_n_val(1) eqm_def)

lemma test_key_mod: "test_key mod 7 = 4"
  by (simp add: test_key_def)

lemma test_table_key: "table_key 7 test_key 1 5"
  by (simp add: table_key_def test_key_def)

lemma test_verify_key: "verify_key test_curve test_points test_key (test_verifier r t)"
proof -
  have "test_points test_key = (11, 32)"
    using test_points_at(4) seven_multiples_cong [of test_key 4] test_key_mod by simp
  then show ?thesis
    using prime_field_one [OF test_field_p_ok]
    by (simp add: verify_key_def test_verifier_def test_curve_val point_qr_def quasi_reduced_def same_point_def
        test_field_p_val(1) sb_fe_const_def fe_val_FE)
qed

lemma dvd_iff_dvd_if_dvd_diff: "(m :: int) dvd x - y \<Longrightarrow> m dvd x \<longleftrightarrow> m dvd y"
  by (metis diff_add_cancel dvd_add_right_iff)

lemma shamir_regular_at_key:
  assumes "m dvd u - u'"
  shows "shamir_regular_at m kp kg u g h i = shamir_regular_at m kp kg u' g h i"
proof -
  define e e' where "e = shamir_at kp kg u g h (Suc i)" and "e' = shamir_at kp kg u' g h (Suc i)"
  define b b' where "b = shamir_entry u g h (bit kp i) (bit kg i)" and "b' = shamir_entry u' g h (bit kp i) (bit kg i)"
  have d: "m dvd e - e'" "m dvd b - b'"
    using assms by (auto simp: e_def e'_def b_def b'_def shamir_at_def shamir_sum_def shamir_entry_def
        right_diff_distrib [symmetric])
  have "m dvd (e - b) - (e' - b')" "m dvd (e + b) - (e' + b')" "m dvd (2 * e + b) - (2 * e' + b')"
    using dvd_diff [OF d] dvd_add [OF d] dvd_add [OF dvd_mult [OF d(1), of 2] d(2)]
    by (simp_all add: algebra_simps)
  note iff = this [THEN dvd_iff_dvd_if_dvd_diff]
  show ?thesis
    by (simp add: shamir_regular_at_def shamir_regular_def iff flip: e_def e'_def b_def b'_def)
qed

lemma middle_regular:
  fixes t :: int
  assumes "t mod 7 \<in> {1, 2, 4}"
  shows "shamir_regular 7 True (43 * t - 5) 5"
proof -
  obtain r where r: "r = t mod 7" "r = 1 \<or> r = 2 \<or> r = 4" using assms by auto
  have e: "7 dvd a * t + b \<longleftrightarrow> 7 dvd a * r + b" for a b
    unfolding r(1) dvd_eq_mod_eq_0 by (metis mod_add_left_eq mod_mult_right_eq)
  have "\<not> 7 dvd 43 * r + - 10" "\<not> 7 dvd 43 * r + 0" "\<not> 7 dvd 86 * r + - 5"
    using r(2) by (elim disjE; hypsubst; simp)+
  then have "\<not> 7 dvd 43 * t + - 10" "\<not> 7 dvd 43 * t + 0" "\<not> 7 dvd 86 * t + - 5"
    unfolding e .
  then show ?thesis
    by (simp add: shamir_regular_def)
qed

lemma test_shamir_regular:
  assumes "i < 256"
  shows "shamir_regular_at 7 11 (3 * 2 ^ 254 + 24) test_key 1 5 i"
proof -
  have "shamir_regular_at 7 11 (3 * 2 ^ 254 + 24) 4 1 5 i"
  proof (cases "5 \<le> i \<and> i < 254")
    case True
    define n where "n = 253 - i"
    have i: "i = 253 - n" "n \<le> 248" using True by (auto simp: n_def)
    have p: "(32 :: int) \<le> 2 ^ i"
      using power_increasing [of 5 i "2 :: int"] True by simp
    then have "(11 :: int) div 2 ^ i = 0" "(11 :: int) div 2 ^ Suc i = 0"
      by (simp_all add: div_pos_pos_trivial)
    moreover have d: "(3 * 2 ^ 254 + 24) div (2 :: int) ^ i = 3 * 2 ^ (254 - i)"
      "(3 * 2 ^ 254 + 24) div (2 :: int) ^ Suc i = 3 * 2 ^ (254 - Suc i)"
      using True p by (intro shifted_sum_div; simp)+
    moreover have e: "254 - i = Suc n" "254 - Suc i = n" "257 - Suc i = n + 3"
      using True unfolding n_def by linarith+
    ultimately have "\<not> bit (11 :: int) i" "\<not> bit (3 * 2 ^ 254 + 24 :: int) i"
      "shamir_at 11 (3 * 2 ^ 254 + 24) 4 1 5 (Suc i) = 43 * 2 ^ n - 5"
      using True by (simp_all only: bit_iff_odd shamir_at_def shamir_sum_def) (simp_all add: power_add)
    then have "shamir_regular_at 7 11 (3 * 2 ^ 254 + 24) 4 1 5 i = shamir_regular 7 True (43 * 2 ^ n - 5) 5"
      using True by (simp only: shamir_regular_at_def shamir_entry_def) simp
    then show ?thesis
      using middle_regular [OF power_2_mod_7 [of n]] by (simp only:)
  next
    case False
    with assms have "i \<in> {0, 1, 2, 3, 4, 254, 255}" by auto
    then show ?thesis
      by (elim insertE) (simp_all add: shamir_regular_at_def shamir_regular_def shamir_entry_def shamir_at_def
          shamir_sum_def bit_iff_odd)
  qed
  moreover have "7 dvd test_key - 4"
    using test_key_mod by presburger
  ultimately show ?thesis
    by (simp only: shamir_regular_at_key)
qed

lemma test_quotients:
  "quotient_scalar (modulus test_field_n) 11 1 = 11"
  "quotient_scalar (modulus test_field_n) (fe_val (SIGN_MESSAGE test_signer)) 1 = 3 * 2 ^ 254 + 25"
  "quotient_scalar (modulus test_field_n) (fe_val (SIGN_MESSAGE test_signer) + 11 * fe_val (SIGN_PRIVATE test_signer))
     (fe_val (MULT_K test_signer)) = 1"
proof -
  have one: "fermat_at (modulus test_field_n) 1" by (simp add: test_field_n_val)
  show "quotient_scalar (modulus test_field_n) 11 1 = 11"
    by (rule quotient_scalar_unique [OF one, symmetric]) (simp_all add: test_field_n_val(1))
  show "quotient_scalar (modulus test_field_n) (fe_val (SIGN_MESSAGE test_signer)) 1 = 3 * 2 ^ 254 + 25"
    by (rule quotient_scalar_unique [OF one, symmetric]) (simp_all add: test_signer_val test_field_n_val(1))
  show "quotient_scalar (modulus test_field_n) (fe_val (SIGN_MESSAGE test_signer) + 11 * fe_val (SIGN_PRIVATE test_signer))
     (fe_val (MULT_K test_signer)) = 1"
    by (rule quotient_scalar_unique [OF test_scalar(2), symmetric])
      (simp_all add: test_signer_val test_key_def test_field_n_val(1))
qed

lemma test_abscissa: "test_points (fe_val (MULT_K test_signer)) = (11, 32)"
  using test_points_at(4) seven_multiples_cong [of "fe_val (MULT_K test_signer)" 4] test_scalar(3) by simp

lemma test_sum: "test_points (11 * test_key + (3 * 2 ^ 254 + 25)) = (11, 32)"
proof -
  have "(11 * test_key + (3 * 2 ^ 254 + 25)) mod 7 = 4 mod 7"
    by (simp add: test_key_def)
  then show ?thesis
    using test_points_at(4) seven_multiples_cong by metis
qed

lemma test_reduced_11: "qrep (modulus test_field_n) (qrep (modulus test_field_p) 11) = 11"
  by (simp add: qrep_def test_field_p_val(1) test_field_n_val(1))

lemma test_valid: "fe_val r = 11 \<Longrightarrow> scalar_valid test_curve r" "fe_val r = 1 \<Longrightarrow> scalar_valid test_curve r"
  by (simp_all add: scalar_valid_def test_curve_val test_field_n_val(1))

lemma test_regular:
  "\<forall>i < 256. shamir_regular_at 7 (quotient_scalar (modulus test_field_n) 11 1)
     (quotient_scalar (modulus test_field_n) (fe_val (SIGN_MESSAGE test_signer)) 1 - 1) test_key 1 5 i"
  using test_shamir_regular unfolding test_quotients by simp

theorem verification_decides_witness:
  "let v' = verify_calls test_curve 19 (sb_sw_verify_start
     (test_verifier (sb_fe_const 0 0 0 11) (sb_fe_const 0 0 0 1)) test_curve) in
   sb_sw_verify_is_finished v' \<and> st_res (MULT_STATE v') = 1"
proof -
  let ?r = "sb_fe_const 0 0 0 11" and ?t = "sb_fe_const 0 0 0 1"
  have rt: "fe_val ?r = 11" "fe_val ?t = 1" by (simp_all add: sb_fe_const_def fe_val_FE)
  have "fst (test_points (11 * test_key + (3 * 2 ^ 254 + 25))) mod modulus test_field_p mod modulus test_field_n = 11"
    unfolding test_sum by (simp add: test_field_p_val(1) test_field_n_val(1))
  moreover have "fe_val (SIGN_MESSAGE test_signer) mod modulus test_field_n \<noteq> 0"
    by (simp add: test_signer_val test_field_n_val(1))
  ultimately have "signature_accepted test_curve 7 test_points test_key 1 5 ?r ?t (SIGN_MESSAGE test_signer)"
    unfolding signature_accepted_def Let_def rt test_curve_val mult_1_right
    using test_regular test_valid(1) [OF rt(1)] test_valid(2) [OF rt(2)] by (simp only: test_quotients) simp
  moreover have "fermat_at (modulus (curve_n test_curve)) (fe_val (VERIFY_QS (test_verifier ?r ?t)))"
    by (simp add: test_verifier_val rt test_curve_val test_field_n_val(1))
  ultimately show ?thesis
    using verification_decides [OF test_curve_verify test_table_key test_verify_key, of ?r ?t]
    by (simp add: Let_def test_verifier_val)
qed

theorem signing_correct_witness:
  "let (err, fin, g') = sb_sw_sign_continue (sign_calls test_curve 17 (sb_sw_sign_start test_signer test_curve)) test_curve in
   fin \<and> err = SB_SUCCESS \<and> fe_val (C_X2 g') = 11 \<and> fe_val (C_Y2 g') = 1"
proof -
  have "(7 :: int) dvd modulus test_field_n" by (simp add: test_field_n_val(1))
  then show ?thesis
    using signing_correct [OF test_curve_ok _ test_input, unfolded test_curve_val, OF test_fermat_2 _ test_order test_scalar(1,2) test_operands]
    by (auto simp: test_abscissa test_reduced_11 test_quotients test_valid)
qed

theorem signed_is_verified_witness:
  "\<exists>fin g'. sb_sw_sign_continue (sign_calls test_curve 17 (sb_sw_sign_start test_signer test_curve)) test_curve =
      (SB_SUCCESS, fin, g') \<and>
     (let v' = verify_calls test_curve 19 (sb_sw_verify_start (test_verifier (C_X2 g') (C_Y2 g')) test_curve)
      in sb_sw_verify_is_finished v' \<and> st_res (MULT_STATE v') = 1)"
proof -
  obtain err fin g' where r: "sb_sw_sign_continue (sign_calls test_curve 17 (sb_sw_sign_start test_signer test_curve)) test_curve
      = (err, fin, g')"
    by (metis prod_cases3)
  note S = test_curve_ok test_fermat_2 test_input test_order test_scalar(1,2) test_operands
  have "(7 :: int) dvd modulus test_field_n" by (simp add: test_field_n_val(1))
  note v = sb_sw_sign_val [OF S(1) _ S(3) _ _ _ _ _ _ r, unfolded test_curve_val, OF S(2) this S(4-8), unfolded test_abscissa]
  have X: "fe_val (C_X2 g') = 11" using v(3) by (simp add: test_reduced_11)
  have Y: "fe_val (C_Y2 g') = 1" using v(6) by (simp only: X test_quotients)
  have err: "err = SB_SUCCESS" using v(5) by (simp add: X Y test_valid)
  have n: "fe_val (SIGN_MESSAGE test_signer) \<noteq> modulus test_field_n" "fermat_at (modulus test_field_n) 1"
    "\<not> modulus test_field_p dvd fst (test_points (fe_val (MULT_K test_signer)))"
    unfolding test_abscissa by (simp_all add: test_signer_val test_field_n_val(1) test_field_p_val(1))
  have "let v' = verify_calls test_curve 19 (sb_sw_verify_start (test_verifier (C_X2 g') (C_Y2 g')) test_curve)
      in sb_sw_verify_is_finished v' \<and> st_res (MULT_STATE v') = 1"
    by (rule signed_is_verified [OF test_curve_verify test_table_key test_verify_key test_input _ _ _ _ test_signer_val(2) _ _
          r [unfolded err] _ test_verifier_val])
      (simp_all only: test_curve_val S(4-8) n X Y not_False_eq_True, rule test_regular)
  with r err show ?thesis by blast
qed

end
