(* ===== verification/End_To_End.thy ===== *)
theory End_To_End
  imports SW_Points SW_Signature Signing
begin

text \<open>
  What the one-call signature functions of the public interface promise whatever the inputs, composed from the
  start, every call of the continue function and the finish: a malformed signature is never accepted, and a
  signature that is returned is well formed. Neither needs the group law or the primality of the moduli.
\<close>

subsection \<open>Verification keeps a rejection\<close>

lemma verify_rejected_step:
  fixes v :: sb_sw_context and s :: sb_sw_curve
  assumes "st_stage (MULT_STATE v) \<noteq> SB_SW_VERIFY_OP_STAGE_INV_S" "st_res (MULT_STATE v) = 0"
  defines "v' \<equiv> snd (sb_sw_verify_continue v s)"
  shows "st_stage (MULT_STATE v') \<noteq> SB_SW_VERIFY_OP_STAGE_INV_S \<and> st_res (MULT_STATE v') = 0"
proof -
  obtain d m where c: "sb_sw_point_mult_add_z_continue v s = (d, m)" by fastforce
  note st = sb_sw_point_mult_add_z_continue_state [OF c]
  have "fst (verify_test 0 v s) = 0"
    by (simp add: verify_test_def Let_def)
  moreover obtain f k where t: "verify_test 0 v s = (f, k)" by fastforce
  ultimately have f: "f = 0" by simp
  have "st_stage (MULT_STATE m) \<noteq> SB_SW_VERIFY_OP_STAGE_INV_S"
    if "st_stage (MULT_STATE v) = SB_SW_VERIFY_OP_STAGE_INV_Z \<or> st_stage (MULT_STATE v) = SB_SW_VERIFY_OP_STAGE_LADDER"
    using that st(3-5)
    by (cases "st_i (MULT_STATE v) < SB_FE_BITS \<and> SB_SW_POINT_ITERATIONS \<le> unat (st_i (MULT_STATE v))")
      (auto simp: verify_stage_defs)
  with assms(1,2) st(6) f show ?thesis
    unfolding v'_def sb_sw_verify_continue_def Let_def c t assms(2) prod.case
    by (auto simp: verify_stage_defs assms(2))
qed

lemma verify_rejected_calls:
  assumes "st_stage (MULT_STATE v) \<noteq> SB_SW_VERIFY_OP_STAGE_INV_S" "st_res (MULT_STATE v) = 0"
  shows "st_stage (MULT_STATE (verify_calls s n v)) \<noteq> SB_SW_VERIFY_OP_STAGE_INV_S \<and>
    st_res (MULT_STATE (verify_calls s n v)) = 0"
  using assms by (induction n) (simp_all add: verify_calls_Suc verify_rejected_step, simp add: verify_calls_def)

text \<open>The operands are well formed: what the first stage asks of the two numbers and the digest.\<close>

definition well_formed :: "sb_sw_curve \<Rightarrow> sb_fe \<Rightarrow> sb_fe \<Rightarrow> sb_fe \<Rightarrow> bool" where
  "well_formed s r t msg \<longleftrightarrow> scalar_valid s r \<and> scalar_valid s t \<and> fe_val msg mod modulus (curve_n s) \<noteq> 0"

lemma verify_calls_malformed:
  fixes v :: sb_sw_context
  assumes ok: "curve_ok s" and bad: "\<not> well_formed s (VERIFY_QR v) (VERIFY_QS v) (VERIFY_MESSAGE v)"
  shows "st_res (MULT_STATE (verify_calls s (Suc n) (sb_sw_verify_start v s))) = 0"
proof -
  let ?v = "sb_sw_verify_start v s"
  note F = verify_start_fields [of v s]
  obtain r1 w1 where inv: "verify_inv_s 1 ?v s = (r1, w1)" by fastforce
  have v1: "snd (sb_sw_verify_continue ?v s) =
      set_MULT_STATE w1 (MULT_STATE ?v\<lparr>st_res := r1, st_stage := SB_SW_VERIFY_OP_STAGE_INV_Z\<rparr>)"
    by (simp add: sb_sw_verify_continue_def Let_def F(1) inv)
  have "r1 = 0"
    using verify_inv_s_val(1) [OF ok inv] bad by (auto simp: F well_formed_def)
  then have "st_stage (MULT_STATE (verify_calls s 1 ?v)) \<noteq> SB_SW_VERIFY_OP_STAGE_INV_S \<and>
      st_res (MULT_STATE (verify_calls s 1 ?v)) = 0"
    by (simp add: verify_calls_def v1) (simp add: verify_stage_defs)
  from verify_rejected_calls [of "verify_calls s 1 ?v" s n] this show ?thesis
    by (simp flip: verify_calls_add)
qed

subsection \<open>The calls of the public function\<close>

lemma running_curve_keep:
  "st_curve_id (MULT_STATE c') = st_curve_id (MULT_STATE c) \<Longrightarrow> running_curve c' = running_curve c"
  by (simp add: running_curve_def)

lemma verifying_calls:
  "calls sb_sw_verify_signature_continue n c fin c' \<Longrightarrow> verifying c \<Longrightarrow> n \<le> verifying_left c \<Longrightarrow>
    c' = verify_calls (running_curve c) n c \<and> running_curve c' = running_curve c"
proof (induction rule: calls.induct)
  case (none c)
  then show ?case by (simp add: verify_calls_def)
next
  case (more n c c' fin c'')
  then have IH: "c' = verify_calls (running_curve c) n c" "running_curve c' = running_curve c"
    using Suc_leD by blast+
  have "verifying c'"
    using vf.calls_left [OF more.hyps(1) more.prems(1)] more.prems(2) by simp
  then have r: "running SB_SW_INCREMENTAL_OPERATION_VERIFY_SIGNATURE c'" by (simp add: verifying_def)
  have c'': "c'' = snd (sb_sw_verify_continue c' (running_curve c))"
    using more.hyps(2) by (simp add: sb_sw_verify_signature_continue_running [OF r] IH(2))
  obtain f d where c: "sb_sw_verify_continue c' (running_curve c) = (f, d)" by fastforce
  have "running_curve c'' = running_curve c'"
    using sb_sw_verify_continue_state(2) [OF c] by (intro running_curve_keep) (simp add: c'' c)
  with c'' IH show ?case by (simp add: verify_calls_Suc)
qed

lemma sb_sw_generate_z_valid:
  assumes ok: "curve_ok s" and r: "sb_sw_generate_z c drbg s e d1 d2 d3 label = (SB_SUCCESS, c', drbg')"
  shows "z_valid s (MULT_Z c')"
proof -
  obtain c1 where z: "sb_sw_z_from_buf c1 s e = (SB_SUCCESS, c')"
    using r by (auto simp: sb_sw_generate_z_def Let_def err_simps split: prod.splits option.splits)
  show ?thesis
    using sb_sw_z_from_buf_val(2) [OF ok z] by (auto simp: find_Some_iff)
qed

lemma sb_sw_verify_signature_start_context:
  assumes st: "sb_sw_verify_signature_start signature public message drbg curve e = (SB_SUCCESS, c, drbg')"
  obtains s w where "sb_sw_curve_from_id curve = (SB_SUCCESS, Some s)" "curve_ok s" "c = sb_sw_verify_start w s"
    "running_curve c = s" "valid_key s public e"
    "VERIFY_QR w = sb_fe_from_bytes (low_half signature) e" "VERIFY_QS w = sb_fe_from_bytes (high_half signature) e"
    "VERIFY_MESSAGE w = sb_fe_from_bytes message e" "z_valid s (MULT_Z w)"
    "MULT_POINT_X w = sb_fe_mod_reduce (sb_fe_from_bytes (low_half public) e) (curve_p s)"
    "MULT_POINT_Y w = sb_fe_mod_reduce (sb_fe_from_bytes (high_half public) e) (curve_p s)"
proof (cases curve rule: curve_lookup)
  case unknown
  with st show ?thesis by (simp add: sb_sw_verify_signature_start_def err_simps)
next
  case (known s)
  obtain e2 m d where z: "sb_sw_generate_z context_zero drbg s e (low_half public) signature message
      (c_string ''sb_sw_verify_signature'') = (e2, m, d)"
    by (metis prod_cases3)
  define m1 where "m1 = m\<lparr>MULT_POINT_X := sb_fe_from_bytes (low_half public) e,
    MULT_POINT_Y := sb_fe_from_bytes (high_half public) e\<rparr>"
  obtain pv m2 where p: "sb_sw_point_validate m1 s = (pv, m2)" by fastforce
  have pv: "pv = of_bool (valid_key s public e)"
    using sb_sw_point_validate_val(1) [OF known(2), of m1] p
    by (simp add: m1_def valid_key_def key_x_def key_y_def)
  define w where "w = m2\<lparr>VERIFY_QR := sb_fe_from_bytes (low_half signature) e,
    VERIFY_QS := sb_fe_from_bytes (high_half signature) e, VERIFY_MESSAGE := sb_fe_from_bytes message e\<rparr>"
  have c: "c = sb_sw_verify_start w s" "pv \<noteq> 0" "e2 = SB_SUCCESS"
    using st p by (auto simp: sb_sw_verify_signature_start_def Let_def known err_simps z m1_def w_def
        split: if_splits)
  moreover have "running_curve c = s"
    using known(1) by (cases rule: sb_sw_curve_from_id_cases [of curve])
      (auto simp: c(1) running_curve_def verify_start_fields(1) sb_sw_curve_from_id_def SB_CURVE_P256_def
        SB_CURVE_SECP256K1_def SB_SW_CURVE_P256_def SB_SW_CURVE_SECP256K1_def)
  moreover have "valid_key s public e" using c(2) pv by (simp split: if_splits)
  moreover have "z_valid s (MULT_Z w)"
    using sb_sw_generate_z_valid [OF known(2)] z c(3) sb_sw_point_validate_val(5) [OF known(2), of m1] p
    by (simp add: w_def m1_def)
  moreover have "MULT_POINT_X w = sb_fe_mod_reduce (sb_fe_from_bytes (low_half public) e) (curve_p s)"
    "MULT_POINT_Y w = sb_fe_mod_reduce (sb_fe_from_bytes (high_half public) e) (curve_p s)"
    using sb_sw_point_validate_val(2,3) [OF known(2), of m1] p by (simp_all add: w_def m1_def)
  ultimately show ?thesis
    using known by (intro that [of s w]) (simp_all add: w_def)
qed

text \<open>The outcome of the one-call function is the result word after nineteen calls.\<close>

lemma sb_sw_verify_signature_outcome:
  assumes "sb_sw_verify_signature_start signature public message drbg curve e = (SB_SUCCESS, c, drbg')"
  shows "sb_sw_verify_signature signature public message drbg curve e =
    Some (sb_error_if SB_ERROR_SIGNATURE_INVALID
      (st_res (MULT_STATE (verify_calls (running_curve c) 19 c)) = 0), context_zero, drbg')"
proof -
  obtain c' where c': "do_continue sb_sw_verify_signature_continue c = Some (SB_SUCCESS, c')"
    "calls sb_sw_verify_signature_continue 19 c True c'"
    "sb_sw_verify_signature_finish c' = (sb_error_if SB_ERROR_SIGNATURE_INVALID (st_res (MULT_STATE c') = 0), context_zero)"
    using sb_sw_verify_signature_loop [OF assms] by blast
  have "c' = verify_calls (running_curve c) 19 c"
    using verifying_calls [OF c'(2)] sb_sw_verify_signature_start_running [OF assms] by simp
  with c' show ?thesis
    by (simp add: sb_sw_verify_signature_def assms SB_SUCCESS_def)
qed

text \<open>
  With a model of the multiples of the base point, the one-call verification accepts exactly the signatures
  that satisfy the equation.
\<close>

lemma verify_key_validated:
  fixes w :: sb_sw_context
  assumes ok: "curve_ok s" and P: "prime_modulus (modulus (curve_p s))" and z: "z_valid s (MULT_Z w)"
    and k: "valid_key s public e" "same_point (modulus (curve_p s)) (key_x public e, key_y public e) (M u)"
    and X: "MULT_POINT_X w = sb_fe_mod_reduce (sb_fe_from_bytes (low_half public) e) (curve_p s)"
    and Y: "MULT_POINT_Y w = sb_fe_mod_reduce (sb_fe_from_bytes (high_half public) e) (curve_p s)"
  shows "verify_key s M u w"
proof -
  let ?p = "curve_p s"
  note C = curve_okD [OF ok]
  have zq: "quasi_reduced ?p (MULT_Z w)" "MULT_Z w \<noteq> prime_p ?p"
    using z by (auto simp: z_valid_def quasi_reduced_def)
  have "quasi_reduced ?p (prime_p ?p)" "mval ?p (prime_p ?p) = 0"
    using C(5) by (simp_all add: quasi_reduced_def mval_def)
  then have "mval ?p (MULT_Z w) \<noteq> 0"
    using mval_inject [OF C(1) zq(1), of "prime_p ?p"] zq(2) by auto
  from fermat_at_mval [OF C(1) P this] zq(1) k(2) show ?thesis
    using sb_fe_mod_reduce_p [OF ok] by (simp add: verify_key_def point_qr_def X Y same_point_def eqm_mod key_x_def key_y_def)
qed

lemma verify_signature_decides:
  assumes st: "sb_sw_verify_signature_start signature public message drbg curve e = (SB_SUCCESS, c, drbg')"
    and s: "sb_sw_curve_from_id curve = (SB_SUCCESS, Some s)" "prime_modulus (modulus (curve_p s))"
    and M: "verify_curve s m M g h" "table_key m u g h"
      "same_point (modulus (curve_p s)) (key_x public e, key_y public e) (M u)"
    and f: "scalar_valid s (sb_fe_from_bytes (high_half signature) e) \<Longrightarrow>
      fermat_at (modulus (curve_n s)) (fe_val (sb_fe_from_bytes (high_half signature) e))"
  shows "sb_sw_verify_signature signature public message drbg curve e =
    Some (if signature_accepted s m M u g h (sb_fe_from_bytes (low_half signature) e)
        (sb_fe_from_bytes (high_half signature) e) (sb_fe_from_bytes message e)
      then SB_SUCCESS else SB_ERROR_SIGNATURE_INVALID, context_zero, drbg')"
proof -
  obtain s' w where w: "sb_sw_curve_from_id curve = (SB_SUCCESS, Some s')" "curve_ok s'" "c = sb_sw_verify_start w s'"
    "running_curve c = s'" "valid_key s' public e"
    "VERIFY_QR w = sb_fe_from_bytes (low_half signature) e" "VERIFY_QS w = sb_fe_from_bytes (high_half signature) e"
    "VERIFY_MESSAGE w = sb_fe_from_bytes message e" "z_valid s' (MULT_Z w)"
    "MULT_POINT_X w = sb_fe_mod_reduce (sb_fe_from_bytes (low_half public) e) (curve_p s')"
    "MULT_POINT_Y w = sb_fe_mod_reduce (sb_fe_from_bytes (high_half public) e) (curve_p s')"
    by (rule sb_sw_verify_signature_start_context [OF st])
  have s': "s' = s" using w(1) s(1) by simp
  note w = w [unfolded s']
  have "verify_key s M u w"
    by (rule verify_key_validated [OF w(2) s(2) w(9,5) _ w(10,11)]) (rule M(3))
  from sb_sw_verify_val(2) [OF M(1,2) this] f show ?thesis
    unfolding sb_sw_verify_signature_outcome [OF st] w(4) unfolding w(3) w(6-8)
    by (simp add: sb_error_if_eq)
qed

text \<open>
  C6: a malformed signature is never accepted: unless both numbers lie between one and the order minus one, the
  digest is not zero modulo the order and the public key is a point of the curve, the one-call
  verification returns an error, for every generator, byte order and curve identifier.
\<close>

theorem malformed_never_accepted:
  assumes "\<forall>s. sb_sw_curve_from_id curve = (SB_SUCCESS, Some s) \<longrightarrow>
     \<not> (valid_key s public e \<and> well_formed s (sb_fe_from_bytes (low_half signature) e)
          (sb_fe_from_bytes (high_half signature) e) (sb_fe_from_bytes message e))"
  shows "\<exists>err drbg'. sb_sw_verify_signature signature public message drbg curve e = Some (err, context_zero, drbg') \<and>
    err \<noteq> SB_SUCCESS"
proof -
  obtain err c d where st: "sb_sw_verify_signature_start signature public message drbg curve e = (err, c, d)"
    by (metis prod_cases3)
  show ?thesis
  proof (cases "err = SB_SUCCESS")
    case True
    with st obtain s w where s: "sb_sw_curve_from_id curve = (SB_SUCCESS, Some s)" "curve_ok s"
      "c = sb_sw_verify_start w s" "running_curve c = s" "valid_key s public e"
      and w: "VERIFY_QR w = sb_fe_from_bytes (low_half signature) e"
        "VERIFY_QS w = sb_fe_from_bytes (high_half signature) e" "VERIFY_MESSAGE w = sb_fe_from_bytes message e"
      using sb_sw_verify_signature_start_context by blast
    have "\<not> well_formed s (VERIFY_QR w) (VERIFY_QS w) (VERIFY_MESSAGE w)"
      using assms s(1,5) w by simp
    from verify_calls_malformed [OF s(2) this, of 18] have "st_res (MULT_STATE (verify_calls s 19 c)) = 0"
      by (simp add: s(3))
    then show ?thesis
      using sb_sw_verify_signature_outcome [OF st [unfolded True]] by (simp add: s(4) sb_error_if_eq)
  qed (simp add: sb_sw_verify_signature_def st)
qed

theorem malformed_never_accepted_witness:
  "\<exists>err drbg'. sb_sw_verify_signature
     (sb_fe_to_bytes (prime_p (curve_n SB_CURVE_P256)) SB_DATA_ENDIAN_BIG @ sb_fe_to_bytes SB_FE_ONE SB_DATA_ENDIAN_BIG)
     (unit_key SB_DATA_ENDIAN_BIG) (replicate 32 1) None SB_SW_CURVE_P256 SB_DATA_ENDIAN_BIG =
       Some (err, context_zero, drbg') \<and> err \<noteq> SB_SUCCESS"
proof (rule malformed_never_accepted, intro allI impI)
  fix s
  assume "sb_sw_curve_from_id SB_SW_CURVE_P256 = (SB_SUCCESS, Some s)"
  then have "s = SB_CURVE_P256" by (simp add: sb_sw_curve_from_id_def)
  then show "\<not> (valid_key s (unit_key SB_DATA_ENDIAN_BIG) SB_DATA_ENDIAN_BIG \<and> well_formed s
      (sb_fe_from_bytes (low_half (sb_fe_to_bytes (prime_p (curve_n SB_CURVE_P256)) SB_DATA_ENDIAN_BIG @
        sb_fe_to_bytes SB_FE_ONE SB_DATA_ENDIAN_BIG)) SB_DATA_ENDIAN_BIG)
      (sb_fe_from_bytes (high_half (sb_fe_to_bytes (prime_p (curve_n SB_CURVE_P256)) SB_DATA_ENDIAN_BIG @
        sb_fe_to_bytes SB_FE_ONE SB_DATA_ENDIAN_BIG)) SB_DATA_ENDIAN_BIG)
      (sb_fe_from_bytes (replicate 32 1) SB_DATA_ENDIAN_BIG))"
    by (simp add: well_formed_def scalar_valid_def halves_of_append SB_ELEM_BYTES_def)
qed

subsection \<open>Signing keeps its operands reduced\<close>

lemma point_mult_output_K:
  assumes "curve_ok s" "st_inv_k st \<in> {0, 1}"
  shows "quasi_reduced (curve_n s) (MULT_K (point_mult_output st m s))"
proof -
  let ?n = "curve_n s"
  note C = curve_okD [OF assms(1)]
  have r: "quasi_reduced ?n (sb_fe_mod_reduce k ?n)" for k
    using sb_sw_scalar_validate_val(2) [OF assms(1), of k] C(6) by (auto intro: quasi_reduced_qrep)
  from assms(2) show ?thesis
    by (auto simp: point_mult_output_def Let_def case_prod_unfold r intro!: quasi_reduced_ops r)
qed

lemma sb_sw_point_mult_continue_inv_k [simp]:
  "st_inv_k (MULT_STATE (snd (sb_sw_point_mult_continue m s))) = st_inv_k (MULT_STATE m)"
proof -
  have "st_inv_k (fst (point_mult_recover_z st m s)) = st_inv_k st" for st
    by (simp add: point_mult_recover_z_def Let_def case_prod_unfold)
  then show ?thesis
    by (simp add: sb_sw_point_mult_continue_def Let_def case_prod_unfold)
qed

lemma sb_sw_point_mult_continue_K:
  assumes "curve_ok s" "st_inv_k (MULT_STATE m) \<in> {0, 1}" "st_stage (MULT_STATE m) \<noteq> SB_SW_POINT_MULT_OP_DONE"
    and "st_stage (MULT_STATE (snd (sb_sw_point_mult_continue m s))) = SB_SW_POINT_MULT_OP_DONE"
  shows "quasi_reduced (curve_n s) (MULT_K (snd (sb_sw_point_mult_continue m s)))"
proof -
  have "st_inv_k (fst (point_mult_recover_z (MULT_STATE m) m s)) = st_inv_k (MULT_STATE m)"
    by (simp add: point_mult_recover_z_def Let_def case_prod_unfold)
  with assms show ?thesis
    by (auto simp: sb_sw_point_mult_continue_def Let_def case_prod_unfold point_mult_output_K mult_stage_defs
        split: if_splits)
qed

lemma sign_inv_range:
  assumes ok: "curve_ok s" and q: "quasi_reduced (curve_n s) (MULT_K g)" "quasi_reduced (curve_n s) (SIGN_PRIVATE g)"
      "quasi_reduced (curve_n s) (SIGN_MESSAGE g)"
    and r: "sign_inv g s = (SB_SUCCESS, g')"
  shows "scalar_valid s (C_X2 g')" "scalar_valid s (C_Y2 g')"
proof -
  let ?n = "curve_n s"
  note C = curve_okD [OF ok]
  define x where "x = sb_fe_mod_reduce (C_X1 g) ?n"
  define i where "i = fst (sb_fe_mod_inv_r (sb_fe_mont_convert (MULT_K g) ?n) ?n (C_T6 g))"
  define y where "y = sb_fe_mont_mult (sb_fe_mod_add (sb_fe_mont_mult x (sb_fe_mont_convert (SIGN_PRIVATE g) ?n) ?n)
    (SIGN_MESSAGE g) ?n) i ?n"
  have x: "quasi_reduced ?n x"
    using sb_sw_scalar_validate_val(2) [OF ok, of "C_X1 g"] C(6) by (auto simp: x_def intro: quasi_reduced_qrep)
  have "quasi_reduced ?n i"
    unfolding i_def by (intro sb_fe_mod_inv_r_val(2) sb_fe_mont_convert_val(3) C q)
  then have y: "quasi_reduced ?n y"
    unfolding y_def by (intro qr_intros sb_fe_mont_convert_val(3) C x q)
  have res: "C_X2 g' = x" "C_Y2 g' = y" "x \<noteq> prime_p ?n" "y \<noteq> prime_p ?n"
    using r by (auto simp: sign_inv_def Let_def case_prod_unfold err_simps sb_fe_equal_iff x_def y_def i_def
        split: if_splits)
  with x y show "scalar_valid s (C_X2 g')" "scalar_valid s (C_Y2 g')"
    by (auto simp: scalar_valid_def quasi_reduced_def simp flip: fe_val_inject)
qed

definition signing_sound :: "sb_sw_curve \<Rightarrow> sb_sw_context \<Rightarrow> bool" where
  "signing_sound s c \<longleftrightarrow> signing c \<and> running_curve c = s \<and> curve_ok s \<and> st_inv_k (MULT_STATE c) \<in> {0, 1} \<and>
     (if sb_sw_sign_is_finished c then scalar_valid s (C_X2 c) \<and> scalar_valid s (C_Y2 c)
      else quasi_reduced (curve_n s) (SIGN_PRIVATE c) \<and> quasi_reduced (curve_n s) (SIGN_MESSAGE c) \<and>
        (st_stage (MULT_STATE c) = SB_SW_SIGN_OP_STAGE_INV \<longrightarrow> quasi_reduced (curve_n s) (MULT_K c)))"

lemma signing_sound_step:
  assumes c: "signing_sound s c" and n: "signing_left c = Suc n"
    and r: "sb_sw_sign_message_digest_continue c = (SB_SUCCESS, fin, c')"
  shows "signing_sound s c'"
proof -
  have S: "signing c" "running_curve c = s" "curve_ok s" "st_inv_k (MULT_STATE c) \<in> {0, 1}"
    and ne: "st_stage (MULT_STATE c) \<noteq> SB_SW_SIGN_OP_STAGE_DONE"
    using c n by (auto simp: signing_sound_def sign_left_def)
  with c have Q: "quasi_reduced (curve_n s) (SIGN_PRIVATE c)" "quasi_reduced (curve_n s) (SIGN_MESSAGE c)"
    "st_stage (MULT_STATE c) = SB_SW_SIGN_OP_STAGE_INV \<Longrightarrow> quasi_reduced (curve_n s) (MULT_K c)"
    by (simp_all add: signing_sound_def sb_sw_sign_is_finished_def)
  have run: "running SB_SW_INCREMENTAL_OPERATION_SIGN_MESSAGE_DIGEST c" using S(1) by (simp add: signing_def)
  have k: "sb_sw_sign_continue c s = (SB_SUCCESS, fin, c')"
    using r by (auto simp: sb_sw_sign_message_digest_continue_running [OF run] S(2) Let_def split: prod.splits if_splits)
  note st = sb_sw_sign_continue_state [OF k] and sg' = sg.step [OF S(1) n r]
  have base: "signing c'" "running_curve c' = s" "curve_ok s"
    using sg' S running_curve_keep [OF st(2)] by simp_all
  show ?thesis
  proof (cases "st_stage (MULT_STATE c) = SB_SW_SIGN_OP_STAGE_INV")
    case True
    obtain g where i: "sign_inv c s = (SB_SUCCESS, g)"
      and c': "c' = set_MULT_STATE g (MULT_STATE c\<lparr>st_stage := SB_SW_SIGN_OP_STAGE_DONE\<rparr>)"
      using k True ne by (auto simp: sb_sw_sign_continue_def Let_def split: prod.splits)
    with sign_inv_range [OF S(3) Q(3) [OF True] Q(1,2) i] S(4) base show ?thesis
      by (simp add: signing_sound_def sb_sw_sign_is_finished_def)
  next
    case False
    define m where "m = snd (sb_sw_point_mult_continue c s)"
    have m: "c' = m"
      using k False ne by (auto simp: sb_sw_sign_continue_def Let_def m_def split: prod.splits)
    have "\<not> sb_sw_sign_is_finished m"
      using sg' st(3) [OF _ n] S(1) n False m by (auto simp: signing_def sb_sw_sign_is_finished_def sign_left_def
          sign_stage_ok_def point_mult_left_def mult_stage_defs split: if_splits)
    moreover have "quasi_reduced (curve_n s) (MULT_K m)" if "st_stage (MULT_STATE m) = SB_SW_SIGN_OP_STAGE_INV"
      using sb_sw_point_mult_continue_K [OF S(3,4)] that False
      by (simp add: m_def SB_SW_SIGN_OP_STAGE_INV_def)
    ultimately show ?thesis
      using base Q S(4) by (simp add: signing_sound_def m) (simp add: m_def)
  qed
qed

lemma signing_sound_calls:
  "calls sb_sw_sign_message_digest_continue n c fin c' \<Longrightarrow> signing_sound s c \<Longrightarrow> n \<le> signing_left c \<Longrightarrow>
    signing_sound s c'"
proof (induction rule: calls.induct)
  case (more n c c' fin c'')
  have "signing c" using more.prems(1) by (simp add: signing_sound_def)
  with sg.calls_left [OF more.hyps(1)] more.prems(2) obtain k where "signing_left c' = Suc k"
    by (metis Suc_le_eq add.right_neutral gr0_conv_Suc less_imp_le_nat nat_neq_iff not_gr_zero order_less_irrefl)
  with more show ?case by (auto intro: signing_sound_step)
qed

lemma sb_sw_sign_message_digest_start_sound:
  assumes st: "sb_sw_sign_message_digest_start private message drbg curve e = (SB_SUCCESS, c, drbg')"
  obtains s where "sb_sw_curve_from_id curve = (SB_SUCCESS, Some s)" "signing_sound s c"
    "scalar_valid s (sb_fe_from_bytes private e)"
proof (cases curve rule: curve_lookup)
  case unknown
  with st show ?thesis by (simp add: sb_sw_sign_message_digest_start_def err_simps)
next
  case (known s)
  obtain m where sh: "sb_sw_sign_message_digest_shared_start m private message s e = (SB_SUCCESS, c)"
    using st by (auto simp: sb_sw_sign_message_digest_start_def Let_def err_simps known split: prod.splits if_splits)
  define d where "d = sb_fe_from_bytes private e"
  define w where "w = m\<lparr>SIGN_PRIVATE := sb_fe_mod_reduce d (curve_n s),
    SIGN_MESSAGE := sb_fe_mod_reduce (sb_fe_from_bytes message e) (curve_n s)\<rparr>"
  have q: "quasi_reduced (curve_n s) (sb_fe_mod_reduce k (curve_n s))" for k
    using sb_sw_scalar_validate_val(2) [OF known(2), of k] curve_okD(6) [OF known(2)]
    by (auto intro: quasi_reduced_qrep)
  have c: "c = sb_sw_sign_start w s" and valid: "scalar_valid s d"
    using sh by (auto simp: sb_sw_sign_message_digest_shared_start_def Let_def sb_sw_scalar_validate_val known(2)
        err_simps scalar_valid_def w_def d_def split: if_splits)
  have run: "running_curve c = s"
    using known(1) by (cases rule: sb_sw_curve_from_id_cases [of curve])
      (auto simp: c running_curve_def sb_sw_sign_start_def Let_def sb_sw_point_mult_start_def sb_sw_curve_from_id_def
        case_prod_unfold SB_CURVE_P256_def SB_CURVE_SECP256K1_def SB_SW_CURVE_P256_def SB_SW_CURVE_SECP256K1_def)
  have "\<not> sb_sw_sign_is_finished c" "st_stage (MULT_STATE c) \<noteq> SB_SW_SIGN_OP_STAGE_INV"
    "st_inv_k (MULT_STATE c) \<in> {0, 1}"
    using test_bit_flag [of "SB_FE_BITS - 1"]
    by (simp_all add: c sb_sw_sign_start_def sb_sw_point_mult_start_def Let_def case_prod_unfold
        sb_sw_sign_is_finished_def mult_stage_defs SB_FE_BITS_def)
  moreover have "SIGN_PRIVATE c = SIGN_PRIVATE w" "SIGN_MESSAGE c = SIGN_MESSAGE w"
    by (simp_all add: c sb_sw_sign_start_def Let_def)
  ultimately have "signing_sound s c"
    using sb_sw_sign_message_digest_start_running(1) [OF st] run known(2) q by (simp add: signing_sound_def w_def)
  with known(1) valid show ?thesis by (intro that [of s]) (simp_all add: d_def)
qed

text \<open>
  C7: a signature that is returned is well formed: when the one-call signing succeeds, the curve is known, the
  private key lies between one and the order minus one, and the output is the sixty-four bytes of two
  numbers in the same range; on an error nothing is written.
\<close>

theorem signature_well_formed:
  "\<exists>err out drbg'. sb_sw_sign_message_digest private message drbg curve e = Some (err, out, context_zero, drbg') \<and>
    (if err = SB_SUCCESS
     then \<exists>s r t. sb_sw_curve_from_id curve = (SB_SUCCESS, Some s) \<and> scalar_valid s (sb_fe_from_bytes private e) \<and>
       scalar_valid s r \<and> scalar_valid s t \<and> out = Some (sb_fe_to_bytes r e @ sb_fe_to_bytes t e)
     else out = None)"
proof -
  obtain err c d where st: "sb_sw_sign_message_digest_start private message drbg curve e = (err, c, d)"
    by (metis prod_cases3)
  show ?thesis
  proof (cases "err = SB_SUCCESS")
    case True
    note st = st [unfolded True]
    obtain s where s: "sb_sw_curve_from_id curve = (SB_SUCCESS, Some s)" "signing_sound s c"
      "scalar_valid s (sb_fe_from_bytes private e)"
      using sb_sw_sign_message_digest_start_sound [OF st] .
    obtain err' c' where l: "do_continue sb_sw_sign_message_digest_continue c = Some (err', c')"
      using sb_sw_sign_message_digest_loop(1) [OF st] by blast
    show ?thesis
    proof (cases "err' = SB_SUCCESS")
      case True
      note f = sb_sw_sign_message_digest_loop(2) [OF st l [unfolded True]]
      have "signing_left c = 18" "signing c" using sb_sw_sign_message_digest_start_running [OF st] by simp_all
      with f s(2) have S: "signing_sound s c'" "signing_left c' = 0"
        using signing_sound_calls [of 18 c True c'] sg.calls_left [of 18 c True c'] by auto
      then have "sb_sw_sign_is_finished c'"
        by (auto simp: signing_sound_def sb_sw_sign_is_finished_def sign_left_def split: if_splits)
      with S(1) have "scalar_valid s (C_X2 c')" "scalar_valid s (C_Y2 c')" by (simp_all add: signing_sound_def)
      with f s(1,3) show ?thesis
        by (auto simp: sb_sw_sign_message_digest_def st l True err_simps SB_SUCCESS_def)
    qed (simp add: sb_sw_sign_message_digest_def st l)
  qed (simp add: sb_sw_sign_message_digest_def st)
qed

text \<open>
  C8: the abscissa zero is not reported by signing: its quasi-reduced form is \<open>P\<close>, which the reduction modulo the order
  turns into \<open>P - N\<close> and not into \<open>N\<close>, so the inversion stage goes on with \<open>r = P - N\<close> and fails only when
  \<open>s\<close> is zero.
\<close>

theorem zero_abscissa_not_reported:
  assumes "curve_ok s" "C_X1 g = prime_p (curve_p s)"
  shows "let (err, g') = sign_inv g s in
    fe_val (C_X2 g') = modulus (curve_p s) - modulus (curve_n s) \<and>
    err = (if C_Y2 g' = prime_p (curve_n s) then SB_ERROR_DRBG_FAILURE else SB_SUCCESS)"
proof -
  let ?n = "curve_n s" and ?x = "sb_fe_mod_reduce (C_X1 g) (curve_n s)"
  note C = curve_okD [OF assms(1)]
  have b: "modulus (curve_p s) < 2 * modulus ?n"
    using fe_val_bound [of "prime_p (curve_p s)"] C(6) by simp
  then have "modulus (curve_p s) mod modulus ?n = modulus (curve_p s) - modulus ?n"
    using C(7) by (intro mod_uniqueI [symmetric, where k = 1]) simp_all
  then have v: "fe_val ?x = modulus (curve_p s) - modulus ?n"
    using sb_sw_scalar_validate_val(2) [OF assms(1), of "C_X1 g"] C(7) by (simp add: assms(2) qrep_def)
  then have "?x \<noteq> prime_p ?n"
    using b by (auto simp flip: fe_val_inject)
  with v show ?thesis
    by (auto simp: sign_inv_def Let_def case_prod_unfold sb_fe_equal_iff sb_error_if_eq SB_SUCCESS_def)
qed

theorem zero_abscissa_not_reported_witness:
  "fe_val (C_X2 (snd (sign_inv (context_zero\<lparr>C_X1 := prime_p (curve_p SB_CURVE_P256)\<rparr>) SB_CURVE_P256))) =
     modulus (curve_p SB_CURVE_P256) - modulus (curve_n SB_CURVE_P256)"
  using zero_abscissa_not_reported [OF SB_CURVE_P256_ok, of "context_zero\<lparr>C_X1 := prime_p (curve_p SB_CURVE_P256)\<rparr>"]
  by (simp add: case_prod_unfold Let_def)

end
