(* ===== verification/Jni.thy ===== *)
theory Jni
  imports SW_Points SW_Signature
begin

text \<open>
  The JNI bridge \<open>sweet_b_signer.c\<close>. A Java byte array is a list of bytes: \<open>GetArrayLength\<close>,
  \<open>GetByteArrayElements\<close> and \<open>NewByteArray\<close> with \<open>SetByteArrayRegion\<close> read and create one, and
  \<open>jbyte\<close> and \<open>sb_byte_t\<close> share their bit patterns. Every bridge function copies its arguments into
  structures of 32 or 64 bytes on the stack, byte by byte, and without comparing
  lengths. The prior contents of the structures are arguments (\<open>stack\<close>); arrays are not null and the JNI calls do not fail. A write past the end of a
  structure is the value \<open>None\<close>, as is a call of the library that does not return. A result \<open>Some None\<close>
  is the null reference.
\<close>

type_synonym jbyteArray = "sb_byte list"

text \<open>The loop \<open>for (int i = 0; i < length; i++) s.bytes[i] = array[i]\<close>.\<close>

function jni_copy :: "nat \<Rightarrow> jbyteArray \<Rightarrow> sb_byte list \<Rightarrow> sb_byte list option" where
  "jni_copy i arr bytes =
     (if i < length arr then
        if i < length bytes then jni_copy (i + 1) arr (bytes[i := arr ! i]) else None
      else Some bytes)"
  by pat_completeness auto

termination
  by (relation "measure (\<lambda>(i, arr, bytes). length arr - i)") auto

declare jni_copy.simps [simp del]

definition jni_bytes :: "jbyteArray \<Rightarrow> sb_byte list \<Rightarrow> sb_byte list option" where
  "jni_bytes arr stack = jni_copy 0 arr stack"

definition jniCompressPublicKey ::
  "sb_byte list \<Rightarrow> jbyteArray \<Rightarrow> sb_sw_curve_id \<Rightarrow> jbyteArray option option" where
  "jniCompressPublicKey stack publicKey curve =
     (case jni_bytes publicKey stack of
        None \<Rightarrow> None
      | Some public_key \<Rightarrow>
          let (result, compressed_pk, sign, ct) = sb_sw_compress_public_key public_key curve SB_DATA_ENDIAN_BIG;
              yParityByte = (if sign then 3 else 2)
          in if result \<noteq> SB_SUCCESS then Some None else Some (Some (yParityByte # compressed_pk)))"

definition jniGenerateSharedSecret ::
  "sb_byte list \<Rightarrow> sb_byte list \<Rightarrow> jbyteArray \<Rightarrow> jbyteArray \<Rightarrow> sb_sw_curve_id \<Rightarrow> jbyteArray option option" where
  "jniGenerateSharedSecret stack\<^sub>1 stack\<^sub>2 privateKey publicKey curve =
     (case jni_bytes privateKey stack\<^sub>1 of
        None \<Rightarrow> None
      | Some private_key \<Rightarrow>
     (case jni_bytes publicKey stack\<^sub>2 of
        None \<Rightarrow> None
      | Some public_key \<Rightarrow>
     (case sb_sw_shared_secret private_key public_key None curve SB_DATA_ENDIAN_BIG of
        None \<Rightarrow> None
      | Some (result, secret, ct, drbg) \<Rightarrow> if result \<noteq> SB_SUCCESS then Some None else Some secret)))"

definition jniSignMessageDigest ::
  "sb_byte list \<Rightarrow> sb_byte list \<Rightarrow> jbyteArray \<Rightarrow> jbyteArray \<Rightarrow> sb_sw_curve_id \<Rightarrow> jbyteArray option option" where
  "jniSignMessageDigest stack\<^sub>1 stack\<^sub>2 privateKey digest curve =
     (case jni_bytes privateKey stack\<^sub>1 of
        None \<Rightarrow> None
      | Some private_key \<Rightarrow>
     (case jni_bytes digest stack\<^sub>2 of
        None \<Rightarrow> None
      | Some message_digest \<Rightarrow>
     (case sb_sw_sign_message_digest private_key message_digest None curve SB_DATA_ENDIAN_BIG of
        None \<Rightarrow> None
      | Some (result, signature, ct, drbg) \<Rightarrow> if result \<noteq> SB_SUCCESS then Some None else Some signature)))"

definition jniComputePublicKey ::
  "sb_byte list \<Rightarrow> jbyteArray \<Rightarrow> sb_sw_curve_id \<Rightarrow> jbyteArray option option" where
  "jniComputePublicKey stack data curve =
     (case jni_bytes data stack of
        None \<Rightarrow> None
      | Some private_key \<Rightarrow>
     (case sb_sw_compute_public_key private_key None curve SB_DATA_ENDIAN_BIG of
        None \<Rightarrow> None
      | Some (result, public_key, ct, drbg) \<Rightarrow> if result \<noteq> SB_SUCCESS then Some None else Some public_key))"

text \<open>
  Verification first copies the array to the heap; \<open>heap\<close> says whether \<open>malloc\<close> returned a
  buffer. Copying a non-empty array to a null pointer is undefined. The buffer is not freed.
\<close>

definition jniVerifyPublicKey ::
  "bool \<Rightarrow> sb_byte list \<Rightarrow> jbyteArray \<Rightarrow> sb_sw_curve_id \<Rightarrow> sb_error option" where
  "jniVerifyPublicKey heap stack data curve =
     (if \<not> heap \<and> data \<noteq> [] then None
      else
        let public_key_buffer = data
        in case jni_bytes public_key_buffer stack of
             None \<Rightarrow> None
           | Some public_key \<Rightarrow> Some (fst (sb_sw_valid_public_key public_key curve SB_DATA_ENDIAN_BIG)))"

subsection \<open>What the copies need\<close>

lemmas jni_sizes = SB_ELEM_BYTES_def SB_KEY_PAIR_BYTES_def

text \<open>The copy is defined when the array fits; a short array keeps the tail of the stack contents.\<close>

lemma jni_copy_val:
  "i \<le> length arr \<Longrightarrow> i \<le> length bytes \<Longrightarrow> jni_copy i arr bytes =
    (if length arr \<le> length bytes then Some (take i bytes @ drop i arr @ drop (length arr) bytes) else None)"
proof (induction i arr bytes rule: jni_copy.induct)
  case (1 i arr bytes)
  show ?case
  proof (cases "i < length arr \<and> i < length bytes")
    case True
    then have "take (i + 1) (bytes[i := arr ! i]) @ drop (i + 1) arr = take i bytes @ drop i arr"
      by (simp add: take_Suc_conv_app_nth Cons_nth_drop_Suc)
    then show ?thesis
      using 1 True by (subst jni_copy.simps) (simp flip: append_assoc)
  next
    case False
    then show ?thesis
      using 1(2,3) by (subst jni_copy.simps) auto
  qed
qed

lemma jni_bytes_val:
  "jni_bytes arr stack = (if length arr \<le> length stack then Some (arr @ drop (length arr) stack) else None)"
  by (simp add: jni_bytes_def jni_copy_val)

text \<open>
  C22: the bridge is memory safe exactly for arrays that fit the structures they are copied to: with
  the 32-byte and 64-byte structures of the source every call is defined and returns if
  no array is longer than its structure, and every longer array is written past the end of the
  stack buffer, whatever the key or the curve. No length is checked. Verification needs its \<open>malloc\<close> to
  succeed as well, unless the array is empty; the JNI calls that read and create arrays are taken to succeed.
\<close>

theorem jni_memory_safety:
  assumes "length stack\<^sub>1 = SB_ELEM_BYTES" "length stack\<^sub>2 = SB_ELEM_BYTES" "length stack = SB_KEY_PAIR_BYTES"
  shows "(jniComputePublicKey stack\<^sub>1 private_key curve \<noteq> None \<longleftrightarrow> length private_key \<le> 32) \<and>
    (jniSignMessageDigest stack\<^sub>1 stack\<^sub>2 private_key digest curve \<noteq> None \<longleftrightarrow>
      length private_key \<le> 32 \<and> length digest \<le> 32) \<and>
    (jniGenerateSharedSecret stack\<^sub>1 stack private_key public_key curve \<noteq> None \<longleftrightarrow>
      length private_key \<le> 32 \<and> length public_key \<le> 64) \<and>
    (jniCompressPublicKey stack public_key curve \<noteq> None \<longleftrightarrow> length public_key \<le> 64) \<and>
    (jniVerifyPublicKey heap stack public_key curve \<noteq> None \<longleftrightarrow>
      (heap \<or> public_key = []) \<and> length public_key \<le> 64)"
  (is "?C \<and> ?S \<and> ?G \<and> ?P \<and> ?V")
proof (intro conjI)
  let ?k = "private_key @ drop (length private_key) stack\<^sub>1"
  obtain err out c d where c: "sb_sw_compute_public_key ?k None curve SB_DATA_ENDIAN_BIG = Some (err, out, c, d)"
    using sb_sw_compute_public_key_returns by blast
  show ?C
    using assms c by (auto simp: jniComputePublicKey_def jni_bytes_val jni_sizes)
  let ?m = "digest @ drop (length digest) stack\<^sub>2"
  obtain err out c d where c: "sb_sw_sign_message_digest ?k ?m None curve SB_DATA_ENDIAN_BIG = Some (err, out, c, d)"
    using sb_sw_sign_message_digest_returns by blast
  show ?S
    using assms c by (auto simp: jniSignMessageDigest_def jni_bytes_val jni_sizes)
  let ?p = "public_key @ drop (length public_key) stack"
  obtain err out c d where c: "sb_sw_shared_secret ?k ?p None curve SB_DATA_ENDIAN_BIG = Some (err, out, c, d)"
    using sb_sw_shared_secret_returns by blast
  show ?G
    using assms c by (auto simp: jniGenerateSharedSecret_def jni_bytes_val jni_sizes)
  show ?P ?V
    using assms by (auto simp: jniCompressPublicKey_def jniVerifyPublicKey_def jni_bytes_val jni_sizes case_prod_unfold Let_def)
qed

theorem jni_memory_safety_witness:
  "jniCompressPublicKey (replicate SB_KEY_PAIR_BYTES 0) (replicate 65 4) SB_SW_CURVE_P256 = None"
  using jni_memory_safety [of "replicate SB_ELEM_BYTES 0" "replicate SB_ELEM_BYTES 0" "replicate SB_KEY_PAIR_BYTES 0"
      "[]" SB_SW_CURVE_P256 "[]" "replicate 65 4"]
  by simp

text \<open>
  C23: on a 64-byte array the bridge depends on nothing but the array: the key is verified without error
  exactly when it is a valid key of the curve, compression returns null for any other key, and for
  a valid key the 33 bytes of its SEC 1 compressed form, a tag two or three for an even or odd
  ordinate before the abscissa in big-endian order. The allocation and the JNI calls are taken to succeed.
\<close>

theorem jni_public_keys:
  assumes "length key = SB_KEY_PAIR_BYTES" "sb_sw_curve_from_id curve = (SB_SUCCESS, Some s)"
    and "length stack = SB_KEY_PAIR_BYTES"
  shows "jniVerifyPublicKey True stack key curve =
      Some (if valid_key s key SB_DATA_ENDIAN_BIG then SB_SUCCESS else SB_ERROR_PUBLIC_KEY_INVALID) \<and>
    jniCompressPublicKey stack key curve =
      Some (if valid_key s key SB_DATA_ENDIAN_BIG
            then Some ((if even (be_val (drop 32 key)) then 2 else 3) # take 32 key) else None)"
proof -
  have "key_y key SB_DATA_ENDIAN_BIG = be_val (drop 32 key)"
    using assms(1) by (simp add: key_y_def high_half_def jni_sizes sb_fe_from_bytes_val in_order_def
        SB_DATA_ENDIAN_LITTLE_def SB_DATA_ENDIAN_BIG_def)
  then show ?thesis
    using assms by (simp add: jniVerifyPublicKey_def jniCompressPublicKey_def jni_bytes_val Let_def
        sb_sw_valid_public_key_val sb_sw_compress_public_key_val low_half_def jni_sizes error_codes_nonzero)
qed

theorem jni_public_keys_witness:
  "jniVerifyPublicKey True (replicate 64 255) (unit_key SB_DATA_ENDIAN_BIG) SB_SW_CURVE_P256 = Some SB_SUCCESS"
  using jni_public_keys [OF unit_key_val(3), of SB_SW_CURVE_P256 SB_CURVE_P256 "replicate 64 255" SB_DATA_ENDIAN_BIG]
    unit_key_valid [of SB_DATA_ENDIAN_BIG]
  by (simp add: sb_sw_curve_from_id_def SB_SUCCESS_def jni_sizes)

end
