(* ===== verification/FE_Tests.thy ===== *)
theory FE_Tests
  imports Curve_Points Point_Arith
begin

text \<open>
  The unit tests of the field layer, \<open>sb_fe_tests.c.h\<close>, as functions of the model, and the proofs that they pass.
  A test is the conjunction of its assertions; what it does between two of them is bound by \<open>let\<close>. The
  markers \<open>SB_FE_QR\<close> do nothing in the modelled configuration.
\<close>

subsection \<open>Addition, subtraction and shift\<close>

definition sb_test_fe :: bool where
  "sb_test_fe \<longleftrightarrow>
     (let (res, b) = sb_fe_sub SB_FE_ZERO SB_FE_ONE in
      b = 1 \<and> list_all (\<lambda>i. fe_words res ! i = - 1) [0..<4] \<and>
     (let (res, c) = sb_fe_add res SB_FE_ONE in
      c = 1 \<and> sb_fe_equal res SB_FE_ZERO \<noteq> 0 \<and>
     (let (res, b) = sb_fe_sub SB_FE_ZERO SB_FE_ONE in
      b = 1 \<and>
     (let res = sb_fe_rshift_w res 1; (res, c) = sb_fe_add res res in
      c = 0 \<and>
     (let (res, c) = sb_fe_add res SB_FE_ONE in
      c = 0 \<and>
     (let (res, c) = sb_fe_add res SB_FE_ONE in
      c = 1 \<and> sb_fe_equal res SB_FE_ZERO \<noteq> 0))))))"

lemma sb_test_fe: sb_test_fe
  by code_simp

subsection \<open>Doubling and halving\<close>

definition sb_test_mod_double :: bool where
  "sb_test_mod_double \<longleftrightarrow>
     (let p = SB_CURVE_P256_P;
          a = SB_FE_ONE; (a, b) = sb_fe_mod_halve a p; a = sb_fe_mod_double a p in
      sb_fe_equal a SB_FE_ONE \<noteq> 0 \<and>
     (let a = sb_fe_mod_double a p; (a, b) = sb_fe_mod_halve a p in
      sb_fe_equal a SB_FE_ONE \<noteq> 0 \<and>
     (let a = prime_p p; (a, b) = sb_fe_mod_halve a p in
      sb_fe_equal a (prime_p p) \<noteq> 0 \<and>
     (let a = sb_fe_mod_double a p in
      sb_fe_equal a (prime_p p) \<noteq> 0 \<and>
     (let a = prime_p p; a = sb_fe_mod_sub a SB_FE_ONE p; (a, b) = sb_fe_mod_halve a p;
          a = sb_fe_mod_double a p; a = sb_fe_mod_add a SB_FE_ONE p in
      sb_fe_equal a (prime_p p) \<noteq> 0)))))"

text \<open>Quasi-reduced elements are determined by their residue.\<close>

lemma quasi_reduced_unique:
  assumes "quasi_reduced p a" "quasi_reduced p b" "fe_val a mod modulus p = fe_val b mod modulus p"
  shows "a = b"
  using assms qrep_cong [OF assms(3)] qrep_self [of "fe_val a" "modulus p"] qrep_self [of "fe_val b" "modulus p"]
  by (simp add: quasi_reduced_def fe_val_inject)

lemma quasi_reduced_double: "quasi_reduced p x \<Longrightarrow> quasi_reduced p (sb_fe_mod_double x p)"
  by (simp add: sb_fe_mod_double_def qr_intros)

lemma double_mod: "quasi_reduced p x \<Longrightarrow> fe_val (sb_fe_mod_double x p) mod modulus p = (2 * fe_val x) mod modulus p"
  by (simp add: sb_fe_mod_double_val)

lemma double_halve:
  assumes "quasi_reduced p a" "odd (modulus p)"
  shows "sb_fe_mod_double (fst (sb_fe_mod_halve a p)) p = a"
  using assms sb_fe_mod_halve_double [OF assms]
  by (intro quasi_reduced_unique [of p]) (simp_all add: quasi_reduced_double double_mod)

lemma double_cancel:
  assumes "quasi_reduced p a" "quasi_reduced p b" "odd (modulus p)"
    and "sb_fe_mod_double a p = sb_fe_mod_double b p"
  shows "a = b"
proof -
  have "(2 * fe_val a) mod modulus p = (2 * fe_val b) mod modulus p"
    unfolding double_mod [OF assms(1), symmetric] double_mod [OF assms(2), symmetric] by (simp only: assms(4))
  then have "modulus p dvd 2 * (fe_val a - fe_val b)"
    by (simp add: mod_eq_dvd_iff right_diff_distrib)
  then have "modulus p dvd fe_val a - fe_val b"
    using assms(3) coprime_dvd_mult_right_iff [of "modulus p" 2] by (simp only: coprime_right_2_iff_odd not_False_eq_True)
  then show ?thesis
    using assms(1,2) by (intro quasi_reduced_unique [of p]) (simp_all add: mod_eq_dvd_iff)
qed

lemma halve_double:
  assumes "quasi_reduced p a" "odd (modulus p)"
  shows "fst (sb_fe_mod_halve (sb_fe_mod_double a p) p) = a"
  using sb_fe_mod_halve_double(1) [OF quasi_reduced_double [OF assms(1)] assms(2)]
    double_halve [OF quasi_reduced_double [OF assms(1)] assms(2)]
  by (intro double_cancel [OF _ assms]) simp_all

lemma zero_representative:
  assumes "odd (modulus p)" "1 < modulus p"
  shows "sb_fe_mod_double (prime_p p) p = prime_p p" "fst (sb_fe_mod_halve (prime_p p) p) = prime_p p"
    "sb_fe_mod_add (sb_fe_mod_sub (prime_p p) SB_FE_ONE p) SB_FE_ONE p = prime_p p"
proof -
  have q: "quasi_reduced p (prime_p p)" "quasi_reduced p SB_FE_ONE"
    using assms by (simp_all add: quasi_reduced_def)
  show d: "sb_fe_mod_double (prime_p p) p = prime_p p"
    using q by (intro quasi_reduced_unique [of p]) (simp_all add: quasi_reduced_double double_mod)
  then show "fst (sb_fe_mod_halve (prime_p p) p) = prime_p p"
    using halve_double [OF q(1) assms(1)] by simp
  have s: "quasi_reduced p (sb_fe_mod_sub (prime_p p) SB_FE_ONE p)"
    using q by (simp add: qr_intros)
  show "sb_fe_mod_add (sb_fe_mod_sub (prime_p p) SB_FE_ONE p) SB_FE_ONE p = prime_p p"
    using q s mod_add_left_eq [of "qrep (modulus p) (modulus p - 1)" "modulus p" 1] mod_add_left_eq [of "modulus p - 1" "modulus p" 1]
    by (intro quasi_reduced_unique [of p]) (simp_all add: qr_intros sb_fe_mod_add_val sb_fe_mod_sub_val)
qed

lemma sb_test_mod_double: sb_test_mod_double
proof -
  let ?p = SB_CURVE_P256_P
  have o: "odd (modulus ?p)" "1 < modulus ?p" by (simp_all add: SB_CURVE_P256_P_val)
  then have q: "quasi_reduced ?p SB_FE_ONE" "quasi_reduced ?p (prime_p ?p)" by (simp_all add: quasi_reduced_def)
  then have s: "quasi_reduced ?p (sb_fe_mod_sub (prime_p ?p) SB_FE_ONE ?p)" by (simp add: qr_intros)
  show ?thesis
    by (simp add: sb_test_mod_double_def Let_def case_prod_unfold sb_fe_equal_iff zero_representative [OF o]
        double_halve [OF q(1) o(1)] halve_double [OF q(1) o(1)] double_halve [OF s o(1)])
qed

subsection \<open>Montgomery multiplication\<close>

definition sb_test_mont_mult :: bool where
  "sb_test_mont_mult \<longleftrightarrow>
     (let P = SB_CURVE_P256_P; N = SB_CURVE_P256_N;
          p256_r_inv = sb_fe_const 0xFFFFFFFE00000003 0xFFFFFFFD00000002 0x00000001FFFFFFFE 0x0000000300000000;
          (r, b) = sb_fe_sub SB_FE_ZERO (prime_p P) in
      b = 1 \<and>
     (let t = sb_fe_mont_square SB_FE_ONE P in sb_fe_equal t p256_r_inv \<noteq> 0) \<and>
     (let t = sb_fe_mont_mult r SB_FE_ONE P in sb_fe_equal t SB_FE_ONE \<noteq> 0) \<and>
     (let t = sb_fe_mont_mult (r2_mod_p P) SB_FE_ONE P in sb_fe_equal t r \<noteq> 0) \<and>
     (let t = sb_fe_mont_mult (r2_mod_p P) p256_r_inv P in sb_fe_equal t SB_FE_ONE \<noteq> 0) \<and>
     (let np = prime_p N; t2 = sb_fe_mont_mult np (r2_mod_p P) P; t = sb_fe_mont_reduce t2 P in
      sb_fe_equal t (prime_p N) \<noteq> 0) \<and>
     (let (r, b) = sb_fe_sub SB_FE_ZERO (prime_p N) in
      b = 1 \<and> sb_fe_equal r (r_mod_p N) \<noteq> 0 \<and>
     (let t = sb_fe_mont_mult (r2_mod_p N) SB_FE_ONE N in sb_fe_equal t r \<noteq> 0) \<and>
     (let t = sb_fe_mont_mult r SB_FE_ONE N in sb_fe_equal t SB_FE_ONE \<noteq> 0)) \<and>
     (let a5 = sb_fe_const 0xAA55AA55AA55AA55 0x55AA55AA55AA55AA 0xAA55AA55AA55AA55 0x55AA55AA55AA55AA;
          t = sb_fe_mont_mult (prime_p P) a5 P in
      sb_fe_equal t (prime_p P) \<noteq> 0))"

text \<open>The product is determined by \<open>R t = x y\<close>.\<close>

lemma mont_mult_eqI:
  assumes "mont_ok p" "quasi_reduced p x" "quasi_reduced p y" "quasi_reduced p t"
    and "(2 ^ 256 * fe_val t) mod modulus p = (fe_val x * fe_val y) mod modulus p"
  shows "sb_fe_mont_mult x y p = t"
proof (rule quasi_reduced_unique [OF mont_qr [OF assms(1-3)] assms(4)])
  have "odd (modulus p)" using assms(1) by (simp add: mont_ok_def)
  from rinv_cancel [OF this assms(5)] show "fe_val (sb_fe_mont_mult x y p) mod modulus p = fe_val t mod modulus p"
    by (simp add: sb_fe_mont_mult_val [OF assms(1-3)])
qed

lemma field_constants_mont:
  assumes ok: "prime_field_ok p"
  shows "sb_fe_mont_mult (r_mod_p p) SB_FE_ONE p = SB_FE_ONE" "sb_fe_mont_mult (r2_mod_p p) SB_FE_ONE p = r_mod_p p"
    and "quasi_reduced p x \<Longrightarrow> sb_fe_mont_mult (prime_p p) x p = prime_p p"
    and "quasi_reduced p x \<Longrightarrow> sb_fe_mont_reduce (sb_fe_mont_mult x (r2_mod_p p) p) p = x"
    and "quasi_reduced p x \<Longrightarrow> (2 ^ 256 * fe_val x) mod modulus p = 1 \<Longrightarrow>
      sb_fe_mont_square SB_FE_ONE p = x \<and> sb_fe_mont_mult (r2_mod_p p) x p = SB_FE_ONE"
proof -
  note D = prime_field_okD [OF ok] and Q = prime_field_ok_qr [OF ok]
  have q: "quasi_reduced p SB_FE_ONE" "quasi_reduced p (prime_p p)"
    using D(3) by (simp_all add: quasi_reduced_def)
  have r: "fe_val (r_mod_p p) = 2 ^ 256 mod modulus p" "fe_val (r2_mod_p p) = 2 ^ 512 mod modulus p"
    using ok by (simp_all add: prime_field_ok_def)
  have sq: "(2 :: int) ^ 256 * 2 ^ 256 = 2 ^ 512" by simp
  show "sb_fe_mont_mult (r_mod_p p) SB_FE_ONE p = SB_FE_ONE"
    by (rule mont_mult_eqI [OF D(1) Q(1) q(1,1)]) (simp add: r)
  show "sb_fe_mont_mult (r2_mod_p p) SB_FE_ONE p = r_mod_p p"
    by (rule mont_mult_eqI [OF D(1) Q(2) q(1) Q(1)]) (simp add: r mod_mult_right_eq sq)
  show "sb_fe_mont_mult (prime_p p) x p = prime_p p" if "quasi_reduced p x"
    by (rule mont_mult_eqI [OF D(1) q(2) that q(2)]) simp
  show "sb_fe_mont_reduce (sb_fe_mont_mult x (r2_mod_p p) p) p = x" if x: "quasi_reduced p x"
  proof -
    have "mval p (sb_fe_mont_mult x (r2_mod_p p) p) = fe_val x mod modulus p"
      using sb_fe_mont_convert_val(2) [OF ok x] by (simp add: sb_fe_mont_convert_def)
    then show ?thesis
      using sb_fe_mont_reduce_val [OF ok mont_qr [OF D(1) x Q(2)]] x
      by (intro quasi_reduced_unique [of p]) simp_all
  qed
  show "sb_fe_mont_square SB_FE_ONE p = x \<and> sb_fe_mont_mult (r2_mod_p p) x p = SB_FE_ONE"
    if x: "quasi_reduced p x" and e: "(2 ^ 256 * fe_val x) mod modulus p = 1"
  proof
    have one: "(2 ^ 256 * fe_val x) mod modulus p = (fe_val SB_FE_ONE * fe_val SB_FE_ONE) mod modulus p"
      unfolding e using D(3) by simp
    show "sb_fe_mont_square SB_FE_ONE p = x"
      unfolding sb_fe_mont_square_def by (rule mont_mult_eqI [OF D(1) q(1,1) x one])
    have "(2 ^ 512 mod modulus p * fe_val x) mod modulus p = (2 ^ 256 * (2 ^ 256 * fe_val x mod modulus p)) mod modulus p"
      unfolding sq [symmetric] by (simp only: mult.assoc mod_mult_left_eq mod_mult_right_eq)
    then have "(2 ^ 256 * fe_val SB_FE_ONE) mod modulus p = (fe_val (r2_mod_p p) * fe_val x) mod modulus p"
      unfolding e r(2) by simp
    then show "sb_fe_mont_mult (r2_mod_p p) x p = SB_FE_ONE"
      by (rule mont_mult_eqI [OF D(1) Q(2) x q(1)])
  qed
qed

text \<open>\<open>2 ^ 256 - p\<close> is the constant \<open>R mod p\<close> of both fields.\<close>

lemma sub_zero_prime:
  assumes "fe_val (r_mod_p p) = 2 ^ 256 - modulus p" "0 < modulus p"
  shows "sb_fe_sub SB_FE_ZERO (prime_p p) = (r_mod_p p, 1)"
proof -
  have "fe_val (fst (sb_fe_sub SB_FE_ZERO (prime_p p))) = (- modulus p) mod 2 ^ 256"
    by (simp add: sb_fe_sub_val)
  also have "\<dots> = 2 ^ 256 - modulus p"
    using assms(2) fe_val_bound [of "prime_p p"] by (intro mod_uniqueI [symmetric, where k = "- 1"]) auto
  finally have "fst (sb_fe_sub SB_FE_ZERO (prime_p p)) = r_mod_p p"
    using assms(1) by (intro fe_val_inject [THEN iffD1]) simp
  moreover have "snd (sb_fe_sub SB_FE_ZERO (prime_p p)) = 1"
    using assms(2) by (simp add: sb_fe_sub_val)
  ultimately show ?thesis by (simp add: prod_eq_iff)
qed

lemma sb_test_mont_mult: sb_test_mont_mult
proof -
  let ?P = SB_CURVE_P256_P and ?N = SB_CURVE_P256_N
  let ?i = "sb_fe_const 0xFFFFFFFE00000003 0xFFFFFFFD00000002 0x00000001FFFFFFFE 0x0000000300000000"
  let ?a = "sb_fe_const 0xAA55AA55AA55AA55 0x55AA55AA55AA55AA 0xAA55AA55AA55AA55 0x55AA55AA55AA55AA"
  have q: "quasi_reduced ?P ?i" "quasi_reduced ?P ?a" "quasi_reduced ?P (prime_p ?N)"
    by (simp_all add: quasi_reduced_def SB_CURVE_P256_P_val SB_CURVE_P256_N_val sb_fe_const_def fe_val_FE)
  have i: "(2 ^ 256 * fe_val ?i) mod modulus ?P = 1"
    by (simp add: SB_CURVE_P256_P_val sb_fe_const_def fe_val_FE)
  have s: "sb_fe_sub SB_FE_ZERO (prime_p ?P) = (r_mod_p ?P, 1)" "sb_fe_sub SB_FE_ZERO (prime_p ?N) = (r_mod_p ?N, 1)"
    by (rule sub_zero_prime; simp add: SB_CURVE_P256_P_val SB_CURVE_P256_N_val)+
  note cP = field_constants_mont [OF SB_CURVE_P256_P_ok] and cN = field_constants_mont [OF SB_CURVE_P256_N_ok]
  show ?thesis
    using cP(5) [OF q(1) i]
    by (simp add: sb_test_mont_mult_def Let_def s sb_fe_equal_iff cP(1,2) cP(3) [OF q(2)] cP(4) [OF q(3)] cN(1,2))
qed

text \<open>
  The overflow test asserts nothing: it runs four multiplications whose rows overflow and answers 1. The
  definition is the list of the values that \<open>t\<close> takes; each of them is the residue it should be.
\<close>

definition sb_test_mont_mult_overflow :: "sb_fe list" where
  "sb_test_mont_mult_overflow =
     (let P = SB_CURVE_P256_P;
          x3 = sb_fe_const 0x0000000000000000 0x0000000000000000 0x0000FFFF00000000 0x0000000000000000;
          x4 = sb_fe_const 0xFFFFFFFF00000000 0x0000000000000000 0x0000000000000000 0x0000000000000003;
          y1 = sb_fe_const 0xAA55AA55AA55AA55 0x55AA55AA55AA55AA 0xAA55AA55AA55AA55 0x55AA55AA55AA55AA;
          y2 = sb_fe_const 0xFFFFFFFE00000003 0xFFFFFFFD00000002 0x00000001FFFFFFFE 0x0000000300000000
      in [sb_fe_mont_mult (prime_p P) y1 P, sb_fe_mont_mult (r2_mod_p P) y2 P,
          sb_fe_mont_mult x3 y1 P, sb_fe_mont_mult x4 y2 P])"

lemma sb_test_mont_mult_overflow:
  "list_all2 (\<lambda>t (x, y). fe_val t = qrep (modulus SB_CURVE_P256_P) (x * y * rinv (modulus SB_CURVE_P256_P)))
     sb_test_mont_mult_overflow
     [(0xFFFFFFFF00000001000000000000000000000000FFFFFFFFFFFFFFFFFFFFFFFF,
         0xAA55AA55AA55AA5555AA55AA55AA55AAAA55AA55AA55AA5555AA55AA55AA55AA),
       (0x00000004FFFFFFFDFFFFFFFFFFFFFFFEFFFFFFFBFFFFFFFF0000000000000003,
         0xFFFFFFFE00000003FFFFFFFD0000000200000001FFFFFFFE0000000300000000),
       (0x0000FFFF000000000000000000000000,
         0xAA55AA55AA55AA5555AA55AA55AA55AAAA55AA55AA55AA5555AA55AA55AA55AA),
       (0xFFFFFFFF00000000000000000000000000000000000000000000000000000003,
         0xFFFFFFFE00000003FFFFFFFD0000000200000001FFFFFFFE0000000300000000)]"
  using prime_field_okD(1) [OF SB_CURVE_P256_P_ok]
  by (simp add: sb_test_mont_mult_overflow_def Let_def sb_fe_mont_mult_val SB_CURVE_P256_P_val quasi_reduced_def
      sb_fe_const_def fe_val_FE)

subsection \<open>Exponentiation and inversion\<close>

text \<open>The two helpers of the tests, which convert to the Montgomery domain and back; the temporary \<open>t3\<close> is not initialised.\<close>

definition sb_fe_mod_expt :: "sb_fe \<Rightarrow> sb_fe \<Rightarrow> sb_fe \<Rightarrow> sb_prime_field \<Rightarrow> sb_fe \<times> sb_fe \<times> sb_fe" where
  "sb_fe_mod_expt x e t3 p =
     (let t2 = sb_fe_mont_mult x (r2_mod_p p) p;
          x = t2;
          (x, t2, t3) = sb_fe_mod_expt_r x e 0 p t3;
          t2 = sb_fe_mont_mult x SB_FE_ONE p;
          x = t2
      in (x, t2, t3))"

definition sb_fe_mod_inv :: "sb_fe \<Rightarrow> sb_fe \<Rightarrow> sb_prime_field \<Rightarrow> sb_fe \<times> sb_fe \<times> sb_fe" where
  "sb_fe_mod_inv dest t3 p =
     (let (dest, t2, t3) = sb_fe_mod_expt dest (p_minus_two_f1 p) t3 p
      in sb_fe_mod_expt dest (p_minus_two_f2 p) t3 p)"

lemma sb_fe_mod_expt_val:
  assumes ok: "prime_field_ok p" and x: "quasi_reduced p x" and e: "fe_val e < 2 ^ unat (bits p)"
  shows "fe_val (fst (sb_fe_mod_expt x e t3 p)) mod modulus p = fe_val x ^ nat (fe_val e) mod modulus p"
    and "quasi_reduced p (fst (sb_fe_mod_expt x e t3 p))"
proof -
  let ?m = "sb_fe_mont_convert x p"
  note D = prime_field_okD [OF ok] and c = sb_fe_mont_convert_val(2,3) [OF ok x]
  note m = sb_fe_mod_expt_r_val [OF ok c(2) e, of 0 t3]
  have r: "fst (sb_fe_mod_expt x e t3 p) = sb_fe_mont_reduce (fst (sb_fe_mod_expt_r ?m e 0 p t3)) p"
    by (simp add: sb_fe_mod_expt_def sb_fe_mont_convert_def sb_fe_mont_reduce_def case_prod_unfold Let_def)
  show "quasi_reduced p (fst (sb_fe_mod_expt x e t3 p))"
    unfolding r using m by (intro sb_fe_mont_reduce_val [OF ok]) simp
  have "fe_val (fst (sb_fe_mod_expt x e t3 p)) mod modulus p = mval p (fst (sb_fe_mod_expt_r ?m e 0 p t3))"
    unfolding r using m sb_fe_mont_reduce_val(1) [OF ok] mval_range [OF D(4)] by simp
  then show "fe_val (fst (sb_fe_mod_expt x e t3 p)) mod modulus p = fe_val x ^ nat (fe_val e) mod modulus p"
    using m by (simp add: c(1) power_mod)
qed

text \<open>The two factors of \<open>p - 2\<close> fit the field.\<close>

lemma p_minus_two_factors:
  assumes ok: "prime_field_ok p"
  shows "fe_val (p_minus_two_f1 p) < 2 ^ unat (bits p)" "fe_val (p_minus_two_f2 p) < 2 ^ unat (bits p)"
    "nat (fe_val (p_minus_two_f1 p)) * nat (fe_val (p_minus_two_f2 p)) = nat (modulus p - 2)"
proof -
  let ?f1 = "fe_val (p_minus_two_f1 p)" and ?f2 = "fe_val (p_minus_two_f2 p)"
  have f: "?f1 * ?f2 = modulus p - 2" and P: "modulus p < 2 ^ unat (bits p)" "3 \<le> modulus p"
    using ok by (simp_all add: prime_field_ok_def)
  then have pos: "0 < ?f1" "0 < ?f2"
    using fe_val_nonneg [of "p_minus_two_f1 p"] fe_val_nonneg [of "p_minus_two_f2 p"]
    by (smt (verit) mult_eq_0_iff)+
  have "?f1 * 1 \<le> ?f1 * ?f2" "1 * ?f2 \<le> ?f1 * ?f2"
    using pos by (auto intro!: mult_left_mono mult_right_mono)
  then show "?f1 < 2 ^ unat (bits p)" "?f2 < 2 ^ unat (bits p)"
    using f P by simp_all
  show "nat ?f1 * nat ?f2 = nat (modulus p - 2)"
    using f pos by (simp add: nat_mult_distrib [symmetric])
qed

lemma sb_fe_mod_inv_val:
  assumes ok: "prime_field_ok p" and x: "quasi_reduced p x"
  shows "fe_val (fst (sb_fe_mod_inv x t3 p)) mod modulus p = fe_val x ^ nat (modulus p - 2) mod modulus p"
    and "quasi_reduced p (fst (sb_fe_mod_inv x t3 p))"
proof -
  note b = p_minus_two_factors [OF ok]
  obtain y t2 t3' where y: "sb_fe_mod_expt x (p_minus_two_f1 p) t3 p = (y, t2, t3')"
    by (metis prod_cases3)
  have y1: "fe_val y mod modulus p = fe_val x ^ nat (fe_val (p_minus_two_f1 p)) mod modulus p" "quasi_reduced p y"
    using sb_fe_mod_expt_val [OF ok x b(1), of t3] by (simp_all add: y)
  have r: "sb_fe_mod_inv x t3 p = sb_fe_mod_expt y (p_minus_two_f2 p) t3' p"
    by (simp add: sb_fe_mod_inv_def y)
  show "quasi_reduced p (fst (sb_fe_mod_inv x t3 p))"
    unfolding r by (rule sb_fe_mod_expt_val(2) [OF ok y1(2) b(2)])
  have "fe_val (fst (sb_fe_mod_inv x t3 p)) mod modulus p = (fe_val y mod modulus p) ^ nat (fe_val (p_minus_two_f2 p)) mod modulus p"
    unfolding r power_mod by (rule sb_fe_mod_expt_val(1) [OF ok y1(2) b(2)])
  then show "fe_val (fst (sb_fe_mod_inv x t3 p)) mod modulus p = fe_val x ^ nat (modulus p - 2) mod modulus p"
    by (simp only: y1(1) power_mod b(3) flip: power_mult)
qed


text \<open>
  Each step of the exponentiation test. \<open>n ^ p = n\<close> and the inverses of \<open>b\<close> need the moduli to be prime.
\<close>

definition sb_test_mod_expt_p :: "sb_fe \<Rightarrow> bool" where
  "sb_test_mod_expt_p t3 \<longleftrightarrow>
     (let P = SB_CURVE_P256_P; N = SB_CURVE_P256_N; B = curve_b SB_CURVE_P256;
          two = sb_fe_const 0 0 0 2; thirtytwo = sb_fe_const 0 0 0 32;
          two_expt_thirtytwo = sb_fe_const 0 0 0 0x100000000;
          t = two;
          (t, t2, t3) = sb_fe_mod_expt t thirtytwo t3 P in
      sb_fe_equal t two_expt_thirtytwo \<noteq> 0 \<and>
     (let t = prime_p N; (t, t2, t3) = sb_fe_mod_expt t (prime_p P) t3 P in
      sb_fe_equal t (prime_p N) \<noteq> 0 \<and>
     (let t = prime_p N; (t, t2, t3) = sb_fe_mod_expt t SB_FE_ONE t3 P in
      sb_fe_equal t (prime_p N) \<noteq> 0 \<and>
     (let t = prime_p P; (t, b) = sb_fe_sub t SB_FE_ONE;
          (t, t2, t3) = sb_fe_mod_inv t t3 P; (t, c) = sb_fe_add t SB_FE_ONE in
      sb_fe_equal t (prime_p P) \<noteq> 0 \<and>
     (let t = SB_FE_ONE; (t, t2, t3) = sb_fe_mod_inv t t3 P in
      sb_fe_equal t SB_FE_ONE \<noteq> 0 \<and>
     (let t = sb_fe_mont_mult B SB_FE_ONE P; (t, t2, t3) = sb_fe_mod_inv t t3 P;
          t2 = sb_fe_mont_mult t B P in
      sb_fe_equal t2 SB_FE_ONE \<noteq> 0 \<and>
     (let b_n = B; t = sb_fe_mont_mult b_n SB_FE_ONE N; (t, t2, t3) = sb_fe_mod_inv t t3 N;
          t2 = sb_fe_mont_mult t b_n N in
      sb_fe_equal t2 SB_FE_ONE \<noteq> 0)))))))"

text \<open>What each step computes, for any contents of the temporary.\<close>

lemma mod_expt_eqI:
  assumes "prime_field_ok p" "quasi_reduced p x" "quasi_reduced p y" "fe_val e < 2 ^ unat (bits p)"
    and "fe_val x ^ nat (fe_val e) mod modulus p = fe_val y mod modulus p"
  shows "fst (sb_fe_mod_expt x e t3 p) = y"
  using sb_fe_mod_expt_val [OF assms(1,2,4)] assms(3,5) by (intro quasi_reduced_unique [of p]) simp_all

lemma mod_inv_eqI:
  assumes "prime_field_ok p" "quasi_reduced p x" "quasi_reduced p y"
    and "fe_val x ^ nat (modulus p - 2) mod modulus p = fe_val y mod modulus p"
  shows "fst (sb_fe_mod_inv x t3 p) = y"
  using sb_fe_mod_inv_val [OF assms(1,2)] assms(3,4) by (intro quasi_reduced_unique [of p]) simp_all

lemma mod_expt_one:
  "prime_field_ok p \<Longrightarrow> quasi_reduced p x \<Longrightarrow> fst (sb_fe_mod_expt x SB_FE_ONE t3 p) = x"
  by (rule mod_expt_eqI) (auto simp: prime_field_ok_def)

lemma mod_expt_modulus:
  assumes "prime_field_ok p" "prime_modulus (modulus p)" "quasi_reduced p x"
  shows "fst (sb_fe_mod_expt x (prime_p p) t3 p) = x"
proof (rule mod_expt_eqI [OF assms(1,3,3)])
  show "modulus p < 2 ^ unat (bits p)" using assms(1) by (simp add: prime_field_ok_def)
  have s: "nat (modulus p) = Suc (nat (modulus p - 1))" using prime_field_okD(3) [OF assms(1)] by simp
  show "fe_val x ^ nat (modulus p) mod modulus p = fe_val x mod modulus p"
  proof (cases "modulus p dvd fe_val x")
    case True
    then show ?thesis by (simp add: s dvd_eq_mod_eq_0 [symmetric])
  next
    case False
    then show ?thesis
      using mod_mult_right_eq [of "fe_val x" "fe_val x ^ nat (modulus p - 1)" "modulus p"] fermat_little [OF assms(2)]
      by (simp add: s)
  qed
qed

lemma mod_inv_one:
  "prime_field_ok p \<Longrightarrow> fst (sb_fe_mod_inv SB_FE_ONE t3 p) = SB_FE_ONE"
  by (rule mod_inv_eqI) (auto simp: dest: prime_field_okD)

lemma mod_inv_minus_one:
  assumes "prime_field_ok p" "fe_val x = modulus p - 1"
  shows "fst (sb_fe_mod_inv x t3 p) = x"
proof -
  note D = prime_field_okD [OF assms(1)]
  have "odd (nat (modulus p - 2))" using D(2,3) by (simp add: even_nat_iff)
  then have "(- 1 :: int) ^ nat (modulus p - 2) = - 1" by simp
  moreover have "(modulus p - 1) mod modulus p = (- 1) mod modulus p"
    using mod_add_self1 [of "modulus p" "- 1"] by simp
  ultimately have "(modulus p - 1) ^ nat (modulus p - 2) mod modulus p = (modulus p - 1) mod modulus p"
    by (metis power_mod)
  then show ?thesis
    using D(3) assms(2) by (intro mod_inv_eqI [OF assms(1)]) (simp_all add: quasi_reduced_def)
qed

lemma mod_inv_mont_mult:
  assumes "prime_field_ok p" "prime_modulus (modulus p)" "quasi_reduced p x" "mval p x \<noteq> 0"
  shows "sb_fe_mont_mult (fst (sb_fe_mod_inv (sb_fe_mont_mult x SB_FE_ONE p) t3 p)) x p = SB_FE_ONE"
proof -
  let ?y = "sb_fe_mont_reduce x p"
  let ?z = "fst (sb_fe_mod_inv ?y t3 p)"
  note D = prime_field_okD [OF assms(1)]
  have y: "fe_val ?y mod modulus p = mval p x" "quasi_reduced p ?y"
    using sb_fe_mont_reduce_val [OF assms(1,3)] mval_range [OF D(4), of x] by simp_all
  note z = sb_fe_mod_inv_val [OF assms(1) y(2), of t3]
  have "fe_val (sb_fe_mont_mult ?z x p) mod modulus p = (fe_val ?z * mval p x) mod modulus p"
    using sb_fe_mont_mult_val [OF D(1) z(2) assms(3)] by (simp add: mval_def mod_mult_right_eq mult.assoc)
  also have "\<dots> = (mval p x * (mval p x ^ nat (modulus p - 2))) mod modulus p"
    by (metis z(1) y(1) power_mod mod_mult_left_eq mult.commute)
  also have "\<dots> = 1"
    by (rule fermat_at_inverse [OF fermat_at_mval [OF assms(1,2,4)]])
  finally have "sb_fe_mont_mult ?z x p = SB_FE_ONE"
    using D mont_qr [OF D(1) z(2) assms(3)] by (intro quasi_reduced_unique [of p]) simp_all
  then show ?thesis by (simp add: sb_fe_mont_reduce_def)
qed

lemma mval_eq_0_iff:
  assumes "prime_field_ok p"
  shows "mval p x = 0 \<longleftrightarrow> fe_val x mod modulus p = 0"
proof
  have "(2 ^ 256 * mval p x) mod modulus p = (fe_val x * (2 ^ 256 * rinv (modulus p))) mod modulus p"
    unfolding mval_def mod_mult_right_eq by (simp only: ac_simps)
  also have "\<dots> = (fe_val x * (2 ^ 256 * rinv (modulus p) mod modulus p)) mod modulus p"
    by (rule mod_mult_right_eq [symmetric])
  also have "\<dots> = fe_val x mod modulus p"
    unfolding rinv_inverse [OF prime_field_okD(2) [OF assms]] by (simp add: mod_mult_right_eq)
  finally have "fe_val x mod modulus p = (2 ^ 256 * mval p x) mod modulus p" by (rule sym)
  then show "mval p x = 0 \<Longrightarrow> fe_val x mod modulus p = 0" by simp
next
  assume "fe_val x mod modulus p = 0"
  then show "mval p x = 0" by (auto simp: mval_def dvd_eq_mod_eq_0 [symmetric])
qed

theorem sb_test_mod_expt_p:
  assumes "prime_modulus (modulus SB_CURVE_P256_P)" "prime_modulus (modulus SB_CURVE_P256_N)"
  shows "sb_test_mod_expt_p t3"
proof -
  let ?P = SB_CURVE_P256_P and ?N = SB_CURVE_P256_N and ?B = "curve_b SB_CURVE_P256"
  note ok = SB_CURVE_P256_P_ok SB_CURVE_P256_N_ok
  have q: "quasi_reduced ?P (prime_p ?N)" "quasi_reduced ?P ?B" "quasi_reduced ?N ?B"
    "quasi_reduced ?P (sb_fe_const 0 0 0 2)" "quasi_reduced ?P (sb_fe_const 0 0 0 0x100000000)"
    by (simp_all add: quasi_reduced_def SB_CURVE_P256_P_val SB_CURVE_P256_N_val SB_CURVE_P256_coeffs sb_fe_const_def fe_val_FE)
  have two: "fst (sb_fe_mod_expt (sb_fe_const 0 0 0 2) (sb_fe_const 0 0 0 32) t3 ?P) = sb_fe_const 0 0 0 0x100000000" for t3
    by (rule mod_expt_eqI [OF ok(1) q(4,5)]) (simp_all add: SB_CURVE_P256_P_val sb_fe_const_def fe_val_FE)
  have nz: "mval ?P ?B \<noteq> 0" "mval ?N ?B \<noteq> 0"
    unfolding mval_eq_0_iff [OF ok(1)] mval_eq_0_iff [OF ok(2)] SB_CURVE_P256_coeffs SB_CURVE_P256_P_val SB_CURVE_P256_N_val by simp_all
  have m: "fe_val (fst (sb_fe_sub (prime_p ?P) SB_FE_ONE)) = modulus ?P - 1"
    by (simp add: sb_fe_sub_val SB_CURVE_P256_P_val)
  have a: "fst (sb_fe_add (fst (sb_fe_sub (prime_p ?P) SB_FE_ONE)) SB_FE_ONE) = prime_p ?P"
    by (intro fe_val_inject [THEN iffD1]) (simp add: sb_fe_add_val m SB_CURVE_P256_P_val)
  show ?thesis
    by (simp add: sb_test_mod_expt_p_def Let_def case_prod_unfold sb_fe_equal_iff two mod_expt_modulus [OF ok(1) assms(1) q(1)]
        mod_expt_one [OF ok(1) q(1)] mod_inv_minus_one [OF ok(1) m] a mod_inv_one [OF ok(1)]
        mod_inv_mont_mult [OF ok(1) assms(1) q(2) nz(1)] mod_inv_mont_mult [OF ok(2) assms(2) q(3) nz(2)])
qed

end
