(* ===== verification/Square_Tests.thy ===== *)
theory Square_Tests
  imports FE_Tests
begin

text \<open>
  The square root tests of \<open>sb_fe_tests.c.h\<close>. That a root which \<open>sb_fe_mod_sqrt\<close> reports is one
  holds on every field with \<open>p mod 4 = 3\<close>; that the test passes as a whole, with its count of the squares up to
  128, is proved from a table of the quadratic residues modulo the P-256 prime, each entry of which rests
  on an explicit square.
\<close>

subsection \<open>The tests\<close>

text \<open>The temporaries \<open>t1\<close> to \<open>t3\<close> are not initialised; \<open>t4\<close> is written first.\<close>

definition sb_test_mod_sqrt_v :: "sb_fe \<Rightarrow> sb_fe \<Rightarrow> sb_fe \<Rightarrow> sb_fe \<Rightarrow> sb_prime_field \<Rightarrow> bool" where
  "sb_test_mod_sqrt_v t1 t2 t3 val p \<longleftrightarrow>
     (let x = val; (rv, x, t1, t2, t3, t4) = sb_fe_mod_sqrt x t1 t2 t3 p in
      rv \<and>
     (let t1 = sb_fe_mont_mult val (r2_mod_p p) p;
          t2 = sb_fe_mont_mult x (r2_mod_p p) p;
          t3 = sb_fe_mont_square t2 p
      in sb_fe_equal t1 t3 \<noteq> 0))"

definition sb_test_mod_sqrt_n :: "sb_fe \<Rightarrow> sb_fe \<Rightarrow> sb_fe \<Rightarrow> sb_fe \<Rightarrow> sb_prime_field \<Rightarrow> bool" where
  "sb_test_mod_sqrt_n t1 t2 t3 val p \<longleftrightarrow>
     (let x = val; (rv, x, t1, t2, t3, t4) = sb_fe_mod_sqrt x t1 t2 t3 p in \<not> rv)"

text \<open>The result and the updated count; an assertion that fails leaves the count as it was.\<close>

definition sb_test_mod_sqrt_e :: "sb_fe \<Rightarrow> sb_fe \<Rightarrow> sb_fe \<Rightarrow> sb_fe \<Rightarrow> 64 word \<Rightarrow> sb_prime_field \<Rightarrow> bool \<times> 64 word" where
  "sb_test_mod_sqrt_e t1 t2 t3 val valid_count p =
     (let x = val; (rv, x, t1, t2, t3, t4) = sb_fe_mod_sqrt x t1 t2 t3 p in
      if rv then
        let t1 = sb_fe_mont_mult val (r2_mod_p p) p;
            t2 = sb_fe_mont_mult x (r2_mod_p p) p;
            t3 = sb_fe_mont_square t2 p
        in if sb_fe_equal t1 t3 \<noteq> 0 then (True, valid_count + 1) else (False, valid_count)
      else (True, valid_count))"

text \<open>The loop over the next \<open>n\<close> values; \<open>None\<close> is an assertion that failed.\<close>

primrec sqrt_count :: "sb_fe \<Rightarrow> sb_fe \<Rightarrow> sb_fe \<Rightarrow> nat \<Rightarrow> sb_fe \<Rightarrow> 64 word \<Rightarrow> 64 word option" where
  "sqrt_count t1 t2 t3 0 x vc = Some vc"
| "sqrt_count t1 t2 t3 (Suc n) x vc =
     (let x = fst (sb_fe_add x SB_FE_ONE);
          (ok, vc) = sb_test_mod_sqrt_e t1 t2 t3 x vc SB_CURVE_P256_P
      in if ok then sqrt_count t1 t2 t3 n x vc else None)"

definition sb_test_mod_sqrt :: "sb_fe \<Rightarrow> sb_fe \<Rightarrow> sb_fe \<Rightarrow> bool" where
  "sb_test_mod_sqrt t1 t2 t3 \<longleftrightarrow>
     (let two = sb_fe_const 0 0 0 2; thirtytwo = sb_fe_const 0 0 0 32;
          two_expt_thirtytwo = sb_fe_const 0 0 0 0x100000000; three = sb_fe_const 0 0 0 3 in
      sb_test_mod_sqrt_v t1 t2 t3 two SB_CURVE_P256_P \<and>
      sb_test_mod_sqrt_v t1 t2 t3 thirtytwo SB_CURVE_P256_P \<and>
      sb_test_mod_sqrt_v t1 t2 t3 two_expt_thirtytwo SB_CURVE_P256_P \<and>
      sb_test_mod_sqrt_v t1 t2 t3 two SB_CURVE_SECP256K1_P \<and>
      sb_test_mod_sqrt_v t1 t2 t3 thirtytwo SB_CURVE_SECP256K1_P \<and>
      sb_test_mod_sqrt_v t1 t2 t3 two_expt_thirtytwo SB_CURVE_SECP256K1_P \<and>
      sb_test_mod_sqrt_n t1 t2 t3 three SB_CURVE_P256_P \<and>
      sb_test_mod_sqrt_n t1 t2 t3 three SB_CURVE_P256_N \<and>
      sqrt_count t1 t2 t3 128 SB_FE_ZERO 0 = Some 61)"

subsection \<open>A reported root is one\<close>

text \<open>The fields on which the routine computes: \<open>p mod 4 = 3\<close> and \<open>p + 1\<close> fits.\<close>

definition sqrt_field :: "sb_prime_field \<Rightarrow> bool" where
  "sqrt_field p \<longleftrightarrow> prime_field_ok p \<and> modulus p mod 4 = 3 \<and> modulus p + 1 < 2 ^ unat (bits p)"

lemma sqrt_fields: "sqrt_field SB_CURVE_P256_P" "sqrt_field SB_CURVE_SECP256K1_P"
  by (simp_all add: sqrt_field_def SB_CURVE_P256_P_ok SB_CURVE_SECP256K1_P_ok SB_CURVE_P256_P_val SB_CURVE_SECP256K1_P_val)

lemma sqrt_assertion:
  assumes f: "sqrt_field p" and q: "quasi_reduced p val" and r: "sb_fe_mod_sqrt val t1 t2 t3 p = (rv, x, rest)"
  shows "sb_fe_mont_mult val (r2_mod_p p) p = sb_fe_mont_square (sb_fe_mont_mult x (r2_mod_p p) p) p \<longleftrightarrow> rv"
proof -
  have ok: "prime_field_ok p" and P: "modulus p mod 4 = 3" "modulus p + 1 < 2 ^ unat (bits p)"
    using f by (simp_all add: sqrt_field_def)
  note s = sb_fe_mod_sqrt_power [OF ok q P r] and D = prime_field_okD [OF ok]
  note c = sb_fe_mont_convert_val(2,3) [OF ok q] sb_fe_mont_convert_val(2,3) [OF ok s(2)]
  have "mval p (sb_fe_mont_square (sb_fe_mont_convert x p) p) = (fe_val x * fe_val x) mod modulus p"
    by (simp add: sb_fe_mont_square_def mval_mont_mult [OF D(1) c(4,4)] c(3) mod_mult_eq)
  moreover have "quasi_reduced p (sb_fe_mont_square (sb_fe_mont_convert x p) p)"
    unfolding sb_fe_mont_square_def by (rule mont_qr [OF D(1) c(4,4)])
  ultimately show ?thesis
    using mval_inject [OF ok c(2), of "sb_fe_mont_square (sb_fe_mont_convert x p) p"] s(1) c(1)
    by (simp add: sb_fe_mont_convert_def eq_commute)
qed

lemma sb_test_mod_sqrt_e:
  assumes "sqrt_field p" "quasi_reduced p val"
  shows "sb_test_mod_sqrt_e t1 t2 t3 val vc p = (True, vc + of_bool (fst (sb_fe_mod_sqrt val t1 t2 t3 p)))"
proof -
  obtain rv x u1 u2 u3 u4 where r: "sb_fe_mod_sqrt val t1 t2 t3 p = (rv, x, u1, u2, u3, u4)"
    by (metis prod_cases6)
  show ?thesis
    using sqrt_assertion [OF assms r] by (simp add: sb_test_mod_sqrt_e_def r sb_fe_equal_iff)
qed

lemma sb_test_mod_sqrt_v:
  assumes "sqrt_field p" "quasi_reduced p val"
  shows "sb_test_mod_sqrt_v t1 t2 t3 val p \<longleftrightarrow> fst (sb_fe_mod_sqrt val t1 t2 t3 p)"
proof -
  obtain rv x u1 u2 u3 u4 where r: "sb_fe_mod_sqrt val t1 t2 t3 p = (rv, x, u1, u2, u3, u4)"
    by (metis prod_cases6)
  show ?thesis
    using sqrt_assertion [OF assms r] by (auto simp: sb_test_mod_sqrt_v_def r sb_fe_equal_iff)
qed

lemma mod_sqrt_square:
  assumes "sqrt_field p" "prime_modulus (modulus p)" "quasi_reduced p x"
  shows "fst (sb_fe_mod_sqrt x t1 t2 t3 p) \<longleftrightarrow> (\<exists>z. (z * z) mod modulus p = fe_val x mod modulus p)"
proof -
  obtain rv y rest where "sb_fe_mod_sqrt x t1 t2 t3 p = (rv, y, rest)"
    by (metis prod_cases3)
  then show ?thesis
    using sb_fe_mod_sqrt_val(1) [of p x] assms by (auto simp: sqrt_field_def)
qed

text \<open>Modulo the order of P-256 the routine refuses every operand, as the order is 1 modulo 4.\<close>

lemma mod_sqrt_refuses:
  "modulus p mod 4 \<noteq> 3 \<Longrightarrow> sb_test_mod_sqrt_n t1 t2 t3 val p"
  by (simp add: sb_test_mod_sqrt_n_def sb_fe_mod_sqrt_def sb_fe_mod_sqrt_r_def low_bits_3 Let_def)

subsection \<open>Quadratic residues\<close>

text \<open>
  \<open>residue P a s\<close>: one of \<open>a\<close> and \<open>- a\<close> is a square modulo \<open>P\<close>, \<open>a\<close> when the sign \<open>s\<close> is 1. For
  a prime that is 3 modulo 4 the sign decides which.
\<close>

definition residue :: "int \<Rightarrow> int \<Rightarrow> int \<Rightarrow> bool" where
  "residue P a s \<longleftrightarrow> (s = 1 \<or> s = - 1) \<and> (\<exists>z. (z * z) mod P = (s * a) mod P)"

lemma residueI: "s = 1 \<or> s = - 1 \<Longrightarrow> z * z = s * a + P * k \<Longrightarrow> residue P a s"
  unfolding residue_def by (metis mod_mult_self2)

lemma residue_mult:
  assumes "residue P a s" "residue P b t"
  shows "residue P (a * b) (s * t)"
proof -
  obtain y z where "(y * y) mod P = (s * a) mod P" "(z * z) mod P = (t * b) mod P"
    using assms by (auto simp: residue_def)
  then have "((y * z) * (y * z)) mod P = ((s * t) * (a * b)) mod P"
    using mod_mult_cong [of "y * y" P "s * a" "z * z" "t * b"] by (simp add: ac_simps)
  then show ?thesis using assms by (auto simp: residue_def)
qed

lemma minus_one_not_square:
  assumes P: "prime_modulus P" "P mod 4 = 3" and a: "\<not> P dvd a"
    and z: "(z * z) mod P = (- a) mod P" and w: "(w * w) mod P = a mod P"
  shows False
proof -
  let ?k = "nat ((P - 1) div 2)"
  have d: "\<not> P dvd z" "\<not> P dvd w"
    using a z w by (metis dvd_mult dvd_minus_iff mod_eq_0_iff_dvd)+
  have k: "odd ?k" "nat (P - 1) = 2 * ?k"
  proof -
    define m where "m = nat (P div 4)"
    have "P = 4 * (P div 4) + 3" "0 \<le> P div 4"
      using P(2) prime_modulus_gt1 [OF P(1)] by presburger+
    then have m: "P = 4 * int m + 3" by (simp add: m_def)
    then have "nat ((P - 1) div 2) = 2 * m + 1" by linarith
    with m show "odd ?k" "nat (P - 1) = 2 * ?k" by simp_all
  qed
  have sq: "(y * y) ^ ?k mod P = 1" if "\<not> P dvd y" for y
    using fermat_little [OF P(1) that] by (simp only: k(2) power_mult power2_eq_square)
  have "1 = (- a) ^ ?k mod P"
    using sq [OF d(1)] z by (metis power_mod)
  also have "(- a) ^ ?k = - (a ^ ?k)" using k(1) by simp
  finally have "(1 + a ^ ?k) mod P = (- (a ^ ?k) + a ^ ?k) mod P"
    using prime_modulus_gt1 [OF P(1)] by (metis mod_add_left_eq)
  moreover have "a ^ ?k mod P = 1" using sq [OF d(2)] w by (metis power_mod)
  ultimately have "P dvd 2"
    by (metis add.left_inverse add.right_inverse dvd_eq_mod_eq_0 mod_0 mod_add_right_eq one_add_one)
  then show False using P(2) zdvd_imp_le [of P 2] prime_modulus_gt1 [OF P(1)] by auto
qed

lemma residue_square:
  assumes "prime_modulus P" "P mod 4 = 3" "\<not> P dvd a" "residue P a s"
  shows "(\<exists>z. (z * z) mod P = a mod P) \<longleftrightarrow> s = 1"
  using minus_one_not_square [OF assms(1-3)] assms(4) by (auto simp: residue_def)

text \<open>The primes below 128, each with its sign and a square root.\<close>

lemma residue_2: "residue (modulus SB_CURVE_P256_P) 2 1"
  unfolding SB_CURVE_P256_P_val
  by (rule residueI [where z = 36390437673559666201400694769546361042469042904652140084715213373574483387101
      and k = 11436566721475051518545739506380058465208069946227206408881128123078499470649]) simp_all

lemma residue_3: "residue (modulus SB_CURVE_P256_P) 3 (- 1)"
  unfolding SB_CURVE_P256_P_val
  by (rule residueI [where z = 45744877285958223450796630095457684382671442873234671750989327271376991331938
      and k = 18071992760281058534518456716450934694685244594085593443140417668499878232697]) simp_all

lemma residue_5: "residue (modulus SB_CURVE_P256_P) 5 1"
  unfolding SB_CURVE_P256_P_val
  by (rule residueI [where z = 3785950496672887136307850542143953904054772247473037052005622114270127172924
      and k = 123785841165872355872068517407880063404869912473289249313128337818367416821]) simp_all

lemma residue_7: "residue (modulus SB_CURVE_P256_P) 7 1"
  unfolding SB_CURVE_P256_P_val
  by (rule residueI [where z = 11329285444663249869528397684394032993640606160342370487760758223458180521971
      and k = 1108475626979005418802170199009901473257935763182997022704174637673047965534]) simp_all

lemma residue_11: "residue (modulus SB_CURVE_P256_P) 11 (- 1)"
  unfolding SB_CURVE_P256_P_val
  by (rule residueI [where z = 23789108258756992080250627310842560964802590328711729587742333994829035966342
      and k = 4887394947324648925874894581333923288930307456601100370843261594932392822225]) simp_all

lemma residue_13: "residue (modulus SB_CURVE_P256_P) 13 (- 1)"
  unfolding SB_CURVE_P256_P_val
  by (rule residueI [where z = 21809976179473448915250811208807525056466225129390069243430917364608454393921
      and k = 4108010004768578660720615035995392321651846816228265439672828063394040835954]) simp_all

lemma residue_17: "residue (modulus SB_CURVE_P256_P) 17 1"
  unfolding SB_CURVE_P256_P_val
  by (rule residueI [where z = 13663757604463152237425663005631956593078473623540587607753874811269703453208
      and k = 1612357745220013205566405268576798191239738117753377102628834474402799558097]) simp_all

lemma residue_19: "residue (modulus SB_CURVE_P256_P) 19 (- 1)"
  unfolding SB_CURVE_P256_P_val
  by (rule residueI [where z = 7962356992186148049003871404747794455289179138070558020938496338439673286018
      and k = 547525563303726378965718500478300047410969401176254533507405729843021973993]) simp_all

lemma residue_23: "residue (modulus SB_CURVE_P256_P) 23 (- 1)"
  unfolding SB_CURVE_P256_P_val
  by (rule residueI [where z = 36455720618536189991599055330451566352752363338769885207483656065846122651086
      and k = 11477636986084360443098963829194520200677098002259819828775365456744112696869]) simp_all

lemma residue_29: "residue (modulus SB_CURVE_P256_P) 29 (- 1)"
  unfolding SB_CURVE_P256_P_val
  by (rule residueI [where z = 45380313690307566400384909406218585911922864593820490083498310648826348395012
      and k = 17785091232696486371773340883367538220701554341071765539024424567373031354323]) simp_all

lemma residue_31: "residue (modulus SB_CURVE_P256_P) 31 1"
  unfolding SB_CURVE_P256_P_val
  by (rule residueI [where z = 41421710847888507477738257431782377292583324460857358728187402115502026201845
      and k = 14817576410156264368554778030186940242950651564430456415039540416461415862694]) simp_all

lemma residue_37: "residue (modulus SB_CURVE_P256_P) 37 (- 1)"
  unfolding SB_CURVE_P256_P_val
  by (rule residueI [where z = 29746524378566970472038357638890425807063962429618512747477498536738339264954
      and k = 7641763082771453175833474048739210360405072775977443337533782489328069125303]) simp_all

lemma residue_41: "residue (modulus SB_CURVE_P256_P) 41 (- 1)"
  unfolding SB_CURVE_P256_P_val
  by (rule residueI [where z = 8060580913429540666450361364683552390577169254919345823647846781610669473224
      and k = 561117474475393920201544780349249018897899509347267721217870144483511964567]) simp_all

lemma residue_43: "residue (modulus SB_CURVE_P256_P) 43 (- 1)"
  unfolding SB_CURVE_P256_P_val
  by (rule residueI [where z = 2357684322354815670023121055522513175738916407707794016113291262514700873433
      and k = 48005657396675833006180600998516267598430848576918603981839175658366684132]) simp_all

lemma residue_47: "residue (modulus SB_CURVE_P256_P) 47 (- 1)"
  unfolding SB_CURVE_P256_P_val
  by (rule residueI [where z = 53148203572291327530222144655245883457724575131265104591588419480572881477597
      and k = 24394857733589294403448500432437612589879599489718164262750374185219526933256]) simp_all

lemma residue_53: "residue (modulus SB_CURVE_P256_P) 53 1"
  unfolding SB_CURVE_P256_P_val
  by (rule residueI [where z = 54654726195347953861283479108232394942329810987494911261955396660627014050261
      and k = 25797436732157080311327837788502130089768752953870061688826838943819560969468]) simp_all

lemma residue_59: "residue (modulus SB_CURVE_P256_P) 59 (- 1)"
  unfolding SB_CURVE_P256_P_val
  by (rule residueI [where z = 18284426864638960696616700249613677758453933939344131431072917561698101758606
      and k = 2887246167231516669119145888754658732626126168336215381002100928725307660545]) simp_all

lemma residue_61: "residue (modulus SB_CURVE_P256_P) 61 (- 1)"
  unfolding SB_CURVE_P256_P_val
  by (rule residueI [where z = 34944831099625742231570896077044993081516529986945778379026557627782626344466
      and k = 10545981412969908258891698841019129892463670376485312154286844277998309885567]) simp_all

lemma residue_67: "residue (modulus SB_CURVE_P256_P) 67 (- 1)"
  unfolding SB_CURVE_P256_P_val
  by (rule residueI [where z = 32494890754533228515461614475310783046201643792510891714523584893259318905856
      and k = 9119085184055989712427240611702014700213636925518406334134809982092071403453]) simp_all

lemma residue_71: "residue (modulus SB_CURVE_P256_P) 71 (- 1)"
  unfolding SB_CURVE_P256_P_val
  by (rule residueI [where z = 1678703226927782538458736372012321476078320569758168941492177475723154624207
      and k = 24337107511535503221416146384575419032696535244803719809633819047485944920]) simp_all

lemma residue_73: "residue (modulus SB_CURVE_P256_P) 73 1"
  unfolding SB_CURVE_P256_P_val
  by (rule residueI [where z = 1532327273645456558880567989229130972035974155116381906729278386722588609503
      and k = 20277955856657212396034079199149931238036465216929951962344202696347849736]) simp_all

lemma residue_79: "residue (modulus SB_CURVE_P256_P) 79 1"
  unfolding SB_CURVE_P256_P_val
  by (rule residueI [where z = 32710262939950722141590716553156019142805113017747552085310466698699734843726
      and k = 9240366150203446969835924732830995557077719747717572349410643971854885342347]) simp_all

lemma residue_83: "residue (modulus SB_CURVE_P256_P) 83 1"
  unfolding SB_CURVE_P256_P_val
  by (rule residueI [where z = 33338977635330744511047124761274997658018696484785514418536336756259479265433
      and k = 9598992792589444043877839080666113294809053336786775872168215329327191188706]) simp_all

lemma residue_89: "residue (modulus SB_CURVE_P256_P) 89 (- 1)"
  unfolding SB_CURVE_P256_P_val
  by (rule residueI [where z = 13235560274411131512921424267842664441569603950302601574051725522332181590818
      and k = 1512884489538187370341614485603167147742909846049992719867431336665444675363]) simp_all

lemma residue_97: "residue (modulus SB_CURVE_P256_P) 97 1"
  unfolding SB_CURVE_P256_P_val
  by (rule residueI [where z = 26594628158768092396896670854452943938893030522340339236678786439990059858670
      and k = 6108139612355170486332854743777941963492043802596644335007162400312494279453]) simp_all

lemma residue_101: "residue (modulus SB_CURVE_P256_P) 101 (- 1)"
  unfolding SB_CURVE_P256_P_val
  by (rule residueI [where z = 41851605193047847098374292153188947375439302403278994689031954884052000620568
      and k = 15126740256432761884447092715282405361893952757123001256886979181376800816475]) simp_all

lemma residue_103: "residue (modulus SB_CURVE_P256_P) 103 (- 1)"
  unfolding SB_CURVE_P256_P_val
  by (rule residueI [where z = 30821999656925245357289351764538415862141410319738254008195976135903354985086
      and k = 8204322672904445150774555697990973832647027549715885499573401453574328428949]) simp_all

lemma residue_107: "residue (modulus SB_CURVE_P256_P) 107 (- 1)"
  unfolding SB_CURVE_P256_P_val
  by (rule residueI [where z = 34382952905634761297601231981086753085741802159203215977723114657077678838655
      and k = 10209570088708314168920136186230804453618463403732147866122069443283998467732]) simp_all

lemma residue_109: "residue (modulus SB_CURVE_P256_P) 109 (- 1)"
  unfolding SB_CURVE_P256_P_val
  by (rule residueI [where z = 11631065874640782806629452947702928715949333130917469228307198612681670345667
      and k = 1168315506722319264666526849774845297263320158738993757480975321277668677898]) simp_all

lemma residue_113: "residue (modulus SB_CURVE_P256_P) 113 (- 1)"
  unfolding SB_CURVE_P256_P_val
  by (rule residueI [where z = 10478665562307021582058089350729810578416331329421333874554936814059888457911
      and k = 948272310444318201832399086725212597785112038237072520428263153023451884734]) simp_all

lemma residue_127: "residue (modulus SB_CURVE_P256_P) 127 1"
  unfolding SB_CURVE_P256_P_val
  by (rule residueI [where z = 43404273007215239668046642056615419135512086094935631647368086124546175728350
      and k = 16269944934341661982736553896890603263777154465867652761669902904869712406523]) simp_all

lemma residue_2_secp256k1: "residue (modulus SB_CURVE_SECP256K1_P) 2 1"
  unfolding SB_CURVE_SECP256K1_P_val
  by (rule residueI [where z = 14948361426284523007780350147288027888107167579622651558244346453762823115767
      and k = 1929782170808426266601097341957331753812129727094555952570416616465181703649]) simp_all

subsection \<open>The squares up to 128\<close>

text \<open>The signs of 0 to 128; those of the composite numbers are products.\<close>

definition residue_signs :: "int list" where
  "residue_signs =
     [0, 1, 1, - 1, 1, 1, - 1, 1, 1, 1, 1, - 1, - 1, - 1, 1, - 1, 1, 1, 1, - 1, 1, - 1, - 1, - 1, - 1, 1, - 1, - 1,
      1, - 1, - 1, 1, 1, 1, 1, 1, 1, - 1, - 1, 1, 1, - 1, - 1, - 1, - 1, 1, - 1, - 1, - 1, 1, 1, - 1, - 1, 1, - 1, 
      - 1, 1, 1, - 1, - 1, - 1, - 1, 1, 1, 1, - 1, 1, - 1, 1, 1, 1, - 1, 1, 1, - 1, - 1, - 1, - 1, 1, 1, 1, 1, - 1, 1,
      - 1, 1, - 1, 1, - 1, - 1, 1, - 1, - 1, - 1, - 1, - 1, - 1, 1, 1, - 1, 1, - 1, - 1, - 1, - 1, - 1, 1, - 1, - 1,
      - 1, - 1, 1, 1, - 1, 1, - 1, - 1, - 1, - 1, 1, - 1, 1, - 1, 1, 1, 1, 1, 1, 1]"

definition small_primes :: "nat list" where
  "small_primes =
     [2, 3, 5, 7, 11, 13, 17, 19, 23, 29, 31, 37, 41, 43, 47, 53, 59, 61, 67, 71, 73, 79, 83, 89, 97,
      101, 103, 107, 109, 113, 127]"

definition signs_multiply :: "nat \<Rightarrow> bool" where
  "signs_multiply i \<longleftrightarrow>
     list_ex (\<lambda>a. a * (i div a) = i \<and> residue_signs ! i = residue_signs ! a * residue_signs ! (i div a)) [2..<i]"

lemma residue_signs_composite:
  "list_all (\<lambda>i. signs_multiply i \<or> i \<in> set small_primes) [2..<129]"
  by code_simp

lemma residue_signs_primes:
  "\<forall>i \<in> set small_primes. residue (modulus SB_CURVE_P256_P) (int i) (residue_signs ! i)"
  by (simp add: small_primes_def residue_signs_def residue_2 residue_3 residue_5 residue_7 residue_11 residue_13 residue_17 residue_19 residue_23 residue_29 residue_31 residue_37 residue_41 residue_43 residue_47 residue_53 residue_59 residue_61 residue_67 residue_71 residue_73 residue_79 residue_83 residue_89 residue_97 residue_101 residue_103 residue_107 residue_109 residue_113 residue_127)

lemma composite_or_prime: "2 \<le> i \<Longrightarrow> i < 129 \<Longrightarrow> signs_multiply i \<or> i \<in> set small_primes"
  using residue_signs_composite by (simp only: list_all_iff set_upt Ball_def atLeastLessThan_iff)

lemma residue_signs_residue:
  "1 \<le> i \<Longrightarrow> i < 129 \<Longrightarrow> residue (modulus SB_CURVE_P256_P) (int i) (residue_signs ! i)"
proof (induction i rule: less_induct)
  case (less i)
  consider "i = 1" | "2 \<le> i" "signs_multiply i" | "i \<in> set small_primes"
    using less.prems composite_or_prime [of i] by fastforce
  then show ?case
  proof cases
    case 1
    then show ?thesis by (simp add: residue_signs_def residueI [where z = 1 and k = 0])
  next
    case 2
    then obtain a where a: "2 \<le> a" "a < i" "a * (i div a) = i"
      "residue_signs ! i = residue_signs ! a * residue_signs ! (i div a)"
      by (auto simp: signs_multiply_def list_ex_iff)
    then have b: "1 \<le> i div a" "i div a < i"
      using less.prems by (metis Suc_leI mult_0_right neq0_conv not_one_le_zero One_nat_def, simp)
    have "residue (modulus SB_CURVE_P256_P) (int a * int (i div a)) (residue_signs ! i)"
      unfolding a(4) using a b less.prems by (intro residue_mult less.IH) linarith+
    then show ?thesis unfolding of_nat_mult [symmetric] a(3) .
  next
    case 3
    then show ?thesis using residue_signs_primes by blast
  qed
qed

text \<open>The loop counts the values whose sign is 1, 61 of them.\<close>

lemma mod_sqrt_small:
  assumes "prime_modulus (modulus SB_CURVE_P256_P)" "1 \<le> i" "i < 129" "fe_val x = int i"
  shows "quasi_reduced SB_CURVE_P256_P x"
    and "fst (sb_fe_mod_sqrt x t1 t2 t3 SB_CURVE_P256_P) \<longleftrightarrow> residue_signs ! i = 1"
proof -
  show q: "quasi_reduced SB_CURVE_P256_P x"
    using assms(2-4) by (simp add: quasi_reduced_def SB_CURVE_P256_P_val)
  have "modulus SB_CURVE_P256_P mod 4 = 3" by (simp add: SB_CURVE_P256_P_val)
  moreover have "\<not> modulus SB_CURVE_P256_P dvd int i"
    using assms(2,3) zdvd_imp_le [of "modulus SB_CURVE_P256_P" "int i"] by (auto simp: SB_CURVE_P256_P_val)
  ultimately show "fst (sb_fe_mod_sqrt x t1 t2 t3 SB_CURVE_P256_P) \<longleftrightarrow> residue_signs ! i = 1"
    unfolding mod_sqrt_square [OF sqrt_fields(1) assms(1) q] assms(4)
    by (rule residue_square [OF assms(1) _ _ residue_signs_residue [OF assms(2,3)]])
qed

lemma sqrt_count_val:
  assumes "prime_modulus (modulus SB_CURVE_P256_P)"
  shows "fe_val x = int i \<Longrightarrow> i + n < 129 \<Longrightarrow>
    sqrt_count t1 t2 t3 n x vc = Some (vc + of_nat (length (filter (\<lambda>j. residue_signs ! j = 1) [Suc i..<Suc (i + n)])))"
proof (induction n arbitrary: x i vc)
  case (Suc n)
  let ?x = "fst (sb_fe_add x SB_FE_ONE)"
  have v: "fe_val ?x = int (Suc i)"
    using Suc.prems by (simp add: sb_fe_add_val)
  note m = mod_sqrt_small [OF assms _ _ v]
  have u: "[Suc i..<Suc (i + Suc n)] = Suc i # [Suc (Suc i)..<Suc (Suc i + n)]"
    by (simp add: upt_conv_Cons)
  show ?case
    using Suc.prems Suc.IH [OF v] m unfolding u
    by (simp add: sb_test_mod_sqrt_e [OF sqrt_fields(1)])
qed simp

theorem sb_test_mod_sqrt:
  assumes P: "prime_modulus (modulus SB_CURVE_P256_P)" and K: "prime_modulus (modulus SB_CURVE_SECP256K1_P)"
  shows "sb_test_mod_sqrt t1 t2 t3"
proof -
  let ?P = SB_CURVE_P256_P and ?K = SB_CURVE_SECP256K1_P
  have v: "sb_test_mod_sqrt_v t1 t2 t3 (sb_fe_const 0 0 0 w) p"
    if "sqrt_field p" "prime_modulus (modulus p)" "residue (modulus p) c 1" "2 ^ 64 < modulus p" "uint w = r * r * c" "w \<noteq> 0"
    for p c w r
  proof -
    have e: "fe_val (sb_fe_const 0 0 0 w) = uint w" by (simp add: sb_fe_const_def fe_val_FE)
    have q: "quasi_reduced p (sb_fe_const 0 0 0 w)"
      using that(4,6) uint_lt2p [of w] word_gt_0 [of w] word_less_def [of 0 w] by (simp add: quasi_reduced_def e)
    have "residue (modulus p) (r * r * c) (1 * 1)"
      by (intro residue_mult that(3) residueI [where z = r and k = 0]) simp_all
    then show ?thesis
      unfolding sb_test_mod_sqrt_v [OF that(1) q] mod_sqrt_square [OF that(1,2) q] e that(5) by (simp add: residue_def)
  qed
  have P2: "sqrt_field ?P" "prime_modulus (modulus ?P)" "residue (modulus ?P) 2 1" "2 ^ 64 < modulus ?P" "residue (modulus ?P) 1 1"
    and K2: "sqrt_field ?K" "prime_modulus (modulus ?K)" "residue (modulus ?K) 2 1" "2 ^ 64 < modulus ?K" "residue (modulus ?K) 1 1"
    using sqrt_fields P K residue_2 residue_2_secp256k1 residueI [where z = 1 and k = 0, of 1 1] by (simp_all add: SB_CURVE_P256_P_val SB_CURVE_SECP256K1_P_val)
  have three: "sb_test_mod_sqrt_n t1 t2 t3 (sb_fe_const 0 0 0 3) ?P"
    using mod_sqrt_small(2) [OF P, of 3 "sb_fe_const 0 0 0 3" t1 t2 t3]
    by (simp add: sb_test_mod_sqrt_n_def case_prod_unfold residue_signs_def sb_fe_const_def fe_val_FE)
  have n: "sb_test_mod_sqrt_n t1 t2 t3 (sb_fe_const 0 0 0 3) SB_CURVE_P256_N"
    by (rule mod_sqrt_refuses) (simp add: SB_CURVE_P256_N_val)
  have "length (filter (\<lambda>j. residue_signs ! j = 1) [1..<129]) = 61"
    by code_simp
  then have count: "sqrt_count t1 t2 t3 128 SB_FE_ZERO 0 = Some 61"
    using sqrt_count_val [OF P, where x = SB_FE_ZERO and i = 0 and n = 128 and vc = 0] by simp
  show ?thesis
    using v [OF P2(1-4), where w = 2 and r = 1] v [OF P2(1-4), where w = 32 and r = 4]
      v [OF P2(1,2,5,4), where w = 4294967296 and r = 65536]
      v [OF K2(1-4), where w = 2 and r = 1] v [OF K2(1-4), where w = 32 and r = 4]
      v [OF K2(1,2,5,4), where w = 4294967296 and r = 65536] three n count
    by (simp add: sb_test_mod_sqrt_def)
qed

end
