(* ===== verification/Key_Tests.thy ===== *)
theory Key_Tests
  imports SW_Points
begin

text \<open>
  The unit tests of key validation, \<open>sb_test_valid_private\<close> and \<open>sb_test_valid_public\<close> of
  \<open>sb_sw_lib_tests.c.h\<close>, with their key constants, and the proofs that they pass. Each test is the conjunction of its
  assertions on the returned error.
\<close>

subsection \<open>The keys\<close>

definition TEST_PRIV_1 :: "sb_byte list" where
  "TEST_PRIV_1 =
     [0x5E, 0x7F, 0x68, 0x59, 0x05, 0xE6, 0xB8, 0x08, 0xAE, 0xF8, 0xE9, 0x2D, 0x59, 0x6F, 0xAC, 0x9B,
      0xC5, 0x33, 0x6C, 0x2B, 0xB8, 0x11, 0x3C, 0x87, 0x7E, 0x7E, 0x5B, 0xBD, 0xB1, 0x4E, 0x83, 0x74]"

definition TEST_PUB_1 :: "sb_byte list" where
  "TEST_PUB_1 =
     [0xA7, 0xE2, 0x9A, 0x43, 0x86, 0x95, 0xCF, 0xD0, 0x0A, 0x0A, 0xCB, 0x0D, 0x86, 0x1C, 0x6C, 0xA5,
      0x99, 0xF8, 0xB5, 0xC4, 0x93, 0xC9, 0xA2, 0x78, 0xBA, 0x85, 0xDD, 0x46, 0x45, 0x03, 0xD7, 0x2D,
      0x0D, 0x76, 0xCE, 0xD9, 0xFE, 0x9F, 0x7F, 0x92, 0x05, 0x05, 0x84, 0xEC, 0x58, 0x0D, 0x57, 0x51,
      0x29, 0xA9, 0xB4, 0x21, 0x54, 0x15, 0x0A, 0x04, 0x45, 0x89, 0xBE, 0x2A, 0x25, 0xC2, 0xB0, 0x6D]"

definition TEST_PUB_2 :: "sb_byte list" where
  "TEST_PUB_2 =
     [0x60, 0xFE, 0xD4, 0xBA, 0x25, 0x5A, 0x9D, 0x31, 0xC9, 0x61, 0xEB, 0x74, 0xC6, 0x35, 0x6D, 0x68,
      0xC0, 0x49, 0xB8, 0x92, 0x3B, 0x61, 0xFA, 0x6C, 0xE6, 0x69, 0x62, 0x2E, 0x60, 0xF2, 0x9F, 0xB6,
      0x79, 0x03, 0xFE, 0x10, 0x08, 0xB8, 0xBC, 0x99, 0xA4, 0x1A, 0xE9, 0xE9, 0x56, 0x28, 0xBC, 0x64,
      0xF2, 0xF1, 0xB2, 0x0C, 0x2D, 0x7E, 0x9F, 0x51, 0x77, 0xA3, 0xC2, 0x94, 0xD4, 0x46, 0x22, 0x99]"

definition invalid_priv :: "sb_byte list" where
  "invalid_priv =
     [0xFF, 0xFF, 0xFF, 0xFF, 0xFF, 0xFF, 0xFF, 0xFF, 0xFF, 0xFF, 0xFF, 0xFF, 0xFF, 0xFF, 0xFF, 0xFF,
      0xFF, 0xFF, 0xFF, 0xFF, 0xFF, 0xFF, 0xFF, 0xFF, 0xFF, 0xFF, 0xFF, 0xFF, 0xFF, 0xFF, 0xFF, 0xFF]"

subsection \<open>The tests\<close>

definition sb_test_valid_private :: bool where
  "sb_test_valid_private \<longleftrightarrow>
     fst (sb_sw_valid_private_key TEST_PRIV_1 SB_SW_CURVE_P256 SB_DATA_ENDIAN_BIG) = SB_SUCCESS \<and>
     fst (sb_sw_valid_private_key TEST_PRIV_1 SB_SW_CURVE_P256 SB_DATA_ENDIAN_BIG) = SB_SUCCESS \<and>
     fst (sb_sw_valid_private_key invalid_priv SB_SW_CURVE_P256 SB_DATA_ENDIAN_LITTLE) = SB_ERROR_PRIVATE_KEY_INVALID \<and>
     fst (sb_sw_valid_private_key invalid_priv SB_SW_CURVE_P256 SB_DATA_ENDIAN_BIG) = SB_ERROR_PRIVATE_KEY_INVALID \<and>
     fst (sb_sw_valid_private_key invalid_priv SB_SW_CURVE_SECP256K1 SB_DATA_ENDIAN_LITTLE) = SB_ERROR_PRIVATE_KEY_INVALID \<and>
     fst (sb_sw_valid_private_key invalid_priv SB_SW_CURVE_SECP256K1 SB_DATA_ENDIAN_BIG) = SB_ERROR_PRIVATE_KEY_INVALID"

definition sb_test_valid_public :: bool where
  "sb_test_valid_public \<longleftrightarrow>
     fst (sb_sw_valid_public_key TEST_PUB_1 SB_SW_CURVE_P256 SB_DATA_ENDIAN_BIG) = SB_SUCCESS \<and>
     fst (sb_sw_valid_public_key TEST_PUB_2 SB_SW_CURVE_P256 SB_DATA_ENDIAN_BIG) = SB_SUCCESS \<and>
     fst (sb_sw_valid_public_key TEST_PUB_2 SB_SW_CURVE_P256 SB_DATA_ENDIAN_LITTLE) = SB_ERROR_PUBLIC_KEY_INVALID"

text \<open>The two orders of the bytes of each key, as numbers.\<close>

lemma test_key_values:
  "fe_val (sb_fe_from_bytes TEST_PRIV_1 SB_DATA_ENDIAN_BIG) = 42742517525730688613486406107245491720105073297241018929340207178624592151412"
  "fe_val (sb_fe_from_bytes invalid_priv e) = 115792089237316195423570985008687907853269984665640564039457584007913129639935"
  "key_x TEST_PUB_1 SB_DATA_ENDIAN_BIG = 75936617839472710233152524763363709985300437831687229833515459697323698018093"
  "key_y TEST_PUB_1 SB_DATA_ENDIAN_BIG = 6089982622097113915251736090283420060723109663931106204627845328143003070573"
  "key_x TEST_PUB_2 SB_DATA_ENDIAN_BIG = 43872280807156713839160376167191808430140484563252114113014272064716834774966"
  "key_y TEST_PUB_2 SB_DATA_ENDIAN_BIG = 54736908695619294235531183715189990111299271757105154178488727263331972686489"
  "key_x TEST_PUB_2 SB_DATA_ENDIAN_LITTLE = 82603539941109899608554901341753999212653809912505665957539209352340462435936"
  "key_y TEST_PUB_2 SB_DATA_ENDIAN_LITTLE = 69264427486861480081579438980644190491125527929785058962998983115715339223929"
  by (simp_all add: key_x_def key_y_def low_half_def high_half_def SB_ELEM_BYTES_def TEST_PRIV_1_def TEST_PUB_1_def
      TEST_PUB_2_def invalid_priv_def sb_fe_from_bytes_val in_order_def be_val_def
      SB_DATA_ENDIAN_BIG_def SB_DATA_ENDIAN_LITTLE_def)

lemma test_keys_on_curve:
  "curve_on SB_CURVE_P256 (key_x TEST_PUB_1 SB_DATA_ENDIAN_BIG, key_y TEST_PUB_1 SB_DATA_ENDIAN_BIG)"
  "curve_on SB_CURVE_P256 (key_x TEST_PUB_2 SB_DATA_ENDIAN_BIG, key_y TEST_PUB_2 SB_DATA_ENDIAN_BIG)"
  unfolding curve_on_def on_curve_def test_key_values SB_CURVE_P256_coeffs SB_CURVE_P256_P_val
  by (rule eqmI [where k = "-3781593652881437281509249611180328075325448527434677054714407116384105507685676518648797737945005281329372352732325917573377384061174683681219052573541040"]; simp)
    (rule eqmI [where k = "-729275709850537188049670356625349373106132526620416467342484726769004658479509122543837582686771253029935431743316427988375752698538637587831395282136368"]; simp)

text \<open>Read in the other order the second key is no point: the two sides of the equation differ by a known residue.\<close>

lemma not_eqmI: "x = y + r + P * k \<Longrightarrow> 0 < r \<Longrightarrow> r < P \<Longrightarrow> \<not> eqm P x y"
  by (auto simp: eqm_def dvd_add_left_iff zdvd_not_zless)

lemma reversed_key_off_curve:
  "\<not> curve_on SB_CURVE_P256 (key_x TEST_PUB_2 SB_DATA_ENDIAN_LITTLE, key_y TEST_PUB_2 SB_DATA_ENDIAN_LITTLE)"
  unfolding curve_on_def on_curve_def test_key_values SB_CURVE_P256_coeffs SB_CURVE_P256_P_val
  by (rule not_eqmI [where r = 8621806442471776378653088297823684802279577270098842126971407943879949975644
      and k = "-4867624718189143147429606109638850170197026246321124221965618813686098931019484555315498897412444748308423070503492338157493737860840858228892081692912042"]) simp_all

lemma curve_from_ids:
  "sb_sw_curve_from_id SB_SW_CURVE_P256 = (SB_SUCCESS, Some SB_CURVE_P256)"
  "sb_sw_curve_from_id SB_SW_CURVE_SECP256K1 = (SB_SUCCESS, Some SB_CURVE_SECP256K1)"
  by (simp_all add: sb_sw_curve_from_id_def SB_SW_CURVE_P256_def SB_SW_CURVE_SECP256K1_def SB_SUCCESS_def)

lemma sb_test_valid_private: sb_test_valid_private
  by (simp add: sb_test_valid_private_def sb_sw_valid_private_key_val curve_from_ids scalar_valid_def test_key_values
      SB_CURVE_P256_coeffs SB_CURVE_SECP256K1_coeffs SB_CURVE_P256_N_val SB_CURVE_SECP256K1_N_val)

lemma sb_test_valid_public: sb_test_valid_public
  by (simp add: sb_test_valid_public_def sb_sw_valid_public_key_val curve_from_ids valid_key_def valid_point_def test_keys_on_curve
      reversed_key_off_curve) (simp add: test_key_values SB_CURVE_P256_coeffs SB_CURVE_P256_P_val)

end
