(* ===== verification/Cavp_Reader.thy ===== *)
theory Cavp_Reader
  imports SB_Types
begin

text \<open>
  The reader of the CAVP response files, \<open>sb_test_cavp.c\<close>, and the comparison of \<open>sb_test.h\<close>: lines of
  any length in a growing buffer, values of lines \<open>key = value\<close>, hexadecimal strings. An open file is the
  list of the bytes not yet read; allocations succeed, and memory that was never written holds a byte
  \<open>junk\<close> of which nothing is known. An access outside a buffer is \<open>None\<close>.
\<close>

subsection \<open>Comparison\<close>

definition sb_test_ctc :: "sb_byte list \<Rightarrow> sb_byte list \<Rightarrow> sb_byte" where
  "sb_test_ctc a b =
     (let r = fold (\<lambda>(x, y) r. r OR (x XOR y)) (zip a b) 0
      in (drop_bit 7 (r OR - r)) XOR 1)"

subsection \<open>Lines\<close>

text \<open>\<open>sb_test_buf_t\<close>: the bytes of the allocation and the length in use; \<open>NULL\<close> is the empty list.\<close>

record sb_test_buf =
  buf :: "sb_byte list"
  len :: nat

definition sb_test_buf_init :: sb_test_buf where
  "sb_test_buf_init = \<lparr>buf = [], len = 0\<rparr>"

definition content :: "sb_test_buf \<Rightarrow> sb_byte list" where
  "content s = take (len s) (buf s)"

text \<open>The loop over the file; while it runs \<open>line->len\<close> is the size of the allocation.\<close>

fun read_loop :: "sb_byte \<Rightarrow> sb_byte list \<Rightarrow> sb_byte list \<Rightarrow> nat \<Rightarrow> (bool \<times> sb_test_buf \<times> sb_byte list) option" where
  "read_loop junk [] b i = Some (False, sb_test_buf_init, [])"
| "read_loop junk (c # handle) b i =
     (if c = 13 then read_loop junk handle b i
      else if \<not> i < length b then None
      else if c = 10 then Some (True, \<lparr>buf = b[i := 0], len = i\<rparr>, handle)
      else let b = b[i := c]; i = i + 1 in
           if length b \<le> i then read_loop junk handle (b @ replicate (length b) junk) i
           else read_loop junk handle b i)"

definition sb_test_read_line :: "sb_byte \<Rightarrow> sb_byte list \<Rightarrow> (bool \<times> sb_test_buf \<times> sb_byte list) option" where
  "sb_test_read_line junk handle = read_loop junk handle (replicate 16 junk) 0"

text \<open>
  What the loop does: it never leaves the buffer, drops carriage returns, and returns the line up to the line
  feed, followed by a null byte; an unterminated last line is not returned.
\<close>

definition line_of :: "sb_byte list \<Rightarrow> sb_byte list" where
  "line_of h = filter (\<lambda>c. c \<noteq> 13) (takeWhile (\<lambda>c. c \<noteq> 10) h)"

definition rest_of :: "sb_byte list \<Rightarrow> sb_byte list" where
  "rest_of h = tl (dropWhile (\<lambda>c. c \<noteq> 10) h)"

lemma line_simps [simp]:
  "line_of (c # h) = (if c = 10 then [] else if c = 13 then line_of h else c # line_of h)"
  "rest_of (c # h) = (if c = 10 then h else rest_of h)"
  by (simp_all add: line_of_def rest_of_def)

text \<open>A line in its buffer: \<open>len\<close> bytes and the null byte behind them.\<close>

definition holds_line :: "sb_test_buf \<Rightarrow> sb_byte list \<Rightarrow> bool" where
  "holds_line l cs \<longleftrightarrow> content l = cs \<and> len l < length (buf l) \<and> buf l ! len l = 0"

lemma holds_lineD: "holds_line l cs \<Longrightarrow> len l = length cs" "holds_line l cs \<Longrightarrow> content l = cs"
  by (auto simp: holds_line_def content_def)

lemma holds_line_hd:
  assumes "holds_line l cs" "cs \<noteq> []"
  shows "buf l ! 0 = hd cs"
proof -
  have "cs ! 0 = buf l ! 0"
    using holds_lineD [OF assms(1)] assms(2) nth_take [of 0 "len l" "buf l"] by (simp add: content_def)
  then show ?thesis using assms(2) by (simp add: hd_conv_nth)
qed

lemma read_loop_result:
  assumes "i < length b"
  shows "if 10 \<in> set h
    then \<exists>l. read_loop junk h b i = Some (True, l, rest_of h) \<and> holds_line l (take i b @ line_of h)
    else read_loop junk h b i = Some (False, sb_test_buf_init, [])"
  using assms
proof (induction junk h b i rule: read_loop.induct)
  case (2 junk c h b i)
  consider "c = 13" | "c = 10" | "c \<noteq> 13" "c \<noteq> 10" by blast
  then show ?case
  proof cases
    case 1
    then show ?thesis using 2 by simp
  next
    case c: 2
    with "2.prems" show ?thesis
      by (simp add: holds_line_def content_def)
  next
    case c: 3
    have t: "take (Suc i) (b[i := c]) = take i b @ [c]"
      using "2.prems" by (simp add: take_Suc_conv_app_nth)
    show ?thesis
    proof (cases "length b \<le> i + 1")
      case True
      then show ?thesis
        using "2.IH"(2) [OF c(1) _ c(2) refl refl] "2.prems" c t by auto
    next
      case False
      then show ?thesis
        using "2.IH"(3) [OF c(1) _ c(2) refl refl] "2.prems" c t by auto
    qed
  qed
qed simp

lemma sb_test_read_line:
  "10 \<in> set h \<Longrightarrow> \<exists>l. sb_test_read_line junk h = Some (True, l, rest_of h) \<and> holds_line l (line_of h)"
  "10 \<notin> set h \<Longrightarrow> sb_test_read_line junk h = Some (False, sb_test_buf_init, [])"
  using read_loop_result [of 0 "replicate 16 junk" h junk] by (simp_all add: sb_test_read_line_def)

lemma rest_of_shorter: "10 \<in> set h \<Longrightarrow> length (rest_of h) < length h"
  by (induction h) (auto simp: rest_of_def)

lemma read_line_shorter:
  assumes "sb_test_read_line junk h = Some (True, l, h')"
  shows "length h' < length h"
  using sb_test_read_line [of h junk] assms rest_of_shorter [of h] by (cases "10 \<in> set h") auto


subsection \<open>Sections and values\<close>

text \<open>Each function reads lines until one decides; the file gets shorter with every line.\<close>

function sb_test_advance_to_section :: "sb_byte \<Rightarrow> sb_byte list \<Rightarrow> sb_byte list \<Rightarrow> (bool \<times> sb_byte list) option" where
  "sb_test_advance_to_section junk section_name handle =
     (case sb_test_read_line junk handle of
        None \<Rightarrow> None
      | Some (ok, line, handle) \<Rightarrow>
          if \<not> ok then Some (False, handle)
          else if len line = length section_name \<and> content line = section_name then Some (True, handle)
          else sb_test_advance_to_section junk section_name handle)"
  by pat_completeness auto

termination
  by (relation "measure (\<lambda>(junk, section_name, handle). length handle)") (auto intro: read_line_shorter)

definition sb_test_valid_key_value :: "sb_test_buf \<Rightarrow> bool" where
  "sb_test_valid_key_value line \<longleftrightarrow> list_ex (\<lambda>c. c = 61) (content line)"

definition sb_test_concat :: "sb_test_buf \<Rightarrow> sb_test_buf \<Rightarrow> bool \<times> sb_test_buf \<times> sb_test_buf" where
  "sb_test_concat first second =
     (False, \<lparr>buf = content first @ content second, len = len first + len second\<rparr>, sb_test_buf_init)"

text \<open>The index of the first byte behind the equals sign that is not a space.\<close>

fun value_start :: "sb_byte list \<Rightarrow> bool \<Rightarrow> nat \<Rightarrow> nat option" where
  "value_start [] found_value i = None"
| "value_start (c # cs) found_value i =
     (if c = 32 then value_start cs found_value (i + 1)
      else if found_value then Some i
      else if c = 61 then value_start cs True (i + 1)
      else value_start cs found_value (i + 1))"

text \<open>The value is moved to the front with its null byte.\<close>

definition shift_value :: "sb_test_buf \<Rightarrow> nat \<Rightarrow> sb_test_buf option" where
  "shift_value v i =
     (let n = len v - i in
      if i + (n + 1) \<le> length (buf v)
      then Some \<lparr>buf = take (n + 1) (drop i (buf v)) @ drop (n + 1) (buf v), len = n\<rparr> else None)"

function sb_test_fetch_next_value :: "sb_byte \<Rightarrow> sb_byte list \<Rightarrow> (bool \<times> sb_test_buf \<times> sb_byte list) option" where
  "sb_test_fetch_next_value junk handle =
     (case sb_test_read_line junk handle of
        None \<Rightarrow> None
      | Some (ok, v, handle) \<Rightarrow>
          if \<not> ok \<or> 0 < len v \<and> buf v ! 0 = 91 then Some (False, sb_test_buf_init, handle)
          else if \<not> sb_test_valid_key_value v then sb_test_fetch_next_value junk handle
          else case value_start (content v) False 0 of
              None \<Rightarrow> Some (False, sb_test_buf_init, handle)
            | Some i \<Rightarrow> map_option (\<lambda>v. (True, v, handle)) (shift_value v i))"
  by pat_completeness auto

termination
  by (relation "measure (\<lambda>(junk, handle). length handle)") (auto intro: read_line_shorter)

declare sb_test_advance_to_section.simps [simp del] sb_test_fetch_next_value.simps [simp del]

text \<open>
  \<open>strtoul\<close> with base 10: leading white space, a sign, the digits; a number that does not fit gives the largest.
\<close>

definition is_space :: "sb_byte \<Rightarrow> bool" where
  "is_space c \<longleftrightarrow> c = 32 \<or> 9 \<le> c \<and> c \<le> 13"

definition is_digit :: "sb_byte \<Rightarrow> bool" where
  "is_digit c \<longleftrightarrow> 48 \<le> c \<and> c \<le> 57"

definition digits_value :: "sb_byte list \<Rightarrow> nat" where
  "digits_value cs = foldl (\<lambda>n c. 10 * n + unat (c - 48)) 0 (takeWhile is_digit cs)"

definition strtoul10 :: "sb_byte list \<Rightarrow> 64 word" where
  "strtoul10 cs =
     (let cs = dropWhile is_space cs;
          neg = (cs \<noteq> [] \<and> hd cs = 45);
          cs = (if cs \<noteq> [] \<and> (hd cs = 45 \<or> hd cs = 43) then tl cs else cs);
          n = digits_value cs
      in if 2 ^ 64 \<le> n then - 1 else if neg then - of_nat n else of_nat n)"

definition sb_test_fetch_next_int :: "sb_byte \<Rightarrow> sb_byte list \<Rightarrow> 64 word \<Rightarrow> (bool \<times> 64 word \<times> sb_byte list) option" where
  "sb_test_fetch_next_int junk handle value =
     (case sb_test_fetch_next_value junk handle of
        None \<Rightarrow> None
      | Some (ok, b, handle) \<Rightarrow> if ok then Some (True, strtoul10 (content b), handle) else Some (False, value, handle))"

subsection \<open>Reading what was written\<close>

text \<open>A line of a response file, and a line that holds no value: a comment, an empty line.\<close>

definition text_line :: "sb_byte list \<Rightarrow> sb_byte list" where
  "text_line cs = cs @ [13, 10]"

definition plain :: "sb_byte list \<Rightarrow> bool" where
  "plain cs \<longleftrightarrow> 10 \<notin> set cs \<and> 13 \<notin> set cs"

lemma line_of_text_line: "plain cs \<Longrightarrow> line_of (text_line cs @ h) = cs" "plain cs \<Longrightarrow> rest_of (text_line cs @ h) = h"
  by (induction cs) (auto simp: text_line_def plain_def)

lemma read_text_line:
  assumes "plain cs"
  shows "\<exists>l. sb_test_read_line junk (text_line cs @ h) = Some (True, l, h) \<and> holds_line l cs"
  using sb_test_read_line(1) [of "text_line cs @ h" junk] line_of_text_line [OF assms, of h]
  by (simp add: text_line_def)

text \<open>The section header is found behind any lines that are not it.\<close>

lemma advance_to_section:
  assumes "\<forall>l \<in> set ls. plain l \<and> l \<noteq> name" "plain name"
  shows "sb_test_advance_to_section junk name (concat (map text_line ls) @ text_line name @ h) = Some (True, h)"
  using assms(1)
proof (induction ls)
  case Nil
  obtain l where "sb_test_read_line junk (text_line name @ h) = Some (True, l, h)" "holds_line l name"
    using read_text_line [OF assms(2)] by blast
  then show ?case
    by (simp add: sb_test_advance_to_section.simps [of junk name "text_line name @ h"] holds_lineD)
next
  case (Cons k ls)
  let ?h = "concat (map text_line ls) @ text_line name @ h"
  obtain l where "sb_test_read_line junk (text_line k @ ?h) = Some (True, l, ?h)" "holds_line l k"
    using read_text_line [of k junk ?h] Cons.prems by auto
  then show ?case
    using Cons by (simp add: sb_test_advance_to_section.simps [of junk name "text_line k @ ?h"] holds_lineD)
qed

definition key_value :: "sb_byte list \<Rightarrow> sb_byte list \<Rightarrow> sb_byte list" where
  "key_value k v = k @ [32, 61, 32] @ v"

lemma value_start_found: "v \<noteq> [] \<Longrightarrow> hd v \<noteq> 32 \<Longrightarrow> value_start v True i = Some i"
  by (cases v) auto

lemma value_start_key_value:
  assumes "61 \<notin> set k" "v \<noteq> []" "hd v \<noteq> 32"
  shows "value_start (key_value k v) False i = Some (i + length k + 3)"
  using assms(1)
  by (induction k arbitrary: i) (auto simp: key_value_def value_start_found [OF assms(2,3)])

text \<open>The value of the next line with one is returned, whatever lines without values stand before it.\<close>

definition no_value :: "sb_byte list \<Rightarrow> bool" where
  "no_value l \<longleftrightarrow> plain l \<and> 61 \<notin> set l \<and> (l = [] \<or> hd l \<noteq> 91)"

definition value_line :: "sb_byte list \<Rightarrow> sb_byte list \<Rightarrow> bool" where
  "value_line k v \<longleftrightarrow> plain k \<and> plain v \<and> 61 \<notin> set k \<and> k \<noteq> [] \<and> hd k \<noteq> 91 \<and> v \<noteq> [] \<and> hd v \<noteq> 32"

lemma shift_value_content:
  assumes "holds_line l (p @ v)"
  shows "\<exists>w. shift_value l (length p) = Some w \<and> holds_line w v"
proof -
  note n = holds_lineD(1) [OF assms]
  have c: "take (length p + length v) (buf l) = p @ v" "length p + length v < length (buf l)"
    "buf l ! (length p + length v) = 0"
    using assms n by (simp_all add: holds_line_def content_def)
  have "take (length v) (drop (length p) (buf l)) = v"
    using arg_cong [OF c(1), of "drop (length p)"] by (simp add: drop_take)
  then show ?thesis
    using c n by (simp add: shift_value_def holds_line_def content_def Let_def nth_append min_def) linarith
qed

theorem fetch_next_value:
  assumes "\<forall>l \<in> set ls. no_value l" "value_line k v"
  shows "\<exists>w. sb_test_fetch_next_value junk (concat (map text_line ls) @ text_line (key_value k v) @ h) = Some (True, w, h)
    \<and> holds_line w v"
  using assms(1)
proof (induction ls)
  case Nil
  have "plain (key_value k v)"
    using assms(2) by (auto simp: plain_def key_value_def value_line_def)
  then obtain l where l: "sb_test_read_line junk (text_line (key_value k v) @ h) = Some (True, l, h)" "holds_line l (key_value k v)"
    using read_text_line by blast
  obtain w where w: "shift_value l (length k + 3) = Some w" "holds_line w v"
    using shift_value_content [of l "k @ [32, 61, 32]" v] l(2) by (auto simp: key_value_def eval_nat_numeral)
  have "buf l ! 0 = hd (key_value k v)"
    by (rule holds_line_hd [OF l(2)]) (simp add: key_value_def)
  then have "buf l ! 0 \<noteq> 91"
    using assms(2) by (simp add: key_value_def value_line_def hd_append)
  moreover have "value_start (key_value k v) False 0 = Some (length k + 3)"
    using value_start_key_value [of k v 0] assms(2) by (simp add: value_line_def)
  moreover have "sb_test_valid_key_value l"
    unfolding sb_test_valid_key_value_def holds_lineD(2) [OF l(2)] by (simp add: key_value_def)
  ultimately show ?case
    using w l by (simp add: sb_test_fetch_next_value.simps [of junk "text_line (key_value k v) @ h"] holds_lineD)
next
  case (Cons k' ls)
  let ?h = "concat (map text_line ls) @ text_line (key_value k v) @ h"
  obtain l where l: "sb_test_read_line junk (text_line k' @ ?h) = Some (True, l, ?h)" "holds_line l k'"
    using read_text_line [of k' junk ?h] Cons.prems by (auto simp: no_value_def)
  have "\<not> sb_test_valid_key_value l"
    using Cons.prems unfolding sb_test_valid_key_value_def holds_lineD(2) [OF l(2)] by (auto simp: no_value_def list_ex_iff)
  moreover have "\<not> (0 < len l \<and> buf l ! 0 = 91)"
    using Cons.prems holds_line_hd [OF l(2)] holds_lineD(1) [OF l(2)] by (auto simp: no_value_def)
  ultimately show ?case
    using Cons l by (simp add: sb_test_fetch_next_value.simps [of junk "text_line k' @ ?h"])
qed

text \<open>A decimal number of at most 64 bits is read back.\<close>

fun decimal :: "nat \<Rightarrow> sb_byte list" where
  "decimal n = (if n < 10 then [48 + of_nat n] else decimal (n div 10) @ [48 + of_nat (n mod 10)])"

declare decimal.simps [simp del]

lemma decimal_digit:
  assumes "n < 10"
  shows "is_digit (48 + of_nat n)" "unat (of_nat n :: sb_byte) = n" "\<not> is_space (48 + of_nat n)"
    "(48 + of_nat n :: sb_byte) \<notin> {45, 43, 32, 10, 13}"
proof -
  have "n \<in> {0, 1, 2, 3, 4, 5, 6, 7, 8, 9}" using assms by auto
  then show "is_digit (48 + of_nat n)" "unat (of_nat n :: sb_byte) = n" "\<not> is_space (48 + of_nat n)"
    "(48 + of_nat n :: sb_byte) \<notin> {45, 43, 32, 10, 13}"
    by (auto simp: is_digit_def is_space_def)
qed

lemma decimal_digits:
  "decimal n \<noteq> []" "\<forall>c \<in> set (decimal n). is_digit c \<and> \<not> is_space c \<and> c \<notin> {45, 43, 32, 10, 13}"
  "foldl (\<lambda>n c. 10 * n + unat (c - 48)) 0 (decimal n) = n"
proof (induction n rule: decimal.induct)
  case (1 n)
  have d: "n div 10 = 0 \<longleftrightarrow> n < 10" "n mod 10 < 10" by (simp_all add: div_eq_0_iff)
  show "decimal n \<noteq> []" by (simp add: decimal.simps [of n])
  show "\<forall>c \<in> set (decimal n). is_digit c \<and> \<not> is_space c \<and> c \<notin> {45, 43, 32, 10, 13}"
    using 1 decimal_digit [of n] decimal_digit [of "n mod 10"] by (auto simp: decimal.simps [of n])
  show "foldl (\<lambda>n c. 10 * n + unat (c - 48)) 0 (decimal n) = n"
    using 1 decimal_digit(2) [of n] decimal_digit(2) [of "n mod 10"] by (simp add: decimal.simps [of n])
qed

lemma strtoul10_decimal:
  assumes "n < 2 ^ 64"
  shows "strtoul10 (decimal n) = of_nat n"
proof -
  note d = decimal_digits [of n]
  have h: "hd (decimal n) \<in> set (decimal n)" using d(1) by simp
  then have "dropWhile is_space (decimal n) = decimal n"
    using d(2) by (cases "decimal n") auto
  moreover have "takeWhile is_digit (decimal n) = decimal n"
    by (rule takeWhile_eq_all_conv [THEN iffD2]) (use d(2) in blast)
  then have "digits_value (decimal n) = n"
    unfolding digits_value_def by (simp only: d(3))
  moreover have "hd (decimal n) \<noteq> 45" "hd (decimal n) \<noteq> 43" using d(2) h by auto
  ultimately show ?thesis
    using assms by (simp add: strtoul10_def Let_def)
qed

theorem fetch_next_int:
  assumes "\<forall>l \<in> set ls. no_value l" "plain k" "61 \<notin> set k" "k \<noteq> []" "hd k \<noteq> 91" "n < 2 ^ 64"
  shows "sb_test_fetch_next_int junk (concat (map text_line ls) @ text_line (key_value k (decimal n)) @ h) value
    = Some (True, of_nat n, h)"
proof -
  have "value_line k (decimal n)"
    using assms decimal_digits(1,2) [of n] by (cases "decimal n") (auto simp: value_line_def plain_def)
  from fetch_next_value [OF assms(1) this, of junk h] show ?thesis
    by (auto simp: sb_test_fetch_next_int_def holds_lineD strtoul10_decimal [OF assms(6)])
qed

subsection \<open>Hexadecimal strings\<close>

text \<open>\<open>*nibble |= digit\<close>; \<open>None\<close> when the byte is no hexadecimal digit.\<close>

definition sb_test_hex_byte_to_nibble :: "sb_byte \<Rightarrow> sb_byte \<Rightarrow> sb_byte option" where
  "sb_test_hex_byte_to_nibble hex nibble =
     (if 48 \<le> hex \<and> hex \<le> 57 then Some (nibble OR (hex - 48))
      else if 65 \<le> hex \<and> hex \<le> 70 then Some (nibble OR (hex - 65 + 0xA))
      else if 97 \<le> hex \<and> hex \<le> 102 then Some (nibble OR (hex - 97 + 0xA))
      else None)"

text \<open>The loop over pairs of digits; the bytes written before an error stay written.\<close>

fun hex_loop :: "sb_byte list \<Rightarrow> nat \<Rightarrow> sb_byte list \<Rightarrow> bool \<times> sb_byte list" where
  "hex_loop (h # l # cs) k bytes =
     (case sb_test_hex_byte_to_nibble h 0 of
        None \<Rightarrow> (False, bytes)
      | Some v \<Rightarrow>
          (case sb_test_hex_byte_to_nibble l (push_bit 4 v) of
             None \<Rightarrow> (False, bytes)
           | Some v \<Rightarrow> hex_loop cs (k + 1) (bytes[k := v])))"
| "hex_loop cs k bytes = (True, bytes)"

definition sb_test_string_to_bytes :: "sb_test_buf \<Rightarrow> sb_byte list \<Rightarrow> nat \<Rightarrow> bool \<times> sb_byte list" where
  "sb_test_string_to_bytes string bytes blen =
     (if odd (len string) \<or> len string div 2 \<noteq> blen then (False, bytes)
      else hex_loop (content string) 0 bytes)"

text \<open>\<open>SB_TEST_BYTES_RAW\<close> decodes a string in place: the loop reads the array that it writes.\<close>

primrec hex_loop_in_place :: "nat \<Rightarrow> nat \<Rightarrow> sb_byte list \<Rightarrow> bool \<times> sb_byte list" where
  "hex_loop_in_place 0 k b = (True, b)"
| "hex_loop_in_place (Suc n) k b =
     (case sb_test_hex_byte_to_nibble (b ! (2 * k)) 0 of
        None \<Rightarrow> (False, b)
      | Some v \<Rightarrow>
          (case sb_test_hex_byte_to_nibble (b ! (2 * k + 1)) (push_bit 4 v) of
             None \<Rightarrow> (False, b)
           | Some v \<Rightarrow> hex_loop_in_place n (k + 1) (b[k := v])))"

definition SB_TEST_BYTES_RAW :: "sb_test_buf \<Rightarrow> bool \<times> sb_test_buf" where
  "SB_TEST_BYTES_RAW s =
     (if odd (len s) then (False, s)
      else let (ok, b) = hex_loop_in_place (len s div 2) 0 (buf s) in
        (ok, s\<lparr>buf := b, len := if ok then len s div 2 else len s\<rparr>))"

text \<open>The two digits of a byte, lower case, and the strings of bytes.\<close>

definition hex_digit :: "sb_byte \<Rightarrow> sb_byte" where
  "hex_digit d = (if d < 10 then 48 + d else 87 + d)"

definition hex_bytes :: "sb_byte list \<Rightarrow> sb_byte list" where
  "hex_bytes bs = concat (map (\<lambda>v. [hex_digit (drop_bit 4 v), hex_digit (v AND 15)]) bs)"

definition hex_pair_ok :: "sb_byte \<Rightarrow> bool" where
  "hex_pair_ok v \<longleftrightarrow>
     (case sb_test_hex_byte_to_nibble (hex_digit (drop_bit 4 v)) 0 of
        None \<Rightarrow> False
      | Some u \<Rightarrow> sb_test_hex_byte_to_nibble (hex_digit (v AND 15)) (push_bit 4 u) = Some v)"

lemma hex_pair_all: "list_all (\<lambda>n. hex_pair_ok (of_nat n)) [0..<256]"
  by code_simp

lemma byte_all:
  assumes "list_all (\<lambda>n. P (of_nat n)) [0..<256]"
  shows "P (v :: sb_byte)"
proof -
  have "unat v < 256" by (rule order_less_le_trans [OF unsigned_less]) simp
  then show ?thesis using assms by (auto simp: list_all_iff dest!: bspec [of _ _ "unat v"])
qed

lemma hex_pairE:
  obtains u where "sb_test_hex_byte_to_nibble (hex_digit (drop_bit 4 v)) 0 = Some u"
    "sb_test_hex_byte_to_nibble (hex_digit (v AND 15)) (push_bit 4 u) = Some v"
  using byte_all [OF hex_pair_all, of v] by (auto simp: hex_pair_ok_def split: option.splits)

lemma hex_loop_bytes:
  "k + length bs \<le> length bytes \<Longrightarrow> hex_loop (hex_bytes bs) k bytes = (True, take k bytes @ bs @ drop (k + length bs) bytes)"
proof (induction bs arbitrary: k bytes)
  case Nil
  then show ?case by (simp add: hex_bytes_def)
next
  case (Cons v bs)
  obtain u where "sb_test_hex_byte_to_nibble (hex_digit (drop_bit 4 v)) 0 = Some u"
    "sb_test_hex_byte_to_nibble (hex_digit (v AND 15)) (push_bit 4 u) = Some v"
    by (rule hex_pairE)
  then have "hex_loop (hex_bytes (v # bs)) k bytes = hex_loop (hex_bytes bs) (k + 1) (bytes[k := v])"
    by (simp add: hex_bytes_def)
  then show ?case
    using Cons by (simp add: take_Suc_conv_app_nth)
qed

theorem sb_test_string_to_bytes:
  assumes "holds_line s (hex_bytes bs)" "length bytes = length bs"
  shows "sb_test_string_to_bytes s bytes (length bs) = (True, bs)"
proof -
  have "length (hex_bytes bs) = 2 * length bs" by (induction bs) (simp_all add: hex_bytes_def)
  then show ?thesis
    using hex_loop_bytes [of 0 bs bytes] assms(2) holds_lineD [OF assms(1)] by (simp add: sb_test_string_to_bytes_def)
qed

text \<open>Exactly the strings of hexadecimal digits are accepted.\<close>

definition is_hex :: "sb_byte \<Rightarrow> bool" where
  "is_hex c \<longleftrightarrow> 48 \<le> c \<and> c \<le> 57 \<or> 65 \<le> c \<and> c \<le> 70 \<or> 97 \<le> c \<and> c \<le> 102"

lemma nibble_None: "sb_test_hex_byte_to_nibble c n = None \<longleftrightarrow> \<not> is_hex c"
  by (simp add: sb_test_hex_byte_to_nibble_def is_hex_def)

lemma nibble_Some: "sb_test_hex_byte_to_nibble c n = Some v \<Longrightarrow> is_hex c"
  using nibble_None [of c n] by simp

lemma hex_loop_accepts: "even (length cs) \<Longrightarrow> fst (hex_loop cs k bytes) \<longleftrightarrow> list_all is_hex cs"
proof (induction cs k bytes rule: hex_loop.induct)
  case (1 h l cs k bytes)
  then show ?case
    using nibble_None [of h 0] nibble_None [of l] by (auto split: option.splits dest: nibble_Some)
qed auto

lemma sb_test_string_to_bytes_accepts:
  "fst (sb_test_string_to_bytes s bytes blen) \<longleftrightarrow>
    len s = 2 * blen \<and> list_all is_hex (content s)" if "len s \<le> length (buf s)"
proof (cases "len s = 2 * blen")
  case True
  then show ?thesis
    using that hex_loop_accepts [of "content s" 0 bytes] by (simp add: sb_test_string_to_bytes_def content_def)
next
  case False
  then show ?thesis by (auto simp: sb_test_string_to_bytes_def)
qed

text \<open>Decoding in place gives the same bytes: the loop never overwrites a digit before it has read it.\<close>

lemma hex_loop_in_place:
  "2 * (k + n) \<le> length b \<Longrightarrow> hex_loop_in_place n k b = hex_loop (take (2 * n) (drop (2 * k) b)) k b"
proof (induction n arbitrary: k b)
  case (Suc n)
  have "drop (2 * k) b = b ! (2 * k) # b ! (2 * k + 1) # drop (2 * (k + 1)) b"
    using Suc.prems by (simp add: Cons_nth_drop_Suc)
  then have d: "take (2 * Suc n) (drop (2 * k) b) = b ! (2 * k) # b ! (2 * k + 1) # take (2 * n) (drop (2 * (k + 1)) b)"
    by simp
  show ?case
    unfolding d using Suc.prems Suc.IH [of "k + 1"] by (simp split: option.split)
qed simp

theorem SB_TEST_BYTES_RAW:
  assumes "holds_line s (hex_bytes bs)"
  shows "\<exists>w. SB_TEST_BYTES_RAW s = (True, w) \<and> content w = bs"
proof -
  have n: "length (hex_bytes bs) = 2 * length bs" by (induction bs) (simp_all add: hex_bytes_def)
  note h = holds_lineD [OF assms]
  have b: "2 * length bs \<le> length (buf s)" using assms h(1) n by (simp add: holds_line_def)
  have "hex_loop_in_place (length bs) 0 (buf s) = (True, bs @ drop (length bs) (buf s))"
    using hex_loop_in_place [of 0 "length bs" "buf s"] hex_loop_bytes [of 0 bs "buf s"] b h n by (simp add: content_def)
  then show ?thesis
    using h(1) n by (simp add: SB_TEST_BYTES_RAW_def content_def)
qed

lemma sb_test_concat:
  "content (fst (snd (sb_test_concat first second))) = content first @ content second"
  if "len first \<le> length (buf first)" "len second \<le> length (buf second)"
  using that by (simp add: sb_test_concat_def content_def)

definition no_blank :: "sb_byte \<Rightarrow> bool" where
  "no_blank c \<longleftrightarrow> c \<noteq> 10 \<and> c \<noteq> 13 \<and> c \<noteq> 32"

lemma hex_digits_no_blank:
  "list_all (\<lambda>n. no_blank (hex_digit (drop_bit 4 (of_nat n))) \<and> no_blank (hex_digit (of_nat n AND 15))) [0..<256]"
  by code_simp

text \<open>A line \<open>key = hex\<close> of a response file gives back the bytes that were written to it.\<close>

corollary vector_roundtrip:
  assumes "\<forall>l \<in> set ls. no_value l" "plain k" "61 \<notin> set k" "k \<noteq> []" "hd k \<noteq> 91" "bs \<noteq> []" "length bytes = length bs"
  shows "\<exists>w. sb_test_fetch_next_value junk (concat (map text_line ls) @ text_line (key_value k (hex_bytes bs)) @ h) = Some (True, w, h)
    \<and> sb_test_string_to_bytes w bytes (length bs) = (True, bs)"
proof -
  have "\<forall>c \<in> set (hex_bytes bs). no_blank c"
    using byte_all [OF hex_digits_no_blank] by (auto simp: hex_bytes_def)
  moreover have "hex_bytes bs \<noteq> []" using assms(6) by (cases bs) (simp_all add: hex_bytes_def)
  ultimately have "value_line k (hex_bytes bs)"
    using assms by (cases "hex_bytes bs") (auto simp: value_line_def plain_def no_blank_def)
  from fetch_next_value [OF assms(1) this, of junk h] show ?thesis
    using sb_test_string_to_bytes [OF _ assms(7)] by blast
qed

subsection \<open>The comparison\<close>

lemma xor_zero_iff: "x XOR y = 0 \<longleftrightarrow> x = (y :: 'a :: len word)"
  by (metis xor.assoc xor.right_neutral xor_self_eq xor.left_neutral)

lemma ctc_fold:
  "length a = length b \<Longrightarrow> fold (\<lambda>(x, y) r. r OR (x XOR y)) (zip a b) r = 0 \<longleftrightarrow> r = 0 \<and> a = (b :: sb_byte list)"
  by (induction a b arbitrary: r rule: list_induct2) (auto simp: or_eq_0_iff xor_zero_iff)

lemma ctc_byte: "list_all (\<lambda>n. drop_bit 7 ((of_nat n :: sb_byte) OR - of_nat n) = (if (of_nat n :: sb_byte) = 0 then 0 else 1)) [0..<256]"
  by code_simp

lemma sb_test_ctc:
  assumes "length a = length b"
  shows "sb_test_ctc a b = of_bool (a = b)"
  unfolding sb_test_ctc_def Let_def byte_all [OF ctc_byte] ctc_fold [OF assms] by simp

end
