(* ===== verification/Spec2Isabelle.thy ===== *)
theory Spec2Isabelle
  imports Field_Claims Hash_Claims Curve_Points SW_Claims API_Claims ECDSA_Claims Scalar_Claims Flow_Claims End_To_End Jni
    Square_Tests Key_Tests Cavp_Reader
begin

text \<open>
  A verification library for the C code under \<open>src/app/src/main/cpp\<close>: the embedded elliptic curve library
  Sweet B (ECDSA, Diffie-Hellman and point arithmetic on P-256 and secp256k1, SHA-256, HMAC, HKDF and
  HMAC-DRBG) and the JNI bridge through which the Android application signs with it.

  \<^bold>\<open>The configuration.\<close> 64-bit words (\<open>SB_WORD_SIZE\<close> 8, so \<open>SB_FE_WORDS\<close> is 4), the C routines of \<open>sb_fe.c\<close>, both
  curves, \<open>SB_SW_FIPS186_4_CANDIDATES\<close> 4, \<open>SB_SW_POINT_ITERATIONS\<close> 16, no \<open>SB_TEST\<close>: assertions, poisoning and the
  fields of test builds do nothing. Machine integers are words of their width; error values are the
  code's bit masks; loops over the words of an element are list recursions.

  \<^bold>\<open>The theories\<close>, from the bottom up, with the code they model:

  \<^item> \<open>SB_Prelude\<close>, \<open>SB_Types\<close>: words, byte order, residues; \<open>sb_types.h\<close>, \<open>sb_error.h\<close>. \<open>SB_Fermat\<close>: Fermat's little
    theorem on integers; \<open>fermat_at P a\<close> is Fermat's congruence at one residue.
  \<^item> \<open>FE_Words\<close>, \<open>FE_Mod\<close>, \<open>FE_Mont\<close>: \<open>sb_fe.c\<close>, \<open>sb_fe.h\<close>. \<open>fe_val\<close> is the number an element stands for; a
    quasi-reduced element is between 1 and \<open>p\<close>, and \<open>qrep p x\<close> is the quasi-reduced representative of \<open>x\<close>.
    Every operation is shown to compute exactly this representative of the integer operation, and
    \<open>mval\<close> is the residue that a Montgomery form stands for. The properties are in \<open>Field_Claims\<close>.
  \<^item> \<open>Sha256\<close>, \<open>Sha256_Spec\<close>, \<open>Sha256_Vectors\<close>, \<open>Hmac\<close>, \<open>Hkdf\<close>, \<open>Drbg\<close>: \<open>sb_sha256.c\<close>, \<open>sb_hmac_sha256.c\<close>,
    \<open>sb_hkdf.c\<close>, \<open>sb_hmac_drbg.c\<close>, each against a reference definition of its standard. \<open>Hash_Interface\<close> has
    the contracts \<open>streaming_hash\<close> and \<open>streaming_mac\<close> as locales; the interpretations \<open>sha\<close> and \<open>mac\<close> discharge
    them for the model. The properties are in \<open>Hash_Claims\<close>.
  \<^item> \<open>Curves\<close>, \<open>Curve_Points\<close>: the constants of \<open>sb_sw_curves.h\<close>. \<open>Context\<close>: \<open>sb_sw_context.h\<close>; the saved state lies over
    the temporaries \<open>T5\<close>, \<open>T6\<close> and the operands of signing and verification share their words, as in the C unions.
  \<^item> \<open>Affine\<close>: chords and tangents of affine points without division, the specification of the group operations.
    \<open>Point_Arith\<close>: the co-Z formulas of \<open>sb_sw_lib.c\<close>. \<open>Point_Mult\<close>: the Montgomery ladder and the Shamir
    double multiplication as incremental operations. \<open>Registers\<close>: the type invariant of the ladder.
    \<open>Exceptional\<close>: what the formulas leave after an exceptional addition. \<open>Mult_Add\<close>, \<open>Verify_Mult\<close>: the
    Shamir loop on multiples of a point. \<open>Scalar_Mult\<close>: the ladder on multiples.
  \<^item> \<open>Validation\<close>: validation of scalars and points, decompression, candidate selection, blinded inversion.
    \<open>Sign_Verify\<close>: the stages of signing and verification. \<open>Verification\<close>, \<open>Signing\<close>: the two operations from
    their start to their last call.
  \<^item> \<open>Incremental\<close>: the contract of a \<open>continue\<close> function (locales \<open>incremental\<close> and \<open>incremental_total\<close>) with the
    one-call loop. \<open>SW_Keys\<close>, \<open>SW_Points\<close>, \<open>SW_Signature\<close>: every function of \<open>sb_sw_lib.h\<close>; the interpretations
    \<open>pk\<close>, \<open>ss\<close>, \<open>pm\<close>, \<open>sg\<close>, \<open>vf\<close> discharge the contract for the five operations. \<open>End_To_End\<close>: what the
    one-call signature functions promise for every input. The other properties of this layer are in \<open>SW_Claims\<close>,
    \<open>Scalar_Claims\<close>, \<open>Flow_Claims\<close>, \<open>ECDSA_Claims\<close>, \<open>API_Claims\<close>.
  \<^item> \<open>Jni\<close>: the five native functions of \<open>sweet_b_signer.c\<close>; a write past a stack structure is undefined.
  \<^item> \<open>FE_Tests\<close>, \<open>Square_Tests\<close>: the unit tests of \<open>sb_fe_tests.c.h\<close>, proved to pass; the square root test rests on a table
    of quadratic residues modulo the P-256 prime. \<open>Key_Tests\<close>: the tests of key validation in \<open>sb_sw_lib_tests.c.h\<close>.
    \<open>Cavp_Reader\<close>: the reader of the response files in \<open>sb_test_cavp.c\<close>: it stays inside its buffers, and
    what is written as a line \<open>key = value\<close>, in decimal or in hexadecimal digits, is read back.
  \<^item> \<open>Small_Groups\<close>, \<open>Test_Curve\<close>: the instances on which the properties of whole operations are evaluated, groups of
    seven points given by a table. \<open>Test_Curve\<close> has 256-bit moduli, products of small primes for
    which Fermat's congruence follows from Korselt's criterion, so that the hypotheses can be checked by evaluation.

  \<^bold>\<open>The layers of the curve proofs.\<close> A register of the code holds a Montgomery form; \<open>reg1\<close>, \<open>reg2\<close> read a pair of
  registers as residues, and \<open>jacobian P z a\<close> says that they are the affine point \<open>a\<close> under the coordinate \<open>z\<close>. One
  step of a ladder refines chord constructions on affine points (\<open>ladder_affine\<close>), and a loop their
  sequence. The step to multiples of a point is taken by \<open>multiples P A m M\<close>: \<open>M i\<close> is the \<open>i\<close>-th multiple of
  a point of odd order \<open>m\<close>, and chords and tangents add. This is the group law, which the code relies on and
  which is a hypothesis here, as are Fermat's congruences that primality of the moduli gives; both
  are discharged for the concrete instances. A scalar is exceptional when some prefix makes an addition of the
  ladder a doubling or meet the point at infinity: \<open>ladder_complete\<close> shows that for the real order
  only 1 and \<open>- 1\<close> are. The first exceptional addition is always that of a point and its opposite; the registers then
  hold zeros beside a point of the cuspidal cubic (\<open>dead_ladder\<close>), the recovered coordinate is zero, and the
  output is zero, to which the code adds the input point for the scalars 1 and \<open>- 1\<close>. So \<open>scalar_multiplication\<close> covers
  every reduced scalar, and also the point \<open>(0, y)\<close>, for which the code substitutes its double and half the scalar.
  For the Shamir loop \<open>mult_add_loop_follows\<close> shows the same: after an
  exceptional addition the accumulator is and stays zero, and the last stage rejects. So verification
  accepts exactly when the equation holds and no addition is exceptional.

  \<^bold>\<open>Bounds.\<close> The ladder has 255 iterations in chunks of 16, so a multiplication takes 16 calls and one for the
  output, signing one more for the inversion; verification has 256 iterations, 16 chunks, and a call for
  each of the inversion of \<open>s\<close>, the table and the test: 17, 18 and 19 calls. The one-call
  loop is a partial function (\<open>do_continue\<close>); \<open>one_call_operations_return\<close> shows that it agrees with the same loop
  bounded to these numbers of calls (\<open>continue_within\<close>) on every path, and \<open>continue_call_counts\<close> that
  a successful run makes exactly these calls.

  \<^bold>\<open>Not modelled.\<close> The ARMv7 assembly of the field arithmetic; the other unit tests of
  \<open>sb_sw_lib_tests.c.h\<close> and of the hash functions and the CAVP drivers, which run whole hash functions and scalar
  multiplications on 256-bit curves that the kernel cannot evaluate in reasonable time, and functions of test builds only; \<open>JNI_OnLoad\<close> and the Kotlin application; the constant-time
  discipline, which a functional model does not see. The headers not mapped line by line are declarations and documentation.
  The primality of the four moduli and the associativity of the group law are not proved. The union
  of \<open>param_gen\<close> and \<open>param_use\<close> is modelled with separate fields, since the code never reads one through the other.

  \<^bold>\<open>What is left.\<close> The shared secret and the public key as multiples at the level of the public functions, which would
  need the group law and the order of the two curves themselves.
\<close>

end
